(* ===== verification/Utf8.thy ===== *)
theory Utf8
  imports Prelude
begin

text \<open>
  The part of Python's text codecs the code uses: \<open>str.encode("utf-8")\<close>, strict and with
  \<open>errors="replace"\<close>, \<open>bytes.decode("utf-8")\<close> strict and with \<open>errors="ignore"\<close>, and the
  byte and UTF-16 widths of a code point.  \<open>utf8_step\<close> reads one code point the way the decoder
  does: a code point with its width, the number of bytes of an ill-formed sequence, or the end of
  the data inside a sequence.
\<close>

type_synonym byte = "8 word"
type_synonym bytes = "byte list"

definition is_surrogate :: "nat \<Rightarrow> bool" where
  "is_surrogate c = (0xD800 \<le> c \<and> c < 0xE000)"

definition is_scalar :: "nat \<Rightarrow> bool" where
  "is_scalar c = (c < 0x110000 \<and> \<not> is_surrogate c)"

definition utf8_width :: "nat \<Rightarrow> nat" where
  "utf8_width c = (if c < 0x80 then 1 else if c < 0x800 then 2 else if c < 0x10000 then 3 else 4)"

definition utf16_width :: "nat \<Rightarrow> nat" where
  "utf16_width c = (if c < 0x10000 then 1 else 2)"

definition utf8_char :: "nat \<Rightarrow> nat list" where
  "utf8_char c =
    (if c < 0x80 then [c]
     else if c < 0x800 then [0xC0 + c div 64, 0x80 + c mod 64]
     else if c < 0x10000 then [0xE0 + c div 4096, 0x80 + c div 64 mod 64, 0x80 + c mod 64]
     else [0xF0 + c div 262144, 0x80 + c div 4096 mod 64, 0x80 + c div 64 mod 64, 0x80 + c mod 64])"

text \<open>The encoded bytes of a string of scalar values.\<close>

definition utf8_bytes :: "pystr \<Rightarrow> bytes" where
  "utf8_bytes s = concat (map (\<lambda>c. map word_of_nat (utf8_char c)) s)"

text \<open>\<open>s.encode("utf-8")\<close>: a surrogate raises.\<close>

definition utf8_encode :: "pystr \<Rightarrow> bytes result" where
  "utf8_encode s = (if list_all is_scalar s then Inr (utf8_bytes s)
                    else Inl (UnicodeError ''surrogates not allowed''))"

text \<open>\<open>s.encode("utf-8", "replace")\<close>: a surrogate becomes a question mark.\<close>

definition replaced :: "pystr \<Rightarrow> pystr" where
  "replaced s = map (\<lambda>c. if is_scalar c then c else 63) s"

definition utf8_encode_replace :: "pystr \<Rightarrow> bytes" where
  "utf8_encode_replace s = utf8_bytes (replaced s)"

lemma replaced_scalar [simp]: "list_all is_scalar (replaced s)"
  by (auto simp: replaced_def list_all_iff is_scalar_def is_surrogate_def)

lemma replaced_id: "list_all is_scalar s \<Longrightarrow> replaced s = s"
  by (induction s) (auto simp: replaced_def)

lemma length_replaced [simp]: "length (replaced s) = length s"
  by (simp add: replaced_def)

datatype utf8_result =
    Code nat nat   \<comment> \<open>a code point and its width\<close>
  | Invalid nat    \<comment> \<open>the bytes of an ill-formed sequence\<close>
  | Short          \<comment> \<open>unexpected end of data\<close>

definition is_cont :: "nat \<Rightarrow> bool" where
  "is_cont b = (0x80 \<le> b \<and> b < 0xC0)"

definition second_ok :: "nat \<Rightarrow> nat \<Rightarrow> bool" where
  "second_ok b1 b2 = (is_cont b2 \<and> (b1 = 0xE0 \<longrightarrow> 0xA0 \<le> b2) \<and> (b1 = 0xED \<longrightarrow> b2 < 0xA0)
     \<and> (b1 = 0xF0 \<longrightarrow> 0x90 \<le> b2) \<and> (b1 = 0xF4 \<longrightarrow> b2 < 0x90))"

definition seq_len :: "nat \<Rightarrow> nat" where
  "seq_len b = (if b < 0x80 then 1 else if b < 0xC2 then 0 else if b < 0xE0 then 2
                else if b < 0xF0 then 3 else if b < 0xF5 then 4 else 0)"

text \<open>One step of the decoder on a non-empty input of byte values.\<close>

fun utf8_step :: "nat list \<Rightarrow> utf8_result" where
  "utf8_step [] = Short"
| "utf8_step (b1 # bs) =
    (let n = seq_len b1 in
     if n = 0 then Invalid 1
     else if n = 1 then Code b1 1
     else case bs of
         [] \<Rightarrow> Short
       | b2 # bs' \<Rightarrow>
         if \<not> second_ok b1 b2 then Invalid 1
         else if n = 2 then Code ((b1 - 0xC0) * 64 + (b2 - 0x80)) 2
         else case bs' of
             [] \<Rightarrow> Short
           | b3 # bs'' \<Rightarrow>
             if \<not> is_cont b3 then Invalid 2
             else if n = 3 then
               Code ((b1 - 0xE0) * 4096 + (b2 - 0x80) * 64 + (b3 - 0x80)) 3
             else case bs'' of
                 [] \<Rightarrow> Short
               | b4 # _ \<Rightarrow>
                 if \<not> is_cont b4 then Invalid 3
                 else Code ((b1 - 0xF0) * 262144 + (b2 - 0x80) * 4096
                            + (b3 - 0x80) * 64 + (b4 - 0x80)) 4)"

text \<open>\<open>b.decode("utf-8", "ignore")\<close>: ill-formed sequences are skipped.\<close>

function decode_ignore_nat :: "nat list \<Rightarrow> pystr" where
  "decode_ignore_nat bs =
    (if bs = [] then []
     else case utf8_step bs of
         Code c n \<Rightarrow> c # decode_ignore_nat (drop (max 1 n) bs)
       | Invalid n \<Rightarrow> decode_ignore_nat (drop (max 1 n) bs)
       | Short \<Rightarrow> [])"
  by pat_completeness auto
termination
  by (relation "measure length") (auto simp: not_le)

declare decode_ignore_nat.simps [simp del]

text \<open>\<open>b.decode("utf-8", "replace")\<close>: each ill-formed sequence becomes U+FFFD.\<close>

function decode_replace_nat :: "nat list \<Rightarrow> pystr" where
  "decode_replace_nat bs =
    (if bs = [] then []
     else case utf8_step bs of
         Code c n \<Rightarrow> c # decode_replace_nat (drop (max 1 n) bs)
       | Invalid n \<Rightarrow> 0xFFFD # decode_replace_nat (drop (max 1 n) bs)
       | Short \<Rightarrow> [0xFFFD])"
  by pat_completeness auto
termination
  by (relation "measure length") (auto simp: not_le)

declare decode_replace_nat.simps [simp del]

definition utf8_decode_replace :: "bytes \<Rightarrow> pystr" where
  "utf8_decode_replace bs = decode_replace_nat (map unat bs)"

text \<open>\<open>b.decode("utf-8")\<close>: the first ill-formed or truncated sequence raises.\<close>

datatype decode_error = BadSequence nat | UnexpectedEnd nat

function decode_strict_nat :: "nat \<Rightarrow> nat list \<Rightarrow> decode_error + pystr" where
  "decode_strict_nat pos bs =
    (if bs = [] then Inr []
     else case utf8_step bs of
         Code c n \<Rightarrow> rbind (decode_strict_nat (pos + max 1 n) (drop (max 1 n) bs)) (\<lambda>s. Inr (c # s))
       | Invalid n \<Rightarrow> Inl (BadSequence pos)
       | Short \<Rightarrow> Inl (UnexpectedEnd pos))"
  by pat_completeness auto
termination
  by (relation "measure (\<lambda>(pos, bs). length bs)") (auto simp: not_le)

declare decode_strict_nat.simps [simp del]

definition utf8_decode_ignore :: "bytes \<Rightarrow> pystr" where
  "utf8_decode_ignore bs = decode_ignore_nat (map unat bs)"

definition utf8_decode :: "bytes \<Rightarrow> decode_error + pystr" where
  "utf8_decode bs = decode_strict_nat 0 (map unat bs)"

section \<open>Widths\<close>

lemma length_utf8_char: "length (utf8_char c) = utf8_width c"
  by (simp add: utf8_char_def utf8_width_def)

lemma utf8_width_pos: "0 < utf8_width c"
  by (simp add: utf8_width_def)

lemma utf8_width_le: "utf8_width c \<le> 4"
  by (simp add: utf8_width_def)

lemma utf8_char_bound: "c < 0x110000 \<Longrightarrow> b \<in> set (utf8_char c) \<Longrightarrow> b < 256"
  by (auto simp: utf8_char_def split: if_splits)

lemma utf8_bytes_Nil [simp]: "utf8_bytes [] = []"
  by (simp add: utf8_bytes_def)

lemma utf8_bytes_Cons [simp]: "utf8_bytes (c # s) = map word_of_nat (utf8_char c) @ utf8_bytes s"
  by (simp add: utf8_bytes_def)

lemma utf8_bytes_append [simp]: "utf8_bytes (s @ t) = utf8_bytes s @ utf8_bytes t"
  by (simp add: utf8_bytes_def)

lemma length_utf8_bytes: "length (utf8_bytes s) = sum_list (map utf8_width s)"
  by (induction s) (simp_all add: length_utf8_char)

lemma utf8_char_nonempty [simp]: "utf8_char c \<noteq> []"
  by (simp add: utf8_char_def)

lemma utf8_bytes_eq_Nil [simp]: "utf8_bytes s = [] \<longleftrightarrow> s = []"
  by (cases s) simp_all

lemma unat_utf8_char:
  assumes "c < 0x110000"
  shows "map unat (map word_of_nat (utf8_char c) :: bytes) = utf8_char c"
proof -
  have "unat (word_of_nat b :: byte) = b" if "b \<in> set (utf8_char c)" for b
    using utf8_char_bound [OF assms that] by (simp add: unat_of_nat)
  then show ?thesis by (simp add: map_idI)
qed

section \<open>Decoding an encoded string\<close>

text \<open>
  The six-bit digits \<open>a\<close>, \<open>f\<close>, \<open>e\<close>, \<open>d\<close> of a code point, the partial sums \<open>x\<close> and
  \<open>y\<close> kept as variables so that the arithmetic stays linear.
\<close>

lemma div_mod_digit:
  assumes "(c::nat) = x * 64 + d" and "d < 64"
  shows "c div 64 = x" and "c mod 64 = d"
  using assms by simp_all

lemma div_4096: "(c::nat) div 4096 = c div 64 div 64"
  by (simp flip: div_mult2_eq)

lemma div_262144: "(c::nat) div 262144 = c div 64 div 64 div 64"
  by (simp flip: div_mult2_eq)

lemma utf8_char_1: "c < 128 \<Longrightarrow> utf8_char c = [c]"
  by (simp add: utf8_char_def)

lemma utf8_char_2:
  assumes "c = x * 64 + d" and "d < 64" and "2 \<le> x" and "x < 32"
  shows "utf8_char c = [0xC0 + x, 0x80 + d]"
  using assms div_mod_digit [OF assms(1,2)] by (simp add: utf8_char_def)

lemma utf8_char_3:
  assumes "c = x * 64 + d" and "d < 64" and "x = a * 64 + e" and "e < 64"
    and "32 \<le> x" and "a < 16"
  shows "utf8_char c = [0xE0 + a, 0x80 + e, 0x80 + d]"
proof -
  have "x < 1024" using assms by linarith
  then have "\<not> c < 0x800" "c < 0x10000" using assms(1,2,5) by linarith+
  then show ?thesis
    using div_mod_digit [OF assms(1,2)] div_mod_digit [OF assms(3,4)]
    by (simp add: utf8_char_def div_4096)
qed

lemma utf8_char_4:
  assumes "c = x * 64 + d" and "d < 64" and "x = y * 64 + e" and "e < 64"
    and "y = a * 64 + f" and "f < 64" and "16 \<le> y"
  shows "utf8_char c = [0xF0 + a, 0x80 + f, 0x80 + e, 0x80 + d]"
proof -
  have "1024 \<le> x" using assms by linarith
  then have "\<not> c < 0x10000" using assms(1,2) by linarith
  then show ?thesis
    using div_mod_digit [OF assms(1,2)] div_mod_digit [OF assms(3,4)] div_mod_digit [OF assms(5,6)]
    by (simp add: utf8_char_def div_4096 div_262144)
qed

lemma utf8_step_1: "b < 128 \<Longrightarrow> utf8_step (b # bs) = Code b 1"
  by (simp add: seq_len_def)

lemma utf8_step_2:
  assumes "2 \<le> x" and "x < 32" and "d < 64"
  shows "utf8_step ((0xC0 + x) # (0x80 + d) # bs) = Code (x * 64 + d) 2"
  using assms by (simp add: seq_len_def second_ok_def is_cont_def)

lemma second_ok_3: "a < 16 \<Longrightarrow> e < 64 \<Longrightarrow> 32 \<le> a * 64 + e \<Longrightarrow> (a = 13 \<longrightarrow> e < 32) \<Longrightarrow>
  second_ok (0xE0 + a) (0x80 + e)"
  by (cases "a = 0") (auto simp: second_ok_def is_cont_def)

lemma second_ok_4: "a < 5 \<Longrightarrow> f < 64 \<Longrightarrow> 16 \<le> a * 64 + f \<Longrightarrow> (a = 4 \<longrightarrow> f < 16) \<Longrightarrow>
  second_ok (0xF0 + a) (0x80 + f)"
  by (cases "a = 0") (auto simp: second_ok_def is_cont_def)

lemma seq_len_3: "a < 16 \<Longrightarrow> seq_len (0xE0 + a) = 3"
  by (simp add: seq_len_def)

lemma seq_len_4: "a < 5 \<Longrightarrow> seq_len (0xF0 + a) = 4"
  by (simp add: seq_len_def)

lemma is_cont_digit: "d < 64 \<Longrightarrow> is_cont (0x80 + d)"
  by (simp add: is_cont_def)

lemma utf8_step_3:
  assumes "second_ok (0xE0 + a) (0x80 + e)" and "a < 16" and "d < 64"
    and "c = x * 64 + d" and "x = a * 64 + e"
  shows "utf8_step ((0xE0 + a) # (0x80 + e) # (0x80 + d) # bs) = Code c 3"
  using assms by (simp add: seq_len_3 is_cont_digit)

lemma utf8_step_4:
  assumes "second_ok (0xF0 + a) (0x80 + f)" and "a < 5" and "e < 64" and "d < 64"
    and "c = x * 64 + d" and "x = y * 64 + e" and "y = a * 64 + f"
  shows "utf8_step ((0xF0 + a) # (0x80 + f) # (0x80 + e) # (0x80 + d) # bs) = Code c 4"
  using assms by (simp add: seq_len_4 is_cont_digit)

text \<open>The digits of a scalar value, by its width.\<close>

lemma scalar_cases:
  assumes "is_scalar c"
  obtains (1) "c < 128" "utf8_width c = 1"
    | (2) x d where "c = x * 64 + d" "d < 64" "2 \<le> x" "x < 32" "utf8_width c = 2"
    | (3) x a e d where "c = x * 64 + d" "d < 64" "x = a * 64 + e" "e < 64" "32 \<le> x" "a < 16"
        "second_ok (0xE0 + a) (0x80 + e)" "utf8_width c = 3"
    | (4) x y a f e d where "c = x * 64 + d" "d < 64" "x = y * 64 + e" "e < 64" "y = a * 64 + f"
        "f < 64" "16 \<le> y" "a < 5" "second_ok (0xF0 + a) (0x80 + f)" "utf8_width c = 4"
proof -
  have c: "c < 0x110000" "c < 0xD800 \<or> 0xE000 \<le> c"
    using assms by (auto simp: is_scalar_def is_surrogate_def)
  define x d where "x = c div 64" and "d = c mod 64"
  define y e where "y = x div 64" and "e = x mod 64"
  define a f where "a = y div 64" and "f = y mod 64"
  have less: "d < 64" "e < 64" "f < 64" by (simp_all add: d_def e_def f_def)
  have eqs: "c = x * 64 + d" "x = y * 64 + e" "y = a * 64 + f"
    by (simp_all add: x_def d_def y_def e_def a_def f_def)
  consider "c < 0x80" | "0x80 \<le> c" "c < 0x800" | "0x800 \<le> c" "c < 0x10000" | "0x10000 \<le> c"
    by linarith
  then show thesis
  proof cases
    case 1
    then show thesis using that(1) by (simp add: utf8_width_def)
  next
    case 2
    then have "2 \<le> x" "x < 32" using eqs(1) less by linarith+
    then show thesis using that(2) [of x d] eqs(1) less 2 by (simp add: utf8_width_def)
  next
    case 3
    then have x: "32 \<le> x" "x < 1024" using eqs(1) less by linarith+
    then have "y < 16" using eqs(2) by linarith
    moreover have "y = 13 \<Longrightarrow> e < 32" using c(2) eqs(1,2) less by linarith
    moreover have "32 \<le> y * 64 + e" using x eqs(2) by linarith
    ultimately have "second_ok (0xE0 + y) (0x80 + e)" using less by (intro second_ok_3) auto
    then show thesis using that(3) [of x d y e] eqs(1,2) less x \<open>y < 16\<close> 3
      by (simp add: utf8_width_def)
  next
    case 4
    then have "1024 \<le> x" using eqs(1) less by linarith
    then have y: "16 \<le> y" using eqs(2) less by linarith
    have "x < 0x4400" using c(1) eqs(1) by linarith
    then have "y < 0x110" using eqs(2) by linarith
    then have "a < 5" "a = 4 \<longrightarrow> f < 16" using eqs(3) by linarith+
    moreover have "16 \<le> a * 64 + f" using y eqs(3) by linarith
    ultimately have "second_ok (0xF0 + a) (0x80 + f)" using less by (intro second_ok_4) auto
    then show thesis using that(4) [of x d y e a f] eqs less y \<open>a < 5\<close> 4
      by (simp add: utf8_width_def)
  qed
qed

declare utf8_step.simps [simp del]

lemma utf8_step_char:
  assumes "is_scalar c"
  shows "utf8_step (utf8_char c @ bs) = Code c (utf8_width c)"
  using assms
proof (cases rule: scalar_cases)
  case 1
  then show ?thesis by (simp add: utf8_char_1 utf8_step_1)
next
  case (2 x d)
  then show ?thesis using utf8_char_2 [of c x d] utf8_step_2 [of x d bs] by simp
next
  case (3 x a e d)
  then show ?thesis using utf8_char_3 [of c x d a e] utf8_step_3 [of a e d c x bs] by simp
next
  case (4 x y a f e d)
  then show ?thesis
    using utf8_char_4 [of c x d y e a f] utf8_step_4 [of a f e d c x y bs] by simp
qed

text \<open>A proper, non-empty prefix of one encoded code point is a truncated sequence.\<close>

lemma utf8_step_partial:
  assumes "is_scalar c" and "0 < k" and "k < utf8_width c"
  shows "utf8_step (take k (utf8_char c)) = Short"
  using assms(1)
proof (cases rule: scalar_cases)
  case 1
  then show ?thesis using assms by simp
next
  case (2 x d)
  then have "k = 1" using assms by simp
  with 2 utf8_char_2 [of c x d] show ?thesis by (simp add: utf8_step.simps seq_len_def)
next
  case (3 x a e d)
  then have "k = 1 \<or> k = 2" using assms by auto
  moreover have "utf8_char c = [0xE0 + a, 0x80 + e, 0x80 + d]"
    using 3 utf8_char_3 [of c x d a e] by simp
  ultimately show ?thesis using 3 by (auto simp: utf8_step.simps seq_len_3)
next
  case (4 x y a f e d)
  then have "k = 1 \<or> k = 2 \<or> k = 3" using assms by auto
  moreover have "utf8_char c = [0xF0 + a, 0x80 + f, 0x80 + e, 0x80 + d]"
    using 4 utf8_char_4 [of c x d y e a f] by simp
  ultimately show ?thesis using 4
    by (auto simp: utf8_step.simps seq_len_4 is_cont_digit)
qed

section \<open>Prefixes of an encoded string\<close>

text \<open>
  \<open>fit s n\<close>: the longest prefix of \<open>s\<close> that takes at most \<open>n\<close> bytes.
\<close>

fun fit :: "pystr \<Rightarrow> nat \<Rightarrow> pystr" where
  "fit [] n = []"
| "fit (c # s) n = (if utf8_width c \<le> n then c # fit s (n - utf8_width c) else [])"

lemma decode_ignore_char:
  assumes "is_scalar c"
  shows "decode_ignore_nat (utf8_char c @ bs) = c # decode_ignore_nat bs"
  using assms utf8_width_pos [of c] length_utf8_char [of c]
  by (subst decode_ignore_nat.simps) (simp add: utf8_step_char max_def)

lemma decode_ignore_Nil [simp]: "decode_ignore_nat [] = []"
  by (simp add: decode_ignore_nat.simps)

lemma decode_ignore_take:
  assumes "list_all is_scalar s"
  shows "decode_ignore_nat (take n (concat (map utf8_char s))) = fit s n"
  using assms
proof (induction s arbitrary: n)
  case Nil
  then show ?case by simp
next
  case (Cons c s)
  then have c: "is_scalar c" and s: "list_all is_scalar s" by simp_all
  show ?case
  proof (cases "utf8_width c \<le> n")
    case True
    then show ?thesis
      using Cons.IH [OF s] decode_ignore_char [OF c]
      by (simp add: take_all length_utf8_char)
  next
    case False
    show ?thesis
    proof (cases "n = 0")
      case True
      then show ?thesis using False by simp
    next
      case n: False
      have "utf8_step (take n (utf8_char c)) = Short"
        using c n False by (intro utf8_step_partial) auto
      then show ?thesis using False n
        by (simp add: length_utf8_char decode_ignore_nat.simps [of "take n (utf8_char c)"])
    qed
  qed
qed

lemma unat_utf8_bytes:
  assumes "list_all is_scalar s"
  shows "map unat (utf8_bytes s) = concat (map utf8_char s)"
  using assms
proof (induction s)
  case Nil
  then show ?case by simp
next
  case (Cons c s)
  then have "c < 0x110000" by (simp add: is_scalar_def)
  then have "map (unat \<circ> (word_of_nat :: nat \<Rightarrow> byte)) (utf8_char c) = utf8_char c"
    using unat_utf8_char by simp
  with Cons show ?case by simp
qed

text \<open>\<open>raw[:n].decode("utf-8", "ignore")\<close> of encoded text is its longest fitting prefix.\<close>

lemma utf8_decode_ignore_take:
  assumes "list_all is_scalar s"
  shows "utf8_decode_ignore (take n (utf8_bytes s)) = fit s n"
  using assms by (simp add: utf8_decode_ignore_def take_map unat_utf8_bytes decode_ignore_take
      flip: take_map)

lemma fit_all: "sum_list (map utf8_width s) \<le> n \<Longrightarrow> fit s n = s"
  by (induction s arbitrary: n) auto

lemma utf8_decode_ignore_bytes:
  assumes "list_all is_scalar s"
  shows "utf8_decode_ignore (utf8_bytes s) = s"
  using utf8_decode_ignore_take [OF assms, of "length (utf8_bytes s)"]
  by (simp add: length_utf8_bytes fit_all)

lemma fit_prefix: "\<exists>t. s = fit s n @ t"
  by (induction s arbitrary: n) auto

lemma fit_eq_take: "fit s n = take (length (fit s n)) s"
  by (metis append_eq_conv_conj fit_prefix)

lemma fit_size: "length (utf8_bytes (fit s n)) \<le> n"
proof (induction s arbitrary: n)
  case Nil
  then show ?case by simp
next
  case (Cons c s)
  from Cons.IH [of "n - utf8_width c"] show ?case by (auto simp: length_utf8_char)
qed

lemma fit_scalar: "list_all is_scalar s \<Longrightarrow> list_all is_scalar (fit s n)"
  by (induction s arbitrary: n) auto

text \<open>No longer prefix fits.\<close>

lemma fit_maximal:
  assumes "length (utf8_bytes (take k s)) \<le> n"
  shows "k \<le> length (fit s n) \<or> length s \<le> length (fit s n)"
  using assms
proof (induction s arbitrary: n k)
  case Nil
  then show ?case by simp
next
  case (Cons c s)
  show ?case
  proof (cases k)
    case 0
    then show ?thesis by simp
  next
    case (Suc k')
    then have "utf8_width c + length (utf8_bytes (take k' s)) \<le> n"
      using Cons.prems by (simp add: length_utf8_char)
    then show ?thesis using Cons.IH [of k' "n - utf8_width c"] Suc by auto
  qed
qed

lemma fit_nonempty: "s \<noteq> [] \<Longrightarrow> utf8_width (hd s) \<le> n \<Longrightarrow> fit s n \<noteq> []"
  by (cases s) auto

section \<open>Strict decoding\<close>

lemma decode_strict_Nil [simp]: "decode_strict_nat p [] = Inr []"
  by (simp add: decode_strict_nat.simps)

lemma decode_strict_char:
  assumes "is_scalar c"
  shows "decode_strict_nat p (utf8_char c @ bs)
    = rbind (decode_strict_nat (p + utf8_width c) bs) (\<lambda>s. Inr (c # s))"
  using assms utf8_width_pos [of c] length_utf8_char [of c]
  by (subst decode_strict_nat.simps) (simp add: utf8_step_char max_def)

lemma decode_strict_take:
  assumes "list_all is_scalar s"
  shows "decode_strict_nat p (take n (concat (map utf8_char s)))
    = (if length (utf8_bytes (fit s n)) = min n (length (utf8_bytes s)) then Inr (fit s n)
       else Inl (UnexpectedEnd (p + length (utf8_bytes (fit s n)))))"
  using assms
proof (induction s arbitrary: n p)
  case Nil
  then show ?case by simp
next
  case (Cons c s)
  then have c: "is_scalar c" and s: "list_all is_scalar s" by simp_all
  show ?case
  proof (cases "utf8_width c \<le> n")
    case True
    then show ?thesis
      using Cons.IH [OF s, of "p + utf8_width c" "n - utf8_width c"] decode_strict_char [OF c]
      by (auto simp: take_all length_utf8_char min_def split: if_splits)
  next
    case False
    show ?thesis
    proof (cases "n = 0")
      case True
      then show ?thesis using False by simp
    next
      case n: False
      have "utf8_step (take n (utf8_char c)) = Short"
        using c n False by (intro utf8_step_partial) auto
      then show ?thesis using False n
        by (simp add: length_utf8_char decode_strict_nat.simps [of p "take n (utf8_char c)"])
    qed
  qed
qed

text \<open>A cut of encoded text decodes exactly when it falls between two code points.\<close>

lemma utf8_decode_take:
  assumes "list_all is_scalar s"
  shows "utf8_decode (take n (utf8_bytes s))
    = (if length (utf8_bytes (fit s n)) = min n (length (utf8_bytes s)) then Inr (fit s n)
       else Inl (UnexpectedEnd (length (utf8_bytes (fit s n)))))"
  using decode_strict_take [OF assms, of 0 n] assms
  by (simp add: utf8_decode_def take_map unat_utf8_bytes flip: take_map)

lemma utf8_decode_bytes:
  assumes "list_all is_scalar s"
  shows "utf8_decode (utf8_bytes s) = Inr s"
  using utf8_decode_take [OF assms, of "length (utf8_bytes s)"]
  by (simp add: length_utf8_bytes fit_all)

end
