(* ===== verification/Output_Buffer.thy ===== *)
theory Output_Buffer
  imports Utf8
begin

text \<open>
  The bounded output buffer of a task (\<open>OutputBuffer\<close> in kernel_api.py) and the byte-addressed
  paging of its text (\<open>TaskHandle._page_text\<close>).  A buffer keeps one text, the label of the stream
  each code point came from, and one text per stream; \<open>ob_write\<close> appends the longest prefix of the
  written value that fits the byte limit.  The \<open>asyncio.Event\<close> \<open>changed\<close> is its flag.
\<close>

section \<open>State and operations\<close>

datatype stream = Stdout | Stderr

record output_buffer =
  ob_limit :: int
  ob_text :: pystr
  ob_size :: int
  ob_truncated :: bool
  ob_changed :: bool
  ob_streams :: "stream \<Rightarrow> pystr option"
  ob_stream_truncated :: "stream \<Rightarrow> bool option"
  ob_labels :: "nat list"

definition ob_init :: "int \<Rightarrow> output_buffer" where
  "ob_init limit = \<lparr>ob_limit = limit, ob_text = [], ob_size = 0, ob_truncated = False,
     ob_changed = False, ob_streams = (\<lambda>_. None), ob_stream_truncated = (\<lambda>_. None),
     ob_labels = []\<rparr>"

definition stream_of :: "pystr option \<Rightarrow> stream" where
  "stream_of s = (if s = Some (lit ''stderr'') then Stderr else Stdout)"

definition label_of :: "stream \<Rightarrow> nat" where
  "label_of s = (if s = Stderr then 1 else 0)"

text \<open>\<open>self._streams.setdefault(stream, io.StringIO())\<close>.\<close>

definition stream_text :: "output_buffer \<Rightarrow> stream \<Rightarrow> pystr" where
  "stream_text b s = (case ob_streams b s of None \<Rightarrow> [] | Some t \<Rightarrow> t)"

text \<open>
  \<open>write\<close>: the new buffer and the returned length.  The strict decode of the whole encoded val
  is the one call that could raise.
\<close>

definition ob_write :: "output_buffer \<Rightarrow> pystr \<Rightarrow> pystr option \<Rightarrow> (output_buffer \<times> nat) result" where
  "ob_write b val stream =
    (let s = stream_of stream in
     if val = [] then Inr (b, 0)
     else let remaining = ob_limit b - ob_size b in
     if remaining \<le> 0 then
       Inr (b\<lparr>ob_truncated := True,
              ob_stream_truncated := (ob_stream_truncated b)(s := Some True),
              ob_changed := True\<rparr>, length val)
     else let raw = utf8_encode_replace val;
              kept = utf8_decode_ignore (take (nat remaining) raw);
              over = (int (length raw) > remaining) in
     rbind (if over then
              Inr (b\<lparr>ob_text := ob_text b @ kept,
                     ob_size := ob_size b + int (length (utf8_bytes kept)),
                     ob_truncated := True\<rparr>)
            else (case utf8_decode raw of
                Inl _ \<Rightarrow> Inl (UnicodeError ''decode'')
              | Inr t \<Rightarrow> Inr (b\<lparr>ob_text := ob_text b @ t,
                               ob_size := ob_size b + int (length raw)\<rparr>)))
       (\<lambda>b1. Inr (b1\<lparr>ob_labels := ob_labels b1 @ replicate (length kept) (label_of s),
                     ob_streams := (ob_streams b1)(s := Some (stream_text b1 s @ kept)),
                     ob_stream_truncated :=
                       (if over then (ob_stream_truncated b1)(s := Some True)
                        else ob_stream_truncated b1),
                     ob_changed := True\<rparr>, length val)))"

text \<open>\<open>get\<close>: reading a stream creates it.\<close>

definition ob_get :: "output_buffer \<Rightarrow> pystr option \<Rightarrow> pystr \<times> output_buffer" where
  "ob_get b stream =
    (if stream = Some (lit ''stdout'') \<or> stream = Some (lit ''stderr'') then
       (let s = stream_of stream in
        (stream_text b s, b\<lparr>ob_streams := (ob_streams b)(s := Some (stream_text b s))\<rparr>))
     else (ob_text b, b))"

text \<open>\<open>OutputBufferView.truncated\<close>.\<close>

definition view_truncated :: "output_buffer \<Rightarrow> stream \<Rightarrow> bool" where
  "view_truncated b s = (case ob_stream_truncated b s of None \<Rightarrow> False | Some t \<Rightarrow> t)"

text \<open>
  \<open>segments\<close>: runs of equal labels.  \<open>run_end\<close> is the inner loop; reading a label past the end
  of the label array raises.
\<close>

function run_end :: "nat list \<Rightarrow> nat \<Rightarrow> nat \<Rightarrow> nat \<Rightarrow> nat result" where
  "run_end labels label e p =
    (if p < e then
       (if p < length labels then
          (if labels ! p = label then run_end labels label e (Suc p) else Inr p)
        else Inl (KeyError ''bytearray index out of range''))
     else Inr p)"
  by pat_completeness auto
termination
  by (relation "measure (\<lambda>(labels, label, e, p). e - p)") auto

declare run_end.simps [simp del]

lemma run_end_ge: "run_end labels label e p = Inr q \<Longrightarrow> p \<le> q"
proof (induction labels label e p rule: run_end.induct)
  case (1 labels label e p)
  then show ?case
    by (subst (asm) (2) run_end.simps) (auto split: if_splits)
qed

definition segment_stream :: "nat \<Rightarrow> stream" where
  "segment_stream label = (if label = 1 then Stderr else Stdout)"

function segments_from ::
  "pystr \<Rightarrow> nat list \<Rightarrow> nat \<Rightarrow> nat \<Rightarrow> (stream \<times> pystr) list result" where
  "segments_from tx labels e cursor =
    (if cursor < e then
       (let label = (if cursor < length labels then labels ! cursor else 0) in
        case run_end labels label e (Suc cursor) of
          Inl x \<Rightarrow> Inl x
        | Inr p \<Rightarrow> rbind (segments_from tx labels e p)
            (\<lambda>rest. Inr ((segment_stream label, take (p - cursor) (drop cursor tx)) # rest)))
     else Inr [])"
  by pat_completeness auto
termination
  by (relation "measure (\<lambda>(tx, labels, e, cursor). e - cursor)")
    (auto dest!: run_end_ge)

declare segments_from.simps [simp del]

definition ob_segments :: "output_buffer \<Rightarrow> int \<Rightarrow> int \<Rightarrow> (stream \<times> pystr) list result" where
  "ob_segments b cursor limit =
    (let tx = ob_text b; e = min (int (length tx)) (cursor + limit) in
     if cursor < 0 \<or> cursor > int (length tx) then Inl (ValueError ''invalid output cursor'')
     else segments_from tx (ob_labels b) (nat e) (nat cursor))"

text \<open>\<open>TaskHandle._page_text\<close>: a page of UTF-8 tx at a byte offset.\<close>

definition page_text :: "pystr \<Rightarrow> nat \<Rightarrow> nat \<Rightarrow> (pystr \<times> nat) result" where
  "page_text tx offset max_bytes =
    rbind (utf8_encode tx) (\<lambda>raw.
      if offset > length raw then Inl (ValueError ''invalid output cursor'')
      else case utf8_decode (take offset raw) of
          Inl _ \<Rightarrow> Inl (ValueError ''invalid output cursor'')
        | Inr _ \<Rightarrow>
          if max_bytes = 0 then Inr ([], offset)
          else let page = take max_bytes (drop offset raw); val = utf8_decode_ignore page in
            if val = [] \<and> page \<noteq> [] then
              Inl (ValueError ''max_bytes is too small for the next UTF-8 character'')
            else rbind (utf8_encode val) (\<lambda>consumed. Inr (val, offset + length consumed)))"

section \<open>The buffer invariant\<close>

text \<open>The code points of the text that carry a label, in order.\<close>

definition labelled :: "pystr \<Rightarrow> nat list \<Rightarrow> nat \<Rightarrow> pystr" where
  "labelled tx labels l = map fst (filter (\<lambda>(c, k). k = l) (zip tx labels))"

definition ob_inv :: "output_buffer \<Rightarrow> bool" where
  "ob_inv b \<longleftrightarrow>
     list_all is_scalar (ob_text b)
   \<and> ob_size b = int (length (utf8_bytes (ob_text b)))
   \<and> length (ob_labels b) = length (ob_text b)
   \<and> ob_size b \<le> max 0 (ob_limit b)
   \<and> set (ob_labels b) \<subseteq> {0, 1}
   \<and> (\<forall>s. stream_text b s = labelled (ob_text b) (ob_labels b) (label_of s))"

lemma labelled_append:
  "length tx = length labels \<Longrightarrow>
   labelled (tx @ t) (labels @ ls) l = labelled tx labels l @ labelled t ls l"
  by (simp add: labelled_def)

lemma labelled_replicate:
  "labelled t (replicate (length t) k) l = (if k = l then t else [])"
  by (induction t) (auto simp: labelled_def)

lemma label_of_eq [simp]: "label_of s = label_of s' \<longleftrightarrow> s = s'"
  by (cases s; cases s') (auto simp: label_of_def)

text \<open>The text that a write really keeps.\<close>

definition ob_kept :: "output_buffer \<Rightarrow> pystr \<Rightarrow> pystr" where
  "ob_kept b val = fit (replaced val) (nat (ob_limit b - ob_size b))"

definition ob_over :: "output_buffer \<Rightarrow> pystr \<Rightarrow> bool" where
  "ob_over b val = (int (length (utf8_encode_replace val)) > ob_limit b - ob_size b)"

lemma encode_replace_kept:
  "utf8_decode_ignore (take n (utf8_encode_replace val)) = fit (replaced val) n"
  by (simp add: utf8_encode_replace_def utf8_decode_ignore_take)

lemma ob_kept_all: "\<not> ob_over b val \<Longrightarrow> ob_kept b val = replaced val"
  by (simp add: ob_kept_def ob_over_def utf8_encode_replace_def fit_all length_utf8_bytes)

text \<open>The whole effect of a write in one equation, on every branch: it never raises.\<close>

definition ob_written :: "output_buffer \<Rightarrow> pystr \<Rightarrow> stream \<Rightarrow> output_buffer" where
  "ob_written b val s =
    (let kept = ob_kept b val; over = ob_over b val in
     if ob_limit b - ob_size b \<le> 0 then
       b\<lparr>ob_truncated := True, ob_stream_truncated := (ob_stream_truncated b)(s := Some True),
         ob_changed := True\<rparr>
     else b\<lparr>ob_text := ob_text b @ kept,
            ob_size := ob_size b + int (length (utf8_bytes kept)),
            ob_truncated := ob_truncated b \<or> over,
            ob_changed := True,
            ob_labels := ob_labels b @ replicate (length kept) (label_of s),
            ob_streams := (ob_streams b)(s := Some (stream_text b s @ kept)),
            ob_stream_truncated := (if over then (ob_stream_truncated b)(s := Some True)
                                    else ob_stream_truncated b)\<rparr>)"

lemma ob_write_eq:
  "ob_write b val stream =
    Inr (if val = [] then b else ob_written b val (stream_of stream), length val)"
proof (cases "val = [] \<or> ob_limit b - ob_size b \<le> 0 \<or> ob_over b val")
  case True
  then show ?thesis
    by (auto simp: ob_write_def ob_written_def Let_def encode_replace_kept ob_kept_def ob_over_def
        stream_text_def)
next
  case False
  have "utf8_decode (utf8_encode_replace val) = Inr (replaced val)"
    by (simp add: utf8_encode_replace_def utf8_decode_bytes)
  moreover have "utf8_decode_ignore (take n (utf8_encode_replace val)) = replaced val"
    if "n = nat (ob_limit b - ob_size b)" for n
    using ob_kept_all [of b val] False that
    by (simp add: encode_replace_kept ob_kept_def)
  moreover have "length (utf8_encode_replace val) = length (utf8_bytes (replaced val))"
    by (simp add: utf8_encode_replace_def)
  moreover have "\<not> int (length (utf8_encode_replace val)) > ob_limit b - ob_size b"
    using False by (simp add: ob_over_def)
  ultimately show ?thesis using False ob_kept_all [of b val]
    by (simp add: ob_write_def ob_written_def Let_def stream_text_def)
qed

lemma ob_kept_size:
  "0 < ob_limit b - ob_size b \<Longrightarrow>
   int (length (utf8_bytes (ob_kept b val))) \<le> ob_limit b - ob_size b"
  using fit_size [of "replaced val" "nat (ob_limit b - ob_size b)"] by (simp add: ob_kept_def)

lemma ob_kept_scalar: "list_all is_scalar (ob_kept b val)"
  by (simp add: ob_kept_def fit_scalar)

lemma ob_inv_init: "ob_inv (ob_init limit)"
  by (simp add: ob_inv_def ob_init_def labelled_def stream_text_def)

lemma ob_inv_written:
  assumes inv: "ob_inv b"
  shows "ob_inv (ob_written b val s)"
proof (cases "ob_limit b - ob_size b \<le> 0")
  case True
  then show ?thesis using inv by (simp add: ob_written_def ob_inv_def stream_text_def)
next
  case False
  let ?k = "ob_kept b val" and ?b = "ob_written b val s"
  have fields: "ob_text ?b = ob_text b @ ?k" "ob_size ?b = ob_size b + int (length (utf8_bytes ?k))"
    "ob_labels ?b = ob_labels b @ replicate (length ?k) (label_of s)" "ob_limit ?b = ob_limit b"
    "ob_streams ?b = (ob_streams b)(s := Some (stream_text b s @ ?k))"
    using False by (simp_all add: ob_written_def Let_def)
  have streams: "stream_text ?b s' = labelled (ob_text ?b) (ob_labels ?b) (label_of s')" for s'
    using inv fields by (auto simp: ob_inv_def stream_text_def labelled_append labelled_replicate)
  have "set (ob_labels ?b) \<subseteq> {0, 1}"
    using inv fields by (auto simp: ob_inv_def label_of_def)
  then show ?thesis
    using inv fields streams ob_kept_size [of b val] ob_kept_scalar False
    by (simp add: ob_inv_def)
qed

lemma ob_inv_get: "ob_inv b \<Longrightarrow> ob_inv (snd (ob_get b s))"
  by (auto simp: ob_get_def ob_inv_def stream_text_def Let_def split: option.splits)

section \<open>Segments\<close>

lemma run_end_spec:
  assumes "e \<le> length labels"
  shows "\<exists>q. run_end labels l e p = Inr q \<and> p \<le> q \<and> q \<le> max p e
    \<and> (\<forall>i. p \<le> i \<and> i < q \<longrightarrow> labels ! i = l) \<and> (q < e \<longrightarrow> labels ! q \<noteq> l)"
  using assms
proof (induction labels l e p rule: run_end.induct)
  case (1 labels l e p)
  show ?case
  proof (cases "p < e \<and> labels ! p = l")
    case True
    then obtain q where "run_end labels l e (Suc p) = Inr q" "Suc p \<le> q" "q \<le> max (Suc p) e"
      "\<forall>i. Suc p \<le> i \<and> i < q \<longrightarrow> labels ! i = l" "q < e \<longrightarrow> labels ! q \<noteq> l"
      using "1.IH" "1.prems" by auto
    moreover have "labels ! i = l" if "p \<le> i" "i < q" for i
      using that True calculation(4) by (cases "i = p") auto
    ultimately show ?thesis using True "1.prems"
      by (subst run_end.simps) auto
  next
    case False
    then show ?thesis using "1.prems" by (subst run_end.simps) auto
  qed
qed

text \<open>Each code point of a list of segments with its stream.\<close>

definition expand :: "(stream \<times> pystr) list \<Rightarrow> (nat \<times> stream) list" where
  "expand segs = concat (map (\<lambda>(s, t). map (\<lambda>c. (c, s)) t) segs)"

text \<open>Segments are maximal runs: none is empty and neighbours differ in their stream.\<close>

fun maximal_runs :: "(stream \<times> pystr) list \<Rightarrow> bool" where
  "maximal_runs [] = True"
| "maximal_runs [(s, t)] = (t \<noteq> [])"
| "maximal_runs ((s, t) # (s', t') # r) = (t \<noteq> [] \<and> s \<noteq> s' \<and> maximal_runs ((s', t') # r))"

definition tagged :: "pystr \<Rightarrow> nat list \<Rightarrow> (nat \<times> stream) list" where
  "tagged tx labels = zip tx (map segment_stream labels)"

lemma tagged_run:
  assumes "q \<le> length tx" "length tx = length labels" "p \<le> q"
    and "\<forall>i. p \<le> i \<and> i < q \<longrightarrow> labels ! i = l"
  shows "map (\<lambda>c. (c, segment_stream l)) (take (q - p) (drop p tx))
    = take (q - p) (drop p (tagged tx labels))"
  using assms by (intro nth_equalityI) (auto simp: tagged_def)

lemma segment_stream_inj: "k \<in> {0, 1} \<Longrightarrow> l \<in> {0, 1} \<Longrightarrow> segment_stream k = segment_stream l \<Longrightarrow> k = l"
  by (auto simp: segment_stream_def split: if_splits)

lemma segments_from_spec:
  assumes "length tx = length labels" "e \<le> length tx" "set labels \<subseteq> {0, 1}"
  shows "\<exists>segs. segments_from tx labels e c = Inr segs \<and> maximal_runs segs
    \<and> expand segs = take (e - c) (drop c (tagged tx labels))
    \<and> (segs \<noteq> [] \<longrightarrow> fst (hd segs) = segment_stream (labels ! c))"
  using assms
proof (induction tx labels e c rule: segments_from.induct)
  case (1 tx labels e c)
  show ?case
  proof (cases "c < e")
    case False
    then show ?thesis by (subst segments_from.simps) (simp add: expand_def)
  next
    case True
    let ?l = "labels ! c"
    from True "1.prems" have lab: "(if c < length labels then labels ! c else 0) = ?l" by simp
    obtain q where q: "run_end labels ?l e (Suc c) = Inr q" "Suc c \<le> q" "q \<le> e"
      and run: "\<forall>i. Suc c \<le> i \<and> i < q \<longrightarrow> labels ! i = ?l" and stop: "q < e \<longrightarrow> labels ! q \<noteq> ?l"
      using run_end_spec [of e labels ?l "Suc c"] True "1.prems" by auto
    have "\<exists>segs. segments_from tx labels e q = Inr segs \<and> maximal_runs segs
        \<and> expand segs = take (e - q) (drop q (tagged tx labels))
        \<and> (segs \<noteq> [] \<longrightarrow> fst (hd segs) = segment_stream (labels ! q))"
    proof (rule "1.IH" [OF True refl])
      show "run_end labels (if c < length labels then labels ! c else 0) e (Suc c) = Inr q"
        using q(1) unfolding lab .
    qed (use "1.prems" in auto)
    then obtain segs where segs: "segments_from tx labels e q = Inr segs" "maximal_runs segs"
      "expand segs = take (e - q) (drop q (tagged tx labels))"
      "segs \<noteq> [] \<longrightarrow> fst (hd segs) = segment_stream (labels ! q)"
      by blast
    let ?seg = "(segment_stream ?l, take (q - c) (drop c tx))"
    have eq: "segments_from tx labels e c = Inr (?seg # segs)"
      unfolding segments_from.simps [of tx labels e c] Let_def lab q(1)
      using True segs(1) by simp
    have run_all: "\<forall>i. c \<le> i \<and> i < q \<longrightarrow> labels ! i = ?l"
      using run by (metis le_eq_less_or_eq Suc_leI)
    have run': "map (\<lambda>x. (x, segment_stream ?l)) (take (q - c) (drop c tx))
        = take (q - c) (drop c (tagged tx labels))"
      by (rule tagged_run [OF _ _ _ run_all]) (use q(2,3) "1.prems"(1,2) in simp_all)
    have "take (e - c) (drop c (tagged tx labels))
        = take (q - c) (drop c (tagged tx labels)) @ take (e - q) (drop q (tagged tx labels))"
      using q(2,3) by (intro slice_split) simp_all
    then have exp: "expand (?seg # segs) = take (e - c) (drop c (tagged tx labels))"
      using run' segs(3) by (simp add: expand_def)
    have nonempty: "take (q - c) (drop c tx) \<noteq> []" using q True "1.prems" by simp
    have "maximal_runs (?seg # segs)"
    proof (cases segs)
      case Nil
      then show ?thesis using nonempty by simp
    next
      case (Cons x xs)
      then have "q < e" using segs(1) by (cases "q < e") (auto simp: segments_from.simps [of tx labels e q])
      then have "labels ! q \<noteq> ?l" "labels ! q \<in> set labels" "?l \<in> set labels"
        using stop "1.prems" True by simp_all
      then have "labels ! q \<noteq> ?l" "labels ! q \<in> {0, 1}" "?l \<in> {0, 1}"
        using "1.prems"(3) by blast+
      then have "segment_stream (labels ! q) \<noteq> segment_stream ?l"
        using segment_stream_inj by blast
      then have "fst x \<noteq> segment_stream ?l" using segs(4) Cons by simp
      then show ?thesis using Cons segs(2) nonempty by (cases x) auto
    qed
    with eq exp show ?thesis by auto
  qed
qed

section \<open>Paging\<close>

text \<open>A byte offset between two code points of a text.\<close>

definition boundary :: "pystr \<Rightarrow> nat \<Rightarrow> bool" where
  "boundary tx off \<longleftrightarrow> (\<exists>k \<le> length tx. off = length (utf8_bytes (take k tx)))"

lemma boundary_fit:
  assumes "boundary tx off"
  shows "length (utf8_bytes (fit tx off)) = off"
proof -
  obtain k where k: "k \<le> length tx" "off = length (utf8_bytes (take k tx))"
    using assms by (auto simp: boundary_def)
  then have "k \<le> length (fit tx off) \<or> length tx \<le> length (fit tx off)"
    by (intro fit_maximal) simp
  then have "k \<le> length (fit tx off)" using k(1) by auto
  then have "off \<le> length (utf8_bytes (fit tx off))"
    using k fit_eq_take [of tx off]
    by (metis append_take_drop_id le_add1 length_append min.absorb1 take_take utf8_bytes_append)
  with fit_size [of tx off] show ?thesis by simp
qed

text \<open>What a page is: the longest run of whole code points within the byte budget.\<close>

lemma page_text_at:
  assumes sc: "list_all is_scalar tx" and off: "off = length (utf8_bytes pre)"
    and split: "tx = pre @ post" and "0 < n"
  shows "page_text tx off n =
    (if fit post n = [] \<and> post \<noteq> [] then
       Inl (ValueError ''max_bytes is too small for the next UTF-8 character'')
     else Inr (fit post n, off + length (utf8_bytes (fit post n))))"
proof -
  have raw: "utf8_encode tx = Inr (utf8_bytes tx)" using sc by (simp add: utf8_encode_def)
  have pre: "list_all is_scalar pre" and post: "list_all is_scalar post"
    using sc split by simp_all
  have "take off (utf8_bytes tx) = utf8_bytes pre" "drop off (utf8_bytes tx) = utf8_bytes post"
    using split off by simp_all
  moreover have "utf8_encode (fit post n) = Inr (utf8_bytes (fit post n))"
    using fit_scalar [OF post] by (simp add: utf8_encode_def)
  moreover have "take n (utf8_bytes post) \<noteq> [] \<longleftrightarrow> post \<noteq> []" using \<open>0 < n\<close> by simp
  ultimately show ?thesis
    using raw off split \<open>0 < n\<close> utf8_decode_bytes [OF pre] utf8_decode_ignore_take [OF post, of n]
    by (auto simp: page_text_def Let_def)
qed

section \<open>A whole run of writes\<close>

definition ob_step :: "pystr \<times> pystr option \<Rightarrow> output_buffer \<Rightarrow> output_buffer result" where
  "ob_step w b = rbind (ob_write b (fst w) (snd w)) (\<lambda>(b', _). Inr b')"

definition ob_writes :: "int \<Rightarrow> (pystr \<times> pystr option) list \<Rightarrow> output_buffer result" where
  "ob_writes limit ws = rfold ob_step ws (ob_init limit)"

definition sent :: "(pystr \<times> pystr option) list \<Rightarrow> pystr" where
  "sent ws = concat (map (replaced \<circ> fst) ws)"

definition sent_on :: "stream \<Rightarrow> (pystr \<times> pystr option) list \<Rightarrow> pystr" where
  "sent_on s ws = sent (filter (\<lambda>w. stream_of (snd w) = s) ws)"

lemma sent_snoc [simp]: "sent (ws @ [w]) = sent ws @ replaced (fst w)"
  by (simp add: sent_def)

lemma sent_on_snoc [simp]:
  "sent_on s (ws @ [w]) = sent_on s ws @ (if stream_of (snd w) = s then replaced (fst w) else [])"
  by (simp add: sent_on_def sent_def)

text \<open>What is true of the buffer after the writes \<open>ws\<close>.\<close>

definition ob_holds :: "(pystr \<times> pystr option) list \<Rightarrow> output_buffer \<Rightarrow> bool" where
  "ob_holds ws b \<longleftrightarrow> ob_inv b \<and> (\<not> ob_truncated b \<longrightarrow>
     ob_text b = sent ws \<and> (\<forall>s. stream_text b s = sent_on s ws \<and> \<not> view_truncated b s))"

lemma ob_holds_step:
  assumes "ob_holds ws b"
  shows "\<exists>b'. ob_step w b = Inr b' \<and> ob_limit b' = ob_limit b \<and> ob_holds (ws @ [w]) b'"
proof -
  obtain v s where w: "w = (v, s)" by (cases w)
  let ?b = "ob_written b v (stream_of s)"
  have rep: "replaced [] = []" by (simp add: replaced_def)
  have inv: "ob_inv b" using assms by (simp add: ob_holds_def)
  have "ob_holds (ws @ [w]) ?b \<and> ob_limit ?b = ob_limit b"
  proof (cases "ob_limit b - ob_size b \<le> 0 \<or> ob_over b v")
    case True
    then have "ob_truncated ?b" "ob_limit ?b = ob_limit b" by (auto simp: ob_written_def Let_def)
    then show ?thesis using ob_inv_written [OF inv] by (simp add: ob_holds_def)
  next
    case False
    then have k: "ob_kept b v = replaced v" by (simp add: ob_kept_all)
    have f: "ob_truncated ?b = ob_truncated b" "ob_text ?b = ob_text b @ replaced v"
      "ob_limit ?b = ob_limit b" "ob_stream_truncated ?b = ob_stream_truncated b"
      "ob_streams ?b = (ob_streams b)(stream_of s := Some (stream_text b (stream_of s) @ replaced v))"
      using False by (simp_all add: ob_written_def Let_def k)
    show ?thesis
      using assms ob_inv_written [OF inv, of v "stream_of s"] f
      by (auto simp: ob_holds_def w stream_text_def view_truncated_def)
  qed
  moreover have "ob_holds (ws @ [w]) b" if "v = []"
    using assms that rep by (simp add: ob_holds_def w)
  ultimately show ?thesis by (auto simp: ob_step_def w ob_write_eq)
qed

text \<open>
  C40: no sequence of writes raises; the kept text is valid UTF-8 within the limit, the labels tell the
  streams apart and each stream's text is the text with its label; and as long as the buffer does not
  report truncation, it and each stream hold everything that was written, in order.
\<close>

theorem ob_writes_hold: "\<exists>b. ob_writes limit ws = Inr b \<and> ob_limit b = limit \<and> ob_holds ws b"
proof (induction ws rule: rev_induct)
  case Nil
  have "ob_holds [] (ob_init limit)"
    using ob_inv_init by (simp add: ob_holds_def ob_init_def sent_on_def sent_def stream_text_def
        view_truncated_def)
  then show ?case by (simp add: ob_writes_def ob_init_def)
next
  case (snoc w ws)
  then obtain b where b: "ob_writes limit ws = Inr b" "ob_limit b = limit" "ob_holds ws b" by blast
  from ob_holds_step [OF b(3), of w] obtain b' where "ob_step w b = Inr b'" "ob_limit b' = limit"
    "ob_holds (ws @ [w]) b'" using b(2) by auto
  with b(1) show ?case by (simp add: ob_writes_def rfold_append)
qed

text \<open>
  the segments of a page of output are the maximal runs of one stream, and put together they are
  exactly the code points of the page with the streams they were written to.
\<close>

theorem ob_segments_runs:
  assumes "ob_inv b" and "0 \<le> cursor" and "cursor \<le> int (length (ob_text b))" and "0 \<le> limit"
  shows "\<exists>segs. ob_segments b cursor limit = Inr segs \<and> maximal_runs segs
    \<and> expand segs = take (nat limit) (drop (nat cursor) (tagged (ob_text b) (ob_labels b)))"
proof -
  let ?e = "nat (min (int (length (ob_text b))) (cursor + limit))" and ?T = "tagged (ob_text b) (ob_labels b)"
  have T: "length ?T = length (ob_text b)" using assms(1) by (simp add: tagged_def ob_inv_def)
  have e: "?e \<le> length (ob_text b)" by linarith
  from segments_from_spec [of "ob_text b" "ob_labels b" ?e "nat cursor"] assms(1) e
  obtain segs where s: "segments_from (ob_text b) (ob_labels b) ?e (nat cursor) = Inr segs"
    "maximal_runs segs" "expand segs = take (?e - nat cursor) (drop (nat cursor) ?T)"
    by (auto simp: ob_inv_def)
  have "take (?e - nat cursor) (drop (nat cursor) ?T) = take (nat limit) (drop (nat cursor) ?T)"
  proof (cases "cursor + limit \<le> int (length (ob_text b))")
    case True
    then show ?thesis using assms(2,4) by (simp add: nat_add_distrib)
  next
    case False
    then have "length (drop (nat cursor) ?T) \<le> ?e - nat cursor" "length (drop (nat cursor) ?T) \<le> nat limit"
      using T assms by simp_all
    then show ?thesis by (simp only: take_all)
  qed
  then show ?thesis using s assms by (auto simp: ob_segments_def Let_def)
qed

definition sample_buffer :: output_buffer where
  "sample_buffer = \<lparr>ob_limit = 9, ob_text = [104, 233, 33], ob_size = 4, ob_truncated = False,
     ob_changed = True, ob_streams = (\<lambda>s. if s = Stdout then Some [104, 233] else Some [33]),
     ob_stream_truncated = (\<lambda>_. None), ob_labels = [0, 0, 1]\<rparr>"

lemma sample_buffer_inv: "ob_inv sample_buffer"
proof -
  have "length (utf8_bytes [104, 233, 33]) = 4"
    by (simp add: length_utf8_char utf8_width_def)
  moreover have "list_all is_scalar [104, 233, 33]" by (simp add: is_scalar_def is_surrogate_def)
  moreover have "stream_text sample_buffer s
      = labelled (ob_text sample_buffer) (ob_labels sample_buffer) (label_of s)" for s
    by (cases s) (simp_all add: sample_buffer_def stream_text_def labelled_def label_of_def)
  ultimately show ?thesis by (simp add: ob_inv_def sample_buffer_def)
qed

theorem ob_segments_runs_witness:
  "\<exists>segs. ob_segments sample_buffer 1 5 = Inr segs \<and> maximal_runs segs
    \<and> expand segs = take 5 (drop 1 (tagged (ob_text sample_buffer) (ob_labels sample_buffer)))"
  using ob_segments_runs [OF sample_buffer_inv, of 1 5] by (simp add: sample_buffer_def)

text \<open>
  A truncated buffer need not hold a prefix of what was written: a wide character that does not fit
  leaves room that a later write fills.
\<close>

lemma truncated_not_prefix:
  "rbind (ob_writes 3 [([97, 98, 128512], None), ([99], None)]) (\<lambda>b. Inr (ob_text b)) = Inr [97, 98, 99]"
  by (simp add: ob_writes_def ob_step_def ob_write_eq ob_written_def Let_def ob_init_def ob_kept_def
      ob_over_def utf8_encode_replace_def length_utf8_bytes utf8_width_def replaced_def is_surrogate_def
      stream_text_def is_scalar_def)

end
