(* ===== verification/Paging.thy ===== *)
theory Paging
  imports Prelude
begin

text \<open>
  The contract that every cursor-based read of the program promises to its callers, and the caller's
  loop.  A source returns a page of items and, when there is more, the cursor of the next page;
  following the cursors from a valid one must enumerate exactly the items that were left, in order,
  and must stop.  The interpretations are in the theories of the components that page.
\<close>

text \<open>
  The loop of a caller that follows cursors, with fuel for the number of pages:
  \<open>None\<close> is the fuel running out.
\<close>

fun collect :: "('c \<Rightarrow> 'e + ('a list \<times> 'c option)) \<Rightarrow> nat \<Rightarrow> 'c \<Rightarrow> ('e + 'a list) option" where
  "collect page 0 c = None"
| "collect page (Suc fuel) c =
    (case page c of
       Inl e \<Rightarrow> Some (Inl e)
     | Inr (xs, None) \<Rightarrow> Some (Inr xs)
     | Inr (xs, Some c') \<Rightarrow>
         (case collect page fuel c' of
            None \<Rightarrow> None
          | Some (Inl e) \<Rightarrow> Some (Inl e)
          | Some (Inr ys) \<Rightarrow> Some (Inr (xs @ ys))))"

text \<open>The rows after the key of one of them are those that follow it.\<close>

lemma filter_after:
  fixes key :: "'a \<Rightarrow> 'k::linorder"
  assumes "sorted_wrt (<) (map key rows)" and "k < length rows"
  shows "filter (\<lambda>r. key (rows ! k) < key r) rows = drop (Suc k) rows"
proof -
  have "rows = take (Suc k) rows @ drop (Suc k) rows" by simp
  have "filter (\<lambda>r. key (rows ! k) < key r) (take (Suc k) rows) = []"
  proof -
    have "\<not> key (rows ! k) < key r" if "r \<in> set (take (Suc k) rows)" for r
    proof -
      from that obtain i where i: "i \<le> k" "r = rows ! i"
        using assms(2) by (auto simp: in_set_conv_nth less_Suc_eq_le)
      show ?thesis
      proof (cases "i = k")
        case False
        with i assms have "key (rows ! i) < key (rows ! k)"
          by (auto simp: sorted_wrt_iff_nth_less)
        with i show ?thesis by simp
      qed (use i in simp)
    qed
    then show ?thesis by (simp add: filter_empty_conv)
  qed
  moreover have "filter (\<lambda>r. key (rows ! k) < key r) (drop (Suc k) rows) = drop (Suc k) rows"
  proof -
    have "key (rows ! k) < key r" if "r \<in> set (drop (Suc k) rows)" for r
      using that assms by (auto simp: in_set_conv_nth sorted_wrt_iff_nth_less)
    then show ?thesis by (simp add: filter_id_conv)
  qed
  ultimately show ?thesis
    by (metis append_Nil append_take_drop_id filter_append)
qed

locale pager =
  fixes page :: "'s \<Rightarrow> 'c \<Rightarrow> 'e + ('a list \<times> 'c option)"
    and valid :: "'s \<Rightarrow> 'c \<Rightarrow> bool"
    and rest :: "'s \<Rightarrow> 'c \<Rightarrow> 'a list"
  assumes page_total: "valid s c \<Longrightarrow> \<exists>xs n. page s c = Inr (xs, n)"
    and page_last: "valid s c \<Longrightarrow> page s c = Inr (xs, None) \<Longrightarrow> rest s c = xs"
    and page_more: "valid s c \<Longrightarrow> page s c = Inr (xs, Some c') \<Longrightarrow>
      valid s c' \<and> rest s c = xs @ rest s c' \<and> xs \<noteq> []"
begin

text \<open>One page per item and one for the end is always enough fuel.\<close>

lemma collect_rest:
  assumes "valid s c" and "length (rest s c) < fuel"
  shows "collect (page s) fuel c = Some (Inr (rest s c))"
  using assms
proof (induction fuel arbitrary: c)
  case 0
  then show ?case by simp
next
  case (Suc fuel)
  obtain xs n where p: "page s c = Inr (xs, n)" using page_total [OF Suc.prems(1)] by blast
  show ?case
  proof (cases n)
    case None
    with p page_last [OF Suc.prems(1)] show ?thesis by simp
  next
    case (Some c')
    with page_more [OF Suc.prems(1)] p
    have more: "valid s c'" "rest s c = xs @ rest s c'" "xs \<noteq> []" by auto
    then have "length (rest s c') < fuel" using Suc.prems(2) by (cases xs) auto
    with Suc.IH [OF more(1)] more p Some show ?thesis by simp
  qed
qed

text \<open>Following the cursors never repeats a cursor: the items left strictly shrink.\<close>

lemma rest_shrinks:
  "valid s c \<Longrightarrow> page s c = Inr (xs, Some c') \<Longrightarrow> length (rest s c') < length (rest s c)"
  using page_more by (cases xs) fastforce+

end

end
