(* ===== verification/Effects.thy ===== *)
theory Effects
  imports Prelude
begin

text \<open>
  Stateful code that may raise: a program takes the state and returns a result and the new state,
  so that whatever was done before an exception is still there when a handler runs.  The second
  half is the program logic used for such code: \<open>valid P m Q E\<close> says that from \<open>P\<close> a normal
  return satisfies \<open>Q\<close> and an exception satisfies \<open>E\<close>.
\<close>

type_synonym ('s, 'a) prog = "'s \<Rightarrow> 'a result \<times> 's"

named_theorems prog_defs "definitions of the program combinators"

definition ret :: "'a \<Rightarrow> ('s, 'a) prog" where
  [prog_defs]: "ret x s = (Inr x, s)"

definition raise :: "exc \<Rightarrow> ('s, 'a) prog" where
  [prog_defs]: "raise e s = (Inl e, s)"

definition pbind :: "('s, 'a) prog \<Rightarrow> ('a \<Rightarrow> ('s, 'b) prog) \<Rightarrow> ('s, 'b) prog" where
  [prog_defs]: "pbind m f s = (case m s of (Inl e, s') \<Rightarrow> (Inl e, s') | (Inr x, s') \<Rightarrow> f x s')"

definition pseq :: "('s, 'a) prog \<Rightarrow> ('s, 'b) prog \<Rightarrow> ('s, 'b) prog" where
  [prog_defs]: "pseq m n = pbind m (\<lambda>_. n)"

definition update :: "('s \<Rightarrow> 's) \<Rightarrow> ('s, unit) prog" where
  [prog_defs]: "update f s = (Inr (), f s)"

definition gets :: "('s \<Rightarrow> 'a) \<Rightarrow> ('s, 'a) prog" where
  [prog_defs]: "gets f s = (Inr (f s), s)"

definition lift :: "'a result \<Rightarrow> ('s, 'a) prog" where
  [prog_defs]: "lift r s = (r, s)"

text \<open>\<open>try\<close>: the outcome becomes a value, the state stays as the exception left it.\<close>

definition attempt :: "('s, 'a) prog \<Rightarrow> ('s, 'a result) prog" where
  [prog_defs]: "attempt m s = (case m s of (r, s') \<Rightarrow> (Inr r, s'))"

text \<open>\<open>try: m finally: c\<close>.\<close>

definition ensure :: "('s, 'a) prog \<Rightarrow> ('s, unit) prog \<Rightarrow> ('s, 'a) prog" where
  [prog_defs]: "ensure m c = pbind (attempt m) (\<lambda>r. pseq c (lift r))"

text \<open>\<open>for x in xs: body\<close>.\<close>

fun for_each :: "('a \<Rightarrow> ('s, unit) prog) \<Rightarrow> 'a list \<Rightarrow> ('s, unit) prog" where
  "for_each f [] = ret ()"
| "for_each f (x # xs) = pseq (f x) (for_each f xs)"

text \<open>\<open>for x in xs\<close> with a \<open>try\<close> around the body that collects the failures.\<close>

fun collect_failures :: "('a \<Rightarrow> ('s, unit) prog) \<Rightarrow> 'a list \<Rightarrow> ('s, ('a \<times> exc) list) prog" where
  "collect_failures f [] = ret []"
| "collect_failures f (x # xs) =
     pbind (attempt (f x)) (\<lambda>r. pbind (collect_failures f xs)
       (\<lambda>es. ret (case r of Inl e \<Rightarrow> (x, e) # es | Inr _ \<Rightarrow> es)))"

section \<open>Program logic\<close>

definition valid ::
  "('s \<Rightarrow> bool) \<Rightarrow> ('s, 'a) prog \<Rightarrow> ('a \<Rightarrow> 's \<Rightarrow> bool) \<Rightarrow> (exc \<Rightarrow> 's \<Rightarrow> bool) \<Rightarrow> bool" where
  "valid P m Q E \<longleftrightarrow>
    (\<forall>s. P s \<longrightarrow> (case m s of (Inr x, s') \<Rightarrow> Q x s' | (Inl e, s') \<Rightarrow> E e s'))"

lemma validI:
  assumes "\<And>s x s'. P s \<Longrightarrow> m s = (Inr x, s') \<Longrightarrow> Q x s'"
    and "\<And>s e s'. P s \<Longrightarrow> m s = (Inl e, s') \<Longrightarrow> E e s'"
  shows "valid P m Q E"
  using assms by (auto simp: valid_def split: prod.splits sum.splits)

lemma validD:
  assumes "valid P m Q E" and "P s"
  shows "m s = (Inr x, s') \<Longrightarrow> Q x s'" and "m s = (Inl e, s') \<Longrightarrow> E e s'"
  using assms by (auto simp: valid_def split: prod.splits sum.splits)

lemma valid_weaken:
  assumes "valid P m Q E" and "\<And>s. P' s \<Longrightarrow> P s"
    and "\<And>x s. Q x s \<Longrightarrow> Q' x s" and "\<And>e s. E e s \<Longrightarrow> E' e s"
  shows "valid P' m Q' E'"
proof (rule validI)
  show "Q' x s'" if "P' s" "m s = (Inr x, s')" for s x s'
    using validD(1) [OF assms(1) assms(2) [OF that(1)] that(2)] by (rule assms(3))
  show "E' e s'" if "P' s" "m s = (Inl e, s')" for s e s'
    using validD(2) [OF assms(1) assms(2) [OF that(1)] that(2)] by (rule assms(4))
qed

lemma pbind_ret [simp]: "pbind (ret x) f = f x"
  by (simp add: fun_eq_iff pbind_def ret_def)

lemma pseq_assoc: "pseq (pseq a b) c = pseq a (pseq b c)"
  by (auto simp: fun_eq_iff pseq_def pbind_def split: prod.splits sum.splits)

lemma valid_ret: "(\<And>s. P s \<Longrightarrow> Q x s) \<Longrightarrow> valid P (ret x) Q E"
  by (simp add: valid_def ret_def)

lemma valid_raise: "(\<And>s. P s \<Longrightarrow> E e s) \<Longrightarrow> valid P (raise e) Q E"
  by (simp add: valid_def raise_def)

lemma valid_update: "(\<And>s. P s \<Longrightarrow> Q () (f s)) \<Longrightarrow> valid P (update f) Q E"
  by (simp add: valid_def update_def)

lemma valid_gets: "(\<And>s. P s \<Longrightarrow> Q (f s) s) \<Longrightarrow> valid P (gets f) Q E"
  by (simp add: valid_def gets_def)

lemma valid_lift:
  "(\<And>s x. P s \<Longrightarrow> r = Inr x \<Longrightarrow> Q x s) \<Longrightarrow> (\<And>s e. P s \<Longrightarrow> r = Inl e \<Longrightarrow> E e s) \<Longrightarrow> valid P (lift r) Q E"
  by (auto simp: valid_def lift_def split: sum.splits)

lemma valid_bind:
  assumes "valid P m R E" and "\<And>x. valid (R x) (f x) Q E"
  shows "valid P (pbind m f) Q E"
proof (rule validI)
  fix s x s' assume "P s" "pbind m f s = (Inr x, s')"
  then obtain y t where "m s = (Inr y, t)" "f y t = (Inr x, s')"
    by (auto simp: pbind_def split: prod.splits sum.splits)
  then show "Q x s'" using validD(1) [OF assms(1) \<open>P s\<close>] validD(1) [OF assms(2)] by blast
next
  fix s e s' assume "P s" "pbind m f s = (Inl e, s')"
  then consider "m s = (Inl e, s')" | y t where "m s = (Inr y, t)" "f y t = (Inl e, s')"
    by (auto simp: pbind_def split: prod.splits sum.splits)
  then show "E e s'"
    using validD [OF assms(1) \<open>P s\<close>] validD(2) [OF assms(2)] by cases blast+
qed

lemma valid_seq: "valid P m (\<lambda>_. R) E \<Longrightarrow> valid R n Q E \<Longrightarrow> valid P (pseq m n) Q E"
  unfolding pseq_def by (rule valid_bind)

lemma valid_attempt:
  "valid P m (\<lambda>x. Q (Inr x)) (\<lambda>e. Q (Inl e)) \<Longrightarrow> valid P (attempt m) Q E"
  unfolding valid_def attempt_def
  by (auto split: prod.splits sum.splits) (metis old.sum.exhaust)

lemma valid_if:
  "(b \<Longrightarrow> valid P m Q E) \<Longrightarrow> (\<not> b \<Longrightarrow> valid P n Q E) \<Longrightarrow> valid P (if b then m else n) Q E"
  by simp

text \<open>The invariant of a loop holds when it ends and when its body raises.\<close>

lemma valid_for_each:
  assumes "\<And>x. x \<in> set xs \<Longrightarrow> valid I (f x) (\<lambda>_. I) E"
  shows "valid I (for_each f xs) (\<lambda>_. I) E"
  using assms
proof (induction xs)
  case Nil
  show ?case by (simp add: valid_ret)
next
  case (Cons x xs)
  show ?case unfolding for_each.simps
    by (rule valid_seq [of _ _ I]) (use Cons in auto)
qed

lemma valid_collect_failures:
  assumes "\<And>x. x \<in> set xs \<Longrightarrow> valid I (f x) (\<lambda>_. I) (\<lambda>_. I)"
  shows "valid I (collect_failures f xs) (\<lambda>_. I) E"
  using assms
proof (induction xs)
  case Nil
  show ?case by (simp add: valid_ret)
next
  case (Cons x xs)
  have "valid I (attempt (f x)) (\<lambda>_. I) E" by (rule valid_attempt) (simp add: Cons.prems)
  moreover have "valid I (collect_failures f xs) (\<lambda>_. I) E" using Cons by simp
  ultimately show ?case unfolding collect_failures.simps
    by (intro valid_bind [of _ _ "\<lambda>_. I"] valid_ret) auto
qed

text \<open>A program that leaves an invariant alone, however it ends.\<close>

definition keeps :: "('s \<Rightarrow> bool) \<Rightarrow> ('s, 'a) prog \<Rightarrow> bool" where
  "keeps I m \<longleftrightarrow> valid I m (\<lambda>_. I) (\<lambda>_. I)"

named_theorems keeps_intro "rules that compose programs keeping an invariant"

lemma keepsD: "keeps I m \<Longrightarrow> I s \<Longrightarrow> m s = (r, s') \<Longrightarrow> I s'"
  by (cases r) (auto simp: keeps_def valid_def split: prod.splits sum.splits)

lemma keeps_snd: "keeps I m \<Longrightarrow> I s \<Longrightarrow> I (snd (m s))"
  by (metis keepsD prod.collapse)

lemma keepsI: "(\<And>s. I s \<Longrightarrow> I (snd (m s))) \<Longrightarrow> keeps I m"
  by (auto simp: keeps_def valid_def split: prod.splits sum.splits) (metis snd_conv)+

lemma keeps_ret [keeps_intro]: "keeps I (ret x)"
  by (simp add: keeps_def valid_ret)

lemma keeps_raise [keeps_intro]: "keeps I (raise e)"
  by (simp add: keeps_def valid_raise)

lemma keeps_gets [keeps_intro]: "keeps I (gets f)"
  by (simp add: keeps_def valid_gets)

lemma keeps_lift [keeps_intro]: "keeps I (lift r)"
  by (simp add: keeps_def valid_lift)

lemma keeps_bind [keeps_intro]: "keeps I m \<Longrightarrow> (\<And>x. keeps I (f x)) \<Longrightarrow> keeps I (pbind m f)"
  unfolding keeps_def by (rule valid_bind)

lemma keeps_seq [keeps_intro]: "keeps I m \<Longrightarrow> keeps I n \<Longrightarrow> keeps I (pseq m n)"
  unfolding keeps_def by (rule valid_seq)

lemma keeps_attempt [keeps_intro]: "keeps I m \<Longrightarrow> keeps I (attempt m)"
  unfolding keeps_def by (rule valid_attempt)

lemma keeps_ensure [keeps_intro]: "keeps I m \<Longrightarrow> keeps I c \<Longrightarrow> keeps I (ensure m c)"
  unfolding ensure_def by (intro keeps_bind keeps_attempt keeps_seq keeps_lift)

lemma keeps_for_each [keeps_intro]: "(\<And>x. x \<in> set xs \<Longrightarrow> keeps I (f x)) \<Longrightarrow> keeps I (for_each f xs)"
  unfolding keeps_def by (rule valid_for_each)

lemma keeps_collect_failures [keeps_intro]:
  "(\<And>x. x \<in> set xs \<Longrightarrow> keeps I (f x)) \<Longrightarrow> keeps I (collect_failures f xs)"
  unfolding keeps_def by (rule valid_collect_failures)

lemma keeps_if [keeps_intro]: "(b \<Longrightarrow> keeps I m) \<Longrightarrow> (\<not> b \<Longrightarrow> keeps I n) \<Longrightarrow> keeps I (if b then m else n)"
  by simp

lemma keeps_option [keeps_intro]:
  "keeps I m \<Longrightarrow> (\<And>x. keeps I (f x)) \<Longrightarrow> keeps I (case v of None \<Rightarrow> m | Some x \<Rightarrow> f x)"
  by (cases v) auto

lemma keeps_sum [keeps_intro]:
  "(\<And>x. keeps I (f x)) \<Longrightarrow> (\<And>x. keeps I (g x)) \<Longrightarrow> keeps I (case v of Inl x \<Rightarrow> f x | Inr x \<Rightarrow> g x)"
  by (cases v) auto

lemma keeps_prod [keeps_intro]:
  "(\<And>x y. keeps I (f x y)) \<Longrightarrow> keeps I (case v of (x, y) \<Rightarrow> f x y)"
  by (cases v) auto

lemma keeps_update: "(\<And>s. I s \<Longrightarrow> I (f s)) \<Longrightarrow> keeps I (update f)"
  by (simp add: keeps_def valid_update)

lemma keeps_valid: "keeps I m \<Longrightarrow> valid I m (\<lambda>_. I) (\<lambda>_. I)"
  by (simp add: keeps_def)

text \<open>Only the exceptions of a program: the normal return is unconstrained.\<close>

definition raises_in :: "('s \<Rightarrow> bool) \<Rightarrow> ('s, 'a) prog \<Rightarrow> bool" where
  "raises_in I m \<longleftrightarrow> valid I m (\<lambda>_ _. True) (\<lambda>_. I)"

lemma raises_in_keeps: "keeps I m \<Longrightarrow> raises_in I m"
  unfolding raises_in_def by (rule valid_weaken [OF keeps_valid]) auto

lemma raises_in_bind: "keeps I m \<Longrightarrow> (\<And>x. raises_in I (f x)) \<Longrightarrow> raises_in I (pbind m f)"
  unfolding raises_in_def by (rule valid_bind [OF keeps_valid])

lemma raises_in_sum:
  "(\<And>x. raises_in I (f x)) \<Longrightarrow> (\<And>x. raises_in I (g x)) \<Longrightarrow>
    raises_in I (case v of Inl x \<Rightarrow> f x | Inr x \<Rightarrow> g x)"
  by (cases v) auto

lemma raises_in_prod: "(\<And>x y. raises_in I (f x y)) \<Longrightarrow> raises_in I (case v of (x, y) \<Rightarrow> f x y)"
  by (cases v) auto

lemma raises_in_update: "raises_in I (pseq (update f) (ret x))"
  by (simp add: raises_in_def valid_def pseq_def pbind_def update_def ret_def)

lemma raises_inD: "raises_in I m \<Longrightarrow> I s \<Longrightarrow> m s = (Inl e, s') \<Longrightarrow> I s'"
  unfolding raises_in_def by (rule validD(2))

end
