(* ===== verification/Filesystem.thy ===== *)
theory Filesystem
  imports Effects Utf8 "HOL-Library.AList"
begin

text \<open>
  The filesystem that file_transactions.py runs on: a table of nodes by path, and for every system
  call an entry of a script that lets the call succeed, makes it fail, or lets another process change
  a path before it.  A failing call raises \<open>OSError\<close> and has no effect.  The names that
  \<open>tempfile.mkstemp\<close> tries are a supply in the state.  Symbolic links do not occur: the paths of a
  patch are resolved before they are used.
\<close>

type_synonym path = "pystr list"

datatype kind = Regular | Directory | Special

record node =
  n_kind :: kind
  n_ino :: nat
  n_data :: bytes
  n_mode :: nat
  n_time :: nat

datatype event = Quiet | Fault | Env path "node option"

record fsys =
  fs_files :: "(path \<times> node) list"
  fs_script :: "event list"
  fs_names :: "pystr list"
  fs_clock :: nat

definition node_at :: "('a) fsys_scheme \<Rightarrow> path \<Rightarrow> node option" where
  "node_at fs p = map_of (fs_files fs) p"

definition put_node :: "path \<Rightarrow> node option \<Rightarrow> (path \<times> node) list \<Rightarrow> (path \<times> node) list" where
  "put_node p v files =
    (case v of None \<Rightarrow> AList.delete p files | Some n \<Rightarrow> AList.update p n files)"

lemma map_of_put_node [simp]: "map_of (put_node p v files) = (map_of files)(p := v)"
  by (cases v) (auto simp: put_node_def update_conv' delete_conv')

definition set_node :: "path \<Rightarrow> node option \<Rightarrow> ('a) fsys_scheme \<Rightarrow> ('a) fsys_scheme" where
  "set_node p v fs = fs\<lparr>fs_files := put_node p v (fs_files fs)\<rparr>"

lemma node_at_set_node [simp]: "node_at (set_node p v fs) q = (if q = p then v else node_at fs q)"
  by (simp add: node_at_def set_node_def)

lemma set_node_fields [simp]:
  "fs_script (set_node p v fs) = fs_script fs" "fs_names (set_node p v fs) = fs_names fs"
  "fs_clock (set_node p v fs) = fs_clock fs" "fsys.more (set_node p v fs) = fsys.more fs"
  by (simp_all add: set_node_def)

section \<open>System calls\<close>

fun next_event :: "event list \<Rightarrow> (path \<times> node) list \<Rightarrow> bool \<times> event list \<times> (path \<times> node) list" where
  "next_event [] files = (False, [], files)"
| "next_event (Quiet # r) files = (False, r, files)"
| "next_event (Fault # r) files = (True, r, files)"
| "next_event (Env p v # r) files = next_event r (put_node p v files)"

definition syscall :: "(('a) fsys_scheme, 'b) prog \<Rightarrow> (('a) fsys_scheme, 'b) prog" where
  "syscall m fs =
    (case next_event (fs_script fs) (fs_files fs) of
       (fault, r, files) \<Rightarrow>
         let fs' = fs\<lparr>fs_script := r, fs_files := files\<rparr> in
         if fault then (Inl (OSError ''system call failed''), fs') else m fs')"

definition sys_stat :: "path \<Rightarrow> (('a) fsys_scheme, node) prog" where
  "sys_stat p = syscall (\<lambda>fs. case node_at fs p of
      None \<Rightarrow> (Inl (FileNotFoundError ''''), fs) | Some n \<Rightarrow> (Inr n, fs))"

text \<open>\<open>Path.exists\<close> answers no when the system call fails.\<close>

definition sys_exists :: "path \<Rightarrow> (('a) fsys_scheme, bool) prog" where
  "sys_exists p = pbind (attempt (sys_stat p)) (\<lambda>r. ret (case r of Inl _ \<Rightarrow> False | Inr _ \<Rightarrow> True))"

definition sys_unlink :: "path \<Rightarrow> bool \<Rightarrow> (('a) fsys_scheme, unit) prog" where
  "sys_unlink p missing_ok = syscall (\<lambda>fs. case node_at fs p of
      None \<Rightarrow> (if missing_ok then Inr () else Inl (FileNotFoundError ''''), fs)
    | Some n \<Rightarrow> if n_kind n = Directory then (Inl (IsADirectoryError ''''), fs)
                else (Inr (), set_node p None fs))"

definition sys_replace :: "path \<Rightarrow> path \<Rightarrow> (('a) fsys_scheme, unit) prog" where
  "sys_replace a b = syscall (\<lambda>fs. case node_at fs a of
      None \<Rightarrow> (Inl (FileNotFoundError ''''), fs)
    | Some n \<Rightarrow>
        (case node_at fs b of
           Some m \<Rightarrow> if n_kind m = Directory then (Inl (IsADirectoryError ''''), fs)
                     else if a = b then (Inr (), fs)
                     else (Inr (), set_node a None (set_node b (Some n) fs))
         | None \<Rightarrow> (Inr (), set_node a None (set_node b (Some n) fs))))"

definition sys_link :: "path \<Rightarrow> path \<Rightarrow> (('a) fsys_scheme, unit) prog" where
  "sys_link a b = syscall (\<lambda>fs. case node_at fs a of
      None \<Rightarrow> (Inl (FileNotFoundError ''''), fs)
    | Some n \<Rightarrow> if node_at fs b \<noteq> None then (Inl (FileExistsError ''''), fs)
                else (Inr (), set_node b (Some n) fs))"

definition tick :: "('a) fsys_scheme \<Rightarrow> ('a) fsys_scheme" where
  "tick fs = fs\<lparr>fs_clock := Suc (fs_clock fs)\<rparr>"

definition new_node :: "kind \<Rightarrow> nat \<Rightarrow> ('a) fsys_scheme \<Rightarrow> node" where
  "new_node k mode fs = \<lparr>n_kind = k, n_ino = fs_clock fs, n_data = [], n_mode = mode,
     n_time = fs_clock fs\<rparr>"

definition sys_mkdir :: "path \<Rightarrow> (('a) fsys_scheme, unit) prog" where
  "sys_mkdir p = syscall (\<lambda>fs.
     if node_at fs p \<noteq> None then (Inl (FileExistsError ''''), fs)
     else if node_at fs (butlast p) = None then (Inl (FileNotFoundError ''''), fs)
     else (Inr (), tick (set_node p (Some (new_node Directory 493 fs)) fs)))"

definition sys_rmdir :: "path \<Rightarrow> (('a) fsys_scheme, unit) prog" where
  "sys_rmdir p = syscall (\<lambda>fs. case node_at fs p of
      None \<Rightarrow> (Inl (FileNotFoundError ''''), fs)
    | Some n \<Rightarrow>
        if n_kind n \<noteq> Directory then (Inl (OSError ''not a directory''), fs)
        else if list_ex (\<lambda>(q, _). q \<noteq> [] \<and> butlast q = p) (fs_files fs) then
          (Inl (OSError ''directory not empty''), fs)
        else (Inr (), set_node p None fs))"

text \<open>\<open>tempfile.mkstemp\<close>: the first name of the supply that is free.\<close>

fun pick_name :: "path \<Rightarrow> pystr \<Rightarrow> pystr list \<Rightarrow> (path \<times> node) list \<Rightarrow> (path \<times> pystr list) option"
  where
  "pick_name dir prefix [] files = None"
| "pick_name dir prefix (n # ns) files =
    (if map_of files (dir @ [prefix @ n]) = None then Some (dir @ [prefix @ n], ns)
     else pick_name dir prefix ns files)"

text \<open>A file descriptor of an open file: its path when opened and its inode.\<close>

type_synonym fd = "path \<times> nat"

definition sys_mkstemp :: "path \<Rightarrow> pystr \<Rightarrow> (('a) fsys_scheme, fd \<times> path) prog" where
  "sys_mkstemp dir prefix = syscall (\<lambda>fs.
     if node_at fs dir = None then (Inl (FileNotFoundError ''''), fs)
     else case pick_name dir prefix (fs_names fs) (fs_files fs) of
       None \<Rightarrow> (Inl (FileExistsError ''No usable temporary file name found''), fs)
     | Some (p, ns) \<Rightarrow>
         (Inr ((p, fs_clock fs), p),
          tick (set_node p (Some (new_node Regular 384 fs)) (fs\<lparr>fs_names := ns\<rparr>))))"

text \<open>Writes through a descriptor reach the file only while its path still leads to the inode.\<close>

definition edit_fd :: "fd \<Rightarrow> (node \<Rightarrow> node) \<Rightarrow> ('a) fsys_scheme \<Rightarrow> ('a) fsys_scheme" where
  "edit_fd f g fs = (case node_at fs (fst f) of
      Some n \<Rightarrow> if n_ino n = snd f then set_node (fst f) (Some (g n)) fs else fs
    | None \<Rightarrow> fs)"

definition sys_fchmod :: "fd \<Rightarrow> nat \<Rightarrow> (('a) fsys_scheme, unit) prog" where
  "sys_fchmod f mode = syscall (update (\<lambda>fs. tick (edit_fd f (\<lambda>n. n\<lparr>n_mode := mode, n_time := fs_clock fs\<rparr>) fs)))"

definition sys_write :: "fd \<Rightarrow> bytes \<Rightarrow> (('a) fsys_scheme, unit) prog" where
  "sys_write f data = syscall (update (\<lambda>fs. tick (edit_fd f (\<lambda>n. n\<lparr>n_data := data, n_time := fs_clock fs\<rparr>) fs)))"

text \<open>\<open>flush\<close>, \<open>fsync\<close> and \<open>close\<close>.\<close>

definition sys_sync :: "fd \<Rightarrow> (('a) fsys_scheme, unit) prog" where
  "sys_sync f = syscall (ret ())"

definition sys_close :: "fd \<Rightarrow> (('a) fsys_scheme, unit) prog" where
  "sys_close f = syscall (ret ())"

text \<open>\<open>os.open\<close> of a file or of a directory: what the path leads to.\<close>

definition sys_open :: "path \<Rightarrow> (('a) fsys_scheme, fd) prog" where
  "sys_open p = syscall (\<lambda>fs. case node_at fs p of
      None \<Rightarrow> (Inl (FileNotFoundError ''''), fs) | Some n \<Rightarrow> (Inr (p, n_ino n), fs))"

definition sys_open_dir :: "path \<Rightarrow> (('a) fsys_scheme, fd) prog" where
  "sys_open_dir p = syscall (\<lambda>fs. case node_at fs p of
      None \<Rightarrow> (Inl (FileNotFoundError ''''), fs)
    | Some n \<Rightarrow> if n_kind n = Directory then (Inr (p, n_ino n), fs)
                else (Inl (OSError ''not a directory''), fs))"

text \<open>\<open>stream.read(n)\<close>, all of the file without a bound.\<close>

definition sys_read :: "fd \<Rightarrow> nat option \<Rightarrow> (('a) fsys_scheme, bytes) prog" where
  "sys_read f bound = syscall (\<lambda>fs. case node_at fs (fst f) of
      Some n \<Rightarrow> if n_ino n = snd f
        then (Inr (case bound of None \<Rightarrow> n_data n | Some b \<Rightarrow> take b (n_data n)), fs)
        else (Inl (OSError ''stale descriptor''), fs)
    | None \<Rightarrow> (Inl (OSError ''stale descriptor''), fs))"

definition sys_fstat :: "fd \<Rightarrow> (('a) fsys_scheme, node) prog" where
  "sys_fstat f = syscall (\<lambda>fs. case node_at fs (fst f) of
      Some n \<Rightarrow> if n_ino n = snd f then (Inr n, fs) else (Inl (OSError ''stale descriptor''), fs)
    | None \<Rightarrow> (Inl (OSError ''stale descriptor''), fs))"

definition path_name :: "path \<Rightarrow> pystr" where
  "path_name p = (if p = [] then [] else last p)"

section \<open>Calls that leave some paths alone\<close>

text \<open>No other process is at work.\<close>

definition calm :: "event list \<Rightarrow> bool" where
  "calm es = list_all (\<lambda>e. case e of Env _ _ \<Rightarrow> False | _ \<Rightarrow> True) es"

lemma next_event_calm: "calm es \<Longrightarrow> next_event es files = (f, r, files') \<Longrightarrow> files' = files \<and> calm r"
  by (induction es files rule: next_event.induct) (auto simp: calm_def)

text \<open>
  \<open>held W ns fs\<close>: no interference is to come, the names left for temporary files come from
  \<open>ns\<close>, and \<open>W\<close> holds of the program's variables and of the nodes.  \<open>framed S W\<close>: \<open>W\<close> looks at
  the filesystem only through the nodes, and only at the paths in \<open>S\<close>.
\<close>

type_synonym 'a assertion = "('a) fsys_scheme \<Rightarrow> (path \<Rightarrow> node option) \<Rightarrow> bool"

definition held :: "'a assertion \<Rightarrow> pystr set \<Rightarrow> ('a) fsys_scheme \<Rightarrow> bool" where
  "held W ns fs \<longleftrightarrow> calm (fs_script fs) \<and> set (fs_names fs) \<subseteq> ns \<and> W fs (node_at fs)"

definition stable :: "'a assertion \<Rightarrow> bool" where
  "stable W \<longleftrightarrow> (\<forall>fs files sc nm ck f.
     W (fs\<lparr>fs_files := files\<rparr>) f = W fs f \<and> W (fs\<lparr>fs_script := sc\<rparr>) f = W fs f
   \<and> W (fs\<lparr>fs_names := nm\<rparr>) f = W fs f \<and> W (fs\<lparr>fs_clock := ck\<rparr>) f = W fs f)"

definition framed :: "path set \<Rightarrow> 'a assertion \<Rightarrow> bool" where
  "framed S W \<longleftrightarrow> stable W \<and> (\<forall>fs f p x. p \<notin> S \<longrightarrow> W fs (f(p := x)) = W fs f)"

text \<open>Temporary names cannot be the name of a path in \<open>S\<close>.\<close>

definition names_apart :: "path set \<Rightarrow> pystr set \<Rightarrow> bool" where
  "names_apart S ns \<longleftrightarrow> (\<forall>p \<in> S. \<forall>n \<in> ns. p = [] \<or> \<not> ends_with n (last p))"

lemma framed_stable: "framed S W \<Longrightarrow> stable W"
  by (simp add: framed_def)

lemma stable_simps:
  assumes "stable W"
  shows "W (fs\<lparr>fs_files := files\<rparr>) f = W fs f" "W (fs\<lparr>fs_script := sc\<rparr>) f = W fs f"
    "W (fs\<lparr>fs_names := nm\<rparr>) f = W fs f" "W (fs\<lparr>fs_clock := ck\<rparr>) f = W fs f"
    "W (set_node p v fs) f = W fs f" "W (tick fs) f = W fs f"
  using assms by (simp_all add: stable_def set_node_def tick_def)

lemma node_at_simps [simp]:
  "node_at (fs\<lparr>fs_script := sc\<rparr>) = node_at fs" "node_at (fs\<lparr>fs_names := nm\<rparr>) = node_at fs"
  "node_at (fs\<lparr>fs_clock := ck\<rparr>) = node_at fs" "node_at (tick fs) = node_at fs"
  by (simp_all add: node_at_def tick_def fun_eq_iff)

lemma node_at_set_node_fun: "node_at (set_node p v fs) = (node_at fs)(p := v)"
  by (simp add: fun_eq_iff)

lemma held_set_node:
  assumes "stable W" and "held (\<lambda>fs f. W fs (f(p := v))) ns fs"
  shows "held W ns (set_node p v fs)"
  using assms(2) by (simp add: held_def node_at_set_node_fun stable_simps [OF assms(1)])

lemma held_set_node_framed: "framed S W \<Longrightarrow> p \<notin> S \<Longrightarrow> held W ns fs \<Longrightarrow> held W ns (set_node p v fs)"
  by (rule held_set_node [OF framed_stable]) (auto simp: held_def framed_def)

lemma held_tick: "stable W \<Longrightarrow> held W ns (tick fs) = held W ns fs"
  by (simp add: held_def stable_simps) (simp add: tick_def)

lemma held_mono: "held W ns fs \<Longrightarrow> (\<And>fs f. W fs f \<Longrightarrow> W' fs f) \<Longrightarrow> held W' ns fs"
  by (simp add: held_def)

text \<open>A system call either fails without an effect or runs.\<close>

lemma valid_syscall:
  assumes st: "stable W" and m: "valid (held W ns) m Q E" and "\<And>e fs. held W ns fs \<Longrightarrow> E e fs"
  shows "valid (held W ns) (syscall m) Q E"
proof -
  have step: "held W ns (fs\<lparr>fs_script := r, fs_files := files\<rparr>)"
    if "held W ns fs" "next_event (fs_script fs) (fs_files fs) = (f, r, files)" for fs f r files
  proof -
    have "files = fs_files fs" "calm r"
      using that next_event_calm [of "fs_script fs" "fs_files fs"] by (auto simp: held_def)
    then show ?thesis using that(1) by (simp add: held_def stable_simps [OF st])
  qed
  show ?thesis
    by (intro validI)
      (auto simp: syscall_def Let_def split: prod.splits if_splits
        intro: step validD(1) [OF m step] validD(2) [OF m step] assms(3))
qed

lemma keeps_syscall: "stable W \<Longrightarrow> keeps (held W ns) m \<Longrightarrow> keeps (held W ns) (syscall m)"
  unfolding keeps_def by (rule valid_syscall)

text \<open>Calls that only read.\<close>

lemma keeps_reading: "stable W \<Longrightarrow> (\<And>fs. snd (m fs) = fs) \<Longrightarrow> keeps (held W ns) (syscall m)"
  by (rule keeps_syscall, assumption, rule keepsI) simp

lemma keeps_sys_stat [keeps_intro]: "stable W \<Longrightarrow> keeps (held W ns) (sys_stat p)"
  unfolding sys_stat_def by (erule keeps_reading) (simp split: option.splits)

lemma keeps_sys_exists [keeps_intro]: "stable W \<Longrightarrow> keeps (held W ns) (sys_exists p)"
  unfolding sys_exists_def by (intro keeps_intro)

lemma keeps_sys_open [keeps_intro]: "stable W \<Longrightarrow> keeps (held W ns) (sys_open p)"
  unfolding sys_open_def by (erule keeps_reading) (simp split: option.splits)

lemma keeps_sys_open_dir [keeps_intro]: "stable W \<Longrightarrow> keeps (held W ns) (sys_open_dir p)"
  unfolding sys_open_dir_def by (erule keeps_reading) (simp split: option.splits)

lemma keeps_sys_fstat [keeps_intro]: "stable W \<Longrightarrow> keeps (held W ns) (sys_fstat p)"
  unfolding sys_fstat_def by (erule keeps_reading) (simp split: option.splits)

lemma keeps_sys_read [keeps_intro]: "stable W \<Longrightarrow> keeps (held W ns) (sys_read f b)"
  unfolding sys_read_def by (erule keeps_reading) (simp split: option.splits)

lemma keeps_sys_sync [keeps_intro]: "stable W \<Longrightarrow> keeps (held W ns) (sys_sync f)"
  unfolding sys_sync_def by (erule keeps_reading) (simp add: ret_def)

lemma keeps_sys_close [keeps_intro]: "stable W \<Longrightarrow> keeps (held W ns) (sys_close f)"
  unfolding sys_close_def by (erule keeps_reading) (simp add: ret_def)

text \<open>Calls that change a path outside \<open>S\<close>.\<close>

lemma keeps_changing:
  assumes "framed S W" and "\<And>fs. held W ns fs \<Longrightarrow> held W ns (snd (m fs))"
  shows "keeps (held W ns) (syscall m)"
  by (rule keeps_syscall [OF framed_stable [OF assms(1)]], rule keepsI) (rule assms(2))

lemma keeps_sys_unlink: "framed S W \<Longrightarrow> p \<notin> S \<Longrightarrow> keeps (held W ns) (sys_unlink p b)"
  unfolding sys_unlink_def
  by (rule keeps_changing, assumption) (simp add: held_set_node_framed split: option.splits)

lemma keeps_sys_mkdir: "framed S W \<Longrightarrow> p \<notin> S \<Longrightarrow> keeps (held W ns) (sys_mkdir p)"
  unfolding sys_mkdir_def
  by (rule keeps_changing, assumption) (simp add: held_set_node_framed held_tick framed_stable)

lemma keeps_sys_rmdir: "framed S W \<Longrightarrow> p \<notin> S \<Longrightarrow> keeps (held W ns) (sys_rmdir p)"
  unfolding sys_rmdir_def
  by (rule keeps_changing, assumption) (simp add: held_set_node_framed split: option.splits)

lemma held_edit_fd: "framed S W \<Longrightarrow> fst f \<notin> S \<Longrightarrow> held W ns fs \<Longrightarrow> held W ns (edit_fd f g fs)"
  by (simp add: edit_fd_def held_set_node_framed split: option.splits)

lemma keeps_sys_fchmod: "framed S W \<Longrightarrow> fst f \<notin> S \<Longrightarrow> keeps (held W ns) (sys_fchmod f m)"
  unfolding sys_fchmod_def
  by (rule keeps_changing, assumption) (simp add: update_def held_edit_fd held_tick framed_stable)

lemma keeps_sys_write: "framed S W \<Longrightarrow> fst f \<notin> S \<Longrightarrow> keeps (held W ns) (sys_write f d)"
  unfolding sys_write_def
  by (rule keeps_changing, assumption) (simp add: update_def held_edit_fd held_tick framed_stable)

lemma some_update: "W fs f \<Longrightarrow> \<exists>x. W fs (f(p := x))"
  by (metis fun_upd_triv)

text \<open>What is known after the calls that change a path of interest.\<close>

lemma valid_sys_unlink:
  assumes "stable W"
  shows "valid (held W ns) (sys_unlink p b)
    (\<lambda>_. held (\<lambda>fs f. f p = None \<and> (\<exists>x. W fs (f(p := x)))) ns) (\<lambda>_. held W ns)"
  unfolding sys_unlink_def
proof (rule valid_syscall [OF assms])
  show "valid (held W ns)
     (\<lambda>fs. case node_at fs p of None \<Rightarrow> (if b then Inr () else Inl (FileNotFoundError ''''), fs)
        | Some n \<Rightarrow> if n_kind n = Directory then (Inl (IsADirectoryError ''''), fs)
           else (Inr (), set_node p None fs))
     (\<lambda>_. held (\<lambda>fs f. f p = None \<and> (\<exists>x. W fs (f(p := x)))) ns) (\<lambda>_. held W ns)"
    by (rule validI)
      (auto simp: held_def stable_simps [OF assms] node_at_set_node_fun fun_upd_idem
        split: option.splits if_splits intro: some_update)
qed

lemma valid_sys_replace:
  assumes "framed S W" and "a \<notin> S" and "p \<noteq> a"
  shows "valid (held (\<lambda>fs f. W fs f \<and> G (f a)) ns) (sys_replace a p)
    (\<lambda>_. held (\<lambda>fs f. G (f p) \<and> f p \<noteq> None \<and> (\<exists>x. W fs (f(p := x)))) ns)
    (\<lambda>_. held (\<lambda>fs f. W fs f \<and> G (f a)) ns)"
proof -
  have st: "stable (\<lambda>fs f. W fs f \<and> G (f a))"
    using framed_stable [OF assms(1)] by (simp add: stable_def)
  have W: "W fs (f(p := y, a := x)) = W fs (f(p := y))" for fs f x y
    using assms(1,2) by (simp add: framed_def)
  show ?thesis
    unfolding sys_replace_def
    by (rule valid_syscall [OF st], rule validI)
      (use assms in \<open>auto simp: held_def stable_simps [OF framed_stable [OF assms(1)]]
        node_at_set_node_fun W fun_upd_twist [of a p] split: option.splits if_splits
        intro: some_update\<close>)
qed

lemma valid_sys_link:
  assumes "framed S W" and "a \<notin> S" and "p \<noteq> a"
  shows "valid (held (\<lambda>fs f. W fs f \<and> G (f a)) ns) (sys_link a p)
    (\<lambda>_. held (\<lambda>fs f. G (f p) \<and> f p \<noteq> None \<and> (\<exists>x. W fs (f(p := x)))) ns)
    (\<lambda>_. held (\<lambda>fs f. W fs f \<and> G (f a)) ns)"
proof -
  have st: "stable (\<lambda>fs f. W fs f \<and> G (f a))"
    using framed_stable [OF assms(1)] by (simp add: stable_def)
  show ?thesis
    unfolding sys_link_def
    by (rule valid_syscall [OF st], rule validI)
      (use assms in \<open>auto simp: held_def stable_simps [OF framed_stable [OF assms(1)]]
        node_at_set_node_fun split: option.splits if_splits intro: some_update\<close>)
qed

lemma pick_name_Some:
  "pick_name dir pre names files = Some (p, ns) \<Longrightarrow>
    (\<exists>n \<in> set names. p = dir @ [pre @ n]) \<and> set ns \<subseteq> set names \<and> map_of files p = None"
  by (induction dir pre names files rule: pick_name.induct) (auto split: if_splits)

lemma picked_apart:
  assumes "names_apart S ns" and "n \<in> ns" shows "dir @ [pre @ n] \<notin> S"
  using assms by (fastforce simp: names_apart_def ends_with_def)

text \<open>A temporary file is new, in its directory, and never one of the paths in \<open>S\<close>.\<close>

lemma valid_sys_mkstemp:
  assumes "names_apart S ns" and "framed S W"
  shows "valid (held W ns) (sys_mkstemp dir pre)
    (\<lambda>(f, t). held (\<lambda>fs g. W fs g \<and> t \<notin> S \<and> fst f = t \<and> t = dir @ [path_name t]
        \<and> (\<exists>n. g t = Some n \<and> n_ino n = snd f \<and> n_kind n = Regular \<and> n_mode n = 384)
        \<and> (\<exists>g'. g' t = None \<and> W fs g' \<and> g = g'(t := g t))) ns) (\<lambda>_. held W ns)"
  unfolding sys_mkstemp_def
proof (rule valid_syscall [OF framed_stable [OF assms(2)]], rule validI)
  let ?m = "\<lambda>fs. if node_at fs dir = None then (Inl (FileNotFoundError ''''), fs)
     else case pick_name dir pre (fs_names fs) (fs_files fs) of
       None \<Rightarrow> (Inl (FileExistsError ''No usable temporary file name found''), fs)
     | Some (p, ns) \<Rightarrow>
         (Inr ((p, fs_clock fs), p),
          tick (set_node p (Some (new_node Regular 384 fs)) (fs\<lparr>fs_names := ns\<rparr>)))"
  show "held W ns fs'" if "held W ns fs" "?m fs = (Inl e, fs')" for fs e fs'
    using that by (auto split: if_splits option.splits)
  show "(case x of (f, t) \<Rightarrow> held (\<lambda>fs g. W fs g \<and> t \<notin> S \<and> fst f = t \<and> t = dir @ [path_name t]
        \<and> (\<exists>n. g t = Some n \<and> n_ino n = snd f \<and> n_kind n = Regular \<and> n_mode n = 384)
        \<and> (\<exists>g'. g' t = None \<and> W fs g' \<and> g = g'(t := g t))) ns) fs'"
    if u: "held W ns fs" and m: "?m fs = (Inr x, fs')" for fs x fs'
  proof -
    from m obtain p ms where p: "pick_name dir pre (fs_names fs) (fs_files fs) = Some (p, ms)"
      and x: "x = ((p, fs_clock fs), p)"
        "fs' = tick (set_node p (Some (new_node Regular 384 fs)) (fs\<lparr>fs_names := ms\<rparr>))"
      by (auto split: if_splits option.splits)
    from pick_name_Some [OF p] obtain n where n: "n \<in> set (fs_names fs)" "p = dir @ [pre @ n]"
      and ms: "set ms \<subseteq> set (fs_names fs)" and free: "node_at fs p = None"
      by (auto simp: node_at_def)
    have apart: "p \<notin> S" using picked_apart [OF assms(1)] n u by (auto simp: held_def)
    have at: "node_at fs' = (node_at fs)(p := Some (new_node Regular 384 fs))"
      by (simp add: x(2) node_at_set_node_fun)
    have W: "W fs' g = W fs g" for g
      by (simp add: x(2) stable_simps [OF framed_stable [OF assms(2)]])
    have "W fs (node_at fs)" using u by (simp add: held_def)
    moreover from this have "W fs (node_at fs')"
      unfolding at using assms(2) apart by (simp add: framed_def)
    moreover have "calm (fs_script fs') \<and> set (fs_names fs') \<subseteq> ns"
      using u ms by (auto simp: held_def x(2) tick_def)
    ultimately show ?thesis
      using apart n(2) free unfolding x(1) held_def
      by (auto simp: W at new_node_def path_name_def intro!: exI [of _ "node_at fs"])
  qed
qed

end
