(* ===== verification/Patch_Parser.thy ===== *)
theory Patch_Parser
  imports Prelude
begin

text \<open>
  The strict patch language of patching.py: \<open>parse_patch\<close> with \<open>_parse_add\<close> and
  \<open>_parse_update\<close>.  The source walks an index up to the closing marker; here the lines between
  the two markers are consumed as a list, and \<open>index < len(lines) - 1\<close> is the list being
  non-empty.  The regular expressions are the matchers \<open>file_header\<close>, \<open>move_header\<close> and
  \<open>hunk_header\<close>.
\<close>

section \<open>Data\<close>

datatype mark = Context | Removed | Added

record hunk =
  old_start :: "nat option"
  old_count :: "nat option"
  new_start :: "nat option"
  new_count :: "nat option"
  h_lines :: "(mark \<times> pystr) list"
  h_eof :: bool
  h_anchor :: "pystr option"

datatype operation = Add | Delete | Update | Move

record change =
  ch_operation :: operation
  ch_source :: pystr
  ch_destination :: "pystr option"
  ch_lines :: "pystr list"
  ch_hunks :: "hunk list"
  ch_eof :: bool

section \<open>Matchers\<close>

definition begin_patch :: pystr where "begin_patch = lit ''*** Begin Patch''"
definition end_patch :: pystr where "end_patch = lit ''*** End Patch''"
definition end_of_file :: pystr where "end_of_file = lit ''*** End of File''"
definition stars :: pystr where "stars = lit ''*** ''"
definition at_at :: pystr where "at_at = lit ''@@''"

text \<open>\<open>_FILE_HEADER\<close>: the operation word and a non-empty path (a line holds no newline).\<close>

definition file_header :: "pystr \<Rightarrow> (operation \<times> pystr) option" where
  "file_header line =
    (case strip_prefix (lit ''*** Add File: '') line of
       Some p \<Rightarrow> (if p = [] then None else Some (Add, p))
     | None \<Rightarrow>
    (case strip_prefix (lit ''*** Update File: '') line of
       Some p \<Rightarrow> (if p = [] then None else Some (Update, p))
     | None \<Rightarrow>
    (case strip_prefix (lit ''*** Delete File: '') line of
       Some p \<Rightarrow> (if p = [] then None else Some (Delete, p))
     | None \<Rightarrow> None)))"

definition move_header :: "pystr \<Rightarrow> pystr option" where
  "move_header line =
    (case strip_prefix (lit ''*** Move to: '') line of
       Some p \<Rightarrow> (if p = [] then None else Some p)
     | None \<Rightarrow> None)"

text \<open>\<open>Path(source).name == ""\<close>: every component is empty or a single dot.\<close>

definition path_name_empty :: "pystr \<Rightarrow> bool" where
  "path_name_empty p = list_all (\<lambda>c. c = [] \<or> c = lit ''.'') (split_on (of_char CHR ''/'') p)"

text \<open>\<open>(\d+)(?:,(\d+))?\<close> at the start of a text: the two numbers and what follows.\<close>

definition take_digits :: "pystr \<Rightarrow> (pystr \<times> pystr) option" where
  "take_digits s = (let d = takeWhile is_digit s in
     if d = [] then None else Some (d, dropWhile is_digit s))"

definition take_range :: "pystr \<Rightarrow> ((nat \<times> nat option) \<times> pystr) option" where
  "take_range s =
    (case take_digits s of
       None \<Rightarrow> None
     | Some (d, r) \<Rightarrow>
        (case r of
           c # r' \<Rightarrow>
             (if c = of_char CHR '','' then
                (case take_digits r' of
                   Some (d', r'') \<Rightarrow> Some ((int_of_digits d, Some (int_of_digits d')), r'')
                 | None \<Rightarrow> Some ((int_of_digits d, None), r))
              else Some ((int_of_digits d, None), r))
         | [] \<Rightarrow> Some ((int_of_digits d, None), r)))"

definition hunk_header :: "pystr \<Rightarrow> ((nat \<times> nat option) \<times> (nat \<times> nat option)) option" where
  "hunk_header line =
    (case strip_prefix (lit ''@@ -'') line of
       None \<Rightarrow> None
     | Some r \<Rightarrow>
        (case take_range r of
           None \<Rightarrow> None
         | Some (old, r1) \<Rightarrow>
            (case strip_prefix (lit '' +'') r1 of
               None \<Rightarrow> None
             | Some r2 \<Rightarrow>
                (case take_range r2 of
                   None \<Rightarrow> None
                 | Some (new, r3) \<Rightarrow>
                    (case strip_prefix (lit '' @@'') r3 of
                       None \<Rightarrow> None
                     | Some r4 \<Rightarrow>
                         if r4 = [] \<or> starts_with (lit '' '') r4 then Some (old, new)
                         else None)))))"

section \<open>The parser\<close>

text \<open>\<open>_parse_add\<close>: the added lines, the end-of-file flag and the remaining lines.\<close>

fun parse_add_from :: "pystr list \<Rightarrow> pystr list \<Rightarrow> bool \<Rightarrow> (pystr list \<times> bool \<times> pystr list) result"
  where
  "parse_add_from [] content eof = Inr (content, eof, [])"
| "parse_add_from (line # rest) content eof =
    (if starts_with stars line \<and> line \<noteq> end_of_file then Inr (content, eof, line # rest)
     else if line = end_of_file then
       (if eof then Inl (ValueError ''duplicate End of File marker'')
        else parse_add_from rest content True)
     else (case line of
         c # body \<Rightarrow>
           if c = of_char CHR ''+'' then
             (if eof then Inl (ValueError ''content follows End of File'')
              else parse_add_from rest (content @ [body]) eof)
           else Inl (ValueError ''invalid Add File line'')
       | [] \<Rightarrow> Inl (ValueError ''invalid Add File line'')))"

definition parse_add :: "pystr list \<Rightarrow> (pystr list \<times> bool \<times> pystr list) result" where
  "parse_add lines = parse_add_from lines [] False"

definition mark_of :: "nat \<Rightarrow> mark option" where
  "mark_of c = (if c = of_char CHR '' '' then Some Context
                else if c = of_char CHR ''+'' then Some Added
                else if c = of_char CHR ''-'' then Some Removed else None)"

text \<open>The inner loop of \<open>_parse_update\<close>: the lines of one hunk.\<close>

fun parse_hunk_lines ::
  "pystr list \<Rightarrow> (mark \<times> pystr) list \<Rightarrow> bool \<Rightarrow>
     ((mark \<times> pystr) list \<times> bool \<times> pystr list) result" where
  "parse_hunk_lines [] acc eof = Inr (acc, eof, [])"
| "parse_hunk_lines (line # rest) acc eof =
    (if starts_with at_at line \<or> (starts_with stars line \<and> line \<noteq> end_of_file) then
       Inr (acc, eof, line # rest)
     else if line = end_of_file then
       (if eof then Inl (ValueError ''duplicate End of File marker'')
        else parse_hunk_lines rest acc True)
     else (case line of
         c # body \<Rightarrow>
           (case mark_of c of
              Some m \<Rightarrow>
                if eof then Inl (ValueError ''content follows End of File'')
                else parse_hunk_lines rest (acc @ [(m, body)]) eof
            | None \<Rightarrow> Inl (ValueError ''invalid hunk line''))
       | [] \<Rightarrow> Inl (ValueError ''invalid hunk line'')))"

lemma parse_hunk_lines_length:
  "parse_hunk_lines lines acc eof = Inr (hl, e, rest) \<Longrightarrow> length rest \<le> length lines"
  by (induction lines acc eof rule: parse_hunk_lines.induct)
    (fastforce split: if_splits list.splits option.splits intro: le_SucI)+

text \<open>
  The header line of a hunk: its numbers, and the heading text that anchors it.
\<close>

definition parse_hunk_header ::
  "pystr \<Rightarrow> (((nat \<times> nat option) \<times> (nat \<times> nat option)) option \<times> pystr option) result" where
  "parse_hunk_header header =
    (case hunk_header header of
       Some r \<Rightarrow> Inr (Some r, None)
     | None \<Rightarrow>
         if header = at_at \<or> starts_with (lit ''@@ '') header then
           Inr (None, if header \<noteq> at_at then Some (drop 3 header) else None)
         else Inl (ValueError ''expected @@ hunk''))"

definition old_lines_of :: "(mark \<times> pystr) list \<Rightarrow> pystr list" where
  "old_lines_of ls = map snd (filter (\<lambda>(m, _). m = Context \<or> m = Removed) ls)"

definition new_lines_of :: "(mark \<times> pystr) list \<Rightarrow> pystr list" where
  "new_lines_of ls = map snd (filter (\<lambda>(m, _). m = Context \<or> m = Added) ls)"

text \<open>\<open>int(count or "1")\<close> where the header has numbers.\<close>

definition parsed_count :: "nat option \<Rightarrow> nat" where
  "parsed_count c = (case c of None \<Rightarrow> 1 | Some n \<Rightarrow> n)"

definition make_hunk ::
  "((nat \<times> nat option) \<times> (nat \<times> nat option)) option \<Rightarrow> pystr option \<Rightarrow> (mark \<times> pystr) list \<Rightarrow> bool
    \<Rightarrow> hunk" where
  "make_hunk nums anchor ls eof =
    \<lparr>old_start = map_option (fst \<circ> fst) nums,
     old_count = map_option (parsed_count \<circ> snd \<circ> fst) nums,
     new_start = map_option (fst \<circ> snd) nums,
     new_count = map_option (parsed_count \<circ> snd \<circ> snd) nums,
     h_lines = ls, h_eof = eof, h_anchor = anchor\<rparr>"

text \<open>\<open>_parse_update\<close>.\<close>

function parse_update_from ::
  "pystr list \<Rightarrow> hunk list \<Rightarrow> bool \<Rightarrow> (hunk list \<times> bool \<times> pystr list) result" where
  "parse_update_from lines hunks eof =
    (case lines of
       [] \<Rightarrow> Inr (hunks, eof, [])
     | header # rest \<Rightarrow>
        if starts_with stars header then Inr (hunks, eof, lines)
        else
          (case parse_hunk_header header of
             Inl e \<Rightarrow> Inl e
           | Inr (nums, anchor) \<Rightarrow>
              (case parse_hunk_lines rest [] False of
                 Inl e \<Rightarrow> Inl e
               | Inr (ls, hunk_eof, rest') \<Rightarrow>
                  let h = make_hunk nums anchor ls hunk_eof in
                  if old_count h \<noteq> None \<and> old_count h \<noteq> Some (length (old_lines_of ls)) then
                    Inl (ValueError ''hunk old line count'')
                  else if new_count h \<noteq> None \<and> new_count h \<noteq> Some (length (new_lines_of ls)) then
                    Inl (ValueError ''hunk new line count'')
                  else if hunk_eof \<and> (eof \<or> rest' \<noteq> [] \<and> starts_with at_at (hd rest')) then
                    Inl (ValueError ''End of File must be the final hunk marker'')
                  else parse_update_from rest' (hunks @ [h]) (eof \<or> hunk_eof))))"
  by pat_completeness auto
termination
  by (relation "measure (\<lambda>(lines, hunks, eof). length lines)")
    (auto dest: parse_hunk_lines_length simp: less_Suc_eq_le)

declare parse_update_from.simps [simp del]

definition parse_update :: "pystr list \<Rightarrow> (hunk list \<times> bool \<times> pystr list) result" where
  "parse_update lines = parse_update_from lines [] False"

text \<open>The optional \<open>Move to\<close> line after a file header.\<close>

definition parse_move :: "operation \<Rightarrow> pystr list \<Rightarrow> (pystr option \<times> pystr list) result" where
  "parse_move op lines =
    (case lines of
       [] \<Rightarrow> Inr (None, [])
     | line # rest \<Rightarrow>
        (case move_header line of
           None \<Rightarrow> Inr (None, lines)
         | Some d \<Rightarrow>
            if op \<noteq> Update then Inl (ValueError ''Move to is only valid after Update File'')
            else Inr (Some d, rest)))"

lemma parse_move_length: "parse_move op lines = Inr (d, rest) \<Longrightarrow> length rest \<le> length lines"
  by (auto simp: parse_move_def split: list.splits option.splits if_splits)

lemma parse_add_from_length:
  "parse_add_from lines content eof = Inr (c, e, rest) \<Longrightarrow> length rest \<le> length lines"
  by (induction lines content eof rule: parse_add_from.induct)
    (fastforce split: if_splits list.splits intro: le_SucI)+

lemma parse_update_from_length:
  "parse_update_from lines hunks eof = Inr (hs, e, rest) \<Longrightarrow> length rest \<le> length lines"
proof (induction lines hunks eof rule: parse_update_from.induct)
  case (1 lines hunks eof)
  from "1.prems" show ?case
    by (subst (asm) parse_update_from.simps)
      (fastforce split: list.splits if_splits sum.splits prod.splits simp: Let_def
        dest: parse_hunk_lines_length "1.IH")
qed

text \<open>The body of the outer loop of \<open>parse_patch\<close> at a file header: one change.\<close>

definition parse_change :: "pystr \<Rightarrow> pystr list \<Rightarrow> (change \<times> pystr list) result" where
  "parse_change line rest =
    (case file_header line of
       None \<Rightarrow> Inl (ValueError ''unexpected patch line'')
     | Some (op, source) \<Rightarrow>
        if path_name_empty source then Inl (ValueError ''patch file path must not be empty'')
        else
          (case parse_move op rest of
             Inl e \<Rightarrow> Inl e
           | Inr (destination, rest1) \<Rightarrow>
              if op = Add then
                (case parse_add rest1 of
                   Inl e \<Rightarrow> Inl e
                 | Inr (content, eof, rest2) \<Rightarrow>
                     Inr (\<lparr>ch_operation = Add, ch_source = source, ch_destination = None,
                           ch_lines = content, ch_hunks = [], ch_eof = eof\<rparr>, rest2))
              else if op = Delete then
                (if rest1 \<noteq> [] \<and> \<not> starts_with stars (hd rest1) then
                   Inl (ValueError ''Delete File cannot contain content'')
                 else
                   Inr (\<lparr>ch_operation = Delete, ch_source = source, ch_destination = None,
                         ch_lines = [], ch_hunks = [], ch_eof = False\<rparr>, rest1))
              else
                (case parse_update rest1 of
                   Inl e \<Rightarrow> Inl e
                 | Inr (hunks, eof, rest2) \<Rightarrow>
                     if hunks = [] \<and> destination = None then
                       Inl (ValueError ''Update File requires at least one @@ hunk'')
                     else
                       Inr (\<lparr>ch_operation = (if destination \<noteq> None then Move else Update),
                             ch_source = source, ch_destination = destination,
                             ch_lines = [], ch_hunks = hunks, ch_eof = eof\<rparr>, rest2))))"

lemma parse_change_length: "parse_change line rest = Inr (c, rest') \<Longrightarrow> length rest' \<le> length rest"
  by (auto simp: parse_change_def parse_add_def parse_update_def
      split: option.splits if_splits sum.splits prod.splits
      dest!: parse_move_length parse_add_from_length parse_update_from_length)

function parse_changes :: "pystr list \<Rightarrow> change list result" where
  "parse_changes lines =
    (case lines of
       [] \<Rightarrow> Inr []
     | line # rest \<Rightarrow>
        if line = [] then parse_changes rest
        else
          (case parse_change line rest of
             Inl e \<Rightarrow> Inl e
           | Inr (c, rest') \<Rightarrow> rbind (parse_changes rest') (\<lambda>cs. Inr (c # cs))))"
  by pat_completeness auto
termination
  by (relation "measure length") (auto dest: parse_change_length simp: less_Suc_eq_le)

declare parse_changes.simps [simp del]

text \<open>\<open>patch.replace("\r\n", "\n")\<close>.\<close>

fun crlf_to_lf :: "pystr \<Rightarrow> pystr" where
  "crlf_to_lf (c # d # s) =
     (if c = 13 \<and> d = 10 then 10 # crlf_to_lf s else c # crlf_to_lf (d # s))"
| "crlf_to_lf s = s"

definition patch_lines :: "pystr \<Rightarrow> pystr list" where
  "patch_lines patch =
    (let lines = split_on 10 (crlf_to_lf patch)
     in if last lines = [] then butlast lines else lines)"

definition parse_patch :: "pystr \<Rightarrow> change list result" where
  "parse_patch patch =
    (let lines = patch_lines patch in
     if lines = [] \<or> hd lines \<noteq> begin_patch then
       Inl (ValueError ''patch must start with *** Begin Patch'')
     else if last lines \<noteq> end_patch then
       Inl (ValueError ''patch must end with *** End Patch'')
     else
       (case parse_changes (butlast (tl lines)) of
          Inl e \<Rightarrow> Inl e
        | Inr [] \<Rightarrow> Inl (ValueError ''patch contains no file changes'')
        | Inr (c # cs) \<Rightarrow> Inr (c # cs)))"

section \<open>Every parsed patch is well formed\<close>

definition wf_hunk :: "hunk \<Rightarrow> bool" where
  "wf_hunk h \<longleftrightarrow>
     (old_count h \<noteq> None \<longrightarrow> old_count h = Some (length (old_lines_of (h_lines h))))
   \<and> (new_count h \<noteq> None \<longrightarrow> new_count h = Some (length (new_lines_of (h_lines h))))
   \<and> (old_start h = None \<longleftrightarrow> old_count h = None)
   \<and> (old_start h = None \<longleftrightarrow> new_start h = None) \<and> (old_start h = None \<longleftrightarrow> new_count h = None)
   \<and> (old_start h \<noteq> None \<longrightarrow> h_anchor h = None)"

text \<open>Only the last hunk of a file may carry the end-of-file marker.\<close>

definition eof_last :: "hunk list \<Rightarrow> bool \<Rightarrow> bool" where
  "eof_last hs eof \<longleftrightarrow> (\<forall>h \<in> set (butlast hs). \<not> h_eof h) \<and> (eof \<longleftrightarrow> hs \<noteq> [] \<and> h_eof (last hs))"

definition wf_change :: "change \<Rightarrow> bool" where
  "wf_change c \<longleftrightarrow> ch_source c \<noteq> [] \<and> \<not> path_name_empty (ch_source c) \<and>
    (case ch_operation c of
       Add \<Rightarrow> ch_destination c = None \<and> ch_hunks c = []
     | Delete \<Rightarrow> ch_destination c = None \<and> ch_hunks c = [] \<and> ch_lines c = [] \<and> \<not> ch_eof c
     | Update \<Rightarrow> ch_destination c = None \<and> ch_lines c = [] \<and> ch_hunks c \<noteq> []
         \<and> list_all wf_hunk (ch_hunks c) \<and> eof_last (ch_hunks c) (ch_eof c)
     | Move \<Rightarrow> (\<exists>d. ch_destination c = Some d \<and> d \<noteq> []) \<and> ch_lines c = []
         \<and> list_all wf_hunk (ch_hunks c) \<and> eof_last (ch_hunks c) (ch_eof c))"

text \<open>Where a list of hunk lines stops.\<close>

definition stops :: "pystr list \<Rightarrow> bool" where
  "stops ls \<longleftrightarrow> ls = [] \<or> starts_with at_at (hd ls) \<or> starts_with stars (hd ls) \<and> hd ls \<noteq> end_of_file"

lemma parse_hunk_lines_stops: "parse_hunk_lines ls acc eof = Inr (hl, e, rest) \<Longrightarrow> stops rest"
  by (induction ls acc eof rule: parse_hunk_lines.induct)
    (fastforce split: if_splits list.splits option.splits simp: stops_def)+

lemma parse_hunk_header_wf:
  "parse_hunk_header h = Inr (nums, anchor) \<Longrightarrow> nums \<noteq> None \<longrightarrow> anchor = None"
  by (auto simp: parse_hunk_header_def split: option.splits if_splits)

lemma eof_last_snoc: "eof_last hs False \<Longrightarrow> eof_last (hs @ [h]) (h_eof h)"
  by (cases hs rule: rev_cases) (auto simp: eof_last_def butlast_append)

lemma parse_update_from_wf:
  assumes "parse_update_from ls hs eof = Inr (hs', eof', rest)"
    and "list_all wf_hunk hs" and "eof_last hs eof"
    and "eof \<Longrightarrow> ls = [] \<or> starts_with stars (hd ls)"
  shows "list_all wf_hunk hs' \<and> eof_last hs' eof'"
  using assms
proof (induction ls hs eof rule: parse_update_from.induct)
  case (1 ls hs eof)
  show ?case
  proof (cases "ls = [] \<or> starts_with stars (hd ls)")
    case True
    then show ?thesis using "1.prems"
      by (subst (asm) parse_update_from.simps) (auto split: list.splits)
  next
    case False
    then obtain header tail where ls: "ls = header # tail" "\<not> starts_with stars header"
      by (cases ls) auto
    have "\<not> eof" using False "1.prems"(4) by blast
    obtain nums anchor where h: "parse_hunk_header header = Inr (nums, anchor)"
      using "1.prems"(1) ls
      by (subst (asm) parse_update_from.simps) (auto split: sum.splits)
    obtain hl e rest' where r: "parse_hunk_lines tail [] False = Inr (hl, e, rest')"
      using "1.prems"(1) ls h
      by (subst (asm) parse_update_from.simps) (auto split: sum.splits)
    let ?h = "make_hunk nums anchor hl e"
    have step: "parse_update_from rest' (hs @ [?h]) (eof \<or> e) = Inr (hs', eof', rest)"
      and old: "old_count ?h \<noteq> None \<longrightarrow> old_count ?h = Some (length (old_lines_of hl))"
      and new: "new_count ?h \<noteq> None \<longrightarrow> new_count ?h = Some (length (new_lines_of hl))"
      and fin: "e \<longrightarrow> rest' = [] \<or> \<not> starts_with at_at (hd rest')"
      using "1.prems"(1) ls h r
      by (subst (asm) parse_update_from.simps, auto simp: Let_def split: if_splits)+
    have "wf_hunk ?h"
      using old new parse_hunk_header_wf [OF h] by (auto simp: wf_hunk_def make_hunk_def)
    moreover have "eof_last (hs @ [?h]) (eof \<or> e)"
      using eof_last_snoc [of hs ?h] "1.prems"(3) \<open>\<not> eof\<close> by (simp add: make_hunk_def)
    moreover have "eof \<or> e \<Longrightarrow> rest' = [] \<or> starts_with stars (hd rest')"
      using fin \<open>\<not> eof\<close> parse_hunk_lines_stops [OF r] by (auto simp: stops_def)
    ultimately show ?thesis
      using "1.IH" ls h r old new fin step "1.prems"(2) \<open>\<not> eof\<close> by (auto simp: Let_def)
  qed
qed

lemma parse_update_wf:
  "parse_update ls = Inr (hs, eof, rest) \<Longrightarrow> list_all wf_hunk hs \<and> eof_last hs eof"
  unfolding parse_update_def by (erule parse_update_from_wf) (simp_all add: eof_last_def)

lemma file_header_nonempty:
  "file_header line = Some (op, p) \<Longrightarrow> p \<noteq> [] \<and> (op = Add \<or> op = Update \<or> op = Delete)"
  by (auto simp: file_header_def split: option.splits if_splits)

lemma parse_move_dest: "parse_move op ls = Inr (Some d, rest) \<Longrightarrow> d \<noteq> [] \<and> op = Update"
  by (auto simp: parse_move_def move_header_def split: list.splits option.splits if_splits)

lemma parse_change_wf: "parse_change line rest = Inr (c, rest') \<Longrightarrow> wf_change c"
  by (auto simp: parse_change_def wf_change_def
      split: option.splits if_splits sum.splits prod.splits operation.splits
      dest!: file_header_nonempty parse_move_dest parse_update_wf)

lemma parse_changes_wf: "parse_changes ls = Inr cs \<Longrightarrow> list_all wf_change cs"
proof (induction ls arbitrary: cs rule: parse_changes.induct)
  case (1 ls)
  from "1.prems" show ?case
    by (subst (asm) parse_changes.simps)
      (fastforce split: list.splits if_splits sum.splits prod.splits
        simp: result_simps dest: parse_change_wf "1.IH")
qed

section \<open>Printing a patch and reading it back\<close>

text \<open>
  A printer for changes, the specification of the patch language: it is not part of the program.
\<close>

definition mark_char :: "mark \<Rightarrow> nat" where
  "mark_char m = (case m of Context \<Rightarrow> of_char CHR '' '' | Added \<Rightarrow> of_char CHR ''+''
                  | Removed \<Rightarrow> of_char CHR ''-'')"

definition print_range :: "nat \<Rightarrow> nat \<Rightarrow> pystr" where
  "print_range a b = digits_of_nat a @ lit '','' @ digits_of_nat b"

definition print_hunk_header :: "hunk \<Rightarrow> pystr" where
  "print_hunk_header h =
    (case (old_start h, old_count h, new_start h, new_count h) of
       (Some a, Some b, Some c, Some d) \<Rightarrow>
         lit ''@@ -'' @ print_range a b @ lit '' +'' @ print_range c d @ lit '' @@''
     | _ \<Rightarrow> (case h_anchor h of None \<Rightarrow> at_at | Some t \<Rightarrow> lit ''@@ '' @ t))"

definition print_hunk :: "hunk \<Rightarrow> pystr list" where
  "print_hunk h = print_hunk_header h # map (\<lambda>(m, t). mark_char m # t) (h_lines h)
     @ (if h_eof h then [end_of_file] else [])"

definition op_word :: "operation \<Rightarrow> string" where
  "op_word op = (case op of Add \<Rightarrow> ''*** Add File: '' | Delete \<Rightarrow> ''*** Delete File: ''
     | Update \<Rightarrow> ''*** Update File: '' | Move \<Rightarrow> ''*** Update File: '')"

definition print_change :: "change \<Rightarrow> pystr list" where
  "print_change c = [lit (op_word (ch_operation c)) @ ch_source c]
     @ (case ch_destination c of None \<Rightarrow> [] | Some d \<Rightarrow> [lit ''*** Move to: '' @ d])
     @ (if ch_operation c = Add then
          map ((#) (of_char CHR ''+'')) (ch_lines c) @ (if ch_eof c then [end_of_file] else [])
        else concat (map print_hunk (ch_hunks c)))"

definition print_patch :: "change list \<Rightarrow> pystr" where
  "print_patch cs =
     join_with [10] (begin_patch # concat (map print_change cs) @ [end_patch]) @ [10]"

text \<open>
  What the printed form needs beyond well-formedness: one line per text, and a heading that is not
  itself a line range.
\<close>

definition printable_text :: "pystr \<Rightarrow> bool" where
  "printable_text t \<longleftrightarrow> 10 \<notin> set t \<and> (t = [] \<or> last t \<noteq> 13)"

definition printable_hunk :: "hunk \<Rightarrow> bool" where
  "printable_hunk h \<longleftrightarrow> (\<forall>(m, t) \<in> set (h_lines h). printable_text t)
     \<and> (case h_anchor h of None \<Rightarrow> True
        | Some t \<Rightarrow> printable_text t \<and> hunk_header (lit ''@@ '' @ t) = None)"

definition printable_change :: "change \<Rightarrow> bool" where
  "printable_change c \<longleftrightarrow> printable_text (ch_source c) \<and> list_all printable_text (ch_lines c)
     \<and> (case ch_destination c of None \<Rightarrow> True | Some d \<Rightarrow> printable_text d)
     \<and> list_all printable_hunk (ch_hunks c)"

lemmas patch_markers = begin_patch_def end_patch_def end_of_file_def stars_def at_at_def

lemma mark_of_char [simp]: "mark_of (mark_char m) = Some m"
  by (cases m) (auto simp: mark_of_def mark_char_def)

lemma hunk_line_plain:
  "\<not> starts_with at_at (mark_char m # t)" "\<not> starts_with stars (mark_char m # t)"
  "mark_char m # t \<noteq> end_of_file"
  by (cases m; simp add: mark_char_def patch_markers)+

lemma end_of_file_plain: "\<not> starts_with at_at end_of_file"
  by (simp add: patch_markers)

lemma parse_hunk_lines_print:
  assumes "stops rest"
  shows "parse_hunk_lines (map (\<lambda>(m, t). mark_char m # t) ls
      @ (if e then [end_of_file] else []) @ rest) acc False = Inr (acc @ ls, e, rest)"
proof (induction ls arbitrary: acc)
  case Nil
  have "parse_hunk_lines rest acc f = Inr (acc, f, rest)" for f
    using assms by (cases rest) (auto simp: stops_def)
  then show ?case by (auto simp: end_of_file_plain)
next
  case (Cons l ls)
  obtain m t where "l = (m, t)" by (cases l)
  with Cons.IH [of "acc @ [(m, t)]"] show ?case by (simp add: hunk_line_plain)
qed

lemma take_range_print:
  assumes "rest \<noteq> []" and "\<not> is_digit (hd rest)"
  shows "take_range (print_range a b @ rest) = Some ((a, Some b), rest)"
proof -
  have comma: "\<not> is_digit 44" by (simp add: is_digit_def digit_val_def nd_zeros_def)
  have "takeWhile is_digit (digits_of_nat b @ rest) = digits_of_nat b"
    "dropWhile is_digit (digits_of_nat b @ rest) = rest"
    using takeWhile_append_stop [of "digits_of_nat b" is_digit rest] digits_of_nat_digits assms
    by auto
  then have b: "take_digits (digits_of_nat b @ rest) = Some (digits_of_nat b, rest)"
    by (simp add: take_digits_def Let_def)
  have "takeWhile is_digit (digits_of_nat a @ 44 # digits_of_nat b @ rest) = digits_of_nat a"
    "dropWhile is_digit (digits_of_nat a @ 44 # digits_of_nat b @ rest) = 44 # digits_of_nat b @ rest"
    using takeWhile_append_stop [of "digits_of_nat a" is_digit "44 # digits_of_nat b @ rest"]
      digits_of_nat_digits comma by auto
  then have "take_digits (digits_of_nat a @ 44 # digits_of_nat b @ rest)
      = Some (digits_of_nat a, 44 # digits_of_nat b @ rest)"
    by (simp add: take_digits_def Let_def)
  with b show ?thesis by (simp add: take_range_def print_range_def)
qed

lemma space_not_digit: "\<not> is_digit 32"
  by (simp add: is_digit_def digit_val_def nd_zeros_def)

lemma hunk_header_print:
  "hunk_header (lit ''@@ -'' @ print_range a b @ lit '' +'' @ print_range c d @ lit '' @@'')
    = Some ((a, Some b), (c, Some d))"
proof -
  have "take_range (print_range a b @ lit '' +'' @ r) = Some ((a, Some b), lit '' +'' @ r)" for r
    by (rule take_range_print) (simp_all add: space_not_digit)
  moreover have "take_range (print_range c d @ lit '' @@'') = Some ((c, Some d), lit '' @@'')"
    by (rule take_range_print) (simp_all add: space_not_digit)
  ultimately show ?thesis
    by (simp only: hunk_header_def strip_prefix_append option.case prod.case)
      (simp only: strip_prefix_append [of _ "[]", unfolded append_Nil2] option.case, simp)
qed

lemma hunk_header_at: "hunk_header at_at = None"
  by (simp add: hunk_header_def at_at_def)

lemma parse_hunk_header_print:
  assumes "wf_hunk h" and "printable_hunk h"
  shows "\<exists>nums. parse_hunk_header (print_hunk_header h) = Inr (nums, h_anchor h)
    \<and> make_hunk nums (h_anchor h) (h_lines h) (h_eof h) = h"
proof (cases "old_start h")
  case None
  then have none: "old_count h = None" "new_start h = None" "new_count h = None"
    using assms(1) by (auto simp: wf_hunk_def)
  have "make_hunk None (h_anchor h) (h_lines h) (h_eof h) = h"
    using None none by (simp add: make_hunk_def)
  moreover have "parse_hunk_header (print_hunk_header h) = Inr (None, h_anchor h)"
    using None none assms(2) hunk_header_at
    by (cases "h_anchor h")
      (auto simp: print_hunk_header_def parse_hunk_header_def printable_hunk_def at_at_def)
  ultimately show ?thesis by blast
next
  case (Some a)
  then obtain b c d where some: "old_count h = Some b" "new_start h = Some c" "new_count h = Some d"
    "h_anchor h = None" using assms(1) by (auto simp: wf_hunk_def)
  let ?n = "Some ((a, Some b), (c, Some d))"
  have "parse_hunk_header (print_hunk_header h) = Inr (?n, h_anchor h)"
    using Some some hunk_header_print
    by (simp add: print_hunk_header_def parse_hunk_header_def del: append_assoc lit_simps)
  moreover have "make_hunk ?n (h_anchor h) (h_lines h) (h_eof h) = h"
    using Some some by (simp add: make_hunk_def parsed_count_def)
  ultimately show ?thesis by blast
qed

text \<open>The lines that may follow a change: none, or a line with a file header's stars.\<close>

definition after_change :: "pystr list \<Rightarrow> bool" where
  "after_change ls \<longleftrightarrow> ls = [] \<or> starts_with stars (hd ls) \<and> hd ls \<noteq> end_of_file
     \<and> move_header (hd ls) = None"

lemma hunk_header_line_plain:
  "\<not> starts_with stars (print_hunk_header h)" "starts_with at_at (print_hunk_header h)"
  by (auto simp: print_hunk_header_def patch_markers split: option.splits)

lemma parse_update_from_nil:
  "ls = [] \<or> starts_with stars (hd ls) \<Longrightarrow> parse_update_from ls hs eof = Inr (hs, eof, ls)"
  by (subst parse_update_from.simps) (auto split: list.splits)

lemma parse_update_from_step:
  assumes "\<not> starts_with stars header" and "parse_hunk_header header = Inr (nums, anchor)"
    and "parse_hunk_lines tail [] False = Inr (ls, e, rest)"
    and "make_hunk nums anchor ls e = h"
    and "\<not> (old_count h \<noteq> None \<and> old_count h \<noteq> Some (length (old_lines_of ls)))"
    and "\<not> (new_count h \<noteq> None \<and> new_count h \<noteq> Some (length (new_lines_of ls)))"
    and "\<not> (e \<and> (eof \<or> rest \<noteq> [] \<and> starts_with at_at (hd rest)))"
  shows "parse_update_from (header # tail) hs eof = parse_update_from rest (hs @ [h]) (eof \<or> e)"
  using assms by (subst parse_update_from.simps) (auto simp: Let_def)

lemma parse_update_from_print:
  assumes "list_all wf_hunk hs" and "list_all printable_hunk hs" and "after_change rest"
    and "eof_last hs eof"
  shows "parse_update_from (concat (map print_hunk hs) @ rest) acc False = Inr (acc @ hs, eof, rest)"
  using assms(1,2,4)
proof (induction hs arbitrary: acc)
  case Nil
  then show ?case using parse_update_from_nil assms(3) by (auto simp: after_change_def eof_last_def)
next
  case (Cons h hs)
  let ?more = "concat (map print_hunk hs) @ rest"
  obtain nums where nums: "parse_hunk_header (print_hunk_header h) = Inr (nums, h_anchor h)"
    "make_hunk nums (h_anchor h) (h_lines h) (h_eof h) = h"
    using parse_hunk_header_print Cons.prems by auto
  have more_stops: "stops ?more"
  proof (cases hs)
    case Nil
    then show ?thesis using assms(3) by (auto simp: stops_def after_change_def)
  next
    case (Cons h' hs')
    then show ?thesis by (simp add: stops_def print_hunk_def hunk_header_line_plain)
  qed
  have ls: "parse_hunk_lines (map (\<lambda>(m, t). mark_char m # t) (h_lines h)
      @ (if h_eof h then [end_of_file] else []) @ ?more) [] False = Inr (h_lines h, h_eof h, ?more)"
    using parse_hunk_lines_print [OF more_stops, of "h_lines h" "h_eof h" "[]"] by simp
  have last_eof: "h_eof h \<Longrightarrow> hs = []" using Cons.prems(3) by (auto simp: eof_last_def split: if_splits)
  have rest_plain: "rest = [] \<or> \<not> starts_with at_at (hd rest)"
    using assms(3) by (cases rest; cases "hd rest") (auto simp: after_change_def patch_markers)
  have final: "\<not> (h_eof h \<and> (?more \<noteq> [] \<and> starts_with at_at (hd ?more)))"
    using last_eof rest_plain by auto
  have counts: "\<not> (old_count h \<noteq> None \<and> old_count h \<noteq> Some (length (old_lines_of (h_lines h))))"
    "\<not> (new_count h \<noteq> None \<and> new_count h \<noteq> Some (length (new_lines_of (h_lines h))))"
    using Cons.prems(1) by (auto simp: wf_hunk_def)
  have step: "parse_update_from (print_hunk h @ ?more) acc False
      = parse_update_from ?more (acc @ [h]) (h_eof h)"
    using parse_update_from_step [OF hunk_header_line_plain(1) nums(1) ls nums(2) counts] final
    by (simp add: print_hunk_def)
  show ?case
  proof (cases "h_eof h")
    case True
    then have "hs = []" by (rule last_eof)
    then have "eof" using Cons.prems(3) True by (simp add: eof_last_def)
    with True \<open>hs = []\<close> step parse_update_from_nil assms(3) show ?thesis
      by (auto simp: after_change_def)
  next
    case False
    then have "eof_last hs eof" using Cons.prems(3) by (auto simp: eof_last_def split: if_splits)
    with False step Cons.IH [of "acc @ [h]"] Cons.prems show ?thesis by simp
  qed
qed

lemma parse_add_print:
  assumes "after_change rest"
  shows "parse_add (map ((#) (of_char CHR ''+'')) ls @ (if e then [end_of_file] else []) @ rest)
    = Inr (ls, e, rest)"
proof -
  have stop: "parse_add_from rest acc f = Inr (acc, f, rest)" for acc f
    using assms by (cases rest) (auto simp: after_change_def)
  have "parse_add_from (map ((#) (of_char CHR ''+'')) ls
      @ (if e then [end_of_file] else []) @ rest) acc False = Inr (acc @ ls, e, rest)" for acc
    by (induction ls arbitrary: acc) (auto simp: stop patch_markers)
  then show ?thesis by (simp add: parse_add_def)
qed

lemma file_header_print:
  "p \<noteq> [] \<Longrightarrow> file_header (lit (op_word op) @ p) = Some (if op = Move then Update else op, p)"
  by (cases op) (simp_all add: file_header_def op_word_def)

lemma move_header_print: "d \<noteq> [] \<Longrightarrow> move_header (lit ''*** Move to: '' @ d) = Some d"
  by (simp add: move_header_def)

lemma header_after_change: "p \<noteq> [] \<Longrightarrow> after_change ((lit (op_word op) @ p) # ls)"
  by (cases op) (simp_all add: after_change_def op_word_def patch_markers move_header_def)

lemma no_move_on_hunks:
  assumes "after_change rest"
  shows "parse_move op (concat (map print_hunk hs) @ rest) = Inr (None, concat (map print_hunk hs) @ rest)"
proof (cases hs)
  case Nil
  then show ?thesis using assms by (auto simp: parse_move_def after_change_def split: list.splits)
next
  case (Cons h hs')
  have "move_header (print_hunk_header h) = None"
    by (auto simp: print_hunk_header_def move_header_def at_at_def split: option.splits)
  then show ?thesis using Cons by (simp add: parse_move_def print_hunk_def)
qed

lemma no_move_on_added:
  assumes "after_change rest"
  shows "parse_move op (map ((#) (of_char CHR ''+'')) ls @ (if e then [end_of_file] else []) @ rest)
    = Inr (None, map ((#) (of_char CHR ''+'')) ls @ (if e then [end_of_file] else []) @ rest)"
  using assms by (cases ls; cases e; cases rest)
    (auto simp: parse_move_def after_change_def move_header_def patch_markers)

lemma parse_change_print:
  assumes wf: "wf_change c" and pr: "printable_change c" and "after_change rest"
  shows "\<exists>line body. print_change c @ rest = line # body \<and> line \<noteq> []
    \<and> parse_change line body = Inr (c, rest)"
proof -
  let ?line = "lit (op_word (ch_operation c)) @ ch_source c"
  let ?body = "tl (print_change c) @ rest"
  have src: "ch_source c \<noteq> []" "\<not> path_name_empty (ch_source c)"
    using wf by (simp_all add: wf_change_def)
  have cons: "print_change c @ rest = ?line # ?body" by (simp add: print_change_def)
  have line: "?line \<noteq> []" using src by simp
  have c: "c = \<lparr>ch_operation = ch_operation c, ch_source = ch_source c,
    ch_destination = ch_destination c, ch_lines = ch_lines c, ch_hunks = ch_hunks c,
    ch_eof = ch_eof c\<rparr>" by simp
  have hunks: "parse_update (concat (map print_hunk (ch_hunks c)) @ rest)
      = Inr (ch_hunks c, ch_eof c, rest)"
    if "list_all wf_hunk (ch_hunks c)" "eof_last (ch_hunks c) (ch_eof c)"
    using parse_update_from_print [OF that(1) _ assms(3) that(2), of "[]"] pr
    by (simp add: parse_update_def printable_change_def)
  note facts = file_header_print [OF src(1)] src no_move_on_hunks [OF assms(3)]
  have "parse_change ?line ?body = Inr (c, rest)"
  proof (cases "ch_operation c")
    case Add
    then have "ch_destination c = None" "ch_hunks c = []" using wf by (simp_all add: wf_change_def)
    with Add facts no_move_on_added [OF assms(3)] parse_add_print [OF assms(3)] show ?thesis
      by (simp add: parse_change_def print_change_def)
  next
    case Delete
    then have d: "ch_destination c = None" "ch_hunks c = []" "ch_lines c = []" "\<not> ch_eof c"
      using wf by (simp_all add: wf_change_def)
    with Delete facts no_move_on_hunks [OF assms(3), of Delete "[]"] assms(3) show ?thesis
      by (auto simp: parse_change_def print_change_def after_change_def)
  next
    case Update
    then have "ch_destination c = None" "ch_lines c = []" "ch_hunks c \<noteq> []"
      "list_all wf_hunk (ch_hunks c)" "eof_last (ch_hunks c) (ch_eof c)"
      using wf by (simp_all add: wf_change_def)
    with Update facts hunks show ?thesis by (simp add: parse_change_def print_change_def)
  next
    case Move
    then obtain d where "ch_destination c = Some d" "d \<noteq> []" "ch_lines c = []"
      "list_all wf_hunk (ch_hunks c)" "eof_last (ch_hunks c) (ch_eof c)"
      using wf by (auto simp: wf_change_def)
    with Move facts hunks move_header_print [of d] show ?thesis
      by (simp add: parse_change_def print_change_def parse_move_def)
  qed
  with cons line show ?thesis by blast
qed

lemma parse_changes_print:
  assumes "list_all wf_change cs" and "list_all printable_change cs"
  shows "parse_changes (concat (map print_change cs)) = Inr cs"
  using assms
proof (induction cs)
  case Nil
  then show ?case by (simp add: parse_changes.simps)
next
  case (Cons c cs)
  let ?rest = "concat (map print_change cs)"
  have "after_change ?rest"
  proof (cases cs)
    case Nil
    then show ?thesis by (simp add: after_change_def)
  next
    case (Cons c' cs')
    then have "ch_source c' \<noteq> []" using Cons.prems by (simp add: wf_change_def)
    then show ?thesis using Cons header_after_change by (simp add: print_change_def)
  qed
  moreover have "wf_change c" "printable_change c" using Cons.prems by simp_all
  ultimately obtain line body where "print_change c @ ?rest = line # body" "line \<noteq> []"
    "parse_change line body = Inr (c, ?rest)"
    using parse_change_print by blast
  with Cons show ?case by (simp add: parse_changes.simps [of "line # body"])
qed

lemma join_with_snoc: "ls \<noteq> [] \<Longrightarrow> join_with sep (ls @ [p]) = join_with sep ls @ sep @ p"
  by (induction sep ls rule: join_with.induct) auto

lemma crlf_to_lf_id:
  "(\<And>xs ys. s \<noteq> xs @ 13 # 10 # ys) \<Longrightarrow> crlf_to_lf s = s"
proof (induction s rule: crlf_to_lf.induct)
  case (1 c d s)
  have "\<not> (c = 13 \<and> d = 10)" using "1.prems" [of "[]"] by auto
  moreover have "d # s \<noteq> xs @ 13 # 10 # ys" for xs ys
    using "1.prems" [of "c # xs" ys] by auto
  ultimately show ?case using "1.IH"(2) by simp
qed simp_all

lemma no_crlf_join:
  assumes "\<forall>p \<in> set ps. printable_text p"
  shows "join_with [10] ps @ [10] \<noteq> xs @ 13 # 10 # ys"
  using assms
proof (induction ps arbitrary: xs)
  case Nil
  then show ?case by (cases xs) auto
next
  case (Cons p ps)
  have p: "10 \<notin> set p" "p = [] \<or> last p \<noteq> 13" using Cons.prems by (auto simp: printable_text_def)
  show ?case
  proof
    assume eq: "join_with [10] (p # ps) @ [10] = xs @ 13 # 10 # ys"
    obtain tail where tail: "join_with [10] (p # ps) @ [10] = p @ 10 # tail"
      "ps = [] \<Longrightarrow> tail = []" "ps \<noteq> [] \<Longrightarrow> tail = join_with [10] ps @ [10]"
      by (cases ps) auto
    have "p @ 10 # tail = xs @ 13 # 10 # ys" using eq tail(1) by simp
    then obtain us where "p = xs @ us \<and> us @ 10 # tail = 13 # 10 # ys
        \<or> xs = p @ us \<and> 10 # tail = us @ 13 # 10 # ys"
      by (auto simp: append_eq_append_conv2)
    then show False
    proof (elim disjE conjE)
      assume us: "p = xs @ us" "us @ 10 # tail = 13 # 10 # ys"
      show False
      proof (cases us)
        case Nil
        with us show False by simp
      next
        case (Cons u vs)
        with us have "u = 13" "vs @ 10 # tail = 10 # ys" by simp_all
        with us Cons p show False by (cases vs) auto
      qed
    next
      assume us: "10 # tail = us @ 13 # 10 # ys"
      then obtain vs where "us = 10 # vs" by (cases us) auto
      then have "tail = vs @ 13 # 10 # ys" using us by simp
      moreover have "ps \<noteq> []" using tail(2) calculation by (cases vs) auto
      ultimately show False using Cons tail(3) by auto
    qed
  qed
qed

lemma print_change_printable:
  assumes "printable_change c" "ch_source c \<noteq> []" "ch_destination c \<noteq> Some []"
  shows "\<forall>p \<in> set (print_change c). printable_text p"
proof -
  have eof: "printable_text end_of_file" by (simp add: printable_text_def patch_markers)
  have digits: "printable_text (s @ digits_of_nat n) \<longleftrightarrow> 10 \<notin> set s" for s n
  proof -
    have "\<not> is_digit 13" "\<not> is_digit 10"
      by (simp_all add: is_digit_def digit_val_def nd_zeros_def)
    then have "last (digits_of_nat n) \<noteq> 13" "10 \<notin> set (digits_of_nat n)"
      using digits_of_nat_digits [of n] last_in_set [OF digits_of_nat_nonempty [of n]] by metis+
    then show ?thesis by (auto simp: printable_text_def)
  qed
  have "printable_text (print_hunk_header h)" if "printable_hunk h" for h
  proof -
    have "10 \<notin> set (digits_of_nat n)" for n using digits [of "[]" n] by (simp add: printable_text_def)
    then show ?thesis using that
      by (auto simp: print_hunk_header_def printable_hunk_def print_range_def at_at_def
          printable_text_def split: option.splits)
  qed
  moreover have "printable_text (mark_char m # t)" if "printable_text t" for m t
    using that by (cases m) (auto simp: printable_text_def mark_char_def)
  ultimately have "\<forall>p \<in> set (print_hunk h). printable_text p" if "printable_hunk h" for h
    using that eof by (auto simp: print_hunk_def printable_hunk_def)
  then have hunks: "\<forall>p \<in> set (concat (map print_hunk (ch_hunks c))). printable_text p"
    using assms(1) by (auto simp: printable_change_def list_all_iff)
  have prefixed: "printable_text (w @ s)" if "10 \<notin> set w" "s \<noteq> []" "printable_text s" for w s
    using that by (simp add: printable_text_def)
  have "10 \<notin> set (lit (op_word (ch_operation c)))"
    by (cases "ch_operation c") (simp_all add: op_word_def)
  then have head: "printable_text (lit (op_word (ch_operation c)) @ ch_source c)"
    using assms by (intro prefixed) (simp_all add: printable_change_def)
  have move: "printable_text (lit ''*** Move to: '' @ d)" if "ch_destination c = Some d" for d
    using assms that by (intro prefixed) (auto simp: printable_change_def)
  have added: "\<forall>p \<in> set (map ((#) (of_char CHR ''+'')) (ch_lines c)). printable_text p"
    using assms(1) by (auto simp: printable_change_def list_all_iff printable_text_def)
  show ?thesis
    using head move added hunks eof
    by (cases "ch_destination c") (auto simp: print_change_def simp del: lit_simps)
qed

text \<open>The lines of a printed patch.\<close>

lemma patch_lines_print:
  assumes "list_all wf_change cs" and "list_all printable_change cs"
  shows "patch_lines (print_patch cs) = begin_patch # concat (map print_change cs) @ [end_patch]"
proof -
  let ?ls = "begin_patch # concat (map print_change cs) @ [end_patch]"
  have printable: "\<forall>p \<in> set ?ls. printable_text p"
  proof -
    have "\<forall>p \<in> set (print_change c). printable_text p" if "c \<in> set cs" for c
    proof (rule print_change_printable)
      have wf: "wf_change c" using assms(1) that by (simp add: list_all_iff)
      show "printable_change c" using assms(2) that by (simp add: list_all_iff)
      show "ch_source c \<noteq> []" using wf by (simp add: wf_change_def)
      show "ch_destination c \<noteq> Some []"
        using wf by (cases "ch_operation c") (auto simp: wf_change_def)
    qed
    moreover have "printable_text begin_patch" "printable_text end_patch"
      by (simp_all add: printable_text_def patch_markers)
    ultimately show ?thesis by auto
  qed
  then have "crlf_to_lf (print_patch cs) = print_patch cs"
    by (intro crlf_to_lf_id) (auto simp only: print_patch_def dest: no_crlf_join)
  moreover have "print_patch cs = join_with [10] (?ls @ [[]])"
    using join_with_snoc [of ?ls "[10]" "[]"] by (simp add: print_patch_def)
  moreover have "split_on 10 (join_with [10] (?ls @ [[]])) = ?ls @ [[]]"
    using printable by (intro split_join) (auto simp: printable_text_def)
  ultimately show ?thesis by (simp add: patch_lines_def Let_def butlast_append)
qed

text \<open>
  C34: reading back a printed patch gives the changes it was printed from, for every non-empty list
  of well-formed changes whose texts fit on one line.
\<close>

theorem parse_print_patch:
  assumes "cs \<noteq> []" and "list_all wf_change cs" and "list_all printable_change cs"
  shows "parse_patch (print_patch cs) = Inr cs"
  using assms parse_changes_print [OF assms(2,3)]
  by (cases cs) (simp_all add: parse_patch_def patch_lines_print butlast_append)

definition sample_change :: change where
  "sample_change = \<lparr>ch_operation = Move, ch_source = lit ''a'', ch_destination = Some (lit ''b''),
    ch_lines = [],
    ch_hunks = [\<lparr>old_start = Some 3, old_count = Some 1, new_start = Some 3, new_count = Some 2,
      h_lines = [(Context, lit ''x''), (Added, lit ''@@ y'')], h_eof = True, h_anchor = None\<rparr>],
    ch_eof = True\<rparr>"

theorem parse_print_patch_witness:
  "parse_patch (print_patch [sample_change]) = Inr [sample_change]"
  by (rule parse_print_patch)
    (simp_all add: sample_change_def wf_change_def wf_hunk_def eof_last_def printable_change_def
      printable_hunk_def printable_text_def path_name_empty_def old_lines_of_def new_lines_of_def)

text \<open>
  C39: what the parser accepts is a non-empty list of well-formed changes: sources and destinations
  are not empty, the counts of a hunk header are those of its lines, an update has a hunk or a
  destination, and an end-of-file marker stands on the last hunk only.
\<close>

theorem parse_patch_wf:
  assumes "parse_patch p = Inr cs"
  shows "cs \<noteq> [] \<and> list_all wf_change cs"
proof -
  have "parse_changes (butlast (tl (patch_lines p))) = Inr cs \<and> cs \<noteq> []"
    using assms by (auto simp: parse_patch_def Let_def split: if_splits list.splits sum.splits)
  then show ?thesis using parse_changes_wf by blast
qed

definition sample_delete :: change where
  "sample_delete = \<lparr>ch_operation = Delete, ch_source = lit ''a'', ch_destination = None,
    ch_lines = [], ch_hunks = [], ch_eof = False\<rparr>"

lemma parse_sample_delete:
  "parse_patch (lit ''*** Begin Patch'' @ 10 # lit ''*** Delete File: a'' @ 10 # lit ''*** End Patch'')
    = Inr [sample_delete]"
  by code_simp

theorem parse_patch_wf_witness: "[sample_delete] \<noteq> [] \<and> list_all wf_change [sample_delete]"
  by (rule parse_patch_wf [OF parse_sample_delete])

end
