(* ===== verification/File_Transactions.thy ===== *)
theory File_Transactions
  imports Filesystem Patch_Parser
begin

text \<open>
  The multi-file transaction of file_transactions.py: reading the states, staging the new contents and
  the backups, verifying, replacing, and on any exception rolling back and cleaning up.  The local
  variables of \<open>_commit\<close> that its handlers read are fields of the state.  Hashes, the line diff and
  the history store are parameters.
\<close>

section \<open>States and plans\<close>

record file_state =
  s_path :: path
  s_display :: pystr
  s_exists :: bool
  s_data :: "bytes option"
  s_info :: "node option"

record plan =
  pl_operation :: operation
  pl_path :: path
  pl_display :: pystr
  pl_source :: "path option"
  pl_source_display :: "pystr option"
  pl_source_old :: "bytes option"
  pl_source_old_info :: "node option"
  pl_old :: "bytes option"
  pl_new :: "bytes option"
  pl_old_info :: "node option"
  pl_mode :: "nat option"

record committed_entry =
  c_path :: path
  c_old :: "bytes option"
  c_old_info :: "node option"
  c_new :: "bytes option"
  c_info :: "node option"

record txn = fsys +
  temporaries :: "(path \<times> path) list"
  backups :: "(path \<times> path) list"
  created_dirs :: "(path \<times> nat) list"
  artifact_parents :: "(path \<times> fd \<times> nat) list"
  committed :: "committed_entry list"
  preserve_backups :: bool

record change_entry =
  e_operation :: operation
  e_path :: pystr
  e_changed :: bool
  e_old_revision :: "pystr option"
  e_revision :: "pystr option"
  e_size :: nat
  e_source :: "pystr option"

record patch_result =
  r_changes :: "change_entry list"
  r_dry_run :: bool
  r_diff :: pystr
  r_diff_truncated :: bool
  r_warnings :: "string list"
  r_history :: "(bool \<times> bool) option"   \<comment> \<open>history_recorded, history_partial\<close>

text \<open>
  What the transaction takes from outside: the hash of a content, the lines of a unified diff, the
  history limit of a path (none for a path without history) and the history store's recording.
\<close>

record env =
  sha :: "bytes \<Rightarrow> pystr"
  unified_diff :: "pystr list \<Rightarrow> pystr list \<Rightarrow> pystr \<Rightarrow> pystr \<Rightarrow> pystr list"
  in_history :: "path \<Rightarrow> bool"
  blob_limit :: nat
  record_changes :: "(plan list \<Rightarrow> unit result) option"

section \<open>Reading a state\<close>

definition signature :: "node \<Rightarrow> nat \<times> nat \<times> nat" where
  "signature n = (n_ino n, length (n_data n), n_time n)"

definition require_regular :: "node \<Rightarrow> unit result" where
  "require_regular n =
    (if n_kind n = Directory then Inl (IsADirectoryError '''')
     else if n_kind n \<noteq> Regular then Inl (ValueError ''Path must be a regular file'') else Inr ())"

definition read_limit_exceeded :: exc where
  "read_limit_exceeded = ValueError ''file exceeds the byte limit''"

definition history_size_error :: exc where
  "history_size_error = ValueError ''history exceeds the byte limit; retry with history=False''"

definition over :: "nat option \<Rightarrow> nat \<Rightarrow> bool" where
  "over bound n = (case bound of None \<Rightarrow> False | Some b \<Rightarrow> b < n)"

definition read_regular :: "path \<Rightarrow> nat option \<Rightarrow> (('a) fsys_scheme, bytes \<times> node) prog" where
  "read_regular p bound =
    pbind (sys_open p) (\<lambda>f.
      ensure
        (pbind (sys_fstat f) (\<lambda>info.
         pseq (lift (require_regular info))
          (if over bound (length (n_data info)) then raise read_limit_exceeded
           else pbind (sys_read f (map_option Suc bound)) (\<lambda>data.
             if over bound (length data) then raise read_limit_exceeded else ret (data, info)))))
        (sys_close f))"

definition check_expected :: "env \<Rightarrow> bytes option \<Rightarrow> pystr option \<Rightarrow> unit result" where
  "check_expected ev old expected =
    (case expected of None \<Rightarrow> Inr ()
     | Some h \<Rightarrow> (case old of None \<Rightarrow> Inl (ValueError ''Revision mismatch'')
        | Some d \<Rightarrow> if sha ev d \<noteq> h then Inl (ValueError ''Revision mismatch'') else Inr ()))"

definition history_limit :: "env \<Rightarrow> path \<Rightarrow> nat option" where
  "history_limit ev p =
    (if record_changes ev = None \<or> \<not> in_history ev p then None else Some (blob_limit ev))"

definition absent :: "path \<Rightarrow> pystr \<Rightarrow> file_state" where
  "absent p display = \<lparr>s_path = p, s_display = display, s_exists = False, s_data = None, s_info = None\<rparr>"

definition present :: "path \<Rightarrow> pystr \<Rightarrow> bytes \<Rightarrow> node \<Rightarrow> file_state" where
  "present p display data info =
    \<lparr>s_path = p, s_display = display, s_exists = True, s_data = Some data, s_info = Some info\<rparr>"

definition read_state :: "path \<Rightarrow> pystr \<Rightarrow> nat option \<Rightarrow> (('a) fsys_scheme, file_state) prog" where
  "read_state p display bound =
    pbind (attempt (sys_stat p)) (\<lambda>r. case r of
      Inl e \<Rightarrow> (case e of FileNotFoundError _ \<Rightarrow> ret (absent p display) | _ \<Rightarrow> raise e)
    | Inr info \<Rightarrow>
        pseq (lift (require_regular info))
         (if over bound (length (n_data info)) then raise history_size_error
          else pbind (attempt (read_regular p bound)) (\<lambda>r. case r of
            Inl e \<Rightarrow> raise (if e = read_limit_exceeded then history_size_error else e)
          | Inr (data, opened) \<Rightarrow>
              pbind (sys_stat p) (\<lambda>after.
                if signature info \<noteq> signature opened \<or> signature info \<noteq> signature after
                then raise (RuntimeError ''File changed while reading'')
                else ret (present p display data after)))))"

definition assert_unchanged :: "file_state \<Rightarrow> file_state \<Rightarrow> unit result" where
  "assert_unchanged expected current =
    (if s_exists expected \<noteq> s_exists current \<or> s_data expected \<noteq> s_data current
        \<or> (case (s_info expected, s_info current) of
             (Some a, Some b) \<Rightarrow> signature a \<noteq> signature b | _ \<Rightarrow> False)
     then Inl (RuntimeError ''File changed while applying patch'') else Inr ())"

section \<open>The report\<close>

definition mode_changed :: "plan \<Rightarrow> bool" where
  "mode_changed pl =
    (pl_operation pl = Update \<and> pl_old pl = pl_new pl
     \<and> (case (pl_old_info pl, pl_mode pl) of (Some i, Some m) \<Rightarrow> n_mode i \<noteq> m | _ \<Rightarrow> False))"

definition is_noop_update :: "plan \<Rightarrow> bool" where
  "is_noop_update pl = (pl_operation pl = Update \<and> pl_old pl = pl_new pl \<and> \<not> mode_changed pl)"

definition diff_lines :: "pystr \<Rightarrow> pystr list" where
  "diff_lines s =
    (if s = [] then []
     else let parts = split_on 10 s in
       map (\<lambda>p. p @ [10]) (butlast parts) @ (if last parts \<noteq> [] then [last parts] else []))"

definition or_empty :: "bytes option \<Rightarrow> bytes" where
  "or_empty v = (case v of None \<Rightarrow> [] | Some b \<Rightarrow> b)"

definition old_value :: "plan \<Rightarrow> bytes option" where
  "old_value pl = (if pl_operation pl = Move then pl_source_old pl else pl_old pl)"

definition result_entry :: "env \<Rightarrow> plan \<Rightarrow> change_entry" where
  "result_entry ev pl =
    \<lparr>e_operation = pl_operation pl, e_path = pl_display pl,
      e_changed = (or_empty (old_value pl) \<noteq> or_empty (pl_new pl)
        \<or> pl_operation pl \<in> {Add, Delete, Move} \<or> mode_changed pl),
      e_old_revision = map_option (sha ev) (old_value pl),
      e_revision = map_option (sha ev) (pl_new pl),
      e_size = length (or_empty (pl_new pl)),
      e_source = pl_source_display pl\<rparr>"

text \<open>The diff lines of one plan, until the limit is passed.\<close>

fun add_diff_lines ::
  "nat \<Rightarrow> pystr list \<Rightarrow> pystr list \<times> nat \<times> bool \<Rightarrow> (pystr list \<times> nat \<times> bool) result" where
  "add_diff_lines limit [] acc = Inr acc"
| "add_diff_lines limit (l # ls) (parts, used, truncated) =
    (let line = (if ends_with [10] l then l else l @ 10 # lit [CHR 0x5C] @ lit '' No newline at end of file'' @ [10])
     in rbind (utf8_encode line) (\<lambda>encoded.
       if used + length encoded > limit then Inr (parts, used, True)
       else add_diff_lines limit ls (parts @ [line], used + length encoded, truncated)))"

definition dev_null :: pystr where "dev_null = lit ''/dev/null''"

definition plan_diff :: "env \<Rightarrow> plan \<Rightarrow> pystr list" where
  "plan_diff ev pl =
    unified_diff ev
      (diff_lines (utf8_decode_replace (or_empty (old_value pl))))
      (diff_lines (utf8_decode_replace (or_empty (pl_new pl))))
      (if old_value pl \<noteq> None
       then (case pl_source_display pl of Some d \<Rightarrow> if d \<noteq> [] then d else pl_display pl
             | None \<Rightarrow> pl_display pl)
       else dev_null)
      (if pl_new pl \<noteq> None then pl_display pl else dev_null)"

definition make_result :: "env \<Rightarrow> plan list \<Rightarrow> bool \<Rightarrow> nat \<Rightarrow> patch_result result" where
  "make_result ev plans dry_run limit =
    rbind (rfold (\<lambda>pl (parts, used, truncated).
             if truncated then Inr (parts, used, truncated)
             else add_diff_lines limit (plan_diff ev pl) (parts, used, truncated))
           plans ([], 0, False))
      (\<lambda>(parts, used, truncated).
        Inr \<lparr>r_changes = map (result_entry ev) plans, r_dry_run = dry_run, r_diff = concat parts,
              r_diff_truncated = truncated, r_warnings = [], r_history = None\<rparr>)"

section \<open>Staging\<close>

definition temporary_prefix :: "pystr \<Rightarrow> pystr \<Rightarrow> pystr" where
  "temporary_prefix name suffix = lit ''.'' @ take 32 name @ suffix"

text \<open>The missing ancestors of a directory, top first; the argument is the reversed path.\<close>

fun missing_dirs :: "pystr list \<Rightarrow> (('a) fsys_scheme, path list) prog" where
  "missing_dirs [] = pbind (sys_exists []) (\<lambda>b. ret (if b then [] else [[]]))"
| "missing_dirs (c # cs) =
    pbind (sys_exists (rev (c # cs))) (\<lambda>b.
      if b then ret []
      else pbind (missing_dirs cs) (\<lambda>ds. ret (ds @ [rev (c # cs)])))"

definition make_dir :: "path \<Rightarrow> (txn, unit) prog" where
  "make_dir d =
    pseq (sys_mkdir d) (pbind (sys_stat d) (\<lambda>info.
      update (\<lambda>t. t\<lparr>created_dirs := created_dirs t @ [(d, n_ino info)]\<rparr>)))"

definition bind_artifact_parent :: "fd \<Rightarrow> fd \<Rightarrow> (txn, fd) prog" where
  "bind_artifact_parent f fallback =
    pbind (attempt (pseq (sys_sync f) (sys_open_dir (butlast (fst f))))) (\<lambda>r. case r of
      Inl _ \<Rightarrow> ret fallback
    | Inr bound \<Rightarrow> pseq (sys_close fallback) (ret bound))"

definition make_artifact :: "path \<Rightarrow> pystr \<Rightarrow> (txn, fd \<times> path) prog" where
  "make_artifact dir prefix =
    pbind (sys_open_dir dir) (\<lambda>pfd.
    pbind (attempt (sys_mkstemp dir prefix)) (\<lambda>r. case r of
      Inl e \<Rightarrow> pseq (sys_close pfd) (raise e)
    | Inr (f, name) \<Rightarrow>
        pbind (attempt (bind_artifact_parent f pfd)) (\<lambda>r. case r of
          Inl e \<Rightarrow> pseq (sys_close f) (pseq (sys_close pfd) (raise e))
        | Inr pfd' \<Rightarrow>
            pbind (attempt (sys_fstat f)) (\<lambda>r. case r of
              Inl e \<Rightarrow> pseq (sys_close f) (pseq (sys_close pfd') (raise e))
            | Inr info \<Rightarrow>
                pseq (update (\<lambda>t. t\<lparr>artifact_parents :=
                        AList.update name (pfd', n_ino info) (artifact_parents t)\<rparr>))
                  (ret (f, name))))))"

definition fill_artifact :: "fd \<Rightarrow> nat option \<Rightarrow> bytes \<Rightarrow> (txn, unit) prog" where
  "fill_artifact f mode data =
    ensure
      (pseq (case mode of None \<Rightarrow> ret () | Some m \<Rightarrow> sys_fchmod f m)
        (pseq (sys_write f data) (pseq (sys_sync f) (sys_sync f))))
      (sys_close f)"

definition stage_plan :: "plan \<Rightarrow> (txn, unit) prog" where
  "stage_plan pl =
    (case pl_new pl of
       None \<Rightarrow> ret ()
     | Some new \<Rightarrow>
        (let parent = butlast (pl_path pl) in
         pbind (sys_exists parent) (\<lambda>b.
         pseq (if b then ret () else pbind (missing_dirs (rev parent)) (for_each make_dir))
          (pbind (make_artifact parent (temporary_prefix (path_name (pl_path pl)) (lit ''.'')))
            (\<lambda>(f, temp).
              pseq (update (\<lambda>t. t\<lparr>temporaries := AList.update (pl_path pl) temp (temporaries t)\<rparr>))
                (fill_artifact f (pl_mode pl) new))))))"

definition lookup :: "(path \<times> 'b) list \<Rightarrow> path \<Rightarrow> ('s, 'b) prog" where
  "lookup d p = (case map_of d p of None \<Rightarrow> raise (KeyError '''') | Some v \<Rightarrow> ret v)"

definition backup_plan :: "(path \<times> file_state) list \<Rightarrow> plan \<Rightarrow> (txn, unit) prog" where
  "backup_plan states pl =
    (let p = (case pl_source pl of Some s \<Rightarrow> s | None \<Rightarrow> pl_path pl) in
     pbind (lookup states p) (\<lambda>st.
     pbind (gets backups) (\<lambda>bs.
       case (s_exists st, map_of bs p, s_data st, s_info st) of
         (True, None, Some data, Some info) \<Rightarrow>
           pbind (make_artifact (butlast p) (temporary_prefix (path_name p) (lit ''.mypr-backup.'')))
             (\<lambda>(f, backup).
               pseq (update (\<lambda>t. t\<lparr>backups := AList.update p backup (backups t)\<rparr>))
                 (fill_artifact f (Some (n_mode info)) data))
       | _ \<Rightarrow> ret ())))"

definition verify_state :: "env \<Rightarrow> path \<times> file_state \<Rightarrow> (txn, unit) prog" where
  "verify_state ev ps =
    pbind (read_state (s_path (snd ps)) (s_display (snd ps)) (history_limit ev (s_path (snd ps))))
      (\<lambda>current. lift (assert_unchanged (snd ps) current))"

section \<open>Replacing\<close>

definition push :: "committed_entry \<Rightarrow> (txn, unit) prog" where
  "push c = update (\<lambda>t. t\<lparr>committed := committed t @ [c]\<rparr>)"

definition entry_of :: "plan \<Rightarrow> bytes option \<Rightarrow> node option \<Rightarrow> committed_entry" where
  "entry_of pl new info =
    \<lparr>c_path = pl_path pl, c_old = pl_old pl, c_old_info = pl_old_info pl, c_new = new, c_info = info\<rparr>"

definition apply_target :: "plan \<Rightarrow> file_state \<Rightarrow> (txn, unit) prog" where
  "apply_target pl st =
    (let p = pl_path pl in
     if pl_operation pl = Delete then
       pseq (sys_unlink p False) (push (entry_of pl None None))
     else
       pbind (gets temporaries) (\<lambda>ts. pbind (lookup ts p) (\<lambda>temp.
       pseq
        (if s_exists st then
           pseq (sys_replace temp p) (push (entry_of pl (pl_new pl) None))
         else
           pseq (sys_link temp p) (pseq (push (entry_of pl (pl_new pl) None)) (sys_unlink temp True)))
        (pbind (sys_stat p) (\<lambda>post.
           update (\<lambda>t. t\<lparr>committed := butlast (committed t) @ [entry_of pl (pl_new pl) (Some post)]\<rparr>))))))"

definition remove_source :: "env \<Rightarrow> (path \<times> file_state) list \<Rightarrow> plan \<Rightarrow> (txn, unit) prog" where
  "remove_source ev states pl =
    (case pl_source pl of
       None \<Rightarrow> ret ()
     | Some source \<Rightarrow>
        pbind (lookup states source) (\<lambda>st.
        pbind (read_state source (case pl_source_display pl of Some d \<Rightarrow> d | None \<Rightarrow> [])
                (history_limit ev source)) (\<lambda>current.
        pseq (lift (assert_unchanged st current))
         (pseq (sys_unlink source False)
           (push \<lparr>c_path = source, c_old = s_data st, c_old_info = s_info st, c_new = None,
                   c_info = None\<rparr>)))))"

definition execute_plan :: "env \<Rightarrow> (path \<times> file_state) list \<Rightarrow> plan \<Rightarrow> (txn, unit) prog" where
  "execute_plan ev states pl =
    pbind (read_state (pl_path pl) (pl_display pl) (history_limit ev (pl_path pl))) (\<lambda>current.
    let st = (case map_of states (pl_path pl) of
                Some s \<Rightarrow> s | None \<Rightarrow> absent (pl_path pl) (pl_display pl)) in
    pseq (lift (assert_unchanged st current))
     (pseq (apply_target pl st) (remove_source ev states pl)))"

definition record_history :: "env \<Rightarrow> plan list \<Rightarrow> (txn, unit) prog" where
  "record_history ev plans =
    (case record_changes ev of
       None \<Rightarrow> ret ()
     | Some rec \<Rightarrow>
        (case rec plans of
           Inr _ \<Rightarrow> ret ()
         | Inl (OutcomeUnknown m) \<Rightarrow>
             pseq (update (\<lambda>t. t\<lparr>preserve_backups := True\<rparr>)) (raise (OutcomeUnknown m))
         | Inl _ \<Rightarrow> raise (RuntimeError ''history record failed; patch will be rolled back'')))"

definition commit_body ::
  "env \<Rightarrow> plan list \<Rightarrow> (path \<times> file_state) list \<Rightarrow> nat \<Rightarrow> (txn, patch_result) prog" where
  "commit_body ev plans states limit =
    (let active = filter (\<lambda>pl. \<not> is_noop_update pl) plans in
     pseq (for_each stage_plan active)
      (pseq (for_each (backup_plan states) active)
       (pseq (for_each (verify_state ev) states)
        (pseq (for_each (execute_plan ev states) active)
         (pseq (record_history ev plans)
          (lift (make_result ev plans False limit)))))))"

section \<open>Rolling back and cleaning up\<close>

definition restore :: "path \<Rightarrow> bytes \<Rightarrow> node option \<Rightarrow> (txn, unit) prog" where
  "restore p data info =
    pbind (sys_mkstemp (butlast p) (temporary_prefix (path_name p) (lit ''.rollback.''))) (\<lambda>(f, temp).
      ensure
        (pseq (ensure
           (pseq (sys_fchmod f (case info of None \<Rightarrow> 384 | Some i \<Rightarrow> n_mode i))
             (pseq (sys_write f data) (pseq (sys_sync f) (sys_sync f))))
           (sys_close f))
          (sys_replace temp p))
        (sys_unlink temp True))"

definition changed_outside :: "committed_entry \<Rightarrow> file_state \<Rightarrow> bool" where
  "changed_outside c current \<longleftrightarrow>
     c_new c = None \<and> s_exists current
   \<or> c_new c \<noteq> None \<and> (\<not> s_exists current \<or> s_data current \<noteq> c_new c)
   \<or> (case c_info c of None \<Rightarrow> False
      | Some i \<Rightarrow> (case s_info current of None \<Rightarrow> True | Some j \<Rightarrow> signature j \<noteq> signature i))"

definition rollback_entry :: "env \<Rightarrow> committed_entry \<Rightarrow> (txn, unit) prog" where
  "rollback_entry ev c =
    pbind (read_state (c_path c) [] (history_limit ev (c_path c))) (\<lambda>current.
      if changed_outside c current then raise (RuntimeError ''path changed outside this patch'')
      else case c_old c of
          None \<Rightarrow> if s_exists current then sys_unlink (c_path c) False else ret ()
        | Some old \<Rightarrow> restore (c_path c) old (c_old_info c))"

definition is_outcome_unknown :: "exc \<Rightarrow> bool" where
  "is_outcome_unknown e = (case e of OutcomeUnknown _ \<Rightarrow> True | _ \<Rightarrow> False)"

definition rollback_incomplete :: exc where
  "rollback_incomplete = RuntimeError ''patch failed and rollback was incomplete''"

definition preserve :: "(txn, unit) prog" where
  "preserve = update (\<lambda>t. t\<lparr>preserve_backups := True\<rparr>)"

definition handle :: "env \<Rightarrow> patch_result result \<Rightarrow> (txn, patch_result) prog" where
  "handle ev r =
    (case r of
       Inr x \<Rightarrow> ret x
     | Inl e \<Rightarrow>
        if is_outcome_unknown e then pseq preserve (raise e)
        else pbind (gets committed) (\<lambda>cs.
             pbind (collect_failures (rollback_entry ev) (rev cs)) (\<lambda>recovery.
               if recovery \<noteq> [] then pseq preserve (raise rollback_incomplete) else raise e)))"

text \<open>
  \<open>_remove_artifact\<close>: by path when the path still leads to the file and its parent is the bound
  directory, otherwise by name in the bound directory.
\<close>

definition missing_ok :: "('s, 'b) prog \<Rightarrow> ('s, 'b option) prog" where
  "missing_ok m = pbind (attempt m) (\<lambda>r. case r of
      Inr x \<Rightarrow> ret (Some x)
    | Inl e \<Rightarrow> (case e of FileNotFoundError _ \<Rightarrow> ret None | _ \<Rightarrow> raise e))"

definition remove_in_dir :: "path \<Rightarrow> fd \<Rightarrow> nat \<Rightarrow> (txn, unit) prog" where
  "remove_in_dir p pfd ino =
    (let q = fst pfd @ [path_name p] in
     pbind (missing_ok (sys_stat q)) (\<lambda>i. case i of
       None \<Rightarrow> ret ()
     | Some info \<Rightarrow> if n_ino info \<noteq> ino then ret () else sys_unlink q False))"

definition remove_artifact :: "path \<Rightarrow> fd \<Rightarrow> nat \<Rightarrow> (txn, unit) prog" where
  "remove_artifact p pfd ino =
    pbind (missing_ok (sys_stat p)) (\<lambda>i.
      if (case i of None \<Rightarrow> False | Some info \<Rightarrow> n_ino info = ino) then
        pbind (sys_stat (butlast p)) (\<lambda>parent.
        pbind (sys_fstat pfd) (\<lambda>owner.
          if n_ino parent = n_ino owner then sys_unlink p True else remove_in_dir p pfd ino))
      else remove_in_dir p pfd ino)"

definition discard :: "path \<Rightarrow> (txn, unit) prog" where
  "discard temp =
    pbind (gets (\<lambda>t. map_of (artifact_parents t) temp)) (\<lambda>parent. case parent of
      None \<Rightarrow> sys_unlink temp True
    | Some (pfd, ino) \<Rightarrow> remove_artifact temp pfd ino)"

definition remove_created_dir :: "path \<times> nat \<Rightarrow> (txn, unit) prog" where
  "remove_created_dir d =
    pbind (missing_ok
      (pbind (sys_stat (fst d)) (\<lambda>info.
        if n_kind info \<noteq> Directory \<or> n_ino info \<noteq> snd d then ret () else sys_rmdir (fst d))))
      (\<lambda>_. ret ())"

definition cleanup :: "bool \<Rightarrow> bool \<Rightarrow> (txn, bool) prog" where
  "cleanup completed unknown =
    pbind (gets (map snd \<circ> temporaries)) (\<lambda>ts.
    pbind (collect_failures discard ts) (\<lambda>e1.
    pbind (gets preserve_backups) (\<lambda>keep.
    pbind (gets (map snd \<circ> backups)) (\<lambda>bs.
    pbind (collect_failures discard (if keep then [] else bs)) (\<lambda>e2.
    pbind (gets (rev \<circ> created_dirs)) (\<lambda>ds.
    pbind (collect_failures remove_created_dir (if \<not> completed \<and> \<not> unknown then ds else [])) (\<lambda>e3.
    pbind (gets (map (fst \<circ> snd) \<circ> artifact_parents)) (\<lambda>fds.
    pbind (collect_failures sys_close fds) (\<lambda>e4.
      if e1 = [] \<and> e2 = [] \<and> e3 = [] \<and> e4 = [] then ret False
      else pseq preserve (ret True))))))))))"

text \<open>\<open>_commit\<close>: the body, the handler and the \<open>finally\<close> block.\<close>

definition commit ::
  "env \<Rightarrow> plan list \<Rightarrow> (path \<times> file_state) list \<Rightarrow> nat \<Rightarrow> (txn, patch_result) prog" where
  "commit ev plans states limit =
    pbind (attempt (commit_body ev plans states limit)) (\<lambda>r.
    pbind (attempt (handle ev r)) (\<lambda>r'.
    pbind (cleanup (case r of Inr _ \<Rightarrow> True | Inl _ \<Rightarrow> False)
            (case r of Inl e \<Rightarrow> is_outcome_unknown e | Inr _ \<Rightarrow> False)) (\<lambda>failed.
      case r' of
        Inl e \<Rightarrow> raise e
      | Inr res \<Rightarrow> ret (if failed
          then res\<lparr>r_warnings := [''patch cleanup failed; artifacts may remain'']\<rparr> else res))))"

text \<open>\<open>_set_history_status\<close>.\<close>

definition set_history_status :: "env \<Rightarrow> plan list \<Rightarrow> patch_result \<Rightarrow> patch_result" where
  "set_history_status ev plans res =
    (let paths = concat (map (\<lambda>pl. pl_path pl # (case pl_source pl of None \<Rightarrow> [] | Some s \<Rightarrow> [s])) plans);
         recorded = list_ex (in_history ev) paths;
         outside = list_ex (\<lambda>p. \<not> in_history ev p) paths
     in res\<lparr>r_history := Some (recorded, outside \<and> recorded),
            r_warnings := r_warnings res @ (if outside
              then [''History was not recorded for paths outside the workspace history scope.''] else [])\<rparr>)"

section \<open>What a read returns\<close>

definition reads :: "file_state \<Rightarrow> node option \<Rightarrow> bool" where
  "reads st v = (case v of
      None \<Rightarrow> \<not> s_exists st \<and> s_data st = None \<and> s_info st = None
    | Some n \<Rightarrow> s_exists st \<and> s_data st = Some (n_data n) \<and> s_info st = Some n \<and> n_kind n = Regular)"

lemma stable_conj [keeps_intro]: "stable W \<Longrightarrow> stable (\<lambda>t f. W t f \<and> P f)"
  by (simp add: stable_def)

lemma framed_conj: "framed S W \<Longrightarrow> p \<in> S \<Longrightarrow> framed S (\<lambda>t f. W t f \<and> P (f p))"
  by (auto simp: framed_def stable_def)

lemma valid_sys_stat:
  assumes "stable W"
  shows "valid (held W ns) (sys_stat p) (\<lambda>n. held (\<lambda>t f. W t f \<and> f p = Some n) ns)
    (\<lambda>e. held (\<lambda>t f. W t f \<and> ((\<exists>m. e = FileNotFoundError m) \<longrightarrow> f p = None)) ns)"
proof (rule validI)
  fix s :: "'a fsys_scheme" and x s' assume h: "held W ns s" and e: "sys_stat p s = (Inr x, s')"
  from keepsD [OF keeps_sys_stat [OF assms] h e] have "held W ns s'" .
  moreover have "node_at s' p = Some x"
    using e by (auto simp: sys_stat_def syscall_def Let_def split: prod.splits if_splits option.splits)
  ultimately show "held (\<lambda>t f. W t f \<and> f p = Some x) ns s'" by (simp add: held_def)
next
  fix s :: "'a fsys_scheme" and x s' assume h: "held W ns s" and e: "sys_stat p s = (Inl x, s')"
  from keepsD [OF keeps_sys_stat [OF assms] h e] have "held W ns s'" .
  moreover have "(\<exists>m. x = FileNotFoundError m) \<longrightarrow> node_at s' p = None"
    using e by (auto simp: sys_stat_def syscall_def Let_def split: prod.splits if_splits option.splits)
  ultimately show "held (\<lambda>t f. W t f \<and> ((\<exists>m. x = FileNotFoundError m) \<longrightarrow> f p = None)) ns s'"
    by (simp add: held_def)
qed

lemma valid_sys_open:
  assumes "stable W"
  shows "valid (held W ns) (sys_open p) (\<lambda>h. held (\<lambda>t f. W t f \<and> fst h = p) ns) (\<lambda>_. held W ns)"
proof (rule validI)
  fix s :: "'a fsys_scheme" and x s' assume h: "held W ns s" and e: "sys_open p s = (Inr x, s')"
  from keepsD [OF keeps_sys_open [OF assms] h e] have "held W ns s'" .
  moreover have "fst x = p"
    using e by (auto simp: sys_open_def syscall_def Let_def split: prod.splits if_splits option.splits)
  ultimately show "held (\<lambda>t f. W t f \<and> fst x = p) ns s'" by (simp add: held_def)
qed (use keepsD [OF keeps_sys_open [OF assms]] in blast)

lemma valid_sys_fstat:
  assumes "stable W"
  shows "valid (held W ns) (sys_fstat h)
    (\<lambda>n. held (\<lambda>t f. W t f \<and> f (fst h) = Some n) ns) (\<lambda>_. held W ns)"
proof (rule validI)
  fix s :: "'a fsys_scheme" and x s' assume h: "held W ns s" and e: "sys_fstat h s = (Inr x, s')"
  from keepsD [OF keeps_sys_fstat [OF assms] h e] have "held W ns s'" .
  moreover have "node_at s' (fst h) = Some x"
    using e by (auto simp: sys_fstat_def syscall_def Let_def split: prod.splits if_splits option.splits)
  ultimately show "held (\<lambda>t f. W t f \<and> f (fst h) = Some x) ns s'" by (simp add: held_def)
qed (use keepsD [OF keeps_sys_fstat [OF assms]] in blast)

definition cut :: "nat option \<Rightarrow> bytes \<Rightarrow> bytes" where
  "cut b d = (case b of None \<Rightarrow> d | Some n \<Rightarrow> take n d)"

lemma cut_all: "\<not> over b (length (cut (map_option Suc b) d)) \<Longrightarrow> cut (map_option Suc b) d = d"
  by (cases b) (auto simp: cut_def over_def)

lemma valid_sys_read:
  assumes "stable W"
  shows "valid (held W ns) (sys_read h b)
    (\<lambda>d. held (\<lambda>t f. W t f \<and> (\<exists>n. f (fst h) = Some n \<and> d = cut b (n_data n))) ns) (\<lambda>_. held W ns)"
proof (rule validI)
  fix s :: "'a fsys_scheme" and x s' assume h: "held W ns s" and e: "sys_read h b s = (Inr x, s')"
  from keepsD [OF keeps_sys_read [OF assms] h e] have "held W ns s'" .
  moreover have "\<exists>n. node_at s' (fst h) = Some n \<and> x = cut b (n_data n)"
    using e by (auto simp: sys_read_def syscall_def Let_def cut_def split: prod.splits if_splits option.splits)
  ultimately show "held (\<lambda>t f. W t f \<and> (\<exists>n. f (fst h) = Some n \<and> x = cut b (n_data n))) ns s'"
    by (simp add: held_def)
qed (use keepsD [OF keeps_sys_read [OF assms]] in blast)

lemma valid_ensure:
  assumes "valid P m (\<lambda>x. R (Inr x)) (\<lambda>e. R (Inl e))"
    and "\<And>r. valid (R r) c (\<lambda>_. R r) E" and "\<And>x s. R (Inr x) s \<Longrightarrow> Q x s"
    and "\<And>e s. R (Inl e) s \<Longrightarrow> E e s"
  shows "valid P (ensure m c) Q E"
  unfolding ensure_def
  by (rule valid_bind [OF valid_attempt [OF assms(1)]], rule valid_seq [OF assms(2)])
    (rule valid_lift; use assms(3,4) in blast)

lemma valid_read_regular:
  assumes "stable W"
  shows "valid (held W ns) (read_regular p b)
    (\<lambda>(d, i). held (\<lambda>t f. W t f \<and> f p = Some i \<and> d = n_data i) ns) (\<lambda>_. held W ns)"
  unfolding read_regular_def
proof (rule valid_bind [OF valid_sys_open [OF assms]])
  fix h :: fd
  let ?W = "\<lambda>t f. W t f \<and> fst h = p"
  let ?R = "\<lambda>r t. case r of Inr (d, i) \<Rightarrow> held (\<lambda>t f. W t f \<and> f p = Some i \<and> d = n_data i) ns t
    | Inl e \<Rightarrow> held W ns t"
  have st: "stable ?W" by (intro keeps_intro assms)
  show "valid (held ?W ns)
     (ensure (pbind (sys_fstat h) (\<lambda>info. pseq (lift (require_regular info))
           (if over b (length (n_data info)) then raise read_limit_exceeded
            else pbind (sys_read h (map_option Suc b)) (\<lambda>d.
                  if over b (length d) then raise read_limit_exceeded else ret (d, info)))))
       (sys_close h))
     (\<lambda>(d, i). held (\<lambda>t f. W t f \<and> f p = Some i \<and> d = n_data i) ns) (\<lambda>_. held W ns)"
  proof (rule valid_ensure [where R = ?R])
    show "valid (held ?W ns)
     (pbind (sys_fstat h) (\<lambda>info. pseq (lift (require_regular info))
           (if over b (length (n_data info)) then raise read_limit_exceeded
            else pbind (sys_read h (map_option Suc b)) (\<lambda>d.
                  if over b (length d) then raise read_limit_exceeded else ret (d, info)))))
     (\<lambda>x. ?R (Inr x)) (\<lambda>e. ?R (Inl e))"
    proof (rule valid_bind [where R = "\<lambda>n. held (\<lambda>t f. ?W t f \<and> f (fst h) = Some n) ns"])
      show "valid (held ?W ns) (sys_fstat h) (\<lambda>n. held (\<lambda>t f. ?W t f \<and> f (fst h) = Some n) ns)
        (\<lambda>e. ?R (Inl e))"
        by (rule valid_weaken [OF valid_sys_fstat [OF st]]) (auto simp: held_def)
      fix info
      let ?V = "\<lambda>t f. ?W t f \<and> f (fst h) = Some info"
      have sv: "stable ?V" by (intro keeps_intro assms)
      show "valid (held ?V ns) (pseq (lift (require_regular info))
           (if over b (length (n_data info)) then raise read_limit_exceeded
            else pbind (sys_read h (map_option Suc b)) (\<lambda>d.
                  if over b (length d) then raise read_limit_exceeded else ret (d, info))))
          (\<lambda>x. ?R (Inr x)) (\<lambda>e. ?R (Inl e))"
      proof (rule valid_seq [where R = "held ?V ns"])
        show "valid (held ?V ns) (lift (require_regular info)) (\<lambda>_. held ?V ns) (\<lambda>e. ?R (Inl e))"
          by (rule valid_lift) (auto simp: held_def)
        show "valid (held ?V ns)
            (if over b (length (n_data info)) then raise read_limit_exceeded
            else pbind (sys_read h (map_option Suc b)) (\<lambda>d.
                  if over b (length d) then raise read_limit_exceeded else ret (d, info)))
            (\<lambda>x. ?R (Inr x)) (\<lambda>e. ?R (Inl e))"
        proof (rule valid_if)
          show "valid (held ?V ns) (raise read_limit_exceeded) (\<lambda>x. ?R (Inr x)) (\<lambda>e. ?R (Inl e))"
            by (rule valid_raise) (auto simp: held_def)
          show "valid (held ?V ns) (pbind (sys_read h (map_option Suc b)) (\<lambda>d.
                  if over b (length d) then raise read_limit_exceeded else ret (d, info)))
                (\<lambda>x. ?R (Inr x)) (\<lambda>e. ?R (Inl e))"
          proof (rule valid_bind [where R = "\<lambda>d. held (\<lambda>t f. ?V t f \<and>
                (\<exists>n. f (fst h) = Some n \<and> d = cut (map_option Suc b) (n_data n))) ns"])
            show "valid (held ?V ns) (sys_read h (map_option Suc b))
                (\<lambda>d. held (\<lambda>t f. ?V t f \<and>
                  (\<exists>n. f (fst h) = Some n \<and> d = cut (map_option Suc b) (n_data n))) ns)
                (\<lambda>e. ?R (Inl e))"
              by (rule valid_weaken [OF valid_sys_read [OF sv]]) (auto simp: held_def)
            fix d
            show "valid (held (\<lambda>t f. ?V t f \<and>
                  (\<exists>n. f (fst h) = Some n \<and> d = cut (map_option Suc b) (n_data n))) ns)
                (if over b (length d) then raise read_limit_exceeded else ret (d, info))
                (\<lambda>x. ?R (Inr x)) (\<lambda>e. ?R (Inl e))"
              by (rule valid_if; (rule valid_raise | rule valid_ret))
                (auto simp: held_def dest: cut_all)
          qed
        qed
      qed
    qed
    show "valid (?R r) (sys_close h) (\<lambda>_. ?R r) (\<lambda>_. held W ns)" for r
    proof (cases r)
      case (Inl e)
      then show ?thesis using keeps_sys_close [OF assms] by (simp add: keeps_def)
    next
      case (Inr x)
      obtain d i where x: "x = (d, i)" by (cases x)
      have "stable (\<lambda>t f. W t f \<and> f p = Some i \<and> d = n_data i)"
        by (intro keeps_intro assms)
      from keeps_sys_close [OF this] show ?thesis unfolding keeps_def Inr x sum.case prod.case
        by (rule valid_weaken) (auto simp: held_def)
    qed
  qed (auto split: prod.splits)
qed

lemma calm_reading:
  assumes "\<And>W :: 'a assertion. \<And>ns. stable W \<Longrightarrow> keeps (held W ns) m" and "calm (fs_script s)"
    and "m s = (r, s')"
  shows "node_at s' = node_at s \<and> calm (fs_script s')"
proof -
  have "stable (\<lambda>t f. f = node_at s)" by (simp add: stable_def)
  from keepsD [OF assms(1) [OF this] _ assms(3), of "set (fs_names s)"] assms(2)
  show ?thesis by (simp add: held_def)
qed

lemma sys_stat_at:
  "sys_stat p s = (Inr n, s') \<Longrightarrow> node_at s' p = Some n"
  "sys_stat p s = (Inl (FileNotFoundError m), s') \<Longrightarrow> node_at s' p = None"
  by (auto simp: sys_stat_def syscall_def Let_def split: prod.splits if_splits option.splits)

lemma read_regular_at:
  assumes "calm (fs_script s)" and "read_regular p b s = (Inr (d, i), s')"
  shows "node_at s' = node_at s \<and> calm (fs_script s') \<and> node_at s p = Some i \<and> d = n_data i"
proof -
  have "stable (\<lambda>t f. f = node_at s)" by (simp add: stable_def)
  from validD(1) [OF valid_read_regular [OF this] _ assms(2), of "set (fs_names s)"] assms(1)
  show ?thesis by (simp add: held_def) metis
qed

lemma keeps_read_regular [keeps_intro]: "stable W \<Longrightarrow> keeps (held W ns) (read_regular p b)"
  unfolding read_regular_def by (intro keeps_intro)

lemma keeps_read_state [keeps_intro]: "stable W \<Longrightarrow> keeps (held W ns) (read_state p d b)"
  unfolding read_state_def by (intro keeps_intro) (auto intro: keeps_intro split: exc.split)

lemma read_state_at:
  assumes "calm (fs_script s)" and "read_state p d b s = (Inr st, s')"
  shows "reads st (node_at s' p)"
proof (cases "sys_stat p s")
  case (Pair r s1)
  show ?thesis
  proof (cases r)
    case (Inl e)
    with Pair assms(2) have "(case e of FileNotFoundError _ \<Rightarrow> ret (absent p d) | _ \<Rightarrow> raise e) s1 = (Inr st, s')"
      by (simp add: read_state_def pbind_def attempt_def)
    then obtain m where "e = FileNotFoundError m" "st = absent p d" "s' = s1"
      by (cases e) (auto simp: ret_def raise_def)
    with Inl Pair sys_stat_at(2) show ?thesis by (simp add: reads_def absent_def) fastforce
  next
    case (Inr info)
    have s1: "node_at s1 = node_at s" "calm (fs_script s1)"
      using calm_reading [OF keeps_sys_stat assms(1)] Pair by blast+
    from Inr Pair assms(2) obtain c i s2 n where rr: "read_regular p b s1 = (Inr (c, i), s2)"
      and reg: "require_regular info = Inr ()" and st2: "sys_stat p s2 = (Inr n, s')"
      and st: "st = present p d c n"
      by (auto simp: read_state_def prog_defs split: prod.splits sum.splits if_splits)
    from read_regular_at [OF s1(2) rr] have s2: "node_at s2 = node_at s1" "calm (fs_script s2)"
      and c: "node_at s1 p = Some i" "c = n_data i" by auto
    have "node_at s' = node_at s2" using calm_reading [OF keeps_sys_stat s2(2) st2] by blast
    moreover have "node_at s' p = Some n" by (rule sys_stat_at(1) [OF st2])
    moreover have "node_at s1 p = Some info" using sys_stat_at(1) Pair Inr by blast
    ultimately show ?thesis using c s2 reg st
      by (auto simp: reads_def present_def require_regular_def split: if_splits)
  qed
qed

lemma valid_read_state:
  assumes "stable W"
  shows "valid (held W ns) (read_state p d b) (\<lambda>st. held (\<lambda>t f. W t f \<and> reads st (f p)) ns)
    (\<lambda>_. held W ns)"
proof (rule validI)
  show "held (\<lambda>t f. W t f \<and> reads x (f p)) ns s'" if "held W ns s" "read_state p d b s = (Inr x, s')" for s x s'
  proof -
    have "held W ns s'" by (rule keepsD [OF keeps_read_state [OF assms] that])
    moreover have "reads x (node_at s' p)" by (rule read_state_at [OF _ that(2)]) (use that(1) in \<open>simp add: held_def\<close>)
    ultimately show ?thesis by (simp add: held_def)
  qed
  show "held W ns s'" if "held W ns s" "read_state p d b s = (Inl e, s')" for s e s'
    by (rule keepsD [OF keeps_read_state [OF assms] that])
qed

end
