(* ===== verification/Patch_Hunks.thy ===== *)
theory Patch_Hunks
  imports Patch_Parser
begin

text \<open>
  Applying the hunks of one file: \<open>_split_source_lines\<close>, \<open>_apply_hunks\<close> and \<open>_join_lines\<close> of
  patching.py.  A source is a list of lines, each with its own ending; a hunk is matched exactly
  against the line texts at or after the cursor, and must match at one place.  The specification is
  the relation \<open>patched\<close>: the hunks rewrite disjoint regions of the file from top to bottom.
\<close>

type_synonym src_line = "pystr \<times> pystr"

section \<open>Lines with their endings\<close>

function split_src :: "pystr \<Rightarrow> pystr \<Rightarrow> src_line list" where
  "split_src acc [] = (if acc = [] then [] else [(acc, [])])"
| "split_src acc (c # s) =
    (if c = 13 \<and> s \<noteq> [] \<and> hd s = 10 then (acc, [13, 10]) # split_src [] (tl s)
     else if c = 13 \<or> c = 10 then (acc, [c]) # split_src [] s
     else split_src (acc @ [c]) s)"
  by pat_completeness auto
termination
  by (relation "measure (\<lambda>(acc, s). length s)") auto

definition split_source_lines :: "pystr \<Rightarrow> src_line list" where
  "split_source_lines s = split_src [] s"

definition join_source_lines :: "src_line list \<Rightarrow> pystr" where
  "join_source_lines ls = concat (map (\<lambda>(l, e). l @ e) ls)"

text \<open>\<open>_join_lines\<close>, before the encoding.\<close>

definition join_lines :: "pystr list \<Rightarrow> bool \<Rightarrow> pystr" where
  "join_lines ls final_newline =
    join_with [10] ls @ (if final_newline \<and> ls \<noteq> [] then [10] else [])"

section \<open>One hunk\<close>

record cursor_state =
  cs_lines :: "src_line list"
  cs_cursor :: nat
  cs_delta :: int

text \<open>The first non-empty ending of the source, a newline if it has none.\<close>

definition default_ending :: "src_line list \<Rightarrow> pystr" where
  "default_ending ls = (case find (\<lambda>e. e \<noteq> []) (map snd ls) of None \<Rightarrow> [10] | Some e \<Rightarrow> e)"

text \<open>The cursor after the hunk's heading.\<close>

definition after_anchor :: "src_line list \<Rightarrow> nat \<Rightarrow> pystr option \<Rightarrow> nat result" where
  "after_anchor ls cur anchor =
    (case anchor of
       None \<Rightarrow> Inr cur
     | Some a \<Rightarrow>
        (case filter (\<lambda>i. fst (ls ! i) = a) [cur..<length ls] of
           [i] \<Rightarrow> Inr (Suc i)
         | _ \<Rightarrow> Inl (ValueError ''hunk heading is missing or ambiguous'')))"

definition candidates :: "src_line list \<Rightarrow> nat \<Rightarrow> pystr list \<Rightarrow> nat list" where
  "candidates ls cur old =
    filter (\<lambda>s. map fst (take (length old) (drop s ls)) = old)
      [cur..<Suc (length ls) - length old]"

text \<open>Where the hunk starts.\<close>

definition hunk_start :: "src_line list \<Rightarrow> nat \<Rightarrow> int \<Rightarrow> hunk \<Rightarrow> nat result" where
  "hunk_start ls cur delta h =
    (let old = old_lines_of (h_lines h); cands = candidates ls cur old in
     if old = [] then
       rbind
         (case old_start h of
            Some s \<Rightarrow> Inr (int s + delta)
          | None \<Rightarrow>
             if h_eof h then Inr (int (length ls))
             else if h_anchor h \<noteq> None \<or> ls = [] then Inr (int cur)
             else Inl (ValueError ''insertion hunk requires context or a line range''))
         (\<lambda>start.
            if start < int cur \<or> start > int (length ls) then
              Inl (ValueError ''insertion hunk line is out of range'')
            else if h_eof h \<and> start \<noteq> int (length ls) then
              Inl (ValueError ''End of File hunk is not anchored at the end'')
            else Inr (nat start))
     else
       (let cands' = (if h_eof h then filter (\<lambda>c. c + length old = length ls) cands else cands) in
        case cands' of
          [s] \<Rightarrow> Inr s
        | [] \<Rightarrow> Inl (ValueError ''hunk context not found'')
        | _ \<Rightarrow> Inl (ValueError ''hunk context is ambiguous'')))"

text \<open>
  The replacement lines: a context line keeps the source line, an added line takes the ending of a
  neighbour.
\<close>

definition nearby_ending :: "src_line list \<Rightarrow> src_line list \<Rightarrow> nat \<Rightarrow> nat \<Rightarrow> pystr \<Rightarrow> pystr" where
  "nearby_ending ls seg start old_index dflt =
    (let near = (if seg \<noteq> [] then seg ! min old_index (length seg - 1)
                 else if ls \<noteq> [] then ls ! min start (length ls - 1)
                 else ([], dflt))
     in if snd near \<noteq> [] then snd near else dflt)"

fun replacement_from ::
  "src_line list \<Rightarrow> src_line list \<Rightarrow> nat \<Rightarrow> pystr \<Rightarrow> nat \<Rightarrow> (mark \<times> pystr) list \<Rightarrow> src_line list" where
  "replacement_from ls seg start dflt i [] = []"
| "replacement_from ls seg start dflt i ((m, t) # rest) =
    (case m of
       Context \<Rightarrow> seg ! i # replacement_from ls seg start dflt (Suc i) rest
     | Removed \<Rightarrow> replacement_from ls seg start dflt (Suc i) rest
     | Added \<Rightarrow> (t, nearby_ending ls seg start i dflt)
                 # replacement_from ls seg start dflt i rest)"

definition terminate_line :: "pystr \<Rightarrow> src_line \<Rightarrow> src_line" where
  "terminate_line dflt l = (if snd l = [] then (fst l, dflt) else l)"

text \<open>Endings inside the replacement are filled in; a file without a final newline keeps none.\<close>

definition fix_endings :: "pystr \<Rightarrow> bool \<Rightarrow> src_line list \<Rightarrow> src_line list" where
  "fix_endings dflt at_end rep =
    (if rep = [] then []
     else map (terminate_line dflt) (butlast rep)
          @ [if at_end then (fst (last rep), []) else last rep])"

definition apply_hunk :: "pystr \<Rightarrow> hunk \<Rightarrow> cursor_state \<Rightarrow> cursor_state result" where
  "apply_hunk dflt h st =
    (let ls = cs_lines st in
     if h_lines h = [] then Inl (ValueError ''hunk must contain context or changes'')
     else rbind (after_anchor ls (cs_cursor st) (h_anchor h)) (\<lambda>cur.
       rbind (hunk_start ls cur (cs_delta st) h) (\<lambda>start.
         let n = length (old_lines_of (h_lines h));
             seg = take n (drop start ls);
             no_newline = (ls \<noteq> [] \<and> snd (last ls) = []);
             rep0 = replacement_from ls seg start dflt 0 (h_lines h);
             ls1 = (if start = length ls \<and> ls \<noteq> [] \<and> snd (last ls) = [] \<and> rep0 \<noteq> []
                    then butlast ls @ [(fst (last ls), dflt)] else ls);
             rep = fix_endings dflt (start + length seg = length ls \<and> no_newline) rep0
         in Inr \<lparr>cs_lines = take start ls1 @ rep @ drop (start + n) ls1,
                 cs_cursor = start + length rep,
                 cs_delta = cs_delta st + int (length rep) - int (length seg)\<rparr>)))"

definition apply_hunks :: "pystr \<Rightarrow> hunk list \<Rightarrow> pystr result" where
  "apply_hunks src hunks =
    (let ls = split_source_lines src in
     rbind (rfold (apply_hunk (default_ending ls)) hunks
              \<lparr>cs_lines = ls, cs_cursor = 0, cs_delta = 0\<rparr>)
       (\<lambda>st. Inr (join_source_lines (cs_lines st))))"

section \<open>Splitting and joining\<close>

lemma join_split_src: "join_source_lines (split_src acc s) = acc @ s"
  by (induction acc s rule: split_src.induct)
    (auto simp: join_source_lines_def, metis list.collapse)

text \<open>Nothing of a source is lost by splitting it into lines.\<close>

lemma join_split_source_lines: "join_source_lines (split_source_lines s) = s"
  by (simp add: split_source_lines_def join_split_src)

definition wf_line :: "src_line \<Rightarrow> bool" where
  "wf_line l \<longleftrightarrow> snd l \<in> {[13, 10], [13], [10]}"

text \<open>Every line but the last is terminated; an unterminated last line is not empty.\<close>

definition wf_lines :: "src_line list \<Rightarrow> bool" where
  "wf_lines ls \<longleftrightarrow> (\<forall>l \<in> set (butlast ls). wf_line l)
     \<and> (ls \<noteq> [] \<longrightarrow> wf_line (last ls) \<or> snd (last ls) = [])"

lemma wf_lines_Cons: "wf_lines (l # ls) \<longleftrightarrow> (if ls = [] then wf_line l \<or> snd l = [] else wf_line l \<and> wf_lines ls)"
  by (auto simp: wf_lines_def)

lemma wf_split_src: "wf_lines (split_src acc s)"
proof (induction acc s rule: split_src.induct)
  case (1 acc)
  then show ?case by (simp add: wf_lines_def)
next
  case (2 acc c s)
  then show ?case by (auto simp: wf_lines_Cons wf_line_def wf_lines_def)
qed

lemma wf_split_source_lines: "wf_lines (split_source_lines s)"
  by (simp add: split_source_lines_def wf_split_src)

section \<open>The specification: hunks rewrite disjoint regions from top to bottom\<close>

definition occurrences :: "'a list \<Rightarrow> 'a list \<Rightarrow> nat list" where
  "occurrences old ls =
    filter (\<lambda>i. take (length old) (drop i ls) = old) [0..<Suc (length ls) - length old]"

text \<open>
  Where a hunk lies in the lines below the cursor: \<open>pre\<close> is skipped, the old lines of the hunk
  come next, \<open>post\<close> is left.  A heading occurs once and is skipped; the old lines occur once after
  it, or are the end of the file.
\<close>

definition placed :: "hunk \<Rightarrow> pystr list \<Rightarrow> pystr list \<Rightarrow> bool" where
  "placed h pre post \<longleftrightarrow>
    (let old = old_lines_of (h_lines h) in
     \<exists>p1 p2. pre = p1 @ p2
       \<and> (case h_anchor h of
            None \<Rightarrow> p1 = []
          | Some a \<Rightarrow> (\<exists>q. p1 = q @ [a] \<and> a \<notin> set q \<and> a \<notin> set (p2 @ old @ post)))
       \<and> (if h_eof h then post = []
          else old \<noteq> [] \<longrightarrow> occurrences old (p2 @ old @ post) = [length p2]))"

inductive patched :: "hunk list \<Rightarrow> pystr list \<Rightarrow> pystr list \<Rightarrow> bool" where
  patched_Nil: "patched [] ls ls"
| patched_Cons: "placed h pre post \<Longrightarrow> h_lines h \<noteq> [] \<Longrightarrow> patched hs post post' \<Longrightarrow>
    patched (h # hs) (pre @ old_lines_of (h_lines h) @ post)
      (pre @ new_lines_of (h_lines h) @ post')"

inductive_cases patched_NilE: "patched [] ls ls'"
inductive_cases patched_ConsE: "patched (h # hs) ls ls'"

subsection \<open>One hunk, on the texts of the lines\<close>

definition texts :: "src_line list \<Rightarrow> pystr list" where
  "texts ls = map fst ls"

lemma texts_simps [simp]:
  "texts [] = []" "texts (l # ls) = fst l # texts ls" "texts (xs @ ys) = texts xs @ texts ys"
  "length (texts ls) = length ls" "texts (take n ls) = take n (texts ls)"
  "texts (drop n ls) = drop n (texts ls)" "(texts ls = []) = (ls = [])"
  by (simp_all add: texts_def take_map drop_map)

lemma old_lines_of_simps [simp]:
  "old_lines_of [] = []"
  "old_lines_of ((Context, t) # r) = t # old_lines_of r"
  "old_lines_of ((Removed, t) # r) = t # old_lines_of r"
  "old_lines_of ((Added, t) # r) = old_lines_of r"
  by (simp_all add: old_lines_of_def)

lemma new_lines_of_simps [simp]:
  "new_lines_of [] = []"
  "new_lines_of ((Context, t) # r) = t # new_lines_of r"
  "new_lines_of ((Removed, t) # r) = new_lines_of r"
  "new_lines_of ((Added, t) # r) = t # new_lines_of r"
  by (simp_all add: new_lines_of_def)

lemma texts_replacement:
  assumes "drop i (texts seg) = old_lines_of hl"
  shows "texts (replacement_from ls seg start dflt i hl) = new_lines_of hl"
  using assms
proof (induction ls seg start dflt i hl rule: replacement_from.induct)
  case (1 ls seg start dflt i)
  then show ?case by simp
next
  case (2 ls seg start dflt i m t r)
  have step: "i < length seg \<and> fst (seg ! i) = t \<and> drop (Suc i) (texts seg) = old_lines_of r"
    if "m \<noteq> Added"
  proof -
    from that 2(4) have d: "drop i (texts seg) = t # old_lines_of r" by (cases m) auto
    then have "i < length (texts seg)" by (metis drop_all leI list.distinct(1))
    with d show ?thesis
      by (metis Cons_nth_drop_Suc list.inject nth_map texts_def texts_simps(4))
  qed
  show ?case
    using 2 step by (cases m) auto
qed

lemma texts_fix_endings [simp]: "texts (fix_endings dflt b rep) = texts rep"
proof (cases "rep = []")
  case True
  then show ?thesis by (simp add: fix_endings_def)
next
  case False
  have "texts (map (terminate_line dflt) xs) = texts xs" for xs
    by (induction xs) (auto simp: terminate_line_def)
  with False show ?thesis
    by (simp add: fix_endings_def)
      (metis append_butlast_last_id texts_simps(1,2,3))
qed

lemma texts_terminate_last:
  "ls \<noteq> [] \<Longrightarrow> texts (butlast ls @ [(fst (last ls), e)]) = texts ls"
  by (metis append_butlast_last_id fst_conv texts_simps(2,3))

lemma apply_hunk_texts:
  assumes "hunk_start (cs_lines st) cur (cs_delta st) h = Inr start"
    and "after_anchor (cs_lines st) (cs_cursor st) (h_anchor h) = Inr cur"
    and "h_lines h \<noteq> []"
    and "take (length (old_lines_of (h_lines h))) (drop start (texts (cs_lines st)))
           = old_lines_of (h_lines h)"
  obtains st' where "apply_hunk dflt h st = Inr st'"
    and "texts (cs_lines st') = take start (texts (cs_lines st)) @ new_lines_of (h_lines h)
           @ drop (start + length (old_lines_of (h_lines h))) (texts (cs_lines st))"
    and "cs_cursor st' = start + length (new_lines_of (h_lines h))"
proof -
  let ?ls = "cs_lines st" and ?n = "length (old_lines_of (h_lines h))"
  let ?seg = "take ?n (drop start ?ls)"
  let ?rep = "replacement_from ?ls ?seg start dflt 0 (h_lines h)"
  let ?ls1 = "if start = length ?ls \<and> ?ls \<noteq> [] \<and> snd (last ?ls) = [] \<and> ?rep \<noteq> []
                    then butlast ?ls @ [(fst (last ?ls), dflt)] else ?ls"
  let ?fix = "fix_endings dflt (start + length ?seg = length ?ls \<and>
                                   ?ls \<noteq> [] \<and> snd (last ?ls) = []) ?rep"
  have t1: "texts ?ls1 = texts ?ls" using texts_terminate_last [of ?ls dflt] by simp
  have r: "texts ?rep = new_lines_of (h_lines h)"
    by (rule texts_replacement) (use assms(4) in simp)
  have f: "texts ?fix = new_lines_of (h_lines h)" using r by simp
  have len: "length ?fix = length (new_lines_of (h_lines h))" using f texts_simps(4) by metis
  show ?thesis
  proof (rule that)
    show "apply_hunk dflt h st = Inr \<lparr>cs_lines = take start ?ls1 @ ?fix @ drop (start + ?n) ?ls1,
                 cs_cursor = start + length ?fix,
                 cs_delta = cs_delta st + int (length ?fix) - int (length ?seg)\<rparr>"
      unfolding apply_hunk_def Let_def using assms(1-3) by simp
  qed (simp_all only: cursor_state.simps texts_simps t1 f len)
qed

subsection \<open>Where a hunk starts\<close>

lemma filter_upt_shift:
  "filter P [c..<c + k] = map (\<lambda>i. i + c) (filter (\<lambda>i. P (i + c)) [0..<k])"
proof -
  have "[c..<c + k] = map (\<lambda>i. i + c) [0..<k]" by (simp add: map_add_upt add.commute)
  then show ?thesis by (simp add: filter_map comp_def)
qed

lemma unique_index:
  "filter (\<lambda>i. P (ys ! i)) [0..<length ys] = [j] \<longleftrightarrow>
    (\<exists>q x r. ys = q @ x # r \<and> j = length q \<and> P x \<and> filter P q = [] \<and> filter P r = [])"
proof (induction ys arbitrary: j)
  case Nil
  then show ?case by simp
next
  case (Cons y ys)
  have split: "filter (\<lambda>i. P ((y # ys) ! i)) [0..<length (y # ys)]
      = (if P y then [0] else []) @ map Suc (filter (\<lambda>i. P (ys ! i)) [0..<length ys])"
    by (simp add: upt_conv_Cons map_Suc_upt [symmetric] filter_map comp_def del: upt_Suc)
  have none: "filter (\<lambda>i. P (ys ! i)) [0..<length ys] = [] \<longleftrightarrow> filter P ys = []"
    by (auto simp: filter_empty_conv all_set_conv_all_nth)
  show ?case
  proof (cases "P y")
    case True
    with split none have "filter (\<lambda>i. P ((y # ys) ! i)) [0..<length (y # ys)] = [j]
        \<longleftrightarrow> j = 0 \<and> filter P ys = []" by auto
    with True show ?thesis by (auto simp: Cons_eq_append_conv)
  next
    case False
    then have "filter (\<lambda>i. P ((y # ys) ! i)) [0..<length (y # ys)] = [j]
        \<longleftrightarrow> (\<exists>k. j = Suc k \<and> filter (\<lambda>i. P (ys ! i)) [0..<length ys] = [k])"
      using split by (auto simp: map_eq_Cons_conv)
    also have "\<dots> \<longleftrightarrow> (\<exists>k q x r. j = Suc k \<and> ys = q @ x # r \<and> k = length q \<and> P x
        \<and> filter P q = [] \<and> filter P r = [])"
      using Cons.IH by blast
    also have "\<dots> \<longleftrightarrow> (\<exists>q x r. y # ys = q @ x # r \<and> j = length q \<and> P x
        \<and> filter P q = [] \<and> filter P r = [])" (is "?L \<longleftrightarrow> ?R")
    proof
      assume ?L
      then obtain q x r where "j = Suc (length q)" "ys = q @ x # r" "P x" "filter P q = []" "filter P r = []"
        by blast
      with False show ?R by (intro exI [of _ "y # q"]) auto
    next
      assume ?R
      then obtain q x r where *: "y # ys = q @ x # r" "j = length q" "P x" "filter P q = []" "filter P r = []"
        by blast
      with False obtain q' where "q = y # q'" by (cases q) auto
      with * False have "ys = q' @ x # r" "j = Suc (length q')" "filter P q' = []" by auto
      with *(3,5) show ?L by blast
    qed
    finally show ?thesis .
  qed
qed

lemma candidates_occurrences:
  assumes "cur \<le> length ls"
  shows "candidates ls cur old = map (\<lambda>i. i + cur) (occurrences old (drop cur (texts ls)))"
proof -
  let ?k = "Suc (length ls - cur) - length old"
  have "candidates ls cur old =
      filter (\<lambda>s. take (length old) (drop s (texts ls)) = old) [cur..<cur + ?k]"
  proof (cases "cur \<le> Suc (length ls) - length old")
    case True
    then have "cur + ?k = Suc (length ls) - length old" using assms by auto
    then have "[cur..<cur + ?k] = [cur..<Suc (length ls) - length old]" by (rule arg_cong)
    then show ?thesis by (simp only: candidates_def texts_def take_map drop_map)
  next
    case False
    then have "?k = 0" using assms by arith
    with False show ?thesis by (simp add: candidates_def)
  qed
  then show ?thesis
    using assms by (simp add: filter_upt_shift occurrences_def add.commute)
qed

text \<open>The heading, on the lines below the cursor.\<close>

definition anchored :: "pystr option \<Rightarrow> pystr list \<Rightarrow> pystr list \<Rightarrow> bool" where
  "anchored anchor p1 r = (case anchor of
      None \<Rightarrow> p1 = []
    | Some a \<Rightarrow> \<exists>q. p1 = q @ [a] \<and> a \<notin> set q \<and> a \<notin> set r)"

lemma after_anchor_iff:
  assumes "cur \<le> length ls"
  shows "after_anchor ls cur anchor = Inr cur' \<longleftrightarrow>
    (\<exists>p1 r. drop cur (texts ls) = p1 @ r \<and> cur' = cur + length p1 \<and> anchored anchor p1 r)"
proof (cases anchor)
  case None
  then show ?thesis by (auto simp: after_anchor_def anchored_def)
next
  case (Some a)
  let ?ys = "drop cur (texts ls)"
  have shift: "filter (\<lambda>i. fst (ls ! i) = a) [cur..<length ls]
      = map (\<lambda>i. i + cur) (filter (\<lambda>i. ?ys ! i = a) [0..<length ?ys])"
  proof -
    have "cur + (length ls - cur) = length ls" using assms by simp
    then show ?thesis
      using filter_upt_shift [of "\<lambda>i. fst (ls ! i) = a" cur "length ls - cur"]
      by (auto simp: texts_def add.commute intro!: filter_cong)
  qed
  have "after_anchor ls cur anchor = Inr cur' \<longleftrightarrow>
      (\<exists>j. filter (\<lambda>i. ?ys ! i = a) [0..<length ?ys] = [j] \<and> cur' = Suc (j + cur))"
    unfolding after_anchor_def Some option.case shift
    by (auto split: list.splits)
  also have "\<dots> \<longleftrightarrow> (\<exists>q r. ?ys = q @ a # r \<and> cur' = Suc (length q + cur)
      \<and> a \<notin> set q \<and> a \<notin> set r)"
    unfolding unique_index [of "\<lambda>x. x = a"] by (auto simp: filter_empty_conv)
  also have "\<dots> \<longleftrightarrow> (\<exists>p1 r. ?ys = p1 @ r \<and> cur' = cur + length p1 \<and> anchored anchor p1 r)"
    unfolding anchored_def Some option.case
    by (auto simp: add.commute) (metis append.assoc append_Cons append_Nil length_append_singleton)+
  finally show ?thesis .
qed

lemma occurrences_fit:
  "i \<in> set (occurrences old ls) \<longleftrightarrow> i + length old \<le> length ls \<and> take (length old) (drop i ls) = old"
  by (auto simp: occurrences_def)

lemma filter_eq_distinct: "distinct xs \<Longrightarrow> x \<in> set xs \<Longrightarrow> filter (\<lambda>c. c = x) xs = [x]"
  by (induction xs) (auto simp: filter_empty_conv)

lemma distinct_occurrences: "distinct (occurrences old ls)"
  by (simp add: occurrences_def)

text \<open>A successful placement: in range, the old lines match, and once.\<close>

lemma hunk_start_sound:
  assumes "hunk_start ls cur d h = Inr start" and "cur \<le> length ls"
    and old: "old = old_lines_of (h_lines h)"
  shows "cur \<le> start \<and> start + length old \<le> length ls
    \<and> take (length old) (drop start (texts ls)) = old
    \<and> (if h_eof h then start + length old = length ls
       else old \<noteq> [] \<longrightarrow> occurrences old (drop cur (texts ls)) = [start - cur])"
proof (cases "old = []")
  case True
  with assms(1) obtain s where s: "s = int start \<or> nat s = start" "\<not> s < int cur" "\<not> s > int (length ls)"
      "h_eof h \<longrightarrow> s = int (length ls)"
    unfolding hunk_start_def Let_def old [symmetric]
    by (auto simp: result_simps split: if_splits option.splits)
  with True show ?thesis by auto
next
  case False
  have c: "candidates ls cur old = map (\<lambda>i. i + cur) (occurrences old (drop cur (texts ls)))"
    by (rule candidates_occurrences [OF assms(2)])
  let ?cs = "if h_eof h then filter (\<lambda>c. c + length old = length ls) (candidates ls cur old)
             else candidates ls cur old"
  have one: "?cs = [start]"
    using assms(1) False unfolding hunk_start_def Let_def old [symmetric]
    by (auto split: list.splits if_splits)
  then have "start \<in> set ?cs" by simp
  then have "start \<in> set (candidates ls cur old)" by (auto split: if_splits)
  then obtain i where i: "start = i + cur" "i \<in> set (occurrences old (drop cur (texts ls)))"
    unfolding c by auto
  then have fit: "i + length old \<le> length ls - cur" "take (length old) (drop (cur + i) (texts ls)) = old"
    by (auto simp: occurrences_fit add.commute)
  moreover have "h_eof h \<Longrightarrow> start + length old = length ls"
  proof -
    assume "h_eof h"
    with one have "start \<in> set (filter (\<lambda>c. c + length old = length ls) (candidates ls cur old))" by simp
    then show ?thesis by simp
  qed
  moreover have "\<not> h_eof h \<Longrightarrow> occurrences old (drop cur (texts ls)) = [start - cur]"
    using one unfolding c by (auto simp: map_eq_Cons_conv)
  moreover have "start + length old \<le> length ls" using fit(1) assms(2) i(1) by arith
  ultimately show ?thesis using i(1) by (simp add: add.commute)
qed

lemma hunk_start_complete:
  assumes "old = old_lines_of (h_lines h)" "old \<noteq> []" "cur \<le> length ls"
    and rest: "drop cur (texts ls) = p2 @ old @ post"
    and once: "if h_eof h then post = [] else occurrences old (drop cur (texts ls)) = [length p2]"
  shows "hunk_start ls cur d h = Inr (cur + length p2)"
proof -
  let ?c = "candidates ls cur old"
  have c: "?c = map (\<lambda>i. i + cur) (occurrences old (drop cur (texts ls)))"
    by (rule candidates_occurrences [OF assms(3)])
  have len: "length ls = cur + length p2 + length old + length post"
    using arg_cong [OF rest, of length] assms(3) by simp
  have "(if h_eof h then filter (\<lambda>c. c + length old = length ls) ?c else ?c) = [cur + length p2]"
  proof (cases "h_eof h")
    case True
    with once have "post = []" by simp
    have mem: "length p2 \<in> set (occurrences old (drop cur (texts ls)))"
      unfolding occurrences_fit rest by simp
    have "filter (\<lambda>c. c + length old = length ls) ?c = filter (\<lambda>c. c = cur + length p2) ?c"
      using len \<open>post = []\<close> by (intro filter_cong) auto
    also have "\<dots> = [cur + length p2]"
    proof -
      have "distinct ?c" unfolding c by (simp add: distinct_map distinct_occurrences inj_on_def)
      moreover have "cur + length p2 \<in> set ?c" unfolding c using mem by auto
      ultimately show ?thesis by (rule filter_eq_distinct)
    qed
    finally show ?thesis using True by simp
  next
    case False
    with once show ?thesis by (simp add: c)
  qed
  then show ?thesis
    unfolding hunk_start_def Let_def assms(1) [symmetric] using assms(2) by simp
qed

lemma placed_alt:
  "placed h pre post \<longleftrightarrow> (\<exists>p1 p2. pre = p1 @ p2
     \<and> anchored (h_anchor h) p1 (p2 @ old_lines_of (h_lines h) @ post)
     \<and> (if h_eof h then post = [] else old_lines_of (h_lines h) \<noteq> [] \<longrightarrow>
          occurrences (old_lines_of (h_lines h)) (p2 @ old_lines_of (h_lines h) @ post) = [length p2]))"
  by (simp add: placed_def anchored_def Let_def)

text \<open>The step of the loop against the specification, both ways.\<close>

lemma apply_hunk_sound:
  assumes "apply_hunk dflt h st = Inr st'" and "cs_cursor st \<le> length (cs_lines st)"
  obtains pre post where "placed h pre post" and "h_lines h \<noteq> []"
    and "drop (cs_cursor st) (texts (cs_lines st)) = pre @ old_lines_of (h_lines h) @ post"
    and "texts (cs_lines st') = take (cs_cursor st) (texts (cs_lines st))
           @ pre @ new_lines_of (h_lines h) @ post"
    and "cs_cursor st' = cs_cursor st + length pre + length (new_lines_of (h_lines h))"
proof -
  let ?ls = "cs_lines st" and ?c = "cs_cursor st" and ?old = "old_lines_of (h_lines h)"
  from assms(1) obtain cur start where nonempty: "h_lines h \<noteq> []"
    and a: "after_anchor ?ls ?c (h_anchor h) = Inr cur"
    and s: "hunk_start ?ls cur (cs_delta st) h = Inr start"
    unfolding apply_hunk_def Let_def by (auto simp: result_simps split: if_splits)
  from a obtain p1 r where p1: "drop ?c (texts ?ls) = p1 @ r" "cur = ?c + length p1"
      "anchored (h_anchor h) p1 r"
    unfolding after_anchor_iff [OF assms(2)] by blast
  have cur: "cur \<le> length ?ls" using arg_cong [OF p1(1), of length] p1(2) assms(2) by simp
  note fact = hunk_start_sound [OF s cur refl]
  have dc: "drop cur (texts ?ls) = r"
    using p1(1,2) by (metis add.commute append_eq_conv_conj drop_drop)
  let ?p2 = "take (start - cur) r" and ?post = "drop (start + length ?old) (texts ?ls)"
  have r: "r = ?p2 @ ?old @ ?post"
  proof -
    have "drop (start - cur) r = drop start (texts ?ls)"
      unfolding dc [symmetric] using fact by simp
    also have "\<dots> = take (length ?old) (drop start (texts ?ls)) @ ?post"
      by (metis add.commute append_take_drop_id drop_drop)
    finally show ?thesis using fact by (metis append_take_drop_id)
  qed
  have lp2: "length ?p2 = start - cur"
  proof -
    have "start - cur \<le> length ?ls - cur" using fact by (simp add: diff_le_mono)
    then show ?thesis unfolding dc [symmetric] by (simp add: min_absorb2)
  qed
  have pl: "placed h (p1 @ ?p2) ?post"
    unfolding placed_alt
  proof (intro exI conjI)
    show "anchored (h_anchor h) p1 (?p2 @ ?old @ ?post)" using p1(3) r by simp
    show "if h_eof h then ?post = [] else ?old \<noteq> [] \<longrightarrow>
        occurrences ?old (?p2 @ ?old @ ?post) = [length ?p2]"
      using fact unfolding dc r [symmetric] lp2 by (auto split: if_splits)
  qed simp
  have tk: "take start (texts ?ls) = take ?c (texts ?ls) @ p1 @ ?p2"
  proof -
    have "take start (texts ?ls) = take cur (texts ?ls) @ ?p2"
      unfolding dc [symmetric] using fact by (metis le_add_diff_inverse take_add)
    also have "take cur (texts ?ls) = take ?c (texts ?ls) @ p1"
      unfolding p1(2) take_add p1(1) by simp
    finally show ?thesis by simp
  qed
  obtain t where t: "apply_hunk dflt h st = Inr t"
    "texts (cs_lines t) = take start (texts ?ls) @ new_lines_of (h_lines h) @ ?post"
    "cs_cursor t = start + length (new_lines_of (h_lines h))"
    using apply_hunk_texts [OF s a nonempty] fact by blast
  have start: "start = ?c + length (p1 @ ?p2)" using lp2 p1(2) fact by simp
  show ?thesis
  proof (rule that [OF pl nonempty])
    show "drop ?c (texts ?ls) = (p1 @ ?p2) @ ?old @ ?post" using p1(1) r by simp
    show "texts (cs_lines st') = take ?c (texts ?ls) @ (p1 @ ?p2) @ new_lines_of (h_lines h) @ ?post"
      using t(1,2) assms(1) tk by simp
    show "cs_cursor st' = ?c + length (p1 @ ?p2) + length (new_lines_of (h_lines h))"
      using t(1,3) assms(1) start by simp
  qed
qed

lemma apply_hunk_complete:
  assumes "placed h pre post" and "h_lines h \<noteq> []" and "old_lines_of (h_lines h) \<noteq> []"
    and "drop (cs_cursor st) (texts (cs_lines st)) = pre @ old_lines_of (h_lines h) @ post"
    and "cs_cursor st \<le> length (cs_lines st)"
  obtains st' where "apply_hunk dflt h st = Inr st'"
    and "texts (cs_lines st') = take (cs_cursor st) (texts (cs_lines st))
           @ pre @ new_lines_of (h_lines h) @ post"
    and "cs_cursor st' = cs_cursor st + length pre + length (new_lines_of (h_lines h))"
proof -
  let ?ls = "cs_lines st" and ?c = "cs_cursor st" and ?old = "old_lines_of (h_lines h)"
  from assms(1) obtain p1 p2 where p: "pre = p1 @ p2" "anchored (h_anchor h) p1 (p2 @ ?old @ post)"
    "if h_eof h then post = [] else occurrences ?old (p2 @ ?old @ post) = [length p2]"
    unfolding placed_alt using assms(3) by auto
  let ?cur = "?c + length p1"
  have a: "after_anchor ?ls ?c (h_anchor h) = Inr ?cur"
    unfolding after_anchor_iff [OF assms(5)] using p assms(4) by auto
  have cur: "?cur \<le> length ?ls" using arg_cong [OF assms(4), of length] assms(5) p(1) by simp
  have dc: "drop ?cur (texts ?ls) = p2 @ ?old @ post"
    using assms(4) p(1) by (metis add.commute append.assoc append_eq_conv_conj drop_drop)
  have s: "hunk_start ?ls ?cur (cs_delta st) h = Inr (?cur + length p2)"
    by (rule hunk_start_complete [OF refl assms(3) cur dc]) (use p(3) dc in simp)
  have start: "?cur + length p2 = ?c + length pre" using p(1) by simp
  have ds: "drop (?c + length pre) (texts ?ls) = ?old @ post"
    using assms(4) by (metis add.commute append_eq_conv_conj drop_drop)
  have dd: "drop (?c + length pre + length ?old) (texts ?ls) = post"
    using ds by (metis add.commute append_eq_conv_conj drop_drop)
  have tt: "take (?c + length pre) (texts ?ls) = take ?c (texts ?ls) @ pre"
    unfolding take_add assms(4) by simp
  obtain t where t: "apply_hunk dflt h st = Inr t"
    "texts (cs_lines t) = take (?c + length pre) (texts ?ls) @ new_lines_of (h_lines h)
       @ drop (?c + length pre + length ?old) (texts ?ls)"
    "cs_cursor t = ?c + length pre + length (new_lines_of (h_lines h))"
    using apply_hunk_texts [OF s [unfolded start] a assms(2)] ds by auto
  show ?thesis by (rule that [OF t(1) _ t(3)]) (simp add: t(2) tt dd)
qed

subsection \<open>All hunks\<close>

lemma rfold_apply_hunk_sound:
  assumes "rfold (apply_hunk dflt) hs st = Inr st'" and "cs_cursor st \<le> length (cs_lines st)"
  shows "\<exists>new. patched hs (drop (cs_cursor st) (texts (cs_lines st))) new
           \<and> texts (cs_lines st') = take (cs_cursor st) (texts (cs_lines st)) @ new"
  using assms
proof (induction hs arbitrary: st)
  case Nil
  then show ?case by (auto intro: patched_Nil)
next
  case (Cons h hs)
  let ?T = "texts (cs_lines st)" and ?c = "cs_cursor st"
  from Cons.prems(1) obtain t where t: "apply_hunk dflt h st = Inr t"
      "rfold (apply_hunk dflt) hs t = Inr st'" by (auto simp: result_simps)
  from apply_hunk_sound [OF t(1) Cons.prems(2)] obtain pre post where p: "placed h pre post"
      "h_lines h \<noteq> []" "drop ?c ?T = pre @ old_lines_of (h_lines h) @ post"
      "texts (cs_lines t) = take ?c ?T @ pre @ new_lines_of (h_lines h) @ post"
      "cs_cursor t = ?c + length pre + length (new_lines_of (h_lines h))" .
  have lt: "length (take ?c ?T) = ?c" using Cons.prems(2) by simp
  have d: "drop (cs_cursor t) (texts (cs_lines t)) = post"
    and k: "take (cs_cursor t) (texts (cs_lines t)) = take ?c ?T @ pre @ new_lines_of (h_lines h)"
    unfolding p(4,5) using lt by simp_all
  have "cs_cursor t \<le> length (texts (cs_lines t))" unfolding p(4,5) using lt by simp
  with Cons.IH [OF t(2)] d k obtain new where new: "patched hs post new"
      "texts (cs_lines st') = (take ?c ?T @ pre @ new_lines_of (h_lines h)) @ new" by auto
  from patched_Cons [OF p(1,2) new(1)] new(2) show ?case unfolding p(3) by auto
qed

lemma rfold_apply_hunk_complete:
  assumes "patched hs (drop (cs_cursor st) (texts (cs_lines st))) new"
    and "\<forall>h \<in> set hs. old_lines_of (h_lines h) \<noteq> []"
    and "cs_cursor st \<le> length (cs_lines st)"
  shows "\<exists>st'. rfold (apply_hunk dflt) hs st = Inr st'
           \<and> texts (cs_lines st') = take (cs_cursor st) (texts (cs_lines st)) @ new"
  using assms
proof (induction hs arbitrary: st new)
  case Nil
  then show ?case by (auto elim: patched_NilE)
next
  case (Cons h hs)
  let ?T = "texts (cs_lines st)" and ?c = "cs_cursor st"
  from Cons.prems(1) obtain pre post post' where p: "placed h pre post" "h_lines h \<noteq> []"
      "patched hs post post'" "drop ?c ?T = pre @ old_lines_of (h_lines h) @ post"
      "new = pre @ new_lines_of (h_lines h) @ post'"
    by (rule patched_ConsE)
  have "old_lines_of (h_lines h) \<noteq> []" using Cons.prems(2) by simp
  from apply_hunk_complete [OF p(1,2) this p(4) Cons.prems(3)] obtain t where
    t: "apply_hunk dflt h st = Inr t"
      "texts (cs_lines t) = take ?c ?T @ pre @ new_lines_of (h_lines h) @ post"
      "cs_cursor t = ?c + length pre + length (new_lines_of (h_lines h))" .
  have lt: "length (take ?c ?T) = ?c" using Cons.prems(3) by simp
  have d: "drop (cs_cursor t) (texts (cs_lines t)) = post"
    and k: "take (cs_cursor t) (texts (cs_lines t)) = take ?c ?T @ pre @ new_lines_of (h_lines h)"
    unfolding t(2,3) using lt by simp_all
  have "cs_cursor t \<le> length (texts (cs_lines t))" unfolding t(2,3) using lt by simp
  then have "cs_cursor t \<le> length (cs_lines t)" by simp
  with Cons.IH [of t post'] Cons.prems(2) p(3) d obtain st' where
    "rfold (apply_hunk dflt) hs t = Inr st'"
    "texts (cs_lines st') = take (cs_cursor t) (texts (cs_lines t)) @ post'" by auto
  with t(1) show ?case by (auto simp: k p(5) simp del: texts_simps)
qed

subsection \<open>Line endings\<close>

lemma wf_lines_append:
  "ys \<noteq> [] \<Longrightarrow> wf_lines (xs @ ys) \<longleftrightarrow> (\<forall>l \<in> set xs. wf_line l) \<and> wf_lines ys"
  by (induction xs) (auto simp: wf_lines_Cons)

lemma wf_lines_all: "\<forall>l \<in> set ls. wf_line l \<Longrightarrow> wf_lines ls"
  by (auto simp: wf_lines_def dest: in_set_butlastD)

lemma wf_lines_ended: "wf_lines ls \<Longrightarrow> ls = [] \<or> snd (last ls) \<noteq> [] \<Longrightarrow> l \<in> set ls \<Longrightarrow> wf_line l"
  by (induction ls) (auto simp: wf_lines_Cons split: if_splits)

lemma wf_line_open: "wf_lines ls \<Longrightarrow> l \<in> set ls \<Longrightarrow> wf_line l \<or> snd l = []"
  by (induction ls) (auto simp: wf_lines_Cons split: if_splits)

definition good_ending :: "pystr \<Rightarrow> bool" where
  "good_ending e \<longleftrightarrow> e \<in> {[13, 10], [13], [10]}"

lemma wf_line_good: "wf_line l \<longleftrightarrow> good_ending (snd l)"
  by (simp add: wf_line_def good_ending_def)

lemma default_ending_good: "wf_lines ls \<Longrightarrow> good_ending (default_ending ls)"
  unfolding default_ending_def
  by (auto simp: find_Some_iff good_ending_def split: option.splits)
    (metis good_ending_def insertE nth_mem singletonD wf_line_good wf_line_open)+

lemma replacement_endings:
  assumes "\<forall>l \<in> set ls \<union> set seg. wf_line l \<or> snd l = []" and "good_ending dflt"
    and "drop i (texts seg) = old_lines_of hl" and "l \<in> set (replacement_from ls seg start dflt i hl)"
  shows "l \<in> set seg \<or> wf_line l"
  using assms
proof (induction ls seg start dflt i hl rule: replacement_from.induct)
  case (1 ls seg start dflt i)
  then show ?case by simp
next
  case (2 ls seg start dflt i m t r)
  have idx: "i < length seg" if "m \<noteq> Added"
    using that 2(6) by (cases m) (auto, (metis drop_all leI list.distinct(1) texts_simps(4))+)
  have "good_ending (nearby_ending ls seg start i dflt)"
  proof -
    have "seg \<noteq> [] \<Longrightarrow> seg ! min i (length seg - 1) \<in> set seg"
      and "ls \<noteq> [] \<Longrightarrow> ls ! min start (length ls - 1) \<in> set ls"
      by (auto intro!: nth_mem simp: min_less_iff_disj)
    with 2(4,5) show ?thesis by (auto simp: nearby_ending_def Let_def wf_line_good)
  qed
  moreover have "m \<noteq> Added \<Longrightarrow> drop (Suc i) (texts seg) = old_lines_of r"
    using 2(6) by (cases m) (auto, (metis drop_Suc list.sel(3) tl_drop)+)
  ultimately show ?case
    using 2 idx by (cases m) (auto simp: wf_line_good)
qed

lemma fix_endings_wf:
  assumes "\<forall>l \<in> set rep. wf_line l \<or> snd l = []" and "good_ending dflt"
    and "\<not> at_end \<Longrightarrow> rep \<noteq> [] \<Longrightarrow> wf_line (last rep)"
  shows "wf_lines (fix_endings dflt at_end rep)"
    and "\<not> at_end \<Longrightarrow> l \<in> set (fix_endings dflt at_end rep) \<Longrightarrow> wf_line l"
proof -
  have closed: "wf_line (terminate_line dflt l)" if "l \<in> set rep" for l
    using that assms(1,2) by (auto simp: terminate_line_def wf_line_good)
  then show "wf_lines (fix_endings dflt at_end rep)"
    using assms(3)
    by (auto simp: fix_endings_def wf_lines_append wf_lines_Cons wf_lines_def dest: in_set_butlastD)
  show "\<not> at_end \<Longrightarrow> l \<in> set (fix_endings dflt at_end rep) \<Longrightarrow> wf_line l"
    using assms(3) closed by (auto simp: fix_endings_def dest: in_set_butlastD split: if_splits)
qed

lemma apply_hunk_wf:
  assumes "apply_hunk dflt h st = Inr st'" and "cs_cursor st \<le> length (cs_lines st)"
    and wf: "wf_lines (cs_lines st)" and dflt: "good_ending dflt"
  shows "wf_lines (cs_lines st')"
proof -
  let ?ls = "cs_lines st" and ?c = "cs_cursor st" and ?old = "old_lines_of (h_lines h)"
  from assms(1) obtain cur start where nonempty: "h_lines h \<noteq> []"
    and a: "after_anchor ?ls ?c (h_anchor h) = Inr cur"
    and s: "hunk_start ?ls cur (cs_delta st) h = Inr start"
    unfolding apply_hunk_def Let_def by (auto simp: result_simps split: if_splits)
  have cur: "cur \<le> length ?ls"
    using a assms(2) unfolding after_anchor_iff [OF assms(2)]
    by (metis add.commute le_add_diff_inverse length_append length_drop nat_add_left_cancel_le
        le_add1 texts_simps(4))
  note fact = hunk_start_sound [OF s cur refl]
  let ?n = "length ?old"
  let ?seg = "take ?n (drop start ?ls)" and ?post = "drop (start + ?n) ?ls"
  let ?open = "?ls \<noteq> [] \<and> snd (last ?ls) = []"
  let ?rep = "replacement_from ?ls ?seg start dflt 0 (h_lines h)"
  let ?at = "start + length ?seg = length ?ls \<and> ?open"
  let ?ls1 = "if start = length ?ls \<and> ?ls \<noteq> [] \<and> snd (last ?ls) = [] \<and> ?rep \<noteq> []
                    then butlast ?ls @ [(fst (last ?ls), dflt)] else ?ls"
  have st': "cs_lines st' = take start ?ls1 @ fix_endings dflt ?at ?rep @ drop (start + ?n) ?ls1"
    using assms(1) a s nonempty unfolding apply_hunk_def Let_def by auto
  have ls: "?ls = take start ?ls @ ?seg @ ?post"
    by (metis add.commute append_take_drop_id drop_drop)
  have fits: "start + ?n \<le> length ?ls" using fact by blast
  then have seg_len: "length ?seg = ?n" by simp
  have ends: "\<forall>l \<in> set ?ls. wf_line l \<or> snd l = []" using wf wf_line_open by blast
  have seg_sub: "set ?seg \<subseteq> set ?ls" by (meson order_trans set_drop_subset set_take_subset)
  have rep_ends: "l \<in> set ?seg \<or> wf_line l" if "l \<in> set ?rep" for l
    by (rule replacement_endings [OF _ dflt _ that]) (use ends seg_sub fact in auto)
  have seg_wf: "wf_line l" if "l \<in> set ?seg" "\<not> ?at" for l
  proof (cases "?post = []")
    case True
    then have "\<not> ?open" using that(2) seg_len fact by auto
    then show ?thesis using wf_lines_ended [OF wf] that(1) seg_sub by blast
  next
    case False
    then show ?thesis using wf ls that(1) wf_lines_append [of ?post "take start ?ls @ ?seg"]
      by (metis Un_iff append.assoc set_append)
  qed
  have rep_wf: "wf_line l" if "l \<in> set ?rep" "\<not> ?at" for l
    using rep_ends [OF that(1)] seg_wf that(2) by blast
  have fixed: "wf_lines (fix_endings dflt ?at ?rep)"
    by (rule fix_endings_wf(1)) (use rep_ends ends seg_sub dflt rep_wf in auto)
  have fixed_all: "wf_line l" if "\<not> ?at" "l \<in> set (fix_endings dflt ?at ?rep)" for l
    by (rule fix_endings_wf(2) [OF _ dflt _ that]) (use rep_ends ends seg_sub rep_wf that in auto)
  show ?thesis
  proof (cases "start = length ?ls")
    case True
    with fits have post: "?n = 0" by simp
    show ?thesis
    proof (cases "?rep = []")
      case True
      then show ?thesis
        using wf \<open>start = length ?ls\<close> unfolding st' by (simp add: fix_endings_def)
    next
      case False
      have "wf_line l" if "l \<in> set ?ls1" for l
      proof (cases ?open)
        case True
        with that \<open>start = length ?ls\<close> False have "l \<in> set (butlast ?ls) \<or> l = (fst (last ?ls), dflt)"
          by auto
        with wf dflt show ?thesis by (auto simp: wf_lines_def wf_line_good)
      next
        case False
        with that have "l \<in> set ?ls" by (auto split: if_splits)
        with False wf show ?thesis by (metis wf_lines_ended)
      qed
      moreover have "fix_endings dflt ?at ?rep \<noteq> []" using False by (simp add: fix_endings_def)
      moreover have "take start ?ls1 = ?ls1 \<and> drop (start + ?n) ?ls1 = []" using True post by simp
      ultimately show ?thesis using fixed unfolding st' by (simp add: wf_lines_append del: texts_simps)
    qed
  next
    case False
    then have ls1: "?ls1 = ?ls" by simp
    have "drop start ?ls \<noteq> []" using False fits by simp
    then have pre: "\<forall>l \<in> set (take start ?ls). wf_line l"
      using wf wf_lines_append [of "drop start ?ls" "take start ?ls"] by (metis append_take_drop_id)
    show ?thesis
    proof (cases "?post = []")
      case True
      then show ?thesis using pre fixed unfolding st' ls1
        by (cases "fix_endings dflt ?at ?rep = []") (simp_all add: wf_lines_append wf_lines_all)
    next
      case post: False
      then have "\<not> ?at" using seg_len by auto
      moreover have "wf_lines ?post"
        using wf ls post wf_lines_append [of ?post "take start ?ls @ ?seg"] by (metis append.assoc)
      ultimately show ?thesis using pre fixed_all post unfolding st' ls1
        by (simp only: append_assoc [symmetric] wf_lines_append [OF post] set_append) blast
    qed
  qed
qed

lemma apply_hunk_cursor:
  assumes "apply_hunk dflt h st = Inr st'" and "cs_cursor st \<le> length (cs_lines st)"
  shows "cs_cursor st' \<le> length (cs_lines st')"
proof -
  from apply_hunk_sound [OF assms] obtain pre post where
    p: "texts (cs_lines st') = take (cs_cursor st) (texts (cs_lines st))
           @ pre @ new_lines_of (h_lines h) @ post"
      "cs_cursor st' = cs_cursor st + length pre + length (new_lines_of (h_lines h))" .
  from arg_cong [OF p(1), of length] assms(2) show ?thesis unfolding p(2) by simp
qed

lemma apply_hunks_state:
  "apply_hunks src hs = Inr out \<longleftrightarrow>
    (\<exists>st. rfold (apply_hunk (default_ending (split_source_lines src))) hs
            \<lparr>cs_lines = split_source_lines src, cs_cursor = 0, cs_delta = 0\<rparr> = Inr st
       \<and> out = join_source_lines (cs_lines st))"
  by (auto simp: apply_hunks_def Let_def result_simps)


text \<open>
  C33: hunks with old lines that have a placement are applied, with the lines the
  placement gives: a patch that fits the file in exactly one way is never refused.
\<close>

theorem apply_hunks_complete:
  assumes "patched hs (texts (split_source_lines src)) new"
    and "\<forall>h \<in> set hs. old_lines_of (h_lines h) \<noteq> []"
  shows "\<exists>ls. apply_hunks src hs = Inr (join_source_lines ls) \<and> texts ls = new"
proof -
  let ?st = "\<lparr>cs_lines = split_source_lines src, cs_cursor = 0, cs_delta = 0\<rparr>"
  have "patched hs (drop (cs_cursor ?st) (texts (cs_lines ?st))) new" using assms(1) by simp
  from rfold_apply_hunk_complete [OF this assms(2), of "default_ending (split_source_lines src)"]
  obtain st where "rfold (apply_hunk (default_ending (split_source_lines src))) hs ?st = Inr st"
    and "texts (cs_lines st) = new" by auto
  then show ?thesis unfolding apply_hunks_state by blast
qed

definition sample_hunk :: hunk where
  "sample_hunk = \<lparr>old_start = None, old_count = None, new_start = None, new_count = None,
    h_lines = [(Context, lit ''b''), (Removed, lit ''c''), (Added, lit ''d'')], h_eof = False,
    h_anchor = Some (lit ''a'')\<rparr>"

lemma apply_sample_hunk:
  "apply_hunks [97, 13, 10, 98, 13, 10, 99] [sample_hunk] = Inr [97, 13, 10, 98, 13, 10, 100]"
  by code_simp


lemma patched_sample_hunk:
  "patched [sample_hunk] (texts (split_source_lines [97, 13, 10, 98, 13, 10, 99])) [[97], [98], [100]]"
proof -
  have "patched [sample_hunk] ([[97]] @ old_lines_of (h_lines sample_hunk) @ [])
      ([[97]] @ new_lines_of (h_lines sample_hunk) @ [])"
  proof (rule patched_Cons [OF _ _ patched_Nil])
    show "placed sample_hunk [[97]] []"
      unfolding placed_alt
      by (rule exI [of _ "[[97]]"], rule exI [of _ "[]"])
        (simp add: sample_hunk_def anchored_def occurrences_def)
  qed (simp add: sample_hunk_def)
  moreover have "[[97]] @ old_lines_of (h_lines sample_hunk) @ []
      = texts (split_source_lines [97, 13, 10, 98, 13, 10, 99])" by code_simp
  moreover have "[[97]] @ new_lines_of (h_lines sample_hunk) @ [] = [[97], [98], [100]]" by code_simp
  ultimately show ?thesis by simp
qed

theorem apply_hunks_complete_witness:
  "\<exists>ls. apply_hunks [97, 13, 10, 98, 13, 10, 99] [sample_hunk] = Inr (join_source_lines ls)
     \<and> texts ls = [[97], [98], [100]]"
  by (rule apply_hunks_complete [OF patched_sample_hunk]) (simp add: sample_hunk_def)

end
