(* ===== verification/Patch_Apply.thy ===== *)
theory Patch_Apply
  imports File_Atomicity Patch_Hunks "HOL-Library.List_Lexorder"
begin

text \<open>
  \<open>apply_patch\<close> of patching.py: resolving the paths, refusing conflicting changes, the lock order,
  reading the states, checking the expected hashes, planning every change and committing the plans.
  How a patch path is resolved in the workspace and where symbolic links are is a parameter.
\<close>

record paths_env =
  resolve_path :: "pystr \<Rightarrow> (path \<times> pystr) result"
  normalized :: "pystr \<Rightarrow> path"
  is_symlink :: "path \<Rightarrow> bool"

record resolved_change =
  rc_change :: change
  rc_source :: path
  rc_source_display :: pystr
  rc_destination :: "path option"
  rc_destination_display :: "pystr option"

section \<open>Resolving\<close>

definition reject_symlink_alias :: "paths_env \<Rightarrow> pystr \<Rightarrow> unit result" where
  "reject_symlink_alias pe supplied =
    (let p = normalized pe supplied in
     if list_ex (\<lambda>n. is_symlink pe (take n p)) [1..<Suc (length p)]
     then Inl (ValueError ''symlink paths are not supported in patches'') else Inr ())"

definition resolve_change :: "paths_env \<Rightarrow> change \<Rightarrow> resolved_change result" where
  "resolve_change pe c =
    rbind (resolve_path pe (ch_source c)) (\<lambda>(src, sd).
    rbind (case ch_destination c of
             None \<Rightarrow> Inr (None, None)
           | Some d \<Rightarrow> rbind (resolve_path pe d) (\<lambda>(p, pd). Inr (Some p, Some pd))) (\<lambda>(dst, dd).
    rbind (reject_symlink_alias pe (ch_source c)) (\<lambda>_.
    rbind (case ch_destination c of None \<Rightarrow> Inr () | Some d \<Rightarrow> reject_symlink_alias pe d) (\<lambda>_.
      Inr \<lparr>rc_change = c, rc_source = src, rc_source_display = sd, rc_destination = dst,
            rc_destination_display = dd\<rparr>))))"

fun resolve_changes :: "paths_env \<Rightarrow> change list \<Rightarrow> resolved_change list result" where
  "resolve_changes pe [] = Inr []"
| "resolve_changes pe (c # cs) =
    rbind (resolve_change pe c) (\<lambda>r. rbind (resolve_changes pe cs) (\<lambda>rs. Inr (r # rs)))"

definition change_paths :: "resolved_change \<Rightarrow> path list" where
  "change_paths r = rc_source r # (case rc_destination r of None \<Rightarrow> [] | Some d \<Rightarrow> [d])"

text \<open>\<open>_lock_paths\<close> and the order in which the locks are taken.\<close>

definition lock_paths :: "resolved_change list \<Rightarrow> (path \<times> pystr option) list \<Rightarrow> path list" where
  "lock_paths rs expected = remdups (concat (map change_paths rs) @ map fst expected)"

definition path_str :: "path \<Rightarrow> pystr" where
  "path_str p = concat (map (\<lambda>c. of_char CHR ''/'' # c) p)"

definition lock_order :: "resolved_change list \<Rightarrow> (path \<times> pystr option) list \<Rightarrow> path list" where
  "lock_order rs expected = sort_key path_str (lock_paths rs expected)"

fun resolve_expected_hashes ::
  "paths_env \<Rightarrow> (pystr \<times> pystr option) list \<Rightarrow> (path \<times> pystr option) list
     \<Rightarrow> (path \<times> pystr option) list result" where
  "resolve_expected_hashes pe [] acc = Inr acc"
| "resolve_expected_hashes pe ((supplied, want) # rest) acc =
    rbind (resolve_path pe supplied) (\<lambda>(p, _).
    rbind (reject_symlink_alias pe supplied) (\<lambda>_.
      if map_of acc p \<noteq> None then Inl (ValueError ''duplicate expected hash path'')
      else resolve_expected_hashes pe rest (acc @ [(p, want)])))"

section \<open>Conflicts\<close>

text \<open>The first loop: no path plays two parts.\<close>

fun check_roles :: "resolved_change list \<Rightarrow> path list \<Rightarrow> path list result" where
  "check_roles [] roles = Inr roles"
| "check_roles (r # rs) roles =
    (if rc_source r \<in> set roles then Inl (ValueError ''conflicting patch operations'')
     else (case rc_destination r of
         None \<Rightarrow> check_roles rs (roles @ [rc_source r])
       | Some d \<Rightarrow>
           if d \<in> set (roles @ [rc_source r]) then Inl (ValueError ''conflicting patch operations'')
           else if d = rc_source r then Inl (ValueError ''move source and destination are identical'')
           else check_roles rs (roles @ [rc_source r, d])))"

text \<open>The second loop: no two paths lead to one inode.\<close>

fun check_aliases :: "path list \<Rightarrow> (nat \<times> path) list \<Rightarrow> (('a) fsys_scheme, unit) prog" where
  "check_aliases [] existing = ret ()"
| "check_aliases (p # ps) existing =
    pbind (missing_ok (sys_stat p)) (\<lambda>i. case i of
      None \<Rightarrow> check_aliases ps existing
    | Some info \<Rightarrow>
        (case map_of existing (n_ino info) of
           Some other \<Rightarrow>
             if other \<noteq> p then raise (ValueError ''patch paths alias the same file'')
             else check_aliases ps (AList.update (n_ino info) p existing)
         | None \<Rightarrow> check_aliases ps (AList.update (n_ino info) p existing)))"

text \<open>\<open>p in q.parents\<close>.\<close>

definition is_parent :: "path \<Rightarrow> path \<Rightarrow> bool" where
  "is_parent p q = (length p < length q \<and> starts_with p q)"

fun check_nesting :: "path list \<Rightarrow> unit result" where
  "check_nesting [] = Inr ()"
| "check_nesting (p # ps) =
    (if list_ex (\<lambda>q. is_parent p q \<or> is_parent q p) ps
     then Inl (ValueError ''conflicting parent and child patch paths'')
     else check_nesting ps)"

definition check_conflicts :: "resolved_change list \<Rightarrow> (('a) fsys_scheme, unit) prog" where
  "check_conflicts rs =
    pbind (lift (check_roles rs [])) (\<lambda>roles.
    pseq (check_aliases roles []) (lift (check_nesting roles)))"

section \<open>The locked part\<close>

text \<open>Reading every path of the patch once.\<close>

fun read_states ::
  "env \<Rightarrow> (path \<times> pystr) list \<Rightarrow> (path \<times> file_state) list
     \<Rightarrow> (('a) fsys_scheme, (path \<times> file_state) list) prog" where
  "read_states ev [] states = ret states"
| "read_states ev ((p, d) # ps) states =
    (if map_of states p \<noteq> None then read_states ev ps states
     else pbind (read_state p d (history_limit ev p)) (\<lambda>st. read_states ev ps (states @ [(p, st)])))"

definition displayed_paths :: "resolved_change \<Rightarrow> (path \<times> pystr) list" where
  "displayed_paths r = (rc_source r, rc_source_display r) #
    (case rc_destination r of
       None \<Rightarrow> []
     | Some d \<Rightarrow> [(d, case rc_destination_display r of None \<Rightarrow> [] | Some s \<Rightarrow> s)])"

fun check_hashes ::
  "env \<Rightarrow> (path \<times> pystr option) list \<Rightarrow> (path \<times> file_state) list
     \<Rightarrow> (('a) fsys_scheme, (path \<times> file_state) list) prog" where
  "check_hashes ev [] states = ret states"
| "check_hashes ev ((p, wanted) # rest) states =
    pbind (read_states ev [(p, path_str p)] states) (\<lambda>states'.
    pbind (lookup states' p) (\<lambda>st.
    pseq
      (lift (case wanted of
         None \<Rightarrow> if s_exists st then Inl (ValueError ''Revision mismatch: expected absent'') else Inr ()
       | Some h \<Rightarrow> check_expected ev (s_data st) (Some h)))
      (check_hashes ev rest states')))"

definition utf8_text :: "bytes \<Rightarrow> pystr result" where
  "utf8_text b = (case utf8_decode b of
     Inl _ \<Rightarrow> Inl (UnicodeError ''invalid UTF-8'') | Inr s \<Rightarrow> Inr s)"

definition new_content :: "change \<Rightarrow> bytes \<Rightarrow> bytes result" where
  "new_content c old =
    (if ch_hunks c = [] then Inr old
     else rbind (utf8_text old) (\<lambda>tx. rbind (apply_hunks tx (ch_hunks c)) utf8_encode))"

definition state_of :: "(path \<times> file_state) list \<Rightarrow> path \<Rightarrow> file_state result" where
  "state_of states p = (case map_of states p of None \<Rightarrow> Inl (KeyError '''') | Some st \<Rightarrow> Inr st)"

definition plan_add :: "resolved_change \<Rightarrow> file_state \<Rightarrow> plan result" where
  "plan_add r st =
    (if s_exists st then Inl (FileExistsError ''File already exists'')
     else rbind (utf8_encode (join_lines (ch_lines (rc_change r)) (ch_lines (rc_change r) \<noteq> []))) (\<lambda>new.
       Inr \<lparr>pl_operation = Add, pl_path = rc_source r, pl_display = rc_source_display r,
             pl_source = None, pl_source_display = None, pl_source_old = None,
             pl_source_old_info = None, pl_old = None, pl_new = Some new, pl_old_info = None,
             pl_mode = Some 384\<rparr>))"

definition regular_state :: "file_state \<Rightarrow> (bytes \<times> node) result" where
  "regular_state st =
    (case (s_exists st, s_data st, s_info st) of
       (True, Some d, Some i) \<Rightarrow> rbind (require_regular i) (\<lambda>_. Inr (d, i))
     | _ \<Rightarrow> Inl (FileNotFoundError ''''))"

definition plan_delete :: "resolved_change \<Rightarrow> file_state \<Rightarrow> plan result" where
  "plan_delete r st =
    rbind (regular_state st) (\<lambda>(d, i).
      Inr \<lparr>pl_operation = Delete, pl_path = rc_source r, pl_display = rc_source_display r,
            pl_source = None, pl_source_display = None, pl_source_old = None,
            pl_source_old_info = None, pl_old = Some d, pl_new = None, pl_old_info = Some i,
            pl_mode = None\<rparr>)"

definition plan_update :: "(path \<times> file_state) list \<Rightarrow> resolved_change \<Rightarrow> file_state \<Rightarrow> plan result" where
  "plan_update states r st =
    rbind (regular_state st) (\<lambda>(d, i).
    rbind (new_content (rc_change r) d) (\<lambda>new.
      case rc_destination r of
        None \<Rightarrow>
          Inr \<lparr>pl_operation = Update, pl_path = rc_source r, pl_display = rc_source_display r,
                pl_source = None, pl_source_display = None, pl_source_old = None,
                pl_source_old_info = None, pl_old = Some d, pl_new = Some new,
                pl_old_info = Some i, pl_mode = Some (n_mode i)\<rparr>
      | Some dst \<Rightarrow>
          rbind (state_of states dst) (\<lambda>target.
            if s_exists target then Inl (FileExistsError ''File already exists'')
            else Inr \<lparr>pl_operation = Move, pl_path = dst,
                pl_display = (case rc_destination_display r of
                   None \<Rightarrow> rc_source_display r | Some s \<Rightarrow> if s = [] then rc_source_display r else s),
                pl_source = Some (rc_source r), pl_source_display = Some (rc_source_display r),
                pl_source_old = Some d, pl_source_old_info = Some i, pl_old = None,
                pl_new = Some new, pl_old_info = s_info target, pl_mode = Some (n_mode i)\<rparr>)))"

definition plan_change :: "(path \<times> file_state) list \<Rightarrow> resolved_change \<Rightarrow> plan result" where
  "plan_change states r =
    rbind (state_of states (rc_source r)) (\<lambda>st.
      case ch_operation (rc_change r) of
        Add \<Rightarrow> plan_add r st
      | Delete \<Rightarrow> plan_delete r st
      | _ \<Rightarrow> plan_update states r st)"

fun plan_changes :: "(path \<times> file_state) list \<Rightarrow> resolved_change list \<Rightarrow> plan list result" where
  "plan_changes states [] = Inr []"
| "plan_changes states (r # rs) =
    rbind (plan_change states r) (\<lambda>pl. rbind (plan_changes states rs) (\<lambda>pls. Inr (pl # pls)))"

text \<open>
  \<open>_apply_locked\<close>.  The history store's preparation of the changes is the parameter
  \<open>prepare\<close>; it writes only the store's own files.
\<close>

definition apply_locked ::
  "env \<Rightarrow> (plan list \<Rightarrow> unit result) \<Rightarrow> resolved_change list \<Rightarrow> (path \<times> pystr option) list
     \<Rightarrow> bool \<Rightarrow> nat \<Rightarrow> (txn, patch_result) prog" where
  "apply_locked ev prepare rs expected dry_run limit =
    pbind (read_states ev (concat (map displayed_paths rs)) []) (\<lambda>states0.
    pbind (check_hashes ev expected states0) (\<lambda>states.
    pbind (lift (plan_changes states rs)) (\<lambda>plans.
      if dry_run then lift (make_result ev plans True limit)
      else
        pseq (case record_changes ev of None \<Rightarrow> ret () | Some _ \<Rightarrow> lift (prepare plans))
          (pbind (commit ev plans states limit) (\<lambda>res.
            ret (case record_changes ev of
                   None \<Rightarrow> res | Some _ \<Rightarrow> set_history_status ev plans res))))))"

text \<open>\<open>apply_patch\<close>; the locks are taken in \<open>lock_order\<close> around the locked part.\<close>

definition apply_patch ::
  "env \<Rightarrow> paths_env \<Rightarrow> (plan list \<Rightarrow> unit result) \<Rightarrow> pystr \<Rightarrow> (pystr \<times> pystr option) list
     \<Rightarrow> bool \<Rightarrow> int \<Rightarrow> (txn, patch_result) prog" where
  "apply_patch ev pe prepare patch expected dry_run max_diff_bytes =
    pseq (lift (require (1 \<le> max_diff_bytes) (ValueError ''max_diff_bytes must be a positive integer'')))
     (pbind (lift (parse_patch patch)) (\<lambda>changes.
      pbind (lift (resolve_changes pe changes)) (\<lambda>rs.
      pseq (check_conflicts rs)
       (pbind (lift (resolve_expected_hashes pe expected [])) (\<lambda>hashes.
          apply_locked (if dry_run then ev\<lparr>record_changes := None\<rparr> else ev) prepare rs hashes
            dry_run (nat max_diff_bytes))))))"

section \<open>Everything before the commit only reads\<close>

lemma keeps_check_aliases [keeps_intro]: "stable W \<Longrightarrow> keeps (held W ns) (check_aliases ps ex)"
  by (induction ps arbitrary: ex) (auto intro!: keeps_intro)

lemma keeps_check_conflicts [keeps_intro]: "stable W \<Longrightarrow> keeps (held W ns) (check_conflicts rs)"
  unfolding check_conflicts_def by (intro keeps_intro)

lemma keeps_read_states [keeps_intro]: "stable W \<Longrightarrow> keeps (held W ns) (read_states ev ps states)"
proof (induction ps arbitrary: states)
  case (Cons pd ps)
  then show ?case by (cases pd) (auto intro!: keeps_intro)
qed (simp add: keeps_ret)

lemma keeps_check_hashes [keeps_intro]: "stable W \<Longrightarrow> keeps (held W ns) (check_hashes ev hs states)"
proof (induction hs arbitrary: states)
  case (Cons h hs)
  obtain p w where h: "h = (p, w)" by (cases h)
  have IH: "keeps (held W ns) (check_hashes ev hs states)" for states using Cons by simp
  show ?case unfolding h check_hashes.simps
    by (intro keeps_bind keeps_seq keeps_lift keeps_lookup keeps_read_states IH Cons.prems)
qed (simp add: keeps_ret)

definition states_match :: "(path \<Rightarrow> node option) \<Rightarrow> path set \<Rightarrow> (path \<times> file_state) list \<Rightarrow> bool" where
  "states_match f0 S states \<longleftrightarrow> (\<forall>(p, st) \<in> set states. p \<in> S \<and> reads st (f0 p))"

lemma read_states_match:
  assumes "calm (fs_script s)" and "read_states ev ps states s = (Inr states', s')"
    and "states_match (node_at s) S states" and "fst ` set ps \<subseteq> S"
  shows "states_match (node_at s) S states' \<and> node_at s' = node_at s \<and> calm (fs_script s')"
  using assms
proof (induction ps arbitrary: states s)
  case Nil
  then show ?case by (simp add: ret_def)
next
  case (Cons pd ps)
  obtain p d where pd: "pd = (p, d)" by (cases pd)
  show ?case
  proof (cases "map_of states p = None")
    case False
    then show ?thesis using Cons pd by auto
  next
    case True
    with Cons.prems(2) obtain st s1 where st: "read_state p d (history_limit ev p) s = (Inr st, s1)"
      and rest: "read_states ev ps (states @ [(p, st)]) s1 = (Inr states', s')"
      by (auto simp: pd prog_defs split: prod.splits sum.splits)
    have s1: "node_at s1 = node_at s" "calm (fs_script s1)"
      using calm_reading [OF keeps_read_state Cons.prems(1) st] by blast+
    have "states_match (node_at s1) S (states @ [(p, st)])"
      using Cons.prems(3,4) read_state_at [OF Cons.prems(1) st] s1 pd
      by (auto simp: states_match_def)
    from Cons.IH [OF s1(2) rest this] Cons.prems(4) s1 show ?thesis by simp
  qed
qed

lemma check_hashes_match:
  assumes "calm (fs_script s)" and "check_hashes ev hs states s = (Inr states', s')"
    and "states_match (node_at s) S states" and "fst ` set hs \<subseteq> S"
  shows "states_match (node_at s) S states' \<and> node_at s' = node_at s \<and> calm (fs_script s')"
  using assms
proof (induction hs arbitrary: states s)
  case Nil
  then show ?case by (simp add: ret_def)
next
  case (Cons h hs)
  obtain p w where h: "h = (p, w)" by (cases h)
  from Cons.prems(2) obtain states1 s1 s2 where
    r: "read_states ev [(p, path_str p)] states s = (Inr states1, s1)"
    and s2: "s2 = s1" and rest: "check_hashes ev hs states1 s2 = (Inr states', s')"
    by (auto simp: h prog_defs lookup_def simp del: read_states.simps
        split: prod.splits sum.splits option.splits if_splits)
  have "fst ` set [(p, path_str p)] \<subseteq> S" using Cons.prems(4) h by simp
  from read_states_match [OF Cons.prems(1) r Cons.prems(3) this]
  have "states_match (node_at s2) S states1" "calm (fs_script s2)" "node_at s2 = node_at s"
    using s2 by auto
  with Cons.IH [OF _ rest] Cons.prems(4) show ?case by simp
qed

section \<open>The plans\<close>

lemma states_match_of: "states_match f0 S states \<Longrightarrow> state_of states p = Inr st \<Longrightarrow> p \<in> S \<and> reads st (f0 p)"
  by (auto simp: states_match_def state_of_def split: option.splits dest!: map_of_SomeD)

lemma regular_state_reads:
  "regular_state st = Inr (d, i) \<Longrightarrow> reads st v \<Longrightarrow> v = Some i \<and> n_data i = d \<and> n_kind i = Regular"
  by (auto simp: regular_state_def reads_def result_simps split: bool.splits option.splits)

lemma plan_change_knows:
  assumes m: "states_match f0 S states" and e: "plan_change states r = Inr pl"
  shows "pl_path pl \<in> set (change_paths r) \<and> pl_path pl \<in> S
    \<and> knows f0 (pl_path pl) (pl_old pl) (pl_old_info pl)
    \<and> (\<forall>p. pl_source pl = Some p \<longrightarrow> p = rc_source r \<and> p \<in> S)"
proof -
  from e obtain st where st: "state_of states (rc_source r) = Inr st"
    and pl: "(case ch_operation (rc_change r) of Add \<Rightarrow> plan_add r st | Delete \<Rightarrow> plan_delete r st
        | _ \<Rightarrow> plan_update states r st) = Inr pl"
    by (auto simp: plan_change_def result_simps)
  note src = states_match_of [OF m st]
  have upd: ?thesis if "plan_update states r st = Inr pl"
  proof (cases "rc_destination r")
    case None
    with that src show ?thesis
      by (auto simp: plan_update_def result_simps change_paths_def knows_def dest!: regular_state_reads)
  next
    case (Some dst)
    with that obtain target where t: "state_of states dst = Inr target" "\<not> s_exists target"
      and p: "pl_path pl = dst" "pl_old pl = None" "pl_source pl = Some (rc_source r)"
      by (auto simp: plan_update_def result_simps split: if_splits)
    have "f0 dst = None"
      using states_match_of [OF m t(1)] t(2) by (auto simp: reads_def split: option.splits)
    with p src states_match_of [OF m t(1)] Some show ?thesis by (auto simp: change_paths_def knows_def)
  qed
  show ?thesis
  proof (cases "ch_operation (rc_change r)")
    case Add
    with pl src show ?thesis
      by (auto simp: plan_add_def result_simps change_paths_def knows_def reads_def
          split: if_splits option.splits)
  next
    case Delete
    with pl src show ?thesis
      by (auto simp: plan_delete_def result_simps change_paths_def knows_def dest!: regular_state_reads)
  qed (use pl upd in auto)
qed

lemma plan_changes_knows:
  assumes "states_match f0 S states" and "plan_changes states rs = Inr pls" and "pl \<in> set pls"
  shows "\<exists>r \<in> set rs. plan_change states r = Inr pl"
  using assms(2,3) by (induction rs arbitrary: pls) (auto simp: result_simps)

lemma plan_changes_wf:
  assumes "states_match f0 S states" and "plan_changes states rs = Inr pls" and "names_apart S ns"
    and "\<forall>r \<in> set rs. \<forall>p \<in> set (change_paths r). p \<noteq> [] \<and> parent_open S p"
  shows "wf_txn S f0 ns pls states"
proof -
  have "pl_path pl \<in> S \<and> pl_path pl \<noteq> [] \<and> parent_open S (pl_path pl)
        \<and> knows f0 (pl_path pl) (pl_old pl) (pl_old_info pl)
        \<and> (\<forall>p. pl_source pl = Some p \<longrightarrow> p \<in> S)" if "pl \<in> set pls" for pl
  proof -
    from plan_changes_knows [OF assms(1,2) that] obtain r where r: "r \<in> set rs" "plan_change states r = Inr pl"
      by blast
    from plan_change_knows [OF assms(1) r(2)] assms(4) r(1) show ?thesis by blast
  qed
  then show ?thesis using assms(1,3) by (auto simp: wf_txn_def states_match_def)
qed

section \<open>Atomicity of a patch\<close>

lemma apply_locked_failure:
  assumes apart: "names_apart S (set (fs_names t))" and c: "calm (fs_script t)" and fresh: "fresh_txn t"
    and S: "\<forall>r \<in> set rs. \<forall>p \<in> set (change_paths r). p \<in> S \<and> p \<noteq> [] \<and> parent_open S p"
    and H: "fst ` set hs \<subseteq> S"
    and e: "apply_locked ev prepare rs hs dry limit t = (Inl x, t')"
    and x: "x \<noteq> rollback_incomplete" "\<not> is_outcome_unknown x"
  shows "\<forall>p \<in> S. same (node_at t' p) (node_at t p)"
proof -
  let ?W = "\<lambda>u f. fresh_txn u \<and> f = node_at t" and ?ns = "set (fs_names t)"
  have st: "stable ?W" by (simp add: stable_def fresh_txn_def)
  have h0: "held ?W ?ns t" using c fresh by (simp add: held_def)
  obtain r1 t1 where 1: "read_states ev (concat (map displayed_paths rs)) [] t = (r1, t1)"
    by (cases "read_states ev (concat (map displayed_paths rs)) [] t")
  have h1: "held ?W ?ns t1" by (rule keepsD [OF keeps_read_states [OF st] h0 1])
  show ?thesis
  proof (cases r1)
    case (Inl y)
    with e 1 h1 show ?thesis by (simp add: apply_locked_def pbind_def held_def same_def)
  next
    case (Inr states0)
    obtain r2 t2 where 2: "check_hashes ev hs states0 t1 = (r2, t2)"
      by (cases "check_hashes ev hs states0 t1")
    have h2: "held ?W ?ns t2" by (rule keepsD [OF keeps_check_hashes [OF st] h1 2])
    have sub: "fst ` set (concat (map displayed_paths rs)) \<subseteq> S"
      using S by (fastforce simp: displayed_paths_def change_paths_def split: option.splits)
    have m1: "states_match (node_at t) S states0"
      using read_states_match [OF c 1 [unfolded Inr] _ sub] by (simp add: states_match_def)
    show ?thesis
    proof (cases r2)
      case (Inl y)
      with e 1 2 \<open>r1 = Inr states0\<close> h2 show ?thesis
        by (simp add: apply_locked_def pbind_def held_def same_def)
    next
      case (Inr states)
      have m2: "states_match (node_at t) S states"
        using check_hashes_match [OF _ 2 [unfolded Inr]] m1 h1 H by (simp add: held_def)
      show ?thesis
      proof (cases "plan_changes states rs")
        case (Inl y)
        with e 1 2 \<open>r1 = Inr states0\<close> Inr h2 show ?thesis
          by (simp add: apply_locked_def pbind_def lift_def held_def same_def)
      next
        case pls: (Inr pls)
        have wf: "wf_txn S (node_at t2) (set (fs_names t2)) pls states"
        proof -
          have "names_apart S (set (fs_names t2))"
            using apart h2 unfolding names_apart_def held_def by blast
          then show ?thesis using plan_changes_wf [OF m2 pls] S h2 by (simp add: held_def)
        qed
        have same: "\<forall>p \<in> S. same (node_at u p) (node_at t p)"
          if "commit ev pls states limit t2 = (Inl x, u)" for u
          using commit_failure_restores_aux [OF wf _ _ that x] h2 by (simp add: held_def)
        have "t' = t2 \<or> commit ev pls states limit t2 = (Inl x, t')"
          using e 1 2 \<open>r1 = Inr states0\<close> Inr pls
          by (auto simp: apply_locked_def prog_defs split: if_splits option.splits prod.splits sum.splits)
        then show ?thesis using same h2 by (auto simp: held_def same_def)
      qed
    qed
  qed
qed

lemma apply_locked_dry_run:
  assumes "calm (fs_script t)" and "apply_locked ev prepare rs hs True limit t = (x, t')"
  shows "node_at t' = node_at t"
proof -
  have "stable (\<lambda>u f. f = node_at t)" by (simp add: stable_def)
  then have "keeps (held (\<lambda>u f. f = node_at t) (set (fs_names t))) (apply_locked ev prepare rs hs True limit)"
    unfolding apply_locked_def if_True
    by (intro keeps_bind keeps_read_states keeps_check_hashes keeps_lift)
  from keepsD [OF this _ assms(2)] assms(1) show ?thesis by (simp add: held_def)
qed

text \<open>The steps of \<open>apply_patch\<close> up to the locked part, which only look.\<close>

lemma apply_patch_cases:
  assumes e: "apply_patch ev pe prepare patch expected dry n t = (x, t')"
  obtains (early) y where "x = Inl y" and "calm (fs_script t) \<Longrightarrow> node_at t' = node_at t"
  | (locked) changes rs hs t1 where "1 \<le> n" and "parse_patch patch = Inr changes"
      and "resolve_changes pe changes = Inr rs" and "check_conflicts rs t = (Inr (), t1)"
      and "resolve_expected_hashes pe expected [] = Inr hs"
      and "apply_locked (if dry then ev\<lparr>record_changes := None\<rparr> else ev) prepare rs hs dry (nat n) t1 = (x, t')"
proof -
  have look: "node_at t1 = node_at t" if "calm (fs_script t)" "check_conflicts rs t = (r, t1)" for rs r t1
    using calm_reading [OF keeps_check_conflicts that] by blast
  show thesis
  proof (cases "1 \<le> n \<and> (\<exists>changes rs. parse_patch patch = Inr changes \<and> resolve_changes pe changes = Inr rs)")
    case False
    then have "\<exists>y. x = Inl y \<and> t' = t"
      using e by (auto simp: apply_patch_def prog_defs require_def split: sum.splits if_splits)
    then show ?thesis using early by auto
  next
    case True
    then obtain changes rs where c: "1 \<le> n" "parse_patch patch = Inr changes" "resolve_changes pe changes = Inr rs"
      by blast
    obtain r t1 where k: "check_conflicts rs t = (r, t1)" by (cases "check_conflicts rs t")
    show ?thesis
    proof (cases "r = Inr () \<and> (\<exists>hs. resolve_expected_hashes pe expected [] = Inr hs)")
      case False
      then have "(\<exists>y. x = Inl y) \<and> t' = t1"
        using e c k by (cases r) (auto simp: apply_patch_def prog_defs split: sum.splits)
      then show ?thesis using early look [OF _ k] by auto
    next
      case True
      then obtain hs where hs: "r = Inr ()" "resolve_expected_hashes pe expected [] = Inr hs" by blast
      then show ?thesis using locked [OF c _ hs(2), of t1] e c k by (simp add: apply_patch_def prog_defs)
    qed
  qed
qed


text \<open>
  a dry run changes no file, whether it succeeds or raises.
\<close>

theorem apply_patch_dry_run:
  assumes "calm (fs_script t)"
  shows "node_at (snd (apply_patch ev pe prepare patch expected True n t)) = node_at t"
proof -
  obtain x t' where e: "apply_patch ev pe prepare patch expected True n t = (x, t')"
    by (cases "apply_patch ev pe prepare patch expected True n t")
  from e have "node_at t' = node_at t"
  proof (cases rule: apply_patch_cases)
    case (early y)
    then show ?thesis using assms by simp
  next
    case (locked changes rs hs t1)
    from calm_reading [OF keeps_check_conflicts assms locked(4)]
    have "node_at t1 = node_at t" "calm (fs_script t1)" by auto
    with apply_locked_dry_run [OF _ locked(6) [unfolded if_True]] locked(6) show ?thesis
      using apply_locked_dry_run by auto
  qed
  with e show ?thesis by simp
qed

section \<open>The lock order\<close>

text \<open>
  the locks of a patch are those of its paths and of the expected hashes, each once, in
  ascending order of the path: two patches never take two locks in opposite orders.
\<close>

theorem lock_order_ascending:
  "sorted (map path_str (lock_order rs hs)) \<and> distinct (lock_order rs hs)
     \<and> set (lock_order rs hs) = (\<Union>r \<in> set rs. set (change_paths r)) \<union> fst ` set hs"
  by (auto simp: lock_order_def lock_paths_def distinct_sort)

section \<open>Witnesses\<close>

definition sample_paths :: paths_env where
  "sample_paths = \<lparr>resolve_path = (\<lambda>s. Inr ([s], s)), normalized = (\<lambda>s. [s]), is_symlink = (\<lambda>_. False)\<rparr>"

definition sample_patch :: pystr where
  "sample_patch = lit ''*** Begin Patch'' @ 10 # lit ''*** Delete File: a'' @ 10 # lit ''*** End Patch''"

definition sample_resolved :: resolved_change where
  "sample_resolved = \<lparr>rc_change = sample_delete, rc_source = [[97]], rc_source_display = [97],
     rc_destination = None, rc_destination_display = None\<rparr>"

lemma resolve_sample: "resolve_changes sample_paths [sample_delete] = Inr [sample_resolved]"
  by code_simp

lemma apply_sample:
  "fst (apply_patch sample_env sample_paths (\<lambda>_. Inr ()) sample_patch [] False 100 sample_txn)
   = Inl (RuntimeError ''history record failed; patch will be rolled back'')"
  by code_simp


theorem apply_patch_dry_run_witness:
  "node_at (snd (apply_patch sample_env sample_paths (\<lambda>_. Inr ()) sample_patch [] True 100 sample_txn))
     = node_at sample_txn"
  by (rule apply_patch_dry_run) (simp add: sample_txn_def calm_def)

end
