(* ===== verification/Config_Values.thy ===== *)
theory Config_Values
  imports Prelude "HOL-Library.AList"
begin

text \<open>
  The values a TOML document unwraps to and the operations of Python's \<open>dict\<close> that config.py uses: a
  table is an association list with insertion order.  \<open>py_eq\<close> is Python's \<open>==\<close>, which compares
  booleans, integers and floats by value and tables without regard to order.
\<close>

datatype pyfloat = Finite int int | PosInf | NegInf | NaN   \<comment> \<open>\<open>Finite m e\<close> is \<open>m * 2 ^ e\<close>\<close>

datatype pyval =
    PNone
  | PBool bool
  | PInt int
  | PFloat pyfloat
  | PStr pystr
  | PList "pyval list"
  | PDict "(pystr \<times> pyval) list"
  | POther nat   \<comment> \<open>dates and times, by an identity\<close>

type_synonym table = "(pystr \<times> pyval) list"

text \<open>
  A configuration error with the field path and the message, a concurrent change, or any other error
  of a callee with its message.
\<close>

datatype config_error = Config_Error pystr string | Changed | Callee string

type_synonym 'a checked = "config_error + 'a"

definition fail :: "pystr \<Rightarrow> string \<Rightarrow> 'a checked" where
  "fail p m = Inl (Config_Error p m)"

definition check :: "bool \<Rightarrow> pystr \<Rightarrow> string \<Rightarrow> unit checked" where
  "check b p m = (if b then Inr () else fail p m)"

lemma fail_simps [simp]: "fail p m \<noteq> Inr x" "rbind (fail p m) f = fail p m"
  by (simp_all add: fail_def)

lemma check_Inr_iff [result_simps]: "check b p m = Inr u \<longleftrightarrow> b"
  by (simp add: check_def)

section \<open>Strings\<close>

definition is_space :: "nat \<Rightarrow> bool" where
  "is_space c \<longleftrightarrow> 9 \<le> c \<and> c \<le> 13 \<or> 28 \<le> c \<and> c \<le> 32 \<or> c \<in> {0x85, 0xA0, 0x1680, 0x2028, 0x2029, 0x202F, 0x205F, 0x3000}
     \<or> 0x2000 \<le> c \<and> c \<le> 0x200A"

text \<open>\<open>s.strip()\<close> is true.\<close>

definition not_blank :: "pystr \<Rightarrow> bool" where
  "not_blank s = list_ex (\<lambda>c. \<not> is_space c) s"

definition no_nul :: "pystr \<Rightarrow> bool" where
  "no_nul s = (0 \<notin> set s)"

definition one_line :: "pystr \<Rightarrow> bool" where
  "one_line s = (0 \<notin> set s \<and> 10 \<notin> set s \<and> 13 \<notin> set s)"

definition is_letter :: "nat \<Rightarrow> bool" where
  "is_letter c = (65 \<le> c \<and> c \<le> 90 \<or> 97 \<le> c \<and> c \<le> 122)"

definition is_ascii_digit :: "nat \<Rightarrow> bool" where
  "is_ascii_digit c = (48 \<le> c \<and> c \<le> 57)"

definition dot :: "pystr \<Rightarrow> pystr \<Rightarrow> pystr" where
  "dot a b = a @ of_char CHR ''.'' # b"

section \<open>Numbers\<close>

text \<open>The value of a number, as mantissa and exponent of two.\<close>

definition num_of :: "pyval \<Rightarrow> pyfloat option" where
  "num_of v = (case v of
      PBool b \<Rightarrow> Some (Finite (if b then 1 else 0) 0)
    | PInt n \<Rightarrow> Some (Finite n 0)
    | PFloat f \<Rightarrow> Some f
    | _ \<Rightarrow> None)"

definition scaled :: "int \<Rightarrow> int \<Rightarrow> int \<Rightarrow> int" where
  "scaled m e low = m * 2 ^ nat (e - low)"

fun num_eq :: "pyfloat \<Rightarrow> pyfloat \<Rightarrow> bool" where
  "num_eq (Finite m e) (Finite n f) = (scaled m e (min e f) = scaled n f (min e f))"
| "num_eq PosInf PosInf = True"
| "num_eq NegInf NegInf = True"
| "num_eq _ _ = False"

fun num_le :: "pyfloat \<Rightarrow> pyfloat \<Rightarrow> bool" where
  "num_le (Finite m e) (Finite n f) = (scaled m e (min e f) \<le> scaled n f (min e f))"
| "num_le NaN _ = False"
| "num_le _ NaN = False"
| "num_le NegInf _ = True"
| "num_le _ PosInf = True"
| "num_le _ _ = False"

section \<open>Equality\<close>

function py_eq :: "pyval \<Rightarrow> pyval \<Rightarrow> bool"
  and list_eq :: "pyval list \<Rightarrow> pyval list \<Rightarrow> bool"
  and dict_le :: "table \<Rightarrow> table \<Rightarrow> bool" where
  "py_eq a b =
    (case (num_of a, num_of b) of
       (Some x, Some y) \<Rightarrow> num_eq x y
     | _ \<Rightarrow>
        (case (a, b) of
           (PNone, PNone) \<Rightarrow> True
         | (PStr s, PStr t) \<Rightarrow> s = t
         | (POther m, POther n) \<Rightarrow> m = n
         | (PList xs, PList ys) \<Rightarrow> list_eq xs ys
         | (PDict d, PDict d') \<Rightarrow> length d = length d' \<and> dict_le d d'
         | _ \<Rightarrow> False))"
| "list_eq [] [] = True"
| "list_eq (x # xs) (y # ys) = (py_eq x y \<and> list_eq xs ys)"
| "list_eq [] (y # ys) = False"
| "list_eq (x # xs) [] = False"
| "dict_le [] d' = True"
| "dict_le ((k, v) # d) d' =
    ((case map_of d' k of None \<Rightarrow> False | Some w \<Rightarrow> py_eq v w) \<and> dict_le d d')"
  by pat_completeness auto
termination
  by (relation "measure (\<lambda>x. case x of Inl (a, b) \<Rightarrow> size a
        | Inr (Inl (xs, ys)) \<Rightarrow> size_list size xs
        | Inr (Inr (d, d')) \<Rightarrow> size_list (size_prod (\<lambda>_. 0) size) d)")
    (auto split: pyval.splits)

declare py_eq.simps [simp del]

definition tombstone_value :: pyval where
  "tombstone_value = PDict [(lit ''enabled'', PBool False)]"

text \<open>\<open>isinstance(value, Mapping) and value == {"enabled": False}\<close>.\<close>

definition server_tombstone :: "pyval \<Rightarrow> bool" where
  "server_tombstone v = (case v of PDict _ \<Rightarrow> py_eq v tombstone_value | _ \<Rightarrow> False)"

section \<open>Tables\<close>

definition is_table :: "pyval \<Rightarrow> bool" where
  "is_table v = (case v of PDict _ \<Rightarrow> True | _ \<Rightarrow> False)"

definition get :: "table \<Rightarrow> pystr \<Rightarrow> pyval option" where
  "get d k = map_of d k"

text \<open>\<open>d.get(k, default)\<close>.\<close>

definition get_or :: "table \<Rightarrow> pystr \<Rightarrow> pyval \<Rightarrow> pyval" where
  "get_or d k v = (case get d k of None \<Rightarrow> v | Some w \<Rightarrow> w)"

definition put :: "pystr \<Rightarrow> pyval \<Rightarrow> table \<Rightarrow> table" where
  "put k v d = AList.update k v d"

definition del :: "pystr \<Rightarrow> table \<Rightarrow> table" where
  "del k d = AList.delete k d"

definition table_of :: "pyval \<Rightarrow> table" where
  "table_of v = (case v of PDict d \<Rightarrow> d | _ \<Rightarrow> [])"

lemma get_put [simp]: "get (put k v d) j = (if j = k then Some v else get d j)"
  by (simp add: get_def put_def update_conv')

lemma get_del [simp]: "get (del k d) j = (if j = k then None else get d j)"
  by (simp add: get_def del_def delete_conv')

lemma get_simps [simp]: "get [] k = None" "get ((j, v) # d) k = (if k = j then Some v else get d k)"
  by (auto simp: get_def)

text \<open>\<open>for key, item in value.items(): result[key] = check(key, item)\<close>.\<close>

definition put_all :: "(pystr \<Rightarrow> pyval \<Rightarrow> pyval checked) \<Rightarrow> table \<Rightarrow> table \<Rightarrow> table checked" where
  "put_all f d acc = rfold (\<lambda>(k, v) r. rbind (f k v) (\<lambda>w. Inr (put k w r))) d acc"

text \<open>A loop that only checks.\<close>

definition check_all :: "(pystr \<Rightarrow> pyval \<Rightarrow> unit checked) \<Rightarrow> table \<Rightarrow> unit checked" where
  "check_all f d = rfold (\<lambda>(k, v) _. f k v) d ()"

definition known_fields :: "pystr list \<Rightarrow> table \<Rightarrow> bool" where
  "known_fields allowed d = list_all (\<lambda>(k, _). k \<in> set allowed) d"

lemma put_all_simps [simp]:
  "put_all f [] acc = Inr acc"
  "put_all f ((k, v) # d) acc = rbind (f k v) (\<lambda>w. put_all f d (put k w acc))"
  by (cases "f k v"; simp add: put_all_def)+

text \<open>What such a loop leaves in the table.\<close>

lemma put_all_get:
  assumes "put_all f d acc = Inr r" and "distinct (map fst d)"
  shows "get r k = (case get d k of None \<Rightarrow> get acc k | Some v \<Rightarrow> (case f k v of Inr w \<Rightarrow> Some w | Inl _ \<Rightarrow> None))"
  using assms
proof (induction d arbitrary: acc)
  case Nil
  then show ?case by simp
next
  case (Cons p d)
  obtain j v where p: "p = (j, v)" by (cases p)
  with Cons.prems obtain w where w: "f j v = Inr w" "put_all f d (put j w acc) = Inr r"
    by (auto simp: result_simps)
  have "get d j = None" using Cons.prems(2) p by (simp add: get_def map_of_eq_None_iff)
  with Cons.IH [OF w(2)] Cons.prems(2) w(1) p show ?case by (auto split: option.splits)
qed

lemma put_all_ok:
  "put_all f d acc = Inr r \<Longrightarrow> (k, v) \<in> set d \<Longrightarrow> \<exists>w. f k v = Inr w"
  by (induction d arbitrary: acc) (auto simp: result_simps)

end
