(* ===== verification/File_Reading.thy ===== *)
theory File_Reading
  imports Utf8 Config_Values
begin

text \<open>
  Reading a range of lines of a text file (\<open>_read_file\<close> in filesystem.py).  The file is read in
  chunks of 64 KiB, each of which is decoded incrementally to check it, cut into segments at the line
  feeds, and captured where it lies in the range and after the start byte, up to the size limit.
  Whether the file is the same before and after, and its hash, are parameters.
\<close>

section \<open>The request\<close>

record request =
  rq_start :: nat
  rq_end :: "nat option"
  rq_byte :: "nat option"
  rq_max :: nat

definition positive_int :: "pyval \<Rightarrow> nat option" where
  "positive_int v = (case v of PInt n \<Rightarrow> if n < 1 then None else Some (nat n) | _ \<Rightarrow> None)"

text \<open>\<open>_validate_line_range\<close>: the checked arguments.\<close>

definition validate_line_range :: "pyval \<Rightarrow> pyval \<Rightarrow> pyval \<Rightarrow> pyval \<Rightarrow> request result" where
  "validate_line_range start_line end_line start_byte max_bytes =
    (case positive_int start_line of
       None \<Rightarrow> Inl (ValueError ''start_line must be a positive integer'')
     | Some first \<Rightarrow>
        rbind (case end_line of
                 PNone \<Rightarrow> Inr None
               | PInt n \<Rightarrow> if n < int first then Inl (ValueError ''end_line must be at least start_line'') else Inr (Some (nat n))
               | _ \<Rightarrow> Inl (ValueError ''end_line must be at least start_line'')) (\<lambda>last_line.
        rbind (case start_byte of
                 PNone \<Rightarrow> Inr None
               | PInt n \<Rightarrow> if n < 0 then Inl (ValueError ''start_byte must be a non-negative integer'') else Inr (Some (nat n))
               | _ \<Rightarrow> Inl (ValueError ''start_byte must be a non-negative integer'')) (\<lambda>byte.
        (case positive_int max_bytes of
           None \<Rightarrow> Inl (ValueError ''max_bytes must be a positive integer'')
         | Some bound \<Rightarrow> Inr \<lparr>rq_start = first, rq_end = last_line, rq_byte = byte, rq_max = bound\<rparr>))))"

section \<open>The scan of the chunks\<close>

record scan =
  sc_pending :: bytes           \<comment> \<open>the state of the incremental decoder\<close>
  sc_output :: bytes
  sc_seen :: nat
  sc_line :: nat
  sc_total :: nat
  sc_has_data :: bool
  sc_start_line :: "nat option"
  sc_capture :: "nat option"
  sc_ends_newline :: bool
  sc_trunc :: "nat option"

definition start_scan :: "request \<Rightarrow> scan" where
  "start_scan rq = \<lparr>sc_pending = [], sc_output = [], sc_seen = 0, sc_line = 1, sc_total = 0, sc_has_data = False,
     sc_start_line = (if rq_byte rq = Some 0 then Some 1 else None), sc_capture = rq_byte rq,
     sc_ends_newline = False, sc_trunc = None\<rparr>"

text \<open>\<open>decoder.decode(data, final=False)\<close>: what is incomplete at the end stays pending.\<close>

definition feed :: "bytes \<Rightarrow> bytes \<Rightarrow> bytes result" where
  "feed pending data =
    (case utf8_decode (pending @ data) of
       Inr _ \<Rightarrow> Inr []
     | Inl (UnexpectedEnd i) \<Rightarrow> Inr (drop i (pending @ data))
     | Inl (BadSequence _) \<Rightarrow> Inl (UnicodeError ''invalid UTF-8''))"

definition boundary_error :: exc where
  "boundary_error = ValueError ''start_byte must be at an encoding boundary''"

definition validate_chunk :: "request \<Rightarrow> bytes \<Rightarrow> scan \<Rightarrow> scan result" where
  "validate_chunk rq chunk st =
    rbind (if rq_byte rq = Some (sc_total st) then
             (if sc_pending st \<noteq> [] then Inl boundary_error
              else Inr (st\<lparr>sc_start_line := Some (sc_line st)\<rparr>))
           else Inr st) (\<lambda>st.
    case rq_byte rq of
      Some b \<Rightarrow>
       (if sc_total st < b \<and> b < sc_total st + length chunk then
          let split = b - sc_total st in
          rbind (feed (sc_pending st) (take split chunk)) (\<lambda>pending.
          if pending \<noteq> [] then Inl boundary_error
          else
            let st = st\<lparr>sc_start_line := (case sc_start_line st of None \<Rightarrow> Some (sc_line st) | Some l \<Rightarrow> Some l)\<rparr> in
            rbind (feed pending (drop split chunk)) (\<lambda>pending. Inr (st\<lparr>sc_pending := pending\<rparr>)))
        else rbind (feed (sc_pending st) chunk) (\<lambda>pending. Inr (st\<lparr>sc_pending := pending\<rparr>)))
    | None \<Rightarrow> rbind (feed (sc_pending st) chunk) (\<lambda>pending. Inr (st\<lparr>sc_pending := pending\<rparr>)))"

definition in_range :: "request \<Rightarrow> nat \<Rightarrow> bool" where
  "in_range rq line = (rq_start rq \<le> line \<and> (case rq_end rq of None \<Rightarrow> True | Some l \<Rightarrow> line \<le> l))"

text \<open>\<open>capture\<close>: a segment of one line that begins at \<open>place\<close>.\<close>

definition capture :: "request \<Rightarrow> bytes \<Rightarrow> nat \<Rightarrow> nat \<Rightarrow> scan \<Rightarrow> scan" where
  "capture rq segment place line st =
    (if \<not> in_range rq line then st
     else
       let segment = (case rq_byte rq of None \<Rightarrow> segment | Some b \<Rightarrow> drop (b - place) segment) in
       if segment = [] then st
       else
         let st = st\<lparr>sc_capture := (case sc_capture st of None \<Rightarrow> Some place | Some p \<Rightarrow> Some p),
                     sc_seen := sc_seen st + length segment,
                     sc_output := sc_output st @ take (rq_max rq + 3 - length (sc_output st)) segment\<rparr> in
         if rq_max rq < sc_seen st \<and> sc_trunc st = None then st\<lparr>sc_trunc := Some line\<rparr> else st)"

definition at_start :: "request \<Rightarrow> nat \<Rightarrow> nat \<Rightarrow> scan \<Rightarrow> scan" where
  "at_start rq first bound st =
    (case rq_byte rq of
       Some b \<Rightarrow> if first \<le> b \<and> b < bound then st\<lparr>sc_start_line := Some (sc_line st)\<rparr> else st
     | None \<Rightarrow> st)"

text \<open>The segments of a chunk, from \<open>place\<close> in the file on.\<close>

function scan_segments :: "request \<Rightarrow> bytes \<Rightarrow> nat \<Rightarrow> scan \<Rightarrow> scan" where
  "scan_segments rq rest place st =
    (if rest = [] then st
     else
       case dropWhile (\<lambda>b. b \<noteq> 10) rest of
         [] \<Rightarrow>
           let st = at_start rq place (place + length rest) st in
           capture rq rest place (sc_line st) st
       | newline # rest' \<Rightarrow>
           let segment = takeWhile (\<lambda>b. b \<noteq> 10) rest @ [newline];
               next_place = place + length segment;
               st = at_start rq place next_place st;
               st = capture rq segment place (sc_line st) st;
               st = st\<lparr>sc_line := sc_line st + 1\<rparr>;
               st = (if rq_byte rq = Some next_place then st\<lparr>sc_start_line := Some (sc_line st)\<rparr> else st) in
           scan_segments rq rest' next_place (st\<lparr>sc_ends_newline := True\<rparr>))"
  by pat_completeness auto
termination
proof (relation "measure (\<lambda>(rq, rest, place, st). length rest)", goal_cases)
  case (2 rq rest place st newline rest')
  have "length (dropWhile (\<lambda>b. b \<noteq> 10) rest) \<le> length rest" by (rule length_dropWhile_le)
  with 2 show ?case by simp
qed simp

declare scan_segments.simps [simp del]

definition read_chunk :: "request \<Rightarrow> bytes \<Rightarrow> scan \<Rightarrow> scan result" where
  "read_chunk rq chunk st =
    rbind (validate_chunk rq chunk (st\<lparr>sc_has_data := True\<rparr>)) (\<lambda>st.
    let st = scan_segments rq chunk (sc_total st) st in
    Inr (st\<lparr>sc_total := sc_total st + length chunk, sc_ends_newline := ends_with [10] chunk\<rparr>))"

section \<open>The result\<close>

record page_of_lines =
  pl_text :: pystr
  pl_start_line :: nat
  pl_start_byte :: "nat option"
  pl_end_line :: nat
  pl_next :: "(nat \<times> nat) option"   \<comment> \<open>line and byte\<close>
  pl_truncated :: bool
  pl_revision :: pystr
  pl_size :: nat

text \<open>\<open>_utf8_prefix\<close>: the bytes up to the limit without an incomplete code point at the end.\<close>

definition utf8_prefix :: "bytes \<Rightarrow> nat \<Rightarrow> bytes result" where
  "utf8_prefix data limit =
    (let candidate = take limit data in
     case utf8_decode candidate of
       Inr _ \<Rightarrow> Inr candidate
     | Inl (UnexpectedEnd i) \<Rightarrow> Inr (take i candidate)
     | Inl (BadSequence _) \<Rightarrow> Inl (UnicodeError ''invalid UTF-8''))"

definition decode_bytes :: "bytes \<Rightarrow> pystr result" where
  "decode_bytes b = (case utf8_decode b of Inl _ \<Rightarrow> Inl (UnicodeError ''invalid UTF-8'') | Inr s \<Rightarrow> Inr s)"

definition finish_read :: "request \<Rightarrow> bool \<Rightarrow> pystr \<Rightarrow> scan \<Rightarrow> page_of_lines result" where
  "finish_read rq same revision st =
    (if sc_pending st \<noteq> [] then Inl (UnicodeError ''unexpected end of data'')
     else if \<not> same then Inl (RuntimeError ''File changed while reading'')
     else if (case rq_byte rq of None \<Rightarrow> False | Some b \<Rightarrow> sc_total st < b)
     then Inl (ValueError ''start_byte is beyond the file'')
     else
       let st = (if rq_byte rq = Some (sc_total st) then st\<lparr>sc_start_line := Some (sc_line st)\<rparr> else st) in
       if rq_byte rq \<noteq> None \<and> sc_start_line st \<noteq> None \<and> sc_start_line st \<noteq> Some (rq_start rq)
       then Inl (ValueError ''start_byte does not belong to start_line'')
       else
         let line_no = (if sc_has_data st then sc_line st else 0) in
         case sc_trunc st of
           Some trunc_line \<Rightarrow>
             rbind (utf8_prefix (sc_output st) (rq_max rq)) (\<lambda>valid.
             if valid = [] then Inl (ValueError ''max_bytes is too small for the first UTF-8 code point'')
             else rbind (decode_bytes valid) (\<lambda>tx.
               Inr \<lparr>pl_text = tx, pl_start_line = rq_start rq, pl_start_byte = rq_byte rq,
                    pl_end_line = rq_start rq + count_list valid 10 - (if ends_with [10] valid then 1 else 0),
                    pl_next = Some (trunc_line, (case sc_capture st of None \<Rightarrow> 0 | Some p \<Rightarrow> p) + length valid),
                    pl_truncated = True, pl_revision = revision, pl_size = sc_total st\<rparr>))
         | None \<Rightarrow>
             let valid = sc_output st;
                 last_line = (if sc_ends_newline st then line_no - 1 else line_no) in
             rbind (decode_bytes valid) (\<lambda>tx.
             Inr \<lparr>pl_text = tx, pl_start_line = rq_start rq, pl_start_byte = rq_byte rq,
                  pl_end_line = (if valid = [] then rq_start rq - 1
                                 else case rq_end rq of None \<Rightarrow> last_line | Some l \<Rightarrow> min last_line l),
                  pl_next = None, pl_truncated = False, pl_revision = revision, pl_size = sc_total st\<rparr>))"

text \<open>The chunks that \<open>stream.read(size)\<close> returns.\<close>

function pieces :: "nat \<Rightarrow> 'a list \<Rightarrow> 'a list list" where
  "pieces n xs = (if n = 0 \<or> xs = [] then [] else take n xs # pieces n (drop n xs))"
  by pat_completeness auto
termination
  by (relation "measure (\<lambda>(n, xs). length xs)") auto

declare pieces.simps [simp del]

definition read_chunks :: "request \<Rightarrow> bytes list \<Rightarrow> bool \<Rightarrow> pystr \<Rightarrow> page_of_lines result" where
  "read_chunks rq cs same revision = rbind (rfold (read_chunk rq) cs (start_scan rq)) (finish_read rq same revision)"

text \<open>\<open>encoding.lower().replace("-", "") in {"utf8"}\<close>; only ASCII letters lower to these four characters.\<close>

definition utf8_name :: "pystr \<Rightarrow> bool" where
  "utf8_name encoding = (filter (\<lambda>c. c \<noteq> 45) (map (\<lambda>c. if 65 \<le> c \<and> c \<le> 90 then c + 32 else c) encoding) = lit ''utf8'')"

definition read_file :: "(bytes \<Rightarrow> pystr) \<Rightarrow> pystr \<Rightarrow> request \<Rightarrow> bytes \<Rightarrow> bool \<Rightarrow> page_of_lines result" where
  "read_file sha encoding rq data same =
    (if \<not> utf8_name encoding then Inl (ValueError ''read currently supports UTF-8 only'')
     else read_chunks rq (pieces (64 * 1024) data) same (sha data))"

end
