(* ===== verification/File_Writing.thy ===== *)
theory File_Writing
  imports File_Transactions File_Reading
begin

text \<open>
  Writing, deleting, copying and moving single files (filesystem.py) over the file system with failing
  calls: the atomic write through a temporary file, compare-and-swap on the old content, the history
  record with its rollback, and the lifecycle operations with theirs.  The locks of the paths and the
  history transactions order whole operations and are left out; so are symbolic links.  What the
  history store answers, and whether a caller is cancelled while it waits, are parameters.
\<close>

section \<open>The state of one operation\<close>

record wtxn = fsys +
  w_committed :: bool              \<comment> \<open>MutationOutcome, and destination_committed\<close>
  w_destination :: "node option"   \<comment> \<open>destination_stat\<close>
  w_unlinked :: bool               \<comment> \<open>source_unlinked\<close>

definition mark_committed :: "(wtxn, unit) prog" where
  "mark_committed = update (\<lambda>t. t\<lparr>w_committed := True\<rparr>)"

definition sys_chmod :: "path \<Rightarrow> nat \<Rightarrow> (('a) fsys_scheme, unit) prog" where
  "sys_chmod p mode = syscall (\<lambda>fs. case node_at fs p of
      None \<Rightarrow> (Inl (FileNotFoundError ''''), fs)
    | Some n \<Rightarrow> (Inr (), tick (set_node p (Some (n\<lparr>n_mode := mode, n_time := fs_clock fs\<rparr>)) fs)))"

definition is_dir :: "path \<Rightarrow> (('a) fsys_scheme, bool) prog" where
  "is_dir p = pbind (attempt (sys_stat p)) (\<lambda>r. ret (case r of Inl _ \<Rightarrow> False | Inr n \<Rightarrow> n_kind n = Directory))"

text \<open>\<open>path.stat() if path.exists() else None\<close>.\<close>

definition stat_if_exists :: "path \<Rightarrow> (('a) fsys_scheme, node option) prog" where
  "stat_if_exists p = pbind (sys_exists p) (\<lambda>b. if b then pbind (sys_stat p) (\<lambda>n. ret (Some n)) else ret None)"

text \<open>A limit that is exceeded is reported as the limit of the history.\<close>

definition as_history_error :: "('s, 'b) prog \<Rightarrow> ('s, 'b) prog" where
  "as_history_error m = pbind (attempt m) (\<lambda>r. case r of
      Inr x \<Rightarrow> ret x
    | Inl e \<Rightarrow> raise (if e = read_limit_exceeded then history_size_error else e))"

text \<open>\<open>_read_optional_bytes\<close> and \<open>_read_history_optional_bytes\<close>.\<close>

definition read_optional_bytes :: "path \<Rightarrow> nat option \<Rightarrow> (('a) fsys_scheme, bytes option) prog" where
  "read_optional_bytes p bound =
    pbind (missing_ok (sys_stat p)) (\<lambda>i. case i of
      None \<Rightarrow> ret None
    | Some info \<Rightarrow>
        pseq (lift (require_regular info))
         (if over bound (length (n_data info)) then raise read_limit_exceeded
          else pbind (read_regular p bound) (\<lambda>(data, opened).
            pbind (sys_stat p) (\<lambda>after.
              if signature info \<noteq> signature opened \<or> signature info \<noteq> signature after
              then raise (RuntimeError ''File changed while reading'')
              else ret (Some data)))))"

definition read_history_optional_bytes :: "env \<Rightarrow> path \<Rightarrow> (('a) fsys_scheme, bytes option) prog" where
  "read_history_optional_bytes ev p = as_history_error (read_optional_bytes p (Some (blob_limit ev)))"

section \<open>The atomic write\<close>

text \<open>The check right before the replacement; \<open>_signature(None)\<close> raises.\<close>

definition still_old :: "path \<Rightarrow> bytes \<Rightarrow> node option \<Rightarrow> nat option \<Rightarrow> (('a) fsys_scheme, bool) prog" where
  "still_old p old old_info bound =
    pbind (missing_ok
      (pseq (sys_stat p)
        (pbind (as_history_error (read_regular p bound)) (\<lambda>(data, current).
          case old_info of
            None \<Rightarrow> raise (AttributeError ''st_dev'')
          | Some i \<Rightarrow> ret (signature current = signature i \<and> data = old)))))
      (\<lambda>r. ret (case r of None \<Rightarrow> False | Some unchanged \<Rightarrow> unchanged))"

definition file_mode :: "nat option \<Rightarrow> node option \<Rightarrow> nat" where
  "file_mode mode old_info =
    (case mode of Some m \<Rightarrow> m | None \<Rightarrow> (case old_info of Some i \<Rightarrow> n_mode i | None \<Rightarrow> 384))"

definition atomic_write ::
  "(wtxn, unit) prog \<Rightarrow> path \<Rightarrow> bytes \<Rightarrow> bytes option \<Rightarrow> node option \<Rightarrow> nat option \<Rightarrow> nat option \<Rightarrow> (wtxn, node) prog" where
  "atomic_write on_commit p data old old_info bound mode =
    pbind (sys_mkstemp (butlast p) (temporary_prefix (path_name p) (lit ''.''))) (\<lambda>(f, temp).
      ensure
        (pseq (ensure
            (pseq (sys_fchmod f (file_mode mode old_info)) (pseq (sys_write f data) (pseq (sys_sync f) (sys_sync f))))
            (sys_close f))
          (pseq (case old of
              None \<Rightarrow> pseq (sys_link temp p) (pseq on_commit (sys_unlink temp True))
            | Some o' \<Rightarrow>
                pbind (still_old p o' old_info bound) (\<lambda>unchanged.
                  if \<not> unchanged then raise (RuntimeError ''File changed while updating'')
                  else pseq (sys_replace temp p) on_commit))
            (sys_stat p)))
        (sys_unlink temp True))"

section \<open>Writing a file\<close>

text \<open>\<open>Path.mkdir(parents=True, exist_ok=True)\<close>; the argument is the reversed path.\<close>

definition mkdir_exist_ok :: "path \<Rightarrow> exc \<Rightarrow> (('a) fsys_scheme, unit) prog" where
  "mkdir_exist_ok p e = pbind (is_dir p) (\<lambda>b. if b then ret () else raise e)"

fun mkdir_parents :: "pystr list \<Rightarrow> (('a) fsys_scheme, unit) prog" where
  "mkdir_parents [] =
    pbind (attempt (sys_mkdir [])) (\<lambda>r. case r of
      Inr _ \<Rightarrow> ret ()
    | Inl (FileNotFoundError m) \<Rightarrow> raise (FileNotFoundError m)
    | Inl e \<Rightarrow> mkdir_exist_ok [] e)"
| "mkdir_parents (c # cs) =
    pbind (attempt (sys_mkdir (rev (c # cs)))) (\<lambda>r. case r of
      Inr _ \<Rightarrow> ret ()
    | Inl (FileNotFoundError m) \<Rightarrow>
        pseq (mkdir_parents cs)
         (pbind (attempt (sys_mkdir (rev (c # cs)))) (\<lambda>r. case r of
            Inr _ \<Rightarrow> ret ()
          | Inl (FileNotFoundError m) \<Rightarrow> raise (FileNotFoundError m)
          | Inl e \<Rightarrow> mkdir_exist_ok (rev (c # cs)) e))
    | Inl e \<Rightarrow> mkdir_exist_ok (rev (c # cs)) e)"

definition validate_history_size :: "env \<Rightarrow> bytes option \<Rightarrow> bytes option \<Rightarrow> unit result" where
  "validate_history_size ev old new =
    (if list_ex (\<lambda>d. blob_limit ev < length (or_empty d)) [old, new] then Inl history_size_error else Inr ())"

definition validate_history_stat_size :: "env \<Rightarrow> node \<Rightarrow> unit result" where
  "validate_history_stat_size ev info =
    rbind (require_regular info) (\<lambda>_. if blob_limit ev < length (n_data info) then Inl history_size_error else Inr ())"

record write_result =
  wr_created :: bool
  wr_revision :: pystr
  wr_size :: nat
  wr_mode :: nat
  wr_old :: "bytes option"
  wr_old_info :: "node option"
  wr_info :: node

definition write_file ::
  "env \<Rightarrow> path \<Rightarrow> bytes \<Rightarrow> pystr option \<Rightarrow> bool \<Rightarrow> bool \<Rightarrow> bool \<Rightarrow> (wtxn, write_result) prog" where
  "write_file ev p data expected overwrite create_parents history =
    (let bound = (if history then Some (blob_limit ev) else None) in
     pbind (missing_ok (sys_stat p)) (\<lambda>i.
     pbind (case i of
         None \<Rightarrow> ret (None, None)
       | Some info \<Rightarrow>
           pseq (lift (require_regular info))
            (pseq (if history then lift (validate_history_stat_size ev info) else ret ())
              (pbind (as_history_error (read_regular p bound)) (\<lambda>(d, n). ret (Some d, Some n))))) (\<lambda>(old, old_info).
     pseq (lift (check_expected ev old expected))
      (pseq (if old \<noteq> None \<and> \<not> (overwrite \<or> expected \<noteq> None) then raise (FileExistsError ''File already exists'') else ret ())
        (pseq (if history then lift (validate_history_size ev old (Some data)) else ret ())
          (pseq (if create_parents then mkdir_parents (rev (butlast p))
                 else pbind (sys_exists (butlast p)) (\<lambda>b. if b then ret () else raise (FileNotFoundError '''')))
            (pbind (atomic_write mark_committed p data old old_info bound None) (\<lambda>info.
              ret \<lparr>wr_created = (old = None), wr_revision = sha ev data, wr_size = length data, wr_mode = n_mode info,
                   wr_old = old, wr_old_info = old_info, wr_info = info\<rparr>))))))))"

section \<open>Undoing a change\<close>

definition rollback_error :: exc where
  "rollback_error = RuntimeError ''File changed while rolling back''"

definition restore_transition ::
  "path \<Rightarrow> bytes option \<Rightarrow> bytes option \<Rightarrow> nat option \<Rightarrow> node option \<Rightarrow> node option \<Rightarrow> (wtxn, unit) prog" where
  "restore_transition p old new bound old_info new_info =
    pbind (if bound \<noteq> None then as_history_error (read_optional_bytes p bound) else read_optional_bytes p bound) (\<lambda>current.
    case new of
      None \<Rightarrow>
        if current \<noteq> None then raise rollback_error
        else (case old of
            None \<Rightarrow> ret ()
          | Some d \<Rightarrow> pseq (atomic_write (ret ()) p d None None bound (map_option n_mode old_info)) (ret ()))
    | Some _ \<Rightarrow>
        if current \<noteq> new then raise rollback_error
        else
          pbind (case new_info of
              None \<Rightarrow> ret None
            | Some n \<Rightarrow> pbind (sys_stat p) (\<lambda>c.
                if signature c \<noteq> signature n then raise rollback_error else ret (Some c))) (\<lambda>current_info.
          case old of
            None \<Rightarrow> sys_unlink p True
          | Some d \<Rightarrow>
              pbind (case current_info of Some c \<Rightarrow> ret c | None \<Rightarrow> sys_stat p) (\<lambda>c.
                pseq (atomic_write (ret ()) p d new (Some c) bound (map_option n_mode old_info)) (ret ()))))"

end
