(* ===== verification/File_Lifecycle.thy ===== *)
theory File_Lifecycle
  imports File_Writing
begin

text \<open>
  The operations of the workspace API on single files that keep a history (filesystem.py): writing,
  deleting, copying and moving, with the rollback when the history cannot be recorded.
\<close>

section \<open>The history\<close>

text \<open>What is asked of the history store; the flag says that the caller was cancelled meanwhile.\<close>

record history_change =
  ch_operation :: string
  ch_source :: "path option"
  ch_path :: path
  ch_old :: "bytes option"
  ch_new :: "bytes option"

record history_store =
  hs_any :: "path \<Rightarrow> bool result"
  hs_bytes :: "path \<Rightarrow> bytes option \<Rightarrow> bytes option \<Rightarrow> bool result"
  hs_prepare :: "history_change list \<Rightarrow> unit result"
  hs_changes :: "history_change list \<Rightarrow> bool result"

text \<open>\<open>_history_resource\<close> of a resolved path: its names below the workspace, unless it is internal.\<close>

definition history_resource :: "path \<Rightarrow> path \<Rightarrow> pystr list option" where
  "history_resource ws p =
    (if \<not> starts_with ws p then None
     else
       let parts = drop (length ws) p in
       if parts = [] then None
       else if hd parts = lit ''.mypr''
         \<and> \<not> (take 1 (drop 1 parts) = [lit ''skills''] \<or> take 3 parts = [lit ''.mypr'', lit ''lib'', lit ''ws_lib''])
       then None
       else Some parts)"

definition validate_history_target :: "path \<Rightarrow> (('a) fsys_scheme, unit) prog" where
  "validate_history_target p =
    pbind (missing_ok (sys_stat p)) (\<lambda>i. case i of
      None \<Rightarrow> ret ()
    | Some _ \<Rightarrow> pbind (is_dir p) (\<lambda>b. if b then raise (IsADirectoryError '''') else ret ()))"

definition incomplete :: exc where
  "incomplete = RuntimeError ''rollback was incomplete''"

definition rolled_back :: exc where
  "rolled_back = RuntimeError ''history write failed; file change was rolled back''"

text \<open>\<open>_record_history\<close>.\<close>

definition record_file_history ::
  "env \<Rightarrow> history_store \<Rightarrow> path \<Rightarrow> path \<Rightarrow> bytes option \<Rightarrow> bytes option \<Rightarrow> node option \<Rightarrow> node option \<Rightarrow> (wtxn, bool) prog" where
  "record_file_history ev hs ws p old new old_info new_info =
    (if history_resource ws p = None then ret False
     else if old = new then lift (hs_any hs p)
     else
       pseq (lift (validate_history_size ev old new))
        (case hs_bytes hs p old new of
           Inr cancelled \<Rightarrow> if cancelled then raise CancelledError else ret True
         | Inl (OutcomeUnknown m) \<Rightarrow> raise (OutcomeUnknown m)
         | Inl _ \<Rightarrow>
             pbind (attempt (restore_transition p old new (Some (blob_limit ev)) old_info new_info)) (\<lambda>r.
               raise (case r of Inl _ \<Rightarrow> incomplete | Inr _ \<Rightarrow> rolled_back))))"

text \<open>\<open>_write_data\<close>; the second flag says that the caller is cancelled during the write.\<close>

definition write_data ::
  "env \<Rightarrow> history_store \<Rightarrow> path \<Rightarrow> path \<Rightarrow> bytes \<Rightarrow> pystr option \<Rightarrow> bool \<Rightarrow> bool \<Rightarrow> bool \<Rightarrow> bool
    \<Rightarrow> (wtxn, write_result \<times> bool option) prog" where
  "write_data ev hs ws p data expected overwrite create_parents history cancelled =
    (let history_enabled = (history \<and> history_resource ws p \<noteq> None) in
     pseq (if history then validate_history_target p else ret ())
      (pbind (write_file ev p data expected overwrite create_parents history_enabled) (\<lambda>res.
       pbind (if history_enabled
              then pbind (record_file_history ev hs ws p (wr_old res) (Some data) (wr_old_info res) (Some (wr_info res)))
                     (\<lambda>b. ret (Some b))
              else ret None) (\<lambda>recorded.
         if cancelled then raise CancelledError else ret (res, recorded)))))"

section \<open>Deleting\<close>

definition unlink_expected :: "env \<Rightarrow> path \<Rightarrow> bytes \<Rightarrow> bool \<Rightarrow> (wtxn, unit) prog" where
  "unlink_expected ev p expected history =
    pbind (if history then read_history_optional_bytes ev p else read_optional_bytes p None) (\<lambda>current.
      if current \<noteq> Some expected then raise (RuntimeError ''File changed while deleting'')
      else sys_unlink p False)"

definition delete_file ::
  "env \<Rightarrow> history_store \<Rightarrow> path \<Rightarrow> path \<Rightarrow> pystr option \<Rightarrow> bool \<Rightarrow> bool \<Rightarrow> (wtxn, pystr \<times> bool) prog" where
  "delete_file ev hs ws p expected history cancelled =
    (if expected = None then raise (ValueError ''delete requires expected_hash'')
     else
       let history_enabled = (history \<and> history_resource ws p \<noteq> None) in
       pseq (if history then validate_history_target p else ret ())
        (pbind (if history_enabled then read_history_optional_bytes ev p else read_optional_bytes p None) (\<lambda>old.
         pseq (lift (check_expected ev old expected))
          (case old of
             None \<Rightarrow> raise (FileNotFoundError '''')
           | Some d \<Rightarrow>
               pseq (if history_enabled then lift (validate_history_size ev old None) else ret ())
                (pbind (if history_enabled
                        then pbind (sys_stat p) (\<lambda>i. pseq (lift (require_regular i)) (ret (Some i)))
                        else ret None) (\<lambda>old_info.
                 pseq (unlink_expected ev p d history_enabled)
                  (pseq (if history_enabled
                         then pseq (record_file_history ev hs ws p old None old_info None) (ret ())
                         else ret ())
                    (if cancelled then raise CancelledError
                     else ret (sha ev d, history_enabled)))))))))"

section \<open>Copying and moving\<close>

text \<open>\<open>_remove_empty_dirs\<close> and \<open>_create_parent_dirs\<close>.\<close>

definition remove_empty_dirs :: "(path \<times> nat) list \<Rightarrow> (('a) fsys_scheme, unit) prog" where
  "remove_empty_dirs created =
    pseq (collect_failures (\<lambda>(d, ino).
        pbind (sys_stat d) (\<lambda>info.
          if n_kind info \<noteq> Directory \<or> n_ino info \<noteq> ino then ret () else sys_rmdir d)) (rev created))
      (ret ())"

fun create_dirs :: "path list \<Rightarrow> (path \<times> nat) list \<Rightarrow> (('a) fsys_scheme, (path \<times> nat) list) prog" where
  "create_dirs [] created = ret created"
| "create_dirs (d # ds) created =
    (let undo = (\<lambda>e. pseq (remove_empty_dirs created) (raise e)) in
     pbind (attempt (sys_mkdir d)) (\<lambda>r. case r of
       Inl (FileExistsError m) \<Rightarrow>
         pbind (is_dir d) (\<lambda>b. if b then ret created else undo (FileExistsError m))
     | Inl e \<Rightarrow> undo e
     | Inr _ \<Rightarrow>
         pbind (attempt (sys_stat d)) (\<lambda>r. case r of
           Inl e \<Rightarrow> undo e
         | Inr info \<Rightarrow> create_dirs ds (created @ [(d, n_ino info)]))))"

definition create_parent_dirs :: "path \<Rightarrow> (('a) fsys_scheme, (path \<times> nat) list) prog" where
  "create_parent_dirs p =
    pbind (sys_exists p) (\<lambda>b.
      if b then ret [] else pbind (missing_dirs (rev p)) (\<lambda>ds. create_dirs ds []))"

definition copy_bytes ::
  "env \<Rightarrow> path \<Rightarrow> path \<Rightarrow> bytes \<Rightarrow> bytes option \<Rightarrow> nat \<times> nat \<times> nat \<Rightarrow> bool \<Rightarrow> nat option \<Rightarrow> (wtxn, unit) prog" where
  "copy_bytes ev source dest data dest_old source_signature move bound =
    (let optional = (\<lambda>p. if bound \<noteq> None then as_history_error (read_optional_bytes p bound) else read_optional_bytes p bound) in
     pbind (sys_stat source) (\<lambda>source_info.
     pbind (stat_if_exists dest) (\<lambda>dest_info.
     pseq (mkdir_parents (rev (butlast dest)))
      (pseq (atomic_write mark_committed dest data dest_old dest_info bound None)
       (pseq (if dest_info = None then sys_chmod dest (n_mode source_info) else ret ())
        (pbind (sys_stat dest) (\<lambda>i.
         pseq (update (\<lambda>t. t\<lparr>w_destination := Some i\<rparr>))
          (if \<not> move then ret ()
           else
             pbind (optional dest) (\<lambda>current.
             if current \<noteq> Some data then raise (RuntimeError ''Destination changed while moving'')
             else
               pbind (optional source) (\<lambda>current.
               pbind (missing_ok (sys_stat source)) (\<lambda>info. case info of
                 None \<Rightarrow> raise (RuntimeError ''Source changed while moving'')
               | Some n \<Rightarrow>
                   if current \<noteq> Some data \<or> signature n \<noteq> source_signature
                   then raise (RuntimeError ''Source changed while moving'')
                   else pseq (sys_unlink source False) (update (\<lambda>t. t\<lparr>w_unlinked := True\<rparr>)))))))))))))"

text \<open>A transition of one path: before, after, and the metadata before.\<close>

type_synonym transition = "path \<times> bytes option \<times> bytes option \<times> node option"

definition rollback_transition :: "path \<Rightarrow> path \<Rightarrow> bool \<Rightarrow> nat option \<Rightarrow> transition \<Rightarrow> (wtxn, unit) prog" where
  "rollback_transition source dest move bound tr =
    (case tr of (target, before, after, before_info) \<Rightarrow>
     pbind (gets w_unlinked) (\<lambda>unlinked.
       if target = source \<and> move \<and> \<not> unlinked then ret ()
       else
         pbind (gets w_destination) (\<lambda>dest_info.
           restore_transition target before after bound before_info (if target = dest then dest_info else None))))"

definition rollback_physical :: "path \<Rightarrow> path \<Rightarrow> bool \<Rightarrow> nat option \<Rightarrow> transition list \<Rightarrow> (wtxn, unit) prog" where
  "rollback_physical source dest move bound trs =
    pbind (collect_failures (rollback_transition source dest move bound) (rev trs)) (\<lambda>recovery.
      if recovery \<noteq> [] then raise (RuntimeError ''recovery failed'') else ret ())"

text \<open>Roll back, clean up, and raise the given error or that the rollback was incomplete.\<close>

definition undo_lifecycle ::
  "path \<Rightarrow> path \<Rightarrow> bool \<Rightarrow> nat option \<Rightarrow> transition list \<Rightarrow> (path \<times> nat) list \<Rightarrow> exc \<Rightarrow> (wtxn, 'b) prog" where
  "undo_lifecycle source dest move bound trs created e =
    pbind (attempt (rollback_physical source dest move bound trs)) (\<lambda>r.
    pseq (remove_empty_dirs created)
      (raise (case r of Inl _ \<Rightarrow> incomplete | Inr _ \<Rightarrow> e)))"

record lifecycle_result =
  lr_operation :: string
  lr_revision :: pystr
  lr_size :: nat
  lr_history :: "(bool \<times> bool) option"   \<comment> \<open>history_recorded, history_partial\<close>

definition lifecycle_plans :: "path \<Rightarrow> path \<Rightarrow> path \<Rightarrow> bool \<Rightarrow> bool \<Rightarrow> bytes \<Rightarrow> bytes option \<Rightarrow> history_change list" where
  "lifecycle_plans ws source dest history move data dest_old =
    (let source_in = (history \<and> history_resource ws source \<noteq> None);
         dest_in = (history \<and> history_resource ws dest \<noteq> None) in
     (if source_in \<and> move
      then [\<lparr>ch_operation = ''move'', ch_source = Some source, ch_path = dest, ch_old = Some data, ch_new = Some data\<rparr>] else [])
   @ (if dest_in \<and> (\<not> move \<or> \<not> source_in)
      then [\<lparr>ch_operation = ''copy'', ch_source = None, ch_path = dest, ch_old = dest_old, ch_new = Some data\<rparr>] else []))"

definition validate_history_path_size :: "env \<Rightarrow> path \<Rightarrow> (wtxn, unit) prog" where
  "validate_history_path_size ev p =
    pbind (missing_ok (sys_stat p)) (\<lambda>i. case i of
      None \<Rightarrow> ret ()
    | Some info \<Rightarrow> lift (validate_history_stat_size ev info))"

text \<open>The source as it is before the operation: its content and metadata.\<close>

definition read_source :: "env \<Rightarrow> path \<Rightarrow> pystr option \<Rightarrow> bool \<Rightarrow> (wtxn, bytes \<times> node) prog" where
  "read_source ev source expected history_enabled =
    pbind (stat_if_exists source) (\<lambda>source_info.
    pseq (case source_info of
            None \<Rightarrow> ret ()
          | Some i \<Rightarrow> if history_enabled then lift (validate_history_stat_size ev i) else ret ())
     (pbind (if history_enabled then read_history_optional_bytes ev source else read_optional_bytes source None) (\<lambda>old.
      pseq (lift (check_expected ev old expected))
       (case old of
          None \<Rightarrow> raise (FileNotFoundError '''')
        | Some data \<Rightarrow>
           (case source_info of
              None \<Rightarrow> raise (RuntimeError ''File changed while reading'')
            | Some info \<Rightarrow>
                pbind (missing_ok (sys_stat source)) (\<lambda>after. case after of
                  None \<Rightarrow> raise (RuntimeError ''File changed while reading'')
                | Some after_info \<Rightarrow>
                    if signature info \<noteq> signature after_info then raise (RuntimeError ''File changed while reading'')
                    else ret (data, info)))))))"

text \<open>The destination, which must not exist.\<close>

definition read_destination :: "env \<Rightarrow> path \<Rightarrow> bool \<Rightarrow> (wtxn, bytes option \<times> node option) prog" where
  "read_destination ev dest in_hist =
    pseq (if in_hist then validate_history_path_size ev dest else ret ())
     (pbind (stat_if_exists dest) (\<lambda>dest_info.
      pbind (if in_hist then read_history_optional_bytes ev dest else read_optional_bytes dest None) (\<lambda>dest_old.
        if dest_old \<noteq> None then raise (FileExistsError '''') else ret (dest_old, dest_info))))"

text \<open>From the copy on: what fails is undone.\<close>

definition carry_out ::
  "env \<Rightarrow> history_store \<Rightarrow> path \<Rightarrow> path \<Rightarrow> bytes \<Rightarrow> bytes option \<Rightarrow> node \<Rightarrow> bool \<Rightarrow> nat option
    \<Rightarrow> transition list \<Rightarrow> (path \<times> nat) list \<Rightarrow> history_change list \<Rightarrow> bool \<Rightarrow> bool \<Rightarrow> (wtxn, unit) prog" where
  "carry_out ev hs source dest data dest_old source_info move bound trs created plans history_enabled cancelled =
    pbind (attempt (copy_bytes ev source dest data dest_old (signature source_info) move bound)) (\<lambda>r. case r of
      Inl e \<Rightarrow>
        pbind (gets w_committed) (\<lambda>committed.
          if \<not> committed then pseq (remove_empty_dirs created) (raise e)
          else undo_lifecycle source dest move bound trs created e)
    | Inr _ \<Rightarrow>
        if cancelled then undo_lifecycle source dest move bound trs created CancelledError
        else if \<not> history_enabled then ret ()
        else (case hs_changes hs plans of
            Inr history_cancelled \<Rightarrow> if history_cancelled then raise CancelledError else ret ()
          | Inl (OutcomeUnknown m) \<Rightarrow> raise (OutcomeUnknown m)
          | Inl _ \<Rightarrow> undo_lifecycle source dest move bound trs created rolled_back))"

text \<open>\<open>_copy_or_move\<close>; the last flag says that the caller is cancelled during the copy.\<close>

definition copy_or_move ::
  "env \<Rightarrow> history_store \<Rightarrow> path \<Rightarrow> path \<Rightarrow> path \<Rightarrow> pystr option \<Rightarrow> bool \<Rightarrow> bool \<Rightarrow> bool \<Rightarrow> bool
    \<Rightarrow> (wtxn, lifecycle_result) prog" where
  "copy_or_move ev hs ws source dest expected overwrite history move cancelled =
    (if overwrite then raise (ValueError ''destination overwrite is not supported'')
     else if source = dest then raise (ValueError ''source and destination are identical'')
     else
       let source_in = (history \<and> history_resource ws source \<noteq> None);
           dest_in = (history \<and> history_resource ws dest \<noteq> None);
           history_enabled = (source_in \<or> dest_in);
           bound = (if history_enabled then Some (blob_limit ev) else None) in
       pseq (if history then pseq (validate_history_target source) (validate_history_target dest) else ret ())
        (pbind (read_source ev source expected history_enabled) (\<lambda>(data, source_info).
         pbind (read_destination ev dest dest_in) (\<lambda>(dest_old, dest_info).
         pseq (if history_enabled then lift (validate_history_size ev (Some data) (Some data)) else ret ())
          (pbind (if butlast dest = ws then ret [] else create_parent_dirs (butlast dest)) (\<lambda>created.
           let trs = (if move then [(source, Some data, None, Some source_info)] else [])
                 @ [(dest, dest_old, Some data, dest_info)];
               plans = lifecycle_plans ws source dest history move data dest_old in
           pseq (if history_enabled
                 then (case hs_prepare hs plans of
                     Inr _ \<Rightarrow> ret () | Inl e \<Rightarrow> pseq (remove_empty_dirs created) (raise e))
                 else ret ())
            (pseq (carry_out ev hs source dest data dest_old source_info move bound trs created plans history_enabled cancelled)
              (ret \<lparr>lr_operation = (if move then ''move'' else ''copy''), lr_revision = sha ev data, lr_size = length data,
                 lr_history = (if history
                   then (let rs = map (history_resource ws) (if move then [source, dest] else [dest]);
                             recorded = list_ex (\<lambda>r. r \<noteq> None) rs in
                         Some (recorded, recorded \<and> list_ex (\<lambda>r. r = None) rs))
                   else None)\<rparr>))))))))"

text \<open>\<open>move\<close> and \<open>copy\<close>.\<close>

definition move_file ::
  "env \<Rightarrow> history_store \<Rightarrow> path \<Rightarrow> path \<Rightarrow> path \<Rightarrow> pystr option \<Rightarrow> bool \<Rightarrow> bool \<Rightarrow> bool
    \<Rightarrow> (wtxn, lifecycle_result) prog" where
  "move_file ev hs ws source dest expected overwrite history cancelled =
    (if expected = None then raise (ValueError ''move requires expected_hash'')
     else copy_or_move ev hs ws source dest expected overwrite history True cancelled)"

definition copy_file ::
  "env \<Rightarrow> history_store \<Rightarrow> path \<Rightarrow> path \<Rightarrow> path \<Rightarrow> pystr option \<Rightarrow> bool \<Rightarrow> bool \<Rightarrow> bool
    \<Rightarrow> (wtxn, lifecycle_result) prog" where
  "copy_file ev hs ws source dest expected overwrite history cancelled =
    copy_or_move ev hs ws source dest expected overwrite history False cancelled"

end
