(* ===== verification/File_Edits.thy ===== *)
theory File_Edits
  imports File_Lifecycle Config_Values
begin

text \<open>
  Exact text replacements in one file (filesystem.py, \<open>patch\<close>, \<open>_patch_file\<close> and \<open>_apply_edits\<close>) and
  the entry points of writing.  The codec and the line diff are parameters.
\<close>

section \<open>\<open>str.count\<close> and \<open>str.replace\<close>\<close>

text \<open>Both scan from the left and go on behind a match.\<close>

lemma strip_prefix_shorter: "strip_prefix p s = Some r \<Longrightarrow> p \<noteq> [] \<Longrightarrow> length r < length s"
  by (auto simp: strip_prefix_Some_iff)

function str_count :: "pystr \<Rightarrow> pystr \<Rightarrow> nat" where
  "str_count old s =
    (if old = [] then Suc (length s)
     else case strip_prefix old s of
       Some r \<Rightarrow> Suc (str_count old r)
     | None \<Rightarrow> (case s of [] \<Rightarrow> 0 | _ # r \<Rightarrow> str_count old r))"
  by pat_completeness auto
termination
  by (relation "measure (length \<circ> snd)") (auto dest: strip_prefix_shorter)

text \<open>The number of replacements is bounded, or \<open>None\<close> for all; the old text is not empty.\<close>

fun less_one :: "nat option \<Rightarrow> nat option" where
  "less_one None = None"
| "less_one (Some k) = Some (k - 1)"

function str_replace :: "pystr \<Rightarrow> pystr \<Rightarrow> nat option \<Rightarrow> pystr \<Rightarrow> pystr" where
  "str_replace old new k s =
    (if old = [] \<or> k = Some 0 then s
     else case strip_prefix old s of
       Some r \<Rightarrow> new @ str_replace old new (less_one k) r
     | None \<Rightarrow> (case s of [] \<Rightarrow> [] | c # r \<Rightarrow> c # str_replace old new k r))"
  by pat_completeness auto
termination
  by (relation "measure (length \<circ> snd \<circ> snd \<circ> snd)") (auto dest: strip_prefix_shorter)

declare str_count.simps [simp del] str_replace.simps [simp del]

section \<open>The edits\<close>

definition apply_edit :: "pystr \<Rightarrow> pyval \<Rightarrow> pystr result" where
  "apply_edit text edit =
    (case edit of
       PDict d \<Rightarrow>
         (case (get d (lit ''old''), get d (lit ''new'')) of
            (Some (PStr old), Some (PStr new)) \<Rightarrow>
              if old = [] then Inl (ValueError ''edit has an empty old value'')
              else
                let matches = str_count old text in
                (case get_or d (lit ''count'') PNone of
                   PNone \<Rightarrow>
                     if matches \<noteq> 1 then Inl (ValueError ''edit expected one match'')
                     else Inr (str_replace old new (Some 1) text)
                 | PStr w \<Rightarrow>
                     if w \<noteq> lit ''all'' then Inl (ValueError ''edit count must be a positive integer or all'')
                     else if matches = 0 then Inl (ValueError ''edit expected at least one match, found 0'')
                     else Inr (str_replace old new None text)
                 | PInt k \<Rightarrow>
                     if k = -1 then
                       if matches = 0 then Inl (ValueError ''edit expected at least one match, found 0'')
                       else Inr (str_replace old new None text)
                     else if k < 1 then Inl (ValueError ''edit count must be a positive integer or all'')
                     else if int matches < k then Inl (ValueError ''edit requested more matches'')
                     else Inr (str_replace old new (Some (nat k)) text)
                 | _ \<Rightarrow> Inl (ValueError ''edit count must be a positive integer or all''))
          | _ \<Rightarrow> Inl (TypeError ''edit requires string old and new values''))
     | _ \<Rightarrow> Inl (TypeError ''edit requires string old and new values''))"

fun apply_edits :: "pyval list \<Rightarrow> pystr \<Rightarrow> pystr result" where
  "apply_edits [] text = Inr text"
| "apply_edits (e # es) text = rbind (apply_edit text e) (apply_edits es)"

section \<open>Patching a file\<close>

text \<open>The codec of the named encoding; both directions may raise.\<close>

record codec =
  cd_decode :: "bytes \<Rightarrow> pystr result"
  cd_encode :: "pystr \<Rightarrow> bytes result"

definition bounded_diff :: "env \<Rightarrow> pystr \<Rightarrow> pystr \<Rightarrow> pystr \<Rightarrow> nat \<Rightarrow> (pystr \<times> bool) result" where
  "bounded_diff ev display old new limit =
    rbind (add_diff_lines limit (unified_diff ev (diff_lines old) (diff_lines new) display display) ([], 0, False))
      (\<lambda>(parts, used, truncated). Inr (concat parts, truncated))"

record file_patch =
  fp_changed :: bool
  fp_dry_run :: bool
  fp_old_revision :: pystr
  fp_revision :: pystr
  fp_size :: nat
  fp_diff :: pystr
  fp_diff_truncated :: bool
  fp_old :: bytes
  fp_new :: bytes
  fp_old_info :: node
  fp_new_info :: node

definition patch_file ::
  "env \<Rightarrow> codec \<Rightarrow> path \<Rightarrow> pystr \<Rightarrow> pyval list \<Rightarrow> pystr option \<Rightarrow> bool \<Rightarrow> nat \<Rightarrow> bool \<Rightarrow> (wtxn, file_patch) prog" where
  "patch_file ev cd p display edits expected dry_run limit history =
    (let bound = (if history then Some (blob_limit ev) else None) in
     pbind (sys_stat p) (\<lambda>info.
     pseq (lift (require_regular info))
      (pseq (if history then lift (validate_history_stat_size ev info) else ret ())
       (pbind (as_history_error (read_regular p bound)) (\<lambda>(old, old_info).
        pseq (lift (check_expected ev (Some old) expected))
         (pbind (lift (cd_decode cd old)) (\<lambda>original.
          pbind (lift (apply_edits edits original)) (\<lambda>updated.
          pbind (lift (cd_encode cd updated)) (\<lambda>new.
          pseq (if history then lift (validate_history_size ev (Some old) (Some new)) else ret ())
           (pbind (lift (bounded_diff ev display original updated limit)) (\<lambda>(diff, truncated).
            pbind (if \<not> dry_run \<and> new \<noteq> old then atomic_write (ret ()) p new (Some old) (Some old_info) bound None
                   else ret old_info) (\<lambda>new_info.
              ret \<lparr>fp_changed = (new \<noteq> old), fp_dry_run = dry_run, fp_old_revision = sha ev old,
                   fp_revision = sha ev new, fp_size = length new, fp_diff = diff, fp_diff_truncated = truncated,
                   fp_old = old, fp_new = new, fp_old_info = old_info, fp_new_info = new_info\<rparr>))))))))))))"

text \<open>\<open>patch\<close>; the last flag says that the caller is cancelled during the operation.\<close>

definition patch_text ::
  "env \<Rightarrow> history_store \<Rightarrow> codec \<Rightarrow> path \<Rightarrow> path \<Rightarrow> pystr \<Rightarrow> pyval \<Rightarrow> pystr option \<Rightarrow> pyval \<Rightarrow> pyval \<Rightarrow> pyval \<Rightarrow> bool
    \<Rightarrow> (wtxn, file_patch \<times> bool option) prog" where
  "patch_text ev hs cd ws p display edits expected dry_run limit history cancelled =
    (case edits of
       PList es \<Rightarrow>
        (case dry_run of
           PBool dry \<Rightarrow>
            (case limit of
               PInt m \<Rightarrow>
                if m < 1 then raise (ValueError ''max_diff_bytes must be a positive integer'')
                else
                 (case history of
                    PBool hist \<Rightarrow>
                      let history_enabled = (hist \<and> history_resource ws p \<noteq> None) in
                      pseq (if hist then validate_history_target p else ret ())
                       (pbind (patch_file ev cd p display es expected dry (nat m) history_enabled) (\<lambda>res.
                        pbind (if history_enabled \<and> \<not> dry
                               then pbind (record_file_history ev hs ws p (Some (fp_old res)) (Some (fp_new res))
                                        (Some (fp_old_info res)) (Some (fp_new_info res))) (\<lambda>b. ret (Some b))
                               else ret None) (\<lambda>recorded.
                          if cancelled then raise CancelledError else ret (res, recorded))))
                  | _ \<Rightarrow> raise (TypeError ''history must be a boolean''))
             | _ \<Rightarrow> raise (ValueError ''max_diff_bytes must be a positive integer''))
         | _ \<Rightarrow> raise (TypeError ''dry_run must be a boolean''))
     | _ \<Rightarrow> raise (TypeError ''edits must be a list''))"

section \<open>Writing a text\<close>

definition write_text ::
  "env \<Rightarrow> history_store \<Rightarrow> codec \<Rightarrow> path \<Rightarrow> path \<Rightarrow> pyval \<Rightarrow> pystr option \<Rightarrow> pyval \<Rightarrow> pyval \<Rightarrow> pyval \<Rightarrow> bool
    \<Rightarrow> (wtxn, write_result \<times> bool option) prog" where
  "write_text ev hs cd ws p text expected overwrite create_parents history cancelled =
    (case text of
       PStr s \<Rightarrow>
        (case (overwrite, create_parents, history) of
           (PBool o', PBool c, PBool h) \<Rightarrow>
             pbind (lift (cd_encode cd s)) (\<lambda>encoded.
               write_data ev hs ws p encoded expected o' c h cancelled)
         | _ \<Rightarrow> raise (TypeError ''overwrite, create_parents, and history must be booleans''))
     | _ \<Rightarrow> raise (TypeError ''text must be a string''))"

end
