(* ===== verification/File_Writing_Proofs.thy ===== *)
theory File_Writing_Proofs
  imports File_Atomicity File_Lifecycle
begin

text \<open>
  What the operations on single files leave behind, for every schedule of failing system calls: the
  atomic write changes a file completely or not at all, and a copy or move that fails is undone.
\<close>

section \<open>Reading\<close>

lemma keeps_is_dir [keeps_intro]: "stable W \<Longrightarrow> keeps (held W ns) (is_dir p)"
  unfolding is_dir_def by (intro keeps_intro)

lemma keeps_stat_if_exists [keeps_intro]: "stable W \<Longrightarrow> keeps (held W ns) (stat_if_exists p)"
  unfolding stat_if_exists_def by (intro keeps_intro)

lemma keeps_as_history_error [keeps_intro]: "keeps I m \<Longrightarrow> keeps I (as_history_error m)"
  unfolding as_history_error_def by (intro keeps_intro)

lemma keeps_read_optional [keeps_intro]: "stable W \<Longrightarrow> keeps (held W ns) (read_optional_bytes p b)"
  unfolding read_optional_bytes_def by (intro keeps_intro)

lemma keeps_read_history_optional [keeps_intro]:
  "stable W \<Longrightarrow> keeps (held W ns) (read_history_optional_bytes ev p)"
  unfolding read_history_optional_bytes_def by (intro keeps_intro)

lemma keeps_still_old [keeps_intro]: "stable W \<Longrightarrow> keeps (held W ns) (still_old p old info b)"
  unfolding still_old_def by (intro keeps_intro)

lemma keeps_validate_history_target [keeps_intro]: "stable W \<Longrightarrow> keeps (held W ns) (validate_history_target p)"
  unfolding validate_history_target_def by (intro keeps_intro)

lemma keeps_validate_history_path_size [keeps_intro]:
  "stable W \<Longrightarrow> keeps (held W ns) (validate_history_path_size ev p)"
  unfolding validate_history_path_size_def by (intro keeps_intro)

text \<open>A content that was read is the content of the file.\<close>

definition holds :: "bytes option \<Rightarrow> node option \<Rightarrow> bool" where
  "holds d v = (case v of None \<Rightarrow> d = None | Some n \<Rightarrow> d = Some (n_data n) \<and> n_kind n = Regular)"

lemma missing_ok_stat:
  assumes "missing_ok (sys_stat p) s = (Inr i, s')"
  shows "node_at s' p = i"
proof (cases "sys_stat p s")
  case (Pair r s1)
  show ?thesis
  proof (cases r)
    case (Inl e)
    with assms Pair obtain m where "e = FileNotFoundError m" "i = None" "s' = s1"
      by (cases e) (auto simp: missing_ok_def prog_defs)
    with Inl Pair sys_stat_at(2)[of p s m s1] show ?thesis by simp
  next
    case (Inr n)
    with assms Pair sys_stat_at(1)[of p s n s1] show ?thesis by (auto simp: missing_ok_def prog_defs)
  qed
qed

lemma read_optional_at:
  assumes "calm (fs_script s)" and "read_optional_bytes p b s = (Inr d, s')"
  shows "holds d (node_at s' p)"
proof -
  obtain i s1 where i: "missing_ok (sys_stat p) s = (Inr i, s1)"
    using assms(2) by (auto simp: read_optional_bytes_def pbind_def split: prod.splits sum.splits)
  have "node_at s1 = node_at s \<and> calm (fs_script s1)"
    by (rule calm_reading[where m = "missing_ok (sys_stat p)", OF _ assms(1) i]) (intro keeps_intro)
  then have s1: "node_at s1 = node_at s" "calm (fs_script s1)" by simp_all
  show ?thesis
  proof (cases i)
    case None
    with i assms(2) have "d = None" "s' = s1" by (auto simp: read_optional_bytes_def pbind_def ret_def)
    with missing_ok_stat[OF i] None show ?thesis by (simp add: holds_def)
  next
    case (Some info)
    with i assms(2) obtain c o' s2 n where rr: "read_regular p b s1 = (Inr (c, o'), s2)"
      and reg: "require_regular info = Inr ()" and st2: "sys_stat p s2 = (Inr n, s')" and d: "d = Some c"
      by (auto simp: read_optional_bytes_def prog_defs split: prod.splits sum.splits if_splits)
    from read_regular_at[OF s1(2) rr] have s2: "node_at s2 = node_at s1" "calm (fs_script s2)"
      and c: "node_at s1 p = Some o'" "c = n_data o'" by auto
    have "node_at s' = node_at s2" using calm_reading[OF keeps_sys_stat s2(2) st2] by blast
    with missing_ok_stat[OF i] Some c s2 reg d show ?thesis
      by (auto simp: holds_def require_regular_def split: if_splits)
  qed
qed

lemma valid_reading:
  assumes "stable W" and "\<And>W :: 'a assertion. stable W \<Longrightarrow> keeps (held W ns) m"
    and "\<And>s d s'. calm (fs_script s) \<Longrightarrow> m s = (Inr d, s') \<Longrightarrow> P d (node_at s')"
  shows "valid (held W ns) m (\<lambda>d. held (\<lambda>t f. W t f \<and> P d f) ns) (\<lambda>_. held W ns)"
proof (rule validI)
  show "held (\<lambda>t f. W t f \<and> P x f) ns s'" if "held W ns s" "m s = (Inr x, s')" for s x s'
    using keepsD[OF assms(2)[OF assms(1)] that] assms(3)[OF _ that(2)] that(1) by (simp add: held_def)
  show "held W ns s'" if "held W ns s" "m s = (Inl e, s')" for s e s'
    by (rule keepsD[OF assms(2)[OF assms(1)] that])
qed

lemma valid_read_optional:
  "stable W \<Longrightarrow> valid (held W ns) (read_optional_bytes p b)
    (\<lambda>d. held (\<lambda>t f. W t f \<and> holds d (f p)) ns) (\<lambda>_. held W ns)"
  by (rule valid_reading) (auto intro: keeps_intro read_optional_at)

lemma as_history_error_Inr: "as_history_error m s = (Inr x, s') \<longleftrightarrow> m s = (Inr x, s')"
  by (auto simp: as_history_error_def prog_defs split: prod.splits sum.splits)

lemma valid_read_history_optional:
  "stable W \<Longrightarrow> valid (held W ns) (read_history_optional_bytes ev p)
    (\<lambda>d. held (\<lambda>t f. W t f \<and> holds d (f p)) ns) (\<lambda>_. held W ns)"
  by (rule valid_reading)
    (auto intro: keeps_intro read_optional_at simp: read_history_optional_bytes_def as_history_error_Inr)

lemma valid_missing_ok_stat:
  "stable W \<Longrightarrow> valid (held W ns) (missing_ok (sys_stat p))
    (\<lambda>i. held (\<lambda>t f. W t f \<and> f p = i) ns) (\<lambda>_. held W ns)"
  by (rule valid_reading) (auto intro: keeps_intro dest: missing_ok_stat)

section \<open>The atomic write\<close>

lemma valid_disj:
  "valid P m Q E \<Longrightarrow> valid P' m Q E \<Longrightarrow> valid (\<lambda>s. P s \<or> P' s) m Q E"
  by (auto simp: valid_def)

text \<open>A new file with the content and the mode.\<close>

definition has_content :: "nat \<Rightarrow> bytes \<Rightarrow> node option \<Rightarrow> bool" where
  "has_content mode d v \<longleftrightarrow> (\<exists>n. v = Some n \<and> n_kind n = Regular \<and> n_mode n = mode \<and> n_data n = d)"

text \<open>A step that changes only fields of the operation.\<close>

definition ghost :: "(('a) fsys_scheme \<Rightarrow> ('a) fsys_scheme) \<Rightarrow> bool" where
  "ghost c \<longleftrightarrow> (\<forall>t. node_at (c t) = node_at t \<and> fs_script (c t) = fs_script t \<and> fs_names (c t) = fs_names t)"

lemma valid_ghost:
  assumes "ghost c" and "\<And>t f. W t f \<Longrightarrow> W' (c t) f"
  shows "valid (held W ns) (update c) (\<lambda>_. held W' ns) E"
  by (rule valid_update) (use assms in \<open>auto simp: held_def ghost_def\<close>)

lemma valid_atomic_write:
  fixes d :: bytes and info :: "node option" and mode :: "nat option"
  assumes apart: "names_apart S ns" and fr: "framed S W" "framed S W'" and p: "p \<in> S"
    and c: "ghost c"
    and step: "\<And>t f x. W t (f(p := x)) \<Longrightarrow> W' (c t) f"
  defines "G \<equiv> has_content (file_mode mode info) d"
  shows "valid (held W ns) (atomic_write (update c) p d old info b mode)
    (\<lambda>i. held (\<lambda>t f. W' t f \<and> G (f p) \<and> f p = Some i) ns)
    (\<lambda>_ s. held W ns s \<or> held (\<lambda>t f. W' t f \<and> G (f p)) ns s)"
  unfolding atomic_write_def
proof (rule valid_bind)
  let ?WG = "\<lambda>t f. W' t f \<and> G (f p)"
  let ?E = "\<lambda>s. held W ns s \<or> held ?WG ns s"
  have frG: "framed S ?WG" by (rule framed_conj[OF fr(2) p])
  show "valid (held W ns) (sys_mkstemp (butlast p) (temporary_prefix (path_name p) (lit ''.'')))
    (\<lambda>(h, t). held (\<lambda>fs g. W fs g \<and> t \<notin> S \<and> fst h = t \<and> temp_has h (\<lambda>n. n_kind n = Regular) g) ns) (\<lambda>_. ?E)"
    by (rule valid_weaken[OF valid_sys_mkstemp[OF apart fr(1)]])
      (auto simp: held_def temp_has_def split: prod.splits)
  fix x :: "fd \<times> path"
  obtain h temp where x: "x = (h, temp)" by (cases x)
  let ?A = "held (\<lambda>t f. W t f \<and> G (f temp)) ns"
  let ?Q = "\<lambda>i. held (\<lambda>t f. ?WG t f \<and> f p = Some i) ns"
  show "valid (case x of (h, t) \<Rightarrow> held (\<lambda>fs g. W fs g \<and> t \<notin> S \<and> fst h = t \<and> temp_has h (\<lambda>n. n_kind n = Regular) g) ns)
     (case x of (f, temp) \<Rightarrow> ensure
        (pseq (ensure (pseq (sys_fchmod f (file_mode mode info)) (pseq (sys_write f d) (pseq (sys_sync f) (sys_sync f)))) (sys_close f))
          (pseq (case old of
              None \<Rightarrow> pseq (sys_link temp p) (pseq (update c) (sys_unlink temp True))
            | Some o' \<Rightarrow> pbind (still_old p o' info b) (\<lambda>unchanged.
                if \<not> unchanged then raise (RuntimeError ''File changed while updating'')
                else pseq (sys_replace temp p) (update c)))
            (sys_stat p)))
        (sys_unlink temp True))
     (\<lambda>i. held (\<lambda>t f. W' t f \<and> G (f p) \<and> f p = Some i) ns) (\<lambda>_. ?E)"
  proof (cases "temp \<notin> S \<and> fst h = temp")
    case False
    then show ?thesis by (auto simp: x valid_def held_def)
  next
    case True
    then have t: "temp \<notin> S" "fst h = temp" "p \<noteq> temp" using p by auto
    have stA: "stable (\<lambda>t f. W t f \<and> G (f temp))" by (intro keeps_intro framed_stable[OF fr(1)])
    have AE: "?A s \<Longrightarrow> ?E s" for s by (auto simp: held_def)
    have fill: "valid (held (\<lambda>t f. W t f \<and> temp_has h (\<lambda>n. n_kind n = Regular) f) ns)
      (ensure (pseq (sys_fchmod h (file_mode mode info)) (pseq (sys_write h d) (pseq (sys_sync h) (sys_sync h)))) (sys_close h))
      (\<lambda>_. ?A) (\<lambda>_. ?E)"
      by (rule valid_weaken[OF valid_fill[OF fr(1), where ns = ns]])
        (use t in \<open>auto simp: held_def temp_has_def G_def has_content_def\<close>)
    have commit: "valid (held (\<lambda>t f. G (f p) \<and> f p \<noteq> None \<and> (\<exists>x. W t (f(p := x)))) ns) (update c) (\<lambda>_. held ?WG ns) E" for E
      by (rule valid_ghost[OF c]) (auto intro: step)
    have link: "valid ?A (sys_link temp p) (\<lambda>_. held (\<lambda>t f. G (f p) \<and> f p \<noteq> None \<and> (\<exists>x. W t (f(p := x)))) ns) (\<lambda>_. ?E)"
      by (rule valid_weaken[OF valid_sys_link[OF fr(1) t(1,3), where G = G]]) (auto simp: held_def)
    have repl: "valid ?A (sys_replace temp p) (\<lambda>_. held (\<lambda>t f. G (f p) \<and> f p \<noteq> None \<and> (\<exists>x. W t (f(p := x)))) ns) (\<lambda>_. ?E)"
      by (rule valid_weaken[OF valid_sys_replace[OF fr(1) t(1,3), where G = G]]) (auto simp: held_def)
    have un: "valid (held V ns) (sys_unlink temp True) (\<lambda>_. held V ns) (\<lambda>_. held V ns)" if "framed S V" for V
      by (rule keeps_valid[OF keeps_sys_unlink[OF that t(1)]])
    have core: "valid ?A (case old of
              None \<Rightarrow> pseq (sys_link temp p) (pseq (update c) (sys_unlink temp True))
            | Some o' \<Rightarrow> pbind (still_old p o' info b) (\<lambda>unchanged.
                if \<not> unchanged then raise (RuntimeError ''File changed while updating'')
                else pseq (sys_replace temp p) (update c))) (\<lambda>_. held ?WG ns) (\<lambda>_. ?E)"
    proof (cases old)
      case None
      have "valid (held ?WG ns) (sys_unlink temp True) (\<lambda>_. held ?WG ns) (\<lambda>_. ?E)"
        by (rule valid_weaken[OF un[OF frG]]) auto
      then show ?thesis unfolding None option.case by (intro valid_seq[OF link] valid_seq[OF commit])
    next
      case (Some o')
      have "valid ?A (still_old p o' info b) (\<lambda>_. ?A) (\<lambda>_. ?E)"
        by (rule valid_weaken[OF keeps_valid[OF keeps_still_old[OF stA]]]) (auto dest: AE)
      then show ?thesis unfolding Some option.case
        by (rule valid_bind) (auto intro!: valid_if valid_raise valid_seq[OF repl] commit AE)
    qed
    have body: "valid (held (\<lambda>t f. W t f \<and> temp_has h (\<lambda>n. n_kind n = Regular) f) ns)
      (pseq (ensure (pseq (sys_fchmod h (file_mode mode info)) (pseq (sys_write h d) (pseq (sys_sync h) (sys_sync h)))) (sys_close h))
          (pseq (case old of
              None \<Rightarrow> pseq (sys_link temp p) (pseq (update c) (sys_unlink temp True))
            | Some o' \<Rightarrow> pbind (still_old p o' info b) (\<lambda>unchanged.
                if \<not> unchanged then raise (RuntimeError ''File changed while updating'')
                else pseq (sys_replace temp p) (update c)))
            (sys_stat p))) ?Q (\<lambda>_. ?E)"
      by (rule valid_seq[OF fill], rule valid_seq[OF core], rule valid_weaken[OF valid_sys_stat[OF framed_stable[OF frG]]])
        (auto simp: held_def)
    let ?R = "\<lambda>r. case r of Inr i \<Rightarrow> ?Q i | Inl (_ :: exc) \<Rightarrow> ?E"
    have clean: "valid (?R r) (sys_unlink temp True) (\<lambda>_. ?R r) (\<lambda>_. ?E)" for r
    proof (cases r)
      case (Inl e)
      then show ?thesis
        using valid_disj[OF valid_weaken[OF un[OF fr(1)]] valid_weaken[OF un[OF frG]], of _ "\<lambda>_. ?E" "\<lambda>_. ?E"] by auto
    next
      case (Inr i)
      have "framed S (\<lambda>t f. ?WG t f \<and> f p = Some i)" by (rule framed_conj[OF frG p])
      from un[OF this] show ?thesis unfolding Inr sum.case by (rule valid_weaken) (auto simp: held_def)
    qed
    show ?thesis unfolding x prod.case
    proof (rule valid_weaken[OF valid_ensure[where R = ?R, OF _ clean]])
      show "valid (held (\<lambda>t f. W t f \<and> temp_has h (\<lambda>n. n_kind n = Regular) f) ns)
        (pseq (ensure (pseq (sys_fchmod h (file_mode mode info)) (pseq (sys_write h d) (pseq (sys_sync h) (sys_sync h)))) (sys_close h))
          (pseq (case old of
              None \<Rightarrow> pseq (sys_link temp p) (pseq (update c) (sys_unlink temp True))
            | Some o' \<Rightarrow> pbind (still_old p o' info b) (\<lambda>unchanged.
                if \<not> unchanged then raise (RuntimeError ''File changed while updating'')
                else pseq (sys_replace temp p) (update c)))
            (sys_stat p))) (\<lambda>x. ?R (Inr x)) (\<lambda>e. ?R (Inl e))"
        using body by simp
    qed (auto simp: held_def)
  qed
qed

section \<open>Directories\<close>

lemma keeps_mkdir_exist_ok [keeps_intro]: "stable W \<Longrightarrow> keeps (held W ns) (mkdir_exist_ok p e)"
  unfolding mkdir_exist_ok_def by (intro keeps_intro)

lemma keeps_mkdir_parents:
  assumes "framed S W" and "\<And>d r. rev cs = d @ r \<Longrightarrow> d \<notin> S"
  shows "keeps (held W ns) (mkdir_parents cs)"
  using assms(2)
proof (induction cs)
  case Nil
  then have "[] \<notin> S" by simp
  with framed_stable[OF assms(1)] show ?case
    by (auto intro!: keeps_intro keeps_sys_mkdir[OF assms(1)] split: exc.split)
next
  case (Cons c cs)
  have "rev (c # cs) \<notin> S" using Cons.prems[of "rev (c # cs)" "[]"] by simp
  moreover have "keeps (held W ns) (mkdir_parents cs)"
    by (rule Cons.IH) (use Cons.prems in fastforce)
  ultimately show ?case
    using framed_stable[OF assms(1)]
    by (auto intro!: keeps_intro keeps_sys_mkdir[OF assms(1)] split: exc.split)
qed

lemma keeps_remove_empty_dirs:
  assumes "framed S W" and "\<forall>d \<in> set created. fst d \<notin> S"
  shows "keeps (held W ns) (remove_empty_dirs created)"
proof -
  have "\<And>d i. (d, i) \<in> set created \<Longrightarrow> d \<notin> S" using assms(2) by auto
  then show ?thesis
    unfolding remove_empty_dirs_def
    using framed_stable[OF assms(1)]
    by (auto intro!: keeps_intro keeps_sys_rmdir[OF assms(1)])
qed

text \<open>The directories that were created are not among the paths of interest.\<close>

lemma valid_create_dirs:
  assumes "framed S W" and "set ds \<inter> S = {}" and "\<forall>d \<in> set created. fst d \<notin> S"
  shows "valid (held W ns) (create_dirs ds created)
    (\<lambda>ds s. held W ns s \<and> (\<forall>d \<in> set ds. fst d \<notin> S)) (\<lambda>_. held W ns)"
  using assms(2,3)
proof (induction ds arbitrary: created)
  case Nil
  then show ?case by (auto intro: valid_ret)
next
  case (Cons d ds)
  let ?I = "held W ns"
  let ?Q = "\<lambda>ds s. ?I s \<and> (\<forall>d \<in> set ds. fst d \<notin> S)"
  note st = framed_stable[OF assms(1)]
  have d: "d \<notin> S" using Cons.prems by simp
  have undo: "valid ?I (pseq (remove_empty_dirs created) (raise e)) ?Q (\<lambda>_. ?I)" for e
    by (rule valid_seq[OF keeps_valid[OF keeps_remove_empty_dirs[OF assms(1) Cons.prems(2)]]], rule valid_raise)
  have stat: "valid ?I (attempt (sys_stat d)) (\<lambda>_. ?I) (\<lambda>_. ?I)"
    by (rule keeps_valid) (intro keeps_intro st)
  have step: "valid ?I (pbind (attempt (sys_stat d)) (\<lambda>r. case r of
           Inl e \<Rightarrow> pseq (remove_empty_dirs created) (raise e)
         | Inr info \<Rightarrow> create_dirs ds (created @ [(d, n_ino info)]))) ?Q (\<lambda>_. ?I)"
  proof (rule valid_bind[OF stat])
    fix r :: "node result"
    show "valid ?I (case r of Inl e \<Rightarrow> pseq (remove_empty_dirs created) (raise e)
         | Inr info \<Rightarrow> create_dirs ds (created @ [(d, n_ino info)])) ?Q (\<lambda>_. ?I)"
      using undo Cons.IH[of "created @ [(d, n_ino (projr r))]"] Cons.prems by (cases r) auto
  qed
  have exists: "valid ?I (pbind (is_dir d) (\<lambda>b. if b then ret created
      else pseq (remove_empty_dirs created) (raise e))) ?Q (\<lambda>_. ?I)" for e
    by (rule valid_bind[OF keeps_valid[OF keeps_is_dir[OF st]]])
      (intro valid_if undo valid_ret, use Cons.prems(2) in simp)
  have mk: "valid ?I (attempt (sys_mkdir d)) (\<lambda>_. ?I) (\<lambda>_. ?I)"
    by (rule keeps_valid) (intro keeps_intro keeps_sys_mkdir[OF assms(1) d])
  show ?case unfolding create_dirs.simps Let_def
    by (rule valid_bind[OF mk]) (auto intro: undo step exists split: sum.split exc.split)
qed

lemma valid_create_parent_dirs:
  assumes "framed S W" and "\<And>d r. p = d @ r \<Longrightarrow> d \<notin> S"
  shows "valid (held W ns) (create_parent_dirs p)
    (\<lambda>ds s. held W ns s \<and> (\<forall>d \<in> set ds. fst d \<notin> S)) (\<lambda>_. held W ns)"
  unfolding create_parent_dirs_def
proof (rule valid_bind[OF keeps_valid[OF keeps_sys_exists]])
  note st = framed_stable[OF assms(1)]
  show "stable W" by (rule st)
  fix b
  have "valid (held W ns) (missing_dirs (rev p)) (\<lambda>ds s. held W ns s \<and> set ds \<inter> S = {}) (\<lambda>_. held W ns)"
  proof (rule validI)
    show "held W ns s' \<and> set ds \<inter> S = {}" if "held W ns s" "missing_dirs (rev p) s = (Inr ds, s')" for s ds s'
      using keepsD[OF keeps_missing_dirs[OF st] that] missing_dirs_prefix[OF that(2)] assms(2) by fastforce
    show "held W ns s'" if "held W ns s" "missing_dirs (rev p) s = (Inl e, s')" for s e s'
      by (rule keepsD[OF keeps_missing_dirs[OF st] that])
  qed
  moreover have "valid (\<lambda>s. held W ns s \<and> set ds \<inter> S = {}) (create_dirs ds [])
      (\<lambda>ds s. held W ns s \<and> (\<forall>d \<in> set ds. fst d \<notin> S)) (\<lambda>_. held W ns)" for ds
    using valid_create_dirs[OF assms(1), of ds "[]" ns] by (cases "set ds \<inter> S = {}") (auto simp: valid_def)
  ultimately show "valid (held W ns) (if b then ret [] else pbind (missing_dirs (rev p)) (\<lambda>ds. create_dirs ds []))
     (\<lambda>ds s. held W ns s \<and> (\<forall>d \<in> set ds. fst d \<notin> S)) (\<lambda>_. held W ns)"
    by (auto intro!: valid_if valid_ret intro: valid_bind)
qed

lemma parent_open_prefix: "parent_open S p \<Longrightarrow> p \<noteq> [] \<Longrightarrow> butlast p = d @ r \<Longrightarrow> d \<notin> S"
  unfolding parent_open_def by (metis append.assoc append_butlast_last_id append_is_Nil_conv list.distinct(1))

section \<open>Writing\<close>

lemma valid_as_history_error: "valid P m Q (\<lambda>_. E) \<Longrightarrow> valid P (as_history_error m) Q (\<lambda>_. E)"
  unfolding as_history_error_def
  by (rule valid_bind[OF valid_attempt[where Q = "\<lambda>r. case r of Inr x \<Rightarrow> Q x | Inl _ \<Rightarrow> E"]])
    (auto intro: valid_ret valid_raise split: sum.split)

lemma valid_pure: "(P \<Longrightarrow> valid (held W ns) m Q E) \<Longrightarrow> valid (held (\<lambda>t f. W t f \<and> P) ns) m Q E"
  by (auto simp: valid_def held_def)

lemma valid_keep: "keeps I m \<Longrightarrow> (\<And>s. I s \<Longrightarrow> E s) \<Longrightarrow> valid I m (\<lambda>_. I) (\<lambda>_. E)"
  by (rule valid_weaken[OF keeps_valid[of I]]) auto

definition untouched :: "path set \<Rightarrow> (path \<Rightarrow> node option) \<Rightarrow> wtxn \<Rightarrow> (path \<Rightarrow> node option) \<Rightarrow> bool" where
  "untouched S f0 t f \<longleftrightarrow> (\<forall>q \<in> S. f q = f0 q) \<and> \<not> w_committed t"

definition changed_at :: "path set \<Rightarrow> (path \<Rightarrow> node option) \<Rightarrow> path \<Rightarrow> wtxn \<Rightarrow> (path \<Rightarrow> node option) \<Rightarrow> bool" where
  "changed_at S f0 p t f \<longleftrightarrow> (\<forall>q \<in> S. q = p \<or> f q = f0 q) \<and> w_committed t"

lemma framed_untouched: "framed S (untouched S f0)"
  by (auto simp: framed_def stable_def untouched_def)

lemma framed_changed_at: "framed S (changed_at S f0 p)"
  by (auto simp: framed_def stable_def changed_at_def)

lemma ghost_mark: "ghost (\<lambda>t. t\<lparr>w_committed := True\<rparr>)"
  by (simp add: ghost_def node_at_def fun_eq_iff)

text \<open>The compare-and-swap: what must have been true for a write to succeed.\<close>

definition may_replace :: "env \<Rightarrow> pystr option \<Rightarrow> bool \<Rightarrow> node option \<Rightarrow> bool" where
  "may_replace ev expected overwrite v =
    (case expected of
       Some h \<Rightarrow> (case v of None \<Rightarrow> False | Some n \<Rightarrow> sha ev (n_data n) = h)
     | None \<Rightarrow> v = None \<or> overwrite)"

definition reports :: "env \<Rightarrow> bytes \<Rightarrow> node option \<Rightarrow> write_result \<Rightarrow> bool" where
  "reports ev data v res \<longleftrightarrow> wr_created res = (v = None) \<and> wr_revision res = sha ev data \<and> wr_size res = length data
     \<and> wr_mode res = file_mode None v \<and> wr_old res = map_option n_data v \<and> wr_old_info res = v
     \<and> (\<forall>n. v = Some n \<longrightarrow> n_kind n = Regular)"

lemma valid_write_file:
  fixes data :: bytes and f0 :: "path \<Rightarrow> node option"
  assumes apart: "names_apart S ns" and p: "p \<in> S" and parents: "\<And>d r. butlast p = d @ r \<Longrightarrow> d \<notin> S"
  defines "new \<equiv> \<lambda>t f. changed_at S f0 p t f \<and> has_content (file_mode None (f0 p)) data (f p)"
  shows "valid (held (untouched S f0) ns) (write_file ev p data expected overwrite create history)
    (\<lambda>res. held (\<lambda>t f. new t f \<and> reports ev data (f0 p) res \<and> f p = Some (wr_info res)
       \<and> may_replace ev expected overwrite (f0 p)) ns)
    (\<lambda>_ s. held (untouched S f0) ns s \<or> held new ns s)"
  unfolding write_file_def Let_def
proof (rule valid_bind)
  let ?W = "untouched S f0" and ?I = "held (untouched S f0) ns"
  let ?E = "\<lambda>s. ?I s \<or> held new ns s"
  let ?Q = "\<lambda>res. held (\<lambda>t f. new t f \<and> reports ev data (f0 p) res \<and> f p = Some (wr_info res)
       \<and> may_replace ev expected overwrite (f0 p)) ns"
  let ?reg = "\<forall>n. f0 p = Some n \<longrightarrow> n_kind n = Regular"
  let ?b = "if history then Some (blob_limit ev) else None"
  note fr = framed_untouched[of S f0]
  note st = framed_stable[OF fr]
  have IE: "?I s \<Longrightarrow> ?E s" for s by blast
  show "valid ?I (missing_ok (sys_stat p)) (\<lambda>i. held (\<lambda>t f. ?W t f \<and> i = f0 p) ns) (\<lambda>_. ?E)"
    by (rule valid_weaken[OF valid_missing_ok_stat[OF st, where ns = ns]]) (use p in \<open>auto simp: held_def untouched_def\<close>)
  fix i
  show "valid (held (\<lambda>t f. ?W t f \<and> i = f0 p) ns)
     (pbind (case i of None \<Rightarrow> ret (None, None)
       | Some info \<Rightarrow>
           pseq (lift (require_regular info))
            (pseq (if history then lift (validate_history_stat_size ev info) else ret ())
              (pbind (as_history_error (read_regular p ?b)) (\<lambda>(d, n). ret (Some d, Some n)))))
      (\<lambda>(old, old_info). pseq (lift (check_expected ev old expected))
      (pseq (if old \<noteq> None \<and> \<not> (overwrite \<or> expected \<noteq> None) then raise (FileExistsError ''File already exists'') else ret ())
        (pseq (if history then lift (validate_history_size ev old (Some data)) else ret ())
          (pseq (if create then mkdir_parents (rev (butlast p))
                 else pbind (sys_exists (butlast p)) (\<lambda>b. if b then ret () else raise (FileNotFoundError '''')))
            (pbind (atomic_write mark_committed p data old old_info ?b None) (\<lambda>info.
              ret \<lparr>wr_created = (old = None), wr_revision = sha ev data, wr_size = length data, wr_mode = n_mode info,
                   wr_old = old, wr_old_info = old_info, wr_info = info\<rparr>)))))))
     ?Q (\<lambda>_. ?E)"
  proof (rule valid_pure, rule valid_bind)
    assume i: "i = f0 p"
    show "valid ?I (case i of None \<Rightarrow> ret (None, None)
       | Some info \<Rightarrow>
           pseq (lift (require_regular info))
            (pseq (if history then lift (validate_history_stat_size ev info) else ret ())
              (pbind (as_history_error (read_regular p ?b)) (\<lambda>(d, n). ret (Some d, Some n)))))
       (\<lambda>(old, old_info). held (\<lambda>t f. ?W t f \<and> old = map_option n_data (f0 p) \<and> old_info = f0 p \<and> ?reg) ns) (\<lambda>_. ?E)"
    proof (cases i)
      case None
      then show ?thesis by (auto intro!: valid_ret simp: held_def i[symmetric])
    next
      case (Some info)
      show ?thesis
      proof (cases "n_kind info = Regular")
        case False
        then show ?thesis unfolding Some option.case
          by (intro valid_seq[where R = "\<lambda>_. False"] valid_lift) (auto simp: require_regular_def validI intro: IE split: if_splits)
      next
      case True
      have "valid ?I (as_history_error (read_regular p ?b))
        (\<lambda>(d, n). held (\<lambda>t f. ?W t f \<and> Some d = map_option n_data (f0 p) \<and> Some n = f0 p) ns) (\<lambda>_. ?E)"
        by (rule valid_as_history_error, rule valid_weaken[OF valid_read_regular[OF st, where ns = ns]])
          (use p in \<open>auto simp: held_def untouched_def split: prod.splits\<close>)
      then show ?thesis unfolding Some option.case
        by (intro valid_seq[where R = ?I] valid_if valid_lift valid_ret)
          (use True Some i in \<open>auto intro!: valid_bind valid_ret IE simp: held_def split: prod.splits\<close>)
      qed
    qed
    fix x :: "bytes option \<times> node option"
    obtain old old_info where x: "x = (old, old_info)" by (cases x)
    show "valid (case x of (old, old_info) \<Rightarrow> held (\<lambda>t f. ?W t f \<and> old = map_option n_data (f0 p) \<and> old_info = f0 p \<and> ?reg) ns)
     (case x of (old, old_info) \<Rightarrow> pseq (lift (check_expected ev old expected))
      (pseq (if old \<noteq> None \<and> \<not> (overwrite \<or> expected \<noteq> None) then raise (FileExistsError ''File already exists'') else ret ())
        (pseq (if history then lift (validate_history_size ev old (Some data)) else ret ())
          (pseq (if create then mkdir_parents (rev (butlast p))
                 else pbind (sys_exists (butlast p)) (\<lambda>b. if b then ret () else raise (FileNotFoundError '''')))
            (pbind (atomic_write mark_committed p data old old_info ?b None) (\<lambda>info.
              ret \<lparr>wr_created = (old = None), wr_revision = sha ev data, wr_size = length data, wr_mode = n_mode info,
                   wr_old = old, wr_old_info = old_info, wr_info = info\<rparr>))))))
     ?Q (\<lambda>_. ?E)"
      unfolding x prod.case
    proof (rule valid_pure, elim conjE)
      assume old: "old = map_option n_data (f0 p)" "old_info = f0 p" and reg: ?reg
      let ?may = "may_replace ev expected overwrite (f0 p)"
      have check: "valid ?I (lift (check_expected ev old expected))
        (\<lambda>_. held (\<lambda>t f. ?W t f \<and> check_expected ev old expected = Inr ()) ns) (\<lambda>_. ?E)"
        by (rule valid_lift) (auto simp: held_def)
      have guard: "valid (held (\<lambda>t f. ?W t f \<and> check_expected ev old expected = Inr ()) ns)
        (if old \<noteq> None \<and> \<not> (overwrite \<or> expected \<noteq> None) then raise (FileExistsError ''File already exists'') else ret ())
        (\<lambda>_. held (\<lambda>t f. ?W t f \<and> ?may) ns) (\<lambda>_. ?E)"
        by (intro valid_if valid_raise valid_ret)
          (auto simp: held_def may_replace_def check_expected_def old split: option.splits if_splits)
      have size: "valid (held (\<lambda>t f. ?W t f \<and> ?may) ns)
        (if history then lift (validate_history_size ev old (Some data)) else ret ()) (\<lambda>_. held (\<lambda>t f. ?W t f \<and> ?may) ns) (\<lambda>_. ?E)"
        by (intro valid_if valid_lift valid_ret) (auto simp: held_def)
      have dirs: "valid (held (\<lambda>t f. ?W t f \<and> ?may) ns)
        (if create then mkdir_parents (rev (butlast p))
         else pbind (sys_exists (butlast p)) (\<lambda>b. if b then ret () else raise (FileNotFoundError '''')))
        (\<lambda>_. held (\<lambda>t f. ?W t f \<and> ?may) ns) (\<lambda>_. ?E)"
      proof (rule valid_keep)
        have "framed S (\<lambda>t f. ?W t f \<and> ?may)" by (rule framed_extra[OF fr])
        then show "keeps (held (\<lambda>t f. ?W t f \<and> ?may) ns)
          (if create then mkdir_parents (rev (butlast p))
           else pbind (sys_exists (butlast p)) (\<lambda>b. if b then ret () else raise (FileNotFoundError '''')))"
          using parents st by (auto intro!: keeps_intro keeps_mkdir_parents)
      qed (auto simp: held_def)
      have put: "valid ?I (atomic_write mark_committed p data old old_info ?b None)
        (\<lambda>i. held (\<lambda>t f. changed_at S f0 p t f \<and> has_content (file_mode None (f0 p)) data (f p) \<and> f p = Some i) ns) (\<lambda>_. ?E)"
        unfolding mark_committed_def
        by (rule valid_weaken[OF valid_atomic_write[OF apart fr framed_changed_at p ghost_mark]])
          (use p in \<open>auto simp: untouched_def changed_at_def old new_def held_def split: if_splits\<close>)
      have result: "valid (held (\<lambda>t f. changed_at S f0 p t f \<and> has_content (file_mode None (f0 p)) data (f p) \<and> f p = Some info) ns)
        (ret \<lparr>wr_created = (old = None), wr_revision = sha ev data, wr_size = length data, wr_mode = n_mode info,
                   wr_old = old, wr_old_info = old_info, wr_info = info\<rparr>) ?Q (\<lambda>_. ?E)" if ?may for info
        by (rule valid_ret) (use that reg in \<open>auto simp: held_def new_def reports_def old has_content_def\<close>)
      show "valid ?I (pseq (lift (check_expected ev old expected))
      (pseq (if old \<noteq> None \<and> \<not> (overwrite \<or> expected \<noteq> None) then raise (FileExistsError ''File already exists'') else ret ())
        (pseq (if history then lift (validate_history_size ev old (Some data)) else ret ())
          (pseq (if create then mkdir_parents (rev (butlast p))
                 else pbind (sys_exists (butlast p)) (\<lambda>b. if b then ret () else raise (FileNotFoundError '''')))
            (pbind (atomic_write mark_committed p data old old_info ?b None) (\<lambda>info.
              ret \<lparr>wr_created = (old = None), wr_revision = sha ev data, wr_size = length data, wr_mode = n_mode info,
                   wr_old = old, wr_old_info = old_info, wr_info = info\<rparr>)))))) ?Q (\<lambda>_. ?E)"
        by (rule valid_seq[OF check], rule valid_seq[OF guard], rule valid_seq[OF size], rule valid_seq[OF dirs],
            rule valid_pure, rule valid_bind[OF put], rule result)
    qed
  qed
qed

end
