(* ===== verification/File_Lifecycle_Proofs.thy ===== *)
theory File_Lifecycle_Proofs
  imports File_Writing_Proofs
begin

text \<open>
  A copy or move that fails leaves every path as it was, unless its rollback fails as well.
\<close>

section \<open>Restoring\<close>

text \<open>The paths outside \<open>D\<close> are as they were; the fields of the operation do not change meanwhile.\<close>

type_synonym fields = "bool \<times> node option \<times> bool"

definition fields_of :: "wtxn \<Rightarrow> fields" where
  "fields_of t = (w_committed t, w_destination t, w_unlinked t)"

definition undone :: "path set \<Rightarrow> path set \<Rightarrow> (path \<Rightarrow> node option) \<Rightarrow> fields \<Rightarrow> wtxn \<Rightarrow> (path \<Rightarrow> node option) \<Rightarrow> bool" where
  "undone S D f0 g t f \<longleftrightarrow> fields_of t = g \<and> (\<forall>q \<in> S. q \<in> D \<or> same (f q) (f0 q))"

lemma framed_undone: "framed S (undone S D f0 g)"
  by (auto simp: framed_def stable_def undone_def fields_of_def)

lemma stable_undone [keeps_intro]: "stable (undone S D f0 g)"
  by (rule framed_stable[OF framed_undone])

lemma undone_mono: "D \<subseteq> D' \<Longrightarrow> held (undone S D f0 g) ns t \<Longrightarrow> held (undone S D' f0 g) ns t"
  by (auto simp: held_def undone_def)

definition optional_bytes :: "path \<Rightarrow> nat option \<Rightarrow> (wtxn, bytes option) prog" where
  "optional_bytes p b = (if b \<noteq> None then as_history_error (read_optional_bytes p b) else read_optional_bytes p b)"

lemma keeps_optional [keeps_intro]: "stable W \<Longrightarrow> keeps (held W ns) (optional_bytes p b)"
  unfolding optional_bytes_def by (intro keeps_intro)

lemma valid_optional:
  "stable W \<Longrightarrow> valid (held W ns) (optional_bytes p b) (\<lambda>d. held (\<lambda>t f. W t f \<and> holds d (f p)) ns) (\<lambda>_. held W ns)"
  by (rule valid_reading)
    (auto intro: keeps_intro read_optional_at simp: optional_bytes_def as_history_error_Inr split: if_splits)

lemma ret_ghost: "ret () = update (\<lambda>t. t)"
  by (simp add: ret_def update_def fun_eq_iff)

lemma ghost_id: "ghost (\<lambda>t. t)"
  by (simp add: ghost_def)

text \<open>What the transition remembers of the path is what it held.\<close>

definition recalls :: "(path \<Rightarrow> node option) \<Rightarrow> path \<Rightarrow> bytes option \<Rightarrow> node option \<Rightarrow> bool" where
  "recalls f0 p old info =
    (case old of None \<Rightarrow> f0 p = None
     | Some d \<Rightarrow> (\<exists>n. f0 p = Some n \<and> info = Some n \<and> n_data n = d \<and> n_kind n = Regular))"

lemma valid_write_back:
  assumes apart: "names_apart S ns" and p: "p \<in> S"
    and n: "f0 p = Some n" "info = Some n" "n_data n = d" "n_kind n = Regular"
  shows "valid (held (undone S (insert p D) f0 g) ns)
    (pseq (atomic_write (ret ()) p d old old_info b (map_option n_mode info)) (ret ()))
    (\<lambda>_. held (undone S D f0 g) ns) (\<lambda>_. held (undone S (insert p D) f0 g) ns)"
proof (rule valid_seq)
  let ?W = "undone S (insert p D) f0 g"
  show "valid (held ?W ns) (atomic_write (ret ()) p d old old_info b (map_option n_mode info))
    (\<lambda>_. held (undone S D f0 g) ns) (\<lambda>_. held ?W ns)"
    unfolding ret_ghost
    by (rule valid_weaken[OF valid_atomic_write[OF apart framed_undone[of S "insert p D" f0 g] framed_undone[of S "insert p D" f0 g] p ghost_id]])
      (use n in \<open>auto simp: held_def undone_def has_content_def file_mode_def same_def split: if_splits\<close>)
  show "valid (held (undone S D f0 g) ns) (ret ()) (\<lambda>_. held (undone S D f0 g) ns) (\<lambda>_. held ?W ns)"
    by (rule valid_ret)
qed

lemma valid_restore_transition:
  assumes apart: "names_apart S ns" and p: "p \<in> S" and old: "recalls f0 p old info"
  shows "valid (held (undone S (insert p D) f0 g) ns) (restore_transition p old new b info new_info)
    (\<lambda>_. held (undone S D f0 g) ns) (\<lambda>_. held (undone S (insert p D) f0 g) ns)"
  unfolding restore_transition_def optional_bytes_def[symmetric]
proof (rule valid_bind[OF valid_optional[OF stable_undone]])
  let ?W = "undone S (insert p D) f0 g" and ?V = "undone S D f0 g"
  fix current
  have restored_old: "valid (held ?W ns) (pseq (atomic_write (ret ()) p d o' i b (map_option n_mode info)) (ret ()))
      (\<lambda>_. held ?V ns) (\<lambda>_. held ?W ns)" if "old = Some d" for d o' i
    using old that by (auto simp: recalls_def intro: valid_write_back[OF apart p])
  have weak: "valid (held (\<lambda>t f. ?W t f \<and> holds current (f p)) ns) m Q E" if "valid (held ?W ns) m Q E" for m :: "(wtxn, unit) prog" and Q E
    by (rule valid_weaken[OF that]) (auto simp: held_def)
  show "valid (held (\<lambda>t f. ?W t f \<and> holds current (f p)) ns)
     (case new of
      None \<Rightarrow>
        if current \<noteq> None then raise rollback_error
        else (case old of
            None \<Rightarrow> ret ()
          | Some d \<Rightarrow> pseq (atomic_write (ret ()) p d None None b (map_option n_mode info)) (ret ()))
    | Some _ \<Rightarrow>
        if current \<noteq> new then raise rollback_error
        else
          pbind (case new_info of
              None \<Rightarrow> ret None
            | Some n \<Rightarrow> pbind (sys_stat p) (\<lambda>c.
                if signature c \<noteq> signature n then raise rollback_error else ret (Some c))) (\<lambda>current_info.
          case old of
            None \<Rightarrow> sys_unlink p True
          | Some d \<Rightarrow>
              pbind (case current_info of Some c \<Rightarrow> ret c | None \<Rightarrow> sys_stat p) (\<lambda>c.
                pseq (atomic_write (ret ()) p d new (Some c) b (map_option n_mode info)) (ret ()))))
     (\<lambda>_. held ?V ns) (\<lambda>_. held ?W ns)"
  proof (cases new)
    case None
    show ?thesis
    proof (cases old)
      case n: None
      with old have "f0 p = None" by (simp add: recalls_def)
      then show ?thesis unfolding None n option.case
        by (intro valid_if valid_raise valid_ret)
          (auto simp: held_def undone_def holds_def same_def split: option.splits)
    next
      case (Some d)
      show ?thesis unfolding None Some option.case
        by (intro valid_if weak[OF restored_old[OF Some]] valid_raise) (auto simp: held_def)
    qed
  next
    case (Some e)
    have info: "valid (held ?W ns) (case new_info of
              None \<Rightarrow> ret None
            | Some n \<Rightarrow> pbind (sys_stat p) (\<lambda>c. if signature c \<noteq> signature n then raise rollback_error else ret (Some c)))
        (\<lambda>_. held ?W ns) (\<lambda>_. held ?W ns)"
      by (rule keeps_valid) (intro keeps_intro)
    have undo: "valid (held ?W ns) (case old of
            None \<Rightarrow> sys_unlink p True
          | Some d \<Rightarrow>
              pbind (case current_info of Some c \<Rightarrow> ret c | None \<Rightarrow> sys_stat p) (\<lambda>c.
                pseq (atomic_write (ret ()) p d new (Some c) b (map_option n_mode info)) (ret ())))
        (\<lambda>_. held ?V ns) (\<lambda>_. held ?W ns)" for current_info
    proof (cases old)
      case n: None
      with old have f0: "f0 p = None" by (simp add: recalls_def)
      show ?thesis unfolding n option.case
        by (rule valid_weaken[OF valid_sys_unlink[OF stable_undone[of S "insert p D" f0 g], where ns = ns]])
          (use f0 in \<open>auto simp: held_def undone_def same_def split: if_splits\<close>)
    next
      case d: (Some d)
      have "valid (held ?W ns) (case current_info of Some c \<Rightarrow> ret c | None \<Rightarrow> sys_stat p) (\<lambda>_. held ?W ns) (\<lambda>_. held ?W ns)"
        by (rule keeps_valid) (intro keeps_intro)
      then show ?thesis unfolding d option.case by (rule valid_bind) (rule restored_old[OF d])
    qed
    show ?thesis unfolding Some option.case unfolding Some[symmetric]
      by (rule valid_if, rule valid_raise, simp add: held_def, rule weak, rule valid_bind[OF info], rule undo)
  qed
qed

section \<open>Copying\<close>

definition pristine :: "path set \<Rightarrow> (path \<Rightarrow> node option) \<Rightarrow> wtxn \<Rightarrow> (path \<Rightarrow> node option) \<Rightarrow> bool" where
  "pristine S f0 t f \<longleftrightarrow> fields_of t = (False, None, False) \<and> (\<forall>q \<in> S. f q = f0 q)"

definition copied :: "path set \<Rightarrow> (path \<Rightarrow> node option) \<Rightarrow> path \<Rightarrow> path \<Rightarrow> bool \<Rightarrow> wtxn \<Rightarrow> (path \<Rightarrow> node option) \<Rightarrow> bool" where
  "copied S f0 source dest u t f \<longleftrightarrow> w_committed t \<and> w_unlinked t = u
    \<and> (\<forall>q \<in> S. q = dest \<or> (u \<and> q = source) \<or> f q = f0 q)"

lemma framed_pristine: "framed S (pristine S f0)"
  by (auto simp: framed_def stable_def pristine_def fields_of_def)

lemma framed_copied: "framed S (copied S f0 source dest u)"
proof -
  have "(\<forall>q \<in> S. q = dest \<or> (u \<and> q = source) \<or> (f(p := x)) q = f0 q)
      = (\<forall>q \<in> S. q = dest \<or> (u \<and> q = source) \<or> f q = f0 q)" if "p \<notin> S" for f :: "path \<Rightarrow> node option" and p x
    using that by (intro ball_cong refl) (metis fun_upd_other)
  then show ?thesis by (simp add: framed_def stable_def copied_def del: fun_upd_apply)
qed

lemma stable_pristine [keeps_intro]: "stable (pristine S f0)"
  by (rule framed_stable[OF framed_pristine])

lemma stable_copied [keeps_intro]: "stable (copied S f0 source dest u)"
  by (rule framed_stable[OF framed_copied])

lemma stat_if_exists_at:
  assumes "stat_if_exists p s = (Inr d, s')"
  shows "d = None \<or> node_at s' p = d"
proof -
  from assms consider "d = None" | s1 n where "sys_stat p s1 = (Inr n, s')" "d = Some n"
    by (auto simp: stat_if_exists_def pbind_def ret_def split: prod.splits sum.splits if_splits)
  then show ?thesis by cases (simp_all add: sys_stat_at(1))
qed

lemma valid_stat_if_exists:
  "stable W \<Longrightarrow> valid (held W ns) (stat_if_exists p)
    (\<lambda>d. held (\<lambda>t f. W t f \<and> (d = None \<or> f p = d)) ns) (\<lambda>_. held W ns)"
  by (rule valid_reading, assumption, rule keeps_stat_if_exists, assumption, erule stat_if_exists_at)

lemma valid_sys_chmod:
  assumes st: "stable W" and W: "\<And>t f x. W t (f(p := x)) = W t f"
  shows "valid (held (\<lambda>t f. W t f \<and> has_content m d (f p)) ns) (sys_chmod p m')
    (\<lambda>_. held (\<lambda>t f. W t f \<and> has_content m' d (f p)) ns) (\<lambda>_. held (\<lambda>t f. W t f \<and> has_content m d (f p)) ns)"
  unfolding sys_chmod_def
proof (rule valid_syscall)
  show "stable (\<lambda>t f. W t f \<and> has_content m d (f p))" by (intro keeps_intro st)
  show "valid (held (\<lambda>t f. W t f \<and> has_content m d (f p)) ns)
    (\<lambda>fs. case node_at fs p of None \<Rightarrow> (Inl (FileNotFoundError ''''), fs)
       | Some n \<Rightarrow> (Inr (), tick (set_node p (Some (n\<lparr>n_mode := m', n_time := fs_clock fs\<rparr>)) fs)))
    (\<lambda>_. held (\<lambda>t f. W t f \<and> has_content m' d (f p)) ns) (\<lambda>_. held (\<lambda>t f. W t f \<and> has_content m d (f p)) ns)"
    by (rule validI)
      (auto simp: held_def node_at_set_node_fun stable_simps[OF st] W has_content_def tick_def split: option.splits)
qed simp

lemma ghost_fields: "ghost (\<lambda>t. t\<lparr>w_destination := x\<rparr>)" "ghost (\<lambda>t. t\<lparr>w_unlinked := True\<rparr>)"
  by (simp_all add: ghost_def node_at_def fun_eq_iff)

lemma valid_copy_bytes:
  assumes apart: "names_apart S ns" and S: "source \<in> S" "dest \<in> S" "source \<noteq> dest"
    and parents: "\<And>d r. butlast dest = d @ r \<Longrightarrow> d \<notin> S"
    and f0: "f0 dest = None" "f0 source = Some n"
  shows "valid (held (pristine S f0) ns) (copy_bytes ev source dest data None sig move b)
    (\<lambda>_. held (\<lambda>t f. copied S f0 source dest move t f \<and> has_content (n_mode n) data (f dest) \<and> (move \<longrightarrow> f source = None)) ns)
    (\<lambda>_ s. held (pristine S f0) ns s \<or> held (copied S f0 source dest False) ns s)"
  unfolding copy_bytes_def Let_def optional_bytes_def[symmetric]
proof (rule valid_bind)
  let ?W = "pristine S f0" and ?C = "copied S f0 source dest False"
  let ?E = "\<lambda>s. held ?W ns s \<or> held ?C ns s"
  let ?D = "\<lambda>t f. ?C t f \<and> has_content (n_mode n) data (f dest)"
  let ?Q = "\<lambda>_. held (\<lambda>t f. copied S f0 source dest move t f \<and> has_content (n_mode n) data (f dest) \<and> (move \<longrightarrow> f source = None)) ns"
  have frD: "framed S ?D" by (rule framed_conj[OF framed_copied S(2)])
  note stD = framed_stable[OF frD]
  have DE: "held ?D ns s \<Longrightarrow> ?E s" for s by (auto simp: held_def)
  show "valid (held ?W ns) (sys_stat source) (\<lambda>i. held (\<lambda>t f. ?W t f \<and> i = n) ns) (\<lambda>_. ?E)"
    by (rule valid_weaken[OF valid_sys_stat[OF stable_pristine[of S f0], where ns = ns]])
      (use S f0 in \<open>auto simp: held_def pristine_def\<close>)
  fix source_info
  have stat: "valid (held ?W ns) (stat_if_exists dest) (\<lambda>d. held (\<lambda>t f. ?W t f \<and> d = None) ns) (\<lambda>_. ?E)"
    by (rule valid_weaken[OF valid_stat_if_exists[OF stable_pristine[of S f0], where ns = ns]])
      (use S f0 in \<open>auto simp: held_def pristine_def\<close>)
  have dirs: "valid (held ?W ns) (mkdir_parents (rev (butlast dest))) (\<lambda>_. held ?W ns) (\<lambda>_. ?E)"
    by (rule valid_keep, rule keeps_mkdir_parents[OF framed_pristine]) (use parents in auto)
  have put: "valid (held ?W ns) (atomic_write mark_committed dest data None None b None)
    (\<lambda>_. held (\<lambda>t f. ?C t f \<and> has_content 384 data (f dest)) ns) (\<lambda>_. ?E)"
    unfolding mark_committed_def
    by (rule valid_weaken[OF valid_atomic_write[OF apart framed_pristine framed_copied S(2) ghost_mark]])
      (use S in \<open>auto simp: pristine_def copied_def fields_of_def file_mode_def held_def split: if_splits\<close>)
  have mode: "valid (held (\<lambda>t f. ?C t f \<and> has_content 384 data (f dest)) ns) (sys_chmod dest (n_mode n)) (\<lambda>_. held ?D ns) (\<lambda>_. ?E)"
    by (rule valid_weaken[OF valid_sys_chmod[where W = ?C and ns = ns]])
      (auto simp: held_def copied_def intro: stable_copied)
  have note_stat: "valid (held ?D ns) (update (\<lambda>t. t\<lparr>w_destination := Some i\<rparr>)) (\<lambda>_. held ?D ns) E" for i E
    by (rule valid_ghost[OF ghost_fields(1)]) (simp add: copied_def)
  have keep: "valid (held ?D ns) m (\<lambda>_. held ?D ns) (\<lambda>_. ?E)" if "keeps (held ?D ns) m" for m :: "(wtxn, 'x) prog"
    by (rule valid_keep[OF that]) (rule DE)
  have gone: "valid (held ?D ns) (pseq (sys_unlink source False) (update (\<lambda>t. t\<lparr>w_unlinked := True\<rparr>)))
    (\<lambda>_. held (\<lambda>t f. copied S f0 source dest True t f \<and> has_content (n_mode n) data (f dest) \<and> f source = None) ns) (\<lambda>_. ?E)"
  proof (rule valid_seq)
    show "valid (held ?D ns) (sys_unlink source False)
      (\<lambda>_. held (\<lambda>t f. f source = None \<and> (\<exists>x. ?D t (f(source := x)))) ns) (\<lambda>_. ?E)"
      by (rule valid_weaken[OF valid_sys_unlink[OF stD, where ns = ns]]) (auto dest: DE)
    show "valid (held (\<lambda>t f. f source = None \<and> (\<exists>x. ?D t (f(source := x)))) ns) (update (\<lambda>t. t\<lparr>w_unlinked := True\<rparr>))
      (\<lambda>_. held (\<lambda>t f. copied S f0 source dest True t f \<and> has_content (n_mode n) data (f dest) \<and> f source = None) ns) (\<lambda>_. ?E)"
      by (rule valid_ghost[OF ghost_fields(2)]) (use S in \<open>auto simp: copied_def split: if_splits\<close>)
  qed
  have move: "valid (held ?D ns) (pbind (optional_bytes dest b) (\<lambda>current.
             if current \<noteq> Some data then raise (RuntimeError ''Destination changed while moving'')
             else
               pbind (optional_bytes source b) (\<lambda>current.
               pbind (missing_ok (sys_stat source)) (\<lambda>info. case info of
                 None \<Rightarrow> raise (RuntimeError ''Source changed while moving'')
               | Some n \<Rightarrow>
                   if current \<noteq> Some data \<or> signature n \<noteq> sig
                   then raise (RuntimeError ''Source changed while moving'')
                   else pseq (sys_unlink source False) (update (\<lambda>t. t\<lparr>w_unlinked := True\<rparr>))))))
    (\<lambda>_. held (\<lambda>t f. copied S f0 source dest True t f \<and> has_content (n_mode n) data (f dest) \<and> f source = None) ns) (\<lambda>_. ?E)"
  proof (rule valid_bind[OF keep[OF keeps_optional[OF stD]]], rule valid_if, rule valid_raise, erule DE,
      rule valid_bind[OF keep[OF keeps_optional[OF stD]]], rule valid_bind[OF keep[OF keeps_missing_ok[OF keeps_sys_stat[OF stD]]]])
    fix current and info :: "node option"
    show "valid (held ?D ns) (case info of
                 None \<Rightarrow> raise (RuntimeError ''Source changed while moving'')
               | Some n \<Rightarrow>
                   if current \<noteq> Some data \<or> signature n \<noteq> sig
                   then raise (RuntimeError ''Source changed while moving'')
                   else pseq (sys_unlink source False) (update (\<lambda>t. t\<lparr>w_unlinked := True\<rparr>)))
      (\<lambda>_. held (\<lambda>t f. copied S f0 source dest True t f \<and> has_content (n_mode n) data (f dest) \<and> f source = None) ns) (\<lambda>_. ?E)"
      by (cases info) (auto intro!: valid_if valid_raise gone DE)
  qed
  show "valid (held (\<lambda>t f. ?W t f \<and> source_info = n) ns)
     (pbind (stat_if_exists dest) (\<lambda>dest_info.
     pseq (mkdir_parents (rev (butlast dest)))
      (pseq (atomic_write mark_committed dest data None dest_info b None)
       (pseq (if dest_info = None then sys_chmod dest (n_mode source_info) else ret ())
        (pbind (sys_stat dest) (\<lambda>i.
         pseq (update (\<lambda>t. t\<lparr>w_destination := Some i\<rparr>))
          (if \<not> move then ret ()
           else
             pbind (optional_bytes dest b) (\<lambda>current.
             if current \<noteq> Some data then raise (RuntimeError ''Destination changed while moving'')
             else
               pbind (optional_bytes source b) (\<lambda>current.
               pbind (missing_ok (sys_stat source)) (\<lambda>info. case info of
                 None \<Rightarrow> raise (RuntimeError ''Source changed while moving'')
               | Some n \<Rightarrow>
                   if current \<noteq> Some data \<or> signature n \<noteq> sig
                   then raise (RuntimeError ''Source changed while moving'')
                   else pseq (sys_unlink source False) (update (\<lambda>t. t\<lparr>w_unlinked := True\<rparr>))))))))))))
     ?Q (\<lambda>_. ?E)"
  proof (rule valid_pure, rule valid_bind[OF stat], rule valid_pure, simp only: simp_thms if_True,
      rule valid_seq[OF dirs], rule valid_seq[OF put], rule valid_seq[OF mode],
      rule valid_bind[OF keep[OF keeps_sys_stat[OF stD]]], rule valid_seq[OF note_stat])
    show "valid (held ?D ns) (if \<not> move then ret () else pbind (optional_bytes dest b) (\<lambda>current.
             if current \<noteq> Some data then raise (RuntimeError ''Destination changed while moving'')
             else
               pbind (optional_bytes source b) (\<lambda>current.
               pbind (missing_ok (sys_stat source)) (\<lambda>info. case info of
                 None \<Rightarrow> raise (RuntimeError ''Source changed while moving'')
               | Some n \<Rightarrow>
                   if current \<noteq> Some data \<or> signature n \<noteq> sig
                   then raise (RuntimeError ''Source changed while moving'')
                   else pseq (sys_unlink source False) (update (\<lambda>t. t\<lparr>w_unlinked := True\<rparr>))))))
       ?Q (\<lambda>_. ?E)"
      using move by (cases move) (auto intro!: valid_ret simp: held_def)
  qed
qed

section \<open>Undoing a copy or move\<close>

definition to_undo :: "path \<Rightarrow> bool \<Rightarrow> fields \<Rightarrow> transition \<Rightarrow> path set" where
  "to_undo source move g tr = (if fst tr = source \<and> move \<and> \<not> snd (snd g) then {} else {fst tr})"

lemma valid_gets_field:
  assumes "\<And>t f. W t f \<Longrightarrow> h t = x"
  shows "valid (held W ns) (gets h) (\<lambda>y. held (\<lambda>t f. W t f \<and> y = x) ns) E"
  by (rule valid_gets) (use assms in \<open>auto simp: held_def\<close>)

lemma valid_rollback_transition:
  assumes apart: "names_apart S ns" and p: "fst tr \<in> S"
    and old: "recalls f0 (fst tr) (fst (snd tr)) (snd (snd (snd tr)))"
  shows "valid (held (undone S (to_undo source move g tr \<union> D) f0 g) ns) (rollback_transition source dest move b tr)
    (\<lambda>_. held (undone S D f0 g) ns) (\<lambda>_. held (undone S (to_undo source move g tr \<union> D) f0 g) ns)"
proof -
  obtain target before after info where tr: "tr = (target, before, after, info)" by (cases tr)
  let ?W = "undone S (to_undo source move g tr \<union> D) f0 g"
  have flag: "valid (held ?W ns) (gets w_unlinked) (\<lambda>y. held (\<lambda>t f. ?W t f \<and> y = snd (snd g)) ns) (\<lambda>_. held ?W ns)"
    by (rule valid_gets_field) (auto simp: undone_def fields_of_def)
  show ?thesis unfolding rollback_transition_def tr prod.case unfolding tr[symmetric]
  proof (rule valid_bind[OF flag], rule valid_pure)
    fix unlinked assume u: "unlinked = snd (snd g)"
    show "valid (held ?W ns) (if target = source \<and> move \<and> \<not> unlinked then ret ()
       else pbind (gets w_destination) (\<lambda>dest_info.
           restore_transition target before after b info (if target = dest then dest_info else None)))
       (\<lambda>_. held (undone S D f0 g) ns) (\<lambda>_. held ?W ns)"
    proof (cases "target = source \<and> move \<and> \<not> unlinked")
      case True
      then have "to_undo source move g tr = {}" by (simp add: to_undo_def tr u)
      with True show ?thesis by (simp add: valid_ret)
    next
      case False
      then have undo: "to_undo source move g tr \<union> D = insert target D" by (auto simp: to_undo_def tr u)
      have "valid (held ?W ns) (gets w_destination) (\<lambda>_. held ?W ns) (\<lambda>_. held ?W ns)" by (rule valid_gets)
      moreover have "valid (held ?W ns) (restore_transition target before after b info i)
          (\<lambda>_. held (undone S D f0 g) ns) (\<lambda>_. held ?W ns)" for i
        unfolding undo by (rule valid_restore_transition[OF apart]) (use p old in \<open>simp_all add: tr\<close>)
      ultimately show ?thesis unfolding if_not_P[OF False] by (rule valid_bind)
    qed
  qed
qed

lemma valid_collect_undo:
  assumes "\<forall>x \<in> set xs. \<forall>D. valid (held (undone S (A x \<union> D) f0 g) ns) (m x)
    (\<lambda>_. held (undone S D f0 g) ns) (\<lambda>_. held (undone S (A x \<union> D) f0 g) ns)"
  shows "valid (held (undone S (\<Union> (A ` set xs) \<union> D) f0 g) ns) (collect_failures m xs)
    (\<lambda>fs. held (undone S (if fs = [] then D else UNIV) f0 g) ns) (\<lambda>_. held (undone S UNIV f0 g) ns)"
  using assms
proof (induction xs arbitrary: D)
  case Nil
  then show ?case by (auto intro: valid_ret)
next
  case (Cons x xs)
  let ?D = "\<Union> (A ` set xs) \<union> D"
  have step: "valid (held (undone S (A x \<union> ?D) f0 g) ns) (attempt (m x))
    (\<lambda>r. held (undone S (case r of Inr _ \<Rightarrow> ?D | Inl _ \<Rightarrow> UNIV) f0 g) ns) (\<lambda>_. held (undone S UNIV f0 g) ns)"
  proof (rule valid_attempt)
    have "valid (held (undone S (A x \<union> ?D) f0 g) ns) (m x) (\<lambda>_. held (undone S ?D f0 g) ns)
      (\<lambda>_. held (undone S (A x \<union> ?D) f0 g) ns)" using Cons.prems by simp
    then show "valid (held (undone S (A x \<union> ?D) f0 g) ns) (m x)
      (\<lambda>x. held (undone S (case Inr x of Inr _ \<Rightarrow> ?D | Inl _ \<Rightarrow> UNIV) f0 g) ns)
      (\<lambda>e. held (undone S (case Inl e of Inr _ \<Rightarrow> ?D | Inl _ \<Rightarrow> UNIV) f0 g) ns)"
      by (rule valid_weaken) (auto intro: undone_mono[of _ UNIV])
  qed
  have rest: "valid (held (undone S (\<Union> (A ` set xs) \<union> D') f0 g) ns) (collect_failures m xs)
    (\<lambda>fs. held (undone S (if fs = [] then D' else UNIV) f0 g) ns) (\<lambda>_. held (undone S UNIV f0 g) ns)" for D'
    by (rule Cons.IH) (use Cons.prems in auto)
  have others: "valid (held (undone S (case r of Inr _ \<Rightarrow> ?D | Inl _ \<Rightarrow> UNIV) f0 g) ns)
      (pbind (collect_failures m xs) (\<lambda>es. ret (case r of Inl e \<Rightarrow> (x, e) # es | Inr _ \<Rightarrow> es)))
      (\<lambda>fs. held (undone S (if fs = [] then D else UNIV) f0 g) ns) (\<lambda>_. held (undone S UNIV f0 g) ns)" for r :: "unit result"
  proof (cases r)
    case (Inl e)
    have "\<Union> (A ` set xs) \<union> UNIV = UNIV" by simp
    with rest[of UNIV] show ?thesis unfolding Inl sum.case
      by (auto intro!: valid_bind valid_ret)
  next
    case (Inr u)
    show ?thesis unfolding Inr sum.case by (rule valid_bind[OF rest]) (rule valid_ret)
  qed
  have "\<Union> (A ` set (x # xs)) \<union> D = A x \<union> ?D" by auto
  then show ?case unfolding collect_failures.simps by (simp only:) (rule valid_bind[OF step others])
qed

lemma remove_empty_dirs_returns: "remove_empty_dirs created s \<noteq> (Inl e, s')"
proof -
  let ?m = "\<lambda>(d, ino). pbind (sys_stat d) (\<lambda>info. if n_kind info \<noteq> Directory \<or> n_ino info \<noteq> ino then ret () else sys_rmdir d)"
  obtain fs s1 where "collect_failures ?m (rev created) s = (Inr fs, s1)"
    using collect_failures_returns[of ?m "rev created" s] by blast
  then show ?thesis by (simp add: remove_empty_dirs_def pseq_def pbind_def ret_def)
qed

definition all_restored :: "path set \<Rightarrow> (path \<Rightarrow> node option) \<Rightarrow> pystr set \<Rightarrow> wtxn \<Rightarrow> bool" where
  "all_restored S f0 ns t \<longleftrightarrow> (\<exists>g. held (undone S {} f0 g) ns t)"

lemma pristine_restored: "held (pristine S f0) ns t \<Longrightarrow> all_restored S f0 ns t"
  by (auto simp: all_restored_def held_def pristine_def undone_def same_def)

lemma valid_undo_lifecycle:
  fixes Q :: "'b \<Rightarrow> wtxn \<Rightarrow> bool"
  assumes apart: "names_apart S ns" and trs: "\<forall>tr \<in> set trs. fst tr \<in> S \<and> recalls f0 (fst tr) (fst (snd tr)) (snd (snd (snd tr)))"
    and u: "\<And>g. snd (snd g) = u \<Longrightarrow> dest \<in> \<Union> (to_undo source move g ` set trs) \<and> (u \<longrightarrow> source \<in> \<Union> (to_undo source move g ` set trs))"
    and created: "\<forall>d \<in> set created. fst d \<notin> S"
  shows "valid (held (copied S f0 source dest u) ns) (undo_lifecycle source dest move b trs created e) Q
    (\<lambda>e' s. e' = incomplete \<or> e' = e \<and> all_restored S f0 ns s)"
proof -
  have undo: "valid (held (undone S (\<Union> (to_undo source move g ` set trs)) f0 g) ns)
    (undo_lifecycle source dest move b trs created e) Q
    (\<lambda>e' s. e' = incomplete \<or> e' = e \<and> held (undone S {} f0 g) ns s)" for g
    unfolding undo_lifecycle_def
  proof (rule valid_bind)
    have "valid (held (undone S (\<Union> (to_undo source move g ` set (rev trs)) \<union> {}) f0 g) ns)
      (collect_failures (rollback_transition source dest move b) (rev trs))
      (\<lambda>fs. held (undone S (if fs = [] then {} else UNIV) f0 g) ns) (\<lambda>_. held (undone S UNIV f0 g) ns)"
      by (rule valid_collect_undo) (use trs in \<open>auto intro!: valid_rollback_transition[OF apart]\<close>)
    then have "valid (held (undone S (\<Union> (to_undo source move g ` set trs)) f0 g) ns)
      (collect_failures (rollback_transition source dest move b) (rev trs))
      (\<lambda>fs. held (undone S (if fs = [] then {} else UNIV) f0 g) ns) (\<lambda>_. held (undone S UNIV f0 g) ns)" by simp
    moreover have "valid (held (undone S (if fs = [] then {} else UNIV) f0 g) ns)
        (if fs \<noteq> [] then raise (RuntimeError ''recovery failed'') else ret ())
        (\<lambda>_. held (undone S {} f0 g) ns) (\<lambda>_. held (undone S UNIV f0 g) ns)" for fs :: "(transition \<times> exc) list"
      by (cases "fs = []") (auto intro: valid_ret valid_raise)
    ultimately have rb: "valid (held (undone S (\<Union> (to_undo source move g ` set trs)) f0 g) ns)
      (rollback_physical source dest move b trs)
      (\<lambda>_. held (undone S {} f0 g) ns) (\<lambda>_. held (undone S UNIV f0 g) ns)"
      unfolding rollback_physical_def by (rule valid_bind)
    show "valid (held (undone S (\<Union> (to_undo source move g ` set trs)) f0 g) ns)
      (attempt (rollback_physical source dest move b trs))
      (\<lambda>r. held (undone S (case r of Inl _ \<Rightarrow> UNIV | Inr _ \<Rightarrow> {}) f0 g) ns)
      (\<lambda>e' s. e' = incomplete \<or> e' = e \<and> held (undone S {} f0 g) ns s)"
      by (rule valid_attempt) (use rb in simp)
    fix r :: "unit result"
    let ?V = "held (undone S (case r of Inl _ \<Rightarrow> UNIV | Inr _ \<Rightarrow> {}) f0 g) ns"
    show "valid ?V (pseq (remove_empty_dirs created) (raise (case r of Inl _ \<Rightarrow> incomplete | Inr _ \<Rightarrow> e))) Q
      (\<lambda>e' s. e' = incomplete \<or> e' = e \<and> held (undone S {} f0 g) ns s)"
    proof (rule valid_seq)
      show "valid ?V (remove_empty_dirs created) (\<lambda>_. ?V) (\<lambda>e' s. e' = incomplete \<or> e' = e \<and> held (undone S {} f0 g) ns s)"
      proof (rule validI)
        show "?V s'" if "?V s" "remove_empty_dirs created s = (Inr x, s')" for s x s'
          by (rule keepsD[OF keeps_remove_empty_dirs[OF framed_undone created] that])
        show "e' = incomplete \<or> e' = e \<and> held (undone S {} f0 g) ns s'"
          if "?V s" "remove_empty_dirs created s = (Inl e', s')" for s e' s'
          using remove_empty_dirs_returns[of created s e' s'] that(2) by contradiction
      qed
      show "valid ?V (raise (case r of Inl _ \<Rightarrow> incomplete | Inr _ \<Rightarrow> e)) Q
        (\<lambda>e' s. e' = incomplete \<or> e' = e \<and> held (undone S {} f0 g) ns s)"
        by (rule valid_raise) (cases r, auto)
    qed
  qed
  have state: "held (undone S (\<Union> (to_undo source move (fields_of s) ` set trs)) f0 (fields_of s)) ns s"
    if "held (copied S f0 source dest u) ns s" for s
  proof -
    have c: "copied S f0 source dest u s (node_at s)" using that by (simp add: held_def)
    then have "snd (snd (fields_of s)) = u" by (simp add: copied_def fields_of_def)
    note cover = u[OF this]
    have "q \<in> \<Union> (to_undo source move (fields_of s) ` set trs) \<or> same (node_at s q) (f0 q)" if "q \<in> S" for q
    proof -
      from c that consider "q = dest" | "u" "q = source" | "node_at s q = f0 q" by (auto simp: copied_def)
      then show ?thesis using cover by cases (auto simp: same_def)
    qed
    then have "undone S (\<Union> (to_undo source move (fields_of s) ` set trs)) f0 (fields_of s) s (node_at s)"
      unfolding undone_def by blast
    with that show ?thesis by (simp add: held_def)
  qed
  show ?thesis
  proof (rule validI)
    show "Q x s'" if "held (copied S f0 source dest u) ns s" "undo_lifecycle source dest move b trs created e s = (Inr x, s')" for s x s'
      by (rule validD(1)[OF undo[of "fields_of s"] state[OF that(1)] that(2)])
    show "e' = incomplete \<or> e' = e \<and> all_restored S f0 ns s'"
      if "held (copied S f0 source dest u) ns s" "(undo_lifecycle source dest move b trs created e :: (wtxn, 'b) prog) s = (Inl e', s')" for s e' s'
      using validD(2)[OF undo[of "fields_of s"] state[OF that(1)] that(2)] unfolding all_restored_def by blast
  qed
qed

section \<open>The whole operation\<close>

definition outcome_unclear :: "history_store \<Rightarrow> history_change list \<Rightarrow> exc \<Rightarrow> bool" where
  "outcome_unclear hs plans e \<longleftrightarrow> e = incomplete
    \<or> (\<exists>m. hs_changes hs plans = Inl (OutcomeUnknown m) \<and> e = OutcomeUnknown m)
    \<or> hs_changes hs plans = Inr True \<and> e = CancelledError"

definition transitions :: "path \<Rightarrow> path \<Rightarrow> bytes \<Rightarrow> node \<Rightarrow> bool \<Rightarrow> transition list" where
  "transitions source dest data info move =
    (if move then [(source, Some data, None, Some info)] else []) @ [(dest, None, Some data, None)]"

definition carried :: "path set \<Rightarrow> (path \<Rightarrow> node option) \<Rightarrow> path \<Rightarrow> path \<Rightarrow> node \<Rightarrow> bool \<Rightarrow> wtxn \<Rightarrow> (path \<Rightarrow> node option) \<Rightarrow> bool" where
  "carried S f0 source dest n move t f \<longleftrightarrow> copied S f0 source dest move t f
    \<and> has_content (n_mode n) (n_data n) (f dest) \<and> (move \<longrightarrow> f source = None)"

lemma valid_carry_out:
  assumes apart: "names_apart S ns" and S: "source \<in> S" "dest \<in> S" "source \<noteq> dest"
    and parents: "\<And>d r. butlast dest = d @ r \<Longrightarrow> d \<notin> S"
    and f0: "f0 dest = None" "f0 source = Some n" "n_data n = data" "n_kind n = Regular"
    and created: "\<forall>d \<in> set created. fst d \<notin> S"
  shows "valid (held (pristine S f0) ns)
    (carry_out ev hs source dest data None n move b (transitions source dest data n move) created plans enabled cancelled)
    (\<lambda>_. held (carried S f0 source dest n move) ns)
    (\<lambda>e s. outcome_unclear hs plans e \<or> all_restored S f0 ns s)"
proof -
  let ?P = "held (pristine S f0) ns" and ?C = "\<lambda>u. held (copied S f0 source dest u) ns"
  let ?D = "held (carried S f0 source dest n move) ns"
  let ?E = "\<lambda>e s. outcome_unclear hs plans e \<or> all_restored S f0 ns s"
  let ?trs = "transitions source dest data n move"
  let ?undo = "\<lambda>e. undo_lifecycle source dest move b ?trs created e"
  have DC: "?D s \<Longrightarrow> ?C move s" for s by (auto simp: held_def carried_def)
  have undo: "valid (?C u) (?undo e) (\<lambda>_. ?D) ?E" if "u \<longrightarrow> move" for u e
    by (rule valid_weaken[OF valid_undo_lifecycle[OF apart, where u = u and Q = "\<lambda>_. ?D"]])
      (use that S f0 created in \<open>auto simp: transitions_def recalls_def to_undo_def outcome_unclear_def\<close>)
  have copy: "valid ?P (attempt (copy_bytes ev source dest data None (signature n) move b))
    (\<lambda>r s. case r of Inr _ \<Rightarrow> ?D s | Inl _ \<Rightarrow> ?P s \<or> ?C False s) ?E"
    by (rule valid_attempt, rule valid_weaken[OF valid_copy_bytes[OF apart S parents f0(1,2)]])
      (auto simp: held_def carried_def f0(3))
  have early: "valid ?P (pseq (remove_empty_dirs created) (raise e)) (\<lambda>_. ?D) ?E" for e
  proof (rule valid_seq)
    show "valid ?P (remove_empty_dirs created) (\<lambda>_. ?P) ?E"
      by (rule valid_weaken[OF keeps_valid[OF keeps_remove_empty_dirs[OF framed_pristine[of S f0] created, of ns]]])
        (auto intro: pristine_restored)
    show "valid ?P (raise e) (\<lambda>_. ?D) ?E"
      by (rule valid_raise) (auto intro: pristine_restored)
  qed
  have failed: "valid (\<lambda>s. ?P s \<or> ?C False s) (pbind (gets w_committed) (\<lambda>committed.
          if \<not> committed then pseq (remove_empty_dirs created) (raise e) else ?undo e)) (\<lambda>_. ?D) ?E" for e
  proof (rule valid_bind)
    show "valid (\<lambda>s. ?P s \<or> ?C False s) (gets w_committed) (\<lambda>c s. if c then ?C False s else ?P s) ?E"
      by (rule valid_gets) (auto simp: held_def pristine_def copied_def fields_of_def)
    show "valid (\<lambda>s. if c then ?C False s else ?P s)
        (if \<not> c then pseq (remove_empty_dirs created) (raise e) else ?undo e) (\<lambda>_. ?D) ?E" for c
      using early undo[of False] by (cases c) auto
  qed
  have done': "valid ?D (if cancelled then ?undo CancelledError
        else if \<not> enabled then ret ()
        else (case hs_changes hs plans of
            Inr history_cancelled \<Rightarrow> if history_cancelled then raise CancelledError else ret ()
          | Inl (OutcomeUnknown m) \<Rightarrow> raise (OutcomeUnknown m)
          | Inl _ \<Rightarrow> ?undo rolled_back)) (\<lambda>_. ?D) ?E"
  proof -
    have u: "valid ?D (?undo e) (\<lambda>_. ?D) ?E" for e
      by (rule valid_weaken[OF undo[of move]]) (auto dest: DC)
    have unclear: "valid ?D (raise e) (\<lambda>_. ?D) ?E" if "outcome_unclear hs plans e" for e
      by (rule valid_raise) (use that in simp)
    have "hs_changes hs plans = Inr True \<Longrightarrow> outcome_unclear hs plans CancelledError"
      "hs_changes hs plans = Inl (OutcomeUnknown m) \<Longrightarrow> outcome_unclear hs plans (OutcomeUnknown m)" for m
      by (simp_all add: outcome_unclear_def)
    then show ?thesis
      by (auto intro!: valid_if valid_ret u unclear split: sum.split exc.split)
  qed
  show ?thesis unfolding carry_out_def
  proof (rule valid_bind[OF copy])
    show "valid (\<lambda>s. case r of Inr _ \<Rightarrow> ?D s | Inl _ \<Rightarrow> ?P s \<or> ?C False s) (case r of
      Inl e \<Rightarrow> pbind (gets w_committed) (\<lambda>committed.
          if \<not> committed then pseq (remove_empty_dirs created) (raise e) else ?undo e)
    | Inr _ \<Rightarrow> if cancelled then ?undo CancelledError
        else if \<not> enabled then ret ()
        else (case hs_changes hs plans of
            Inr history_cancelled \<Rightarrow> if history_cancelled then raise CancelledError else ret ()
          | Inl (OutcomeUnknown m) \<Rightarrow> raise (OutcomeUnknown m)
          | Inl _ \<Rightarrow> ?undo rolled_back)) (\<lambda>_. ?D) ?E" for r :: "unit result"
      using failed done' by (cases r) auto
  qed
qed

lemma valid_read_source:
  assumes S: "source \<in> S"
  shows "valid (held (pristine S f0) ns) (read_source ev source expected enabled)
    (\<lambda>(data, info). held (\<lambda>t f. pristine S f0 t f \<and> (f0 source = Some info \<and> data = n_data info \<and> n_kind info = Regular
       \<and> check_expected ev (Some data) expected = Inr ())) ns) (\<lambda>_. held (pristine S f0) ns)"
proof -
  let ?P = "held (pristine S f0) ns"
  let ?Q = "\<lambda>(data, info). held (\<lambda>t f. pristine S f0 t f \<and> (f0 source = Some info \<and> data = n_data info \<and> n_kind info = Regular
       \<and> check_expected ev (Some data) expected = Inr ())) ns"
  have stat: "valid ?P (stat_if_exists source) (\<lambda>i. held (\<lambda>t f. pristine S f0 t f \<and> (i = None \<or> f0 source = i)) ns) (\<lambda>_. ?P)"
    by (rule valid_weaken[OF valid_stat_if_exists[OF stable_pristine[of S f0], where ns = ns]])
      (use S in \<open>auto simp: held_def pristine_def\<close>)
  have content: "valid ?P (if enabled then read_history_optional_bytes ev source else read_optional_bytes source None)
    (\<lambda>old. held (\<lambda>t f. pristine S f0 t f \<and> holds old (f0 source)) ns) (\<lambda>_. ?P)"
    by (cases enabled; simp; rule valid_weaken[OF valid_read_history_optional[OF stable_pristine[of S f0], where ns = ns]]
          valid_weaken[OF valid_read_optional[OF stable_pristine[of S f0], where ns = ns]])
      (use S in \<open>auto simp: held_def pristine_def\<close>)
  have keep: "valid ?P m (\<lambda>_. ?P) (\<lambda>_. ?P)" if "keeps ?P m" for m :: "(wtxn, 'x) prog"
    by (rule keeps_valid[OF that])
  have after: "valid ?P (case old of
          None \<Rightarrow> raise (FileNotFoundError '''')
        | Some data \<Rightarrow>
           (case i of
              None \<Rightarrow> raise (RuntimeError ''File changed while reading'')
            | Some info \<Rightarrow>
                pbind (missing_ok (sys_stat source)) (\<lambda>after. case after of
                  None \<Rightarrow> raise (RuntimeError ''File changed while reading'')
                | Some after_info \<Rightarrow>
                    if signature info \<noteq> signature after_info then raise (RuntimeError ''File changed while reading'')
                    else ret (data, info)))) ?Q (\<lambda>_. ?P)"
    if "i = None \<or> f0 source = i" "holds old (f0 source)" "check_expected ev old expected = Inr ()" for i old
  proof (cases "\<exists>data info. old = Some data \<and> i = Some info")
    case False
    then show ?thesis by (cases old; cases i) (auto intro: valid_raise)
  next
    case True
    then obtain data info where o: "old = Some data" and i: "i = Some info" by blast
    have "valid ?P (case after of
                  None \<Rightarrow> raise (RuntimeError ''File changed while reading'')
                | Some after_info \<Rightarrow>
                    if signature info \<noteq> signature after_info then raise (RuntimeError ''File changed while reading'')
                    else ret (data, info)) ?Q (\<lambda>_. ?P)" for after
      by (cases after) (use that o i in \<open>auto intro!: valid_raise valid_ret simp: held_def holds_def\<close>)
    then show ?thesis unfolding o i option.case
      by (rule valid_bind[OF keep[OF keeps_missing_ok[OF keeps_sys_stat[OF stable_pristine]]]])
  qed
  show ?thesis unfolding read_source_def
  proof (rule valid_bind[OF stat], rule valid_pure, rule valid_seq[OF keep], intro keeps_intro,
      rule valid_bind[OF content], rule valid_pure)
    fix i old assume "i = None \<or> f0 source = i" "holds old (f0 source)"
    then have "valid (held (\<lambda>t f. pristine S f0 t f \<and> check_expected ev old expected = Inr ()) ns) (case old of
          None \<Rightarrow> raise (FileNotFoundError '''')
        | Some data \<Rightarrow>
           (case i of
              None \<Rightarrow> raise (RuntimeError ''File changed while reading'')
            | Some info \<Rightarrow>
                pbind (missing_ok (sys_stat source)) (\<lambda>after. case after of
                  None \<Rightarrow> raise (RuntimeError ''File changed while reading'')
                | Some after_info \<Rightarrow>
                    if signature info \<noteq> signature after_info then raise (RuntimeError ''File changed while reading'')
                    else ret (data, info)))) ?Q (\<lambda>_. ?P)"
      by (intro valid_pure after)
    moreover have "valid ?P (lift (check_expected ev old expected))
        (\<lambda>_. held (\<lambda>t f. pristine S f0 t f \<and> check_expected ev old expected = Inr ()) ns) (\<lambda>_. ?P)"
      by (rule valid_lift) (auto simp: held_def)
    ultimately show "valid ?P (pseq (lift (check_expected ev old expected)) (case old of
          None \<Rightarrow> raise (FileNotFoundError '''')
        | Some data \<Rightarrow>
           (case i of
              None \<Rightarrow> raise (RuntimeError ''File changed while reading'')
            | Some info \<Rightarrow>
                pbind (missing_ok (sys_stat source)) (\<lambda>after. case after of
                  None \<Rightarrow> raise (RuntimeError ''File changed while reading'')
                | Some after_info \<Rightarrow>
                    if signature info \<noteq> signature after_info then raise (RuntimeError ''File changed while reading'')
                    else ret (data, info))))) ?Q (\<lambda>_. ?P)"
      by (rule valid_seq[rotated])
  qed
qed

lemma valid_read_destination:
  assumes S: "dest \<in> S"
  shows "valid (held (pristine S f0) ns) (read_destination ev dest in_hist)
    (\<lambda>(old, info). held (\<lambda>t f. pristine S f0 t f \<and> (old = None \<and> info = None \<and> f0 dest = None)) ns)
    (\<lambda>_. held (pristine S f0) ns)"
proof -
  let ?P = "held (pristine S f0) ns"
  have stat: "valid ?P (stat_if_exists dest) (\<lambda>i. held (\<lambda>t f. pristine S f0 t f \<and> (i = None \<or> f0 dest = i)) ns) (\<lambda>_. ?P)"
    by (rule valid_weaken[OF valid_stat_if_exists[OF stable_pristine[of S f0], where ns = ns]])
      (use S in \<open>auto simp: held_def pristine_def\<close>)
  have content: "valid ?P (if in_hist then read_history_optional_bytes ev dest else read_optional_bytes dest None)
    (\<lambda>old. held (\<lambda>t f. pristine S f0 t f \<and> holds old (f0 dest)) ns) (\<lambda>_. ?P)"
    by (cases in_hist; simp; rule valid_weaken[OF valid_read_history_optional[OF stable_pristine[of S f0], where ns = ns]]
          valid_weaken[OF valid_read_optional[OF stable_pristine[of S f0], where ns = ns]])
      (use S in \<open>auto simp: held_def pristine_def\<close>)
  have size: "valid ?P (if in_hist then validate_history_path_size ev dest else ret ()) (\<lambda>_. ?P) (\<lambda>_. ?P)"
    by (rule keeps_valid) (intro keeps_intro)
  show ?thesis unfolding read_destination_def
    by (rule valid_seq[OF size], rule valid_bind[OF stat], rule valid_pure, rule valid_bind[OF content], rule valid_pure,
        rule valid_if, rule valid_raise, assumption, rule valid_ret)
      (auto simp: held_def holds_def split: option.splits)
qed

lemma valid_split:
  "(\<And>a b. valid (P a b) (m a b) Q E) \<Longrightarrow> valid (case x of (a, b) \<Rightarrow> P a b) (case x of (a, b) \<Rightarrow> m a b) Q E"
  by (cases x) simp

lemma valid_copy_or_move:
  fixes move history :: bool and ws :: path
  assumes apart: "names_apart S ns" and S: "source \<in> S" "dest \<in> S"
    and parents: "\<And>d r. butlast dest = d @ r \<Longrightarrow> d \<notin> S"
  defines "plans \<equiv> \<lambda>n. lifecycle_plans ws source dest history move (n_data n) None"
  shows "valid (held (pristine S f0) ns) (copy_or_move ev hs ws source dest expected overwrite history move cancelled)
    (\<lambda>res s. \<exists>n. f0 source = Some n \<and> n_kind n = Regular \<and> f0 dest = None \<and> source \<noteq> dest
       \<and> check_expected ev (Some (n_data n)) expected = Inr () \<and> held (carried S f0 source dest n move) ns s)
    (\<lambda>e s. (\<exists>n. f0 source = Some n \<and> outcome_unclear hs (plans n) e) \<or> all_restored S f0 ns s)"
proof -
  let ?P = "held (pristine S f0) ns"
  let ?E = "\<lambda>e s. (\<exists>n. f0 source = Some n \<and> outcome_unclear hs (plans n) e) \<or> all_restored S f0 ns s"
  let ?Q = "\<lambda>res s. \<exists>n. f0 source = Some n \<and> n_kind n = Regular \<and> f0 dest = None \<and> source \<noteq> dest
       \<and> check_expected ev (Some (n_data n)) expected = Inr () \<and> held (carried S f0 source dest n move) ns s"
  define dest_in where "dest_in = (history \<and> history_resource ws dest \<noteq> None)"
  define enabled where "enabled = (history \<and> history_resource ws source \<noteq> None \<or> dest_in)"
  define b where "b = (if enabled then Some (blob_limit ev) else None)"
  have PE: "?P s \<Longrightarrow> ?E e s" for e s by (auto intro: pristine_restored)
  have up: "valid ?P m R (\<lambda>_. ?P) \<Longrightarrow> valid ?P m R ?E" for m :: "(wtxn, 'x) prog" and R
    by (erule valid_weaken) (auto dest: pristine_restored)
  have keep: "valid ?P m (\<lambda>_. ?P) ?E" if "keeps ?P m" for m :: "(wtxn, 'x) prog"
    by (rule up[OF keeps_valid[OF that]])
  have dirs: "valid ?P (if butlast dest = ws then ret [] else create_parent_dirs (butlast dest))
    (\<lambda>ds s. ?P s \<and> (\<forall>d \<in> set ds. fst d \<notin> S)) ?E"
    by (intro valid_if valid_ret up valid_create_parent_dirs[OF framed_pristine]) (use parents in auto)
  have body: "valid (\<lambda>s. ?P s \<and> (\<forall>d \<in> set created. fst d \<notin> S))
     (pseq (if enabled
            then (case hs_prepare hs (plans n) of Inr _ \<Rightarrow> ret () | Inl e \<Rightarrow> pseq (remove_empty_dirs created) (raise e))
            else ret ())
       (pseq (carry_out ev hs source dest (n_data n) None n move b (transitions source dest (n_data n) n move) created (plans n) enabled cancelled)
         (ret x))) ?Q ?E"
    if n: "f0 source = Some n" "n_kind n = Regular" "check_expected ev (Some (n_data n)) expected = Inr ()"
      and d: "f0 dest = None" and ne: "source \<noteq> dest" for n created x
  proof (cases "\<forall>d \<in> set created. fst d \<notin> S")
    case False
    then show ?thesis by (intro validI) blast+
  next
    case True
    have clean: "valid ?P (pseq (remove_empty_dirs created) (raise e)) (\<lambda>_. ?P) ?E" for e
      by (rule valid_seq[OF keep[OF keeps_remove_empty_dirs[OF framed_pristine True]]], rule valid_raise, erule PE)
    have prepare: "valid ?P (if enabled
            then (case hs_prepare hs (plans n) of Inr _ \<Rightarrow> ret () | Inl e \<Rightarrow> pseq (remove_empty_dirs created) (raise e))
            else ret ()) (\<lambda>_. ?P) ?E"
      by (cases "hs_prepare hs (plans n)") (auto intro!: valid_if valid_ret clean)
    have carry: "valid ?P (carry_out ev hs source dest (n_data n) None n move b (transitions source dest (n_data n) n move)
        created (plans n) enabled cancelled) (\<lambda>_. held (carried S f0 source dest n move) ns) ?E"
      by (rule valid_weaken[OF valid_carry_out[OF apart S ne parents d n(1) refl n(2) True]]) (use n in auto)
    have "valid ?P (pseq (if enabled
            then (case hs_prepare hs (plans n) of Inr _ \<Rightarrow> ret () | Inl e \<Rightarrow> pseq (remove_empty_dirs created) (raise e))
            else ret ())
       (pseq (carry_out ev hs source dest (n_data n) None n move b (transitions source dest (n_data n) n move) created (plans n) enabled cancelled)
         (ret x))) ?Q ?E"
      by (rule valid_seq[OF prepare], rule valid_seq[OF carry], rule valid_ret) (use n d ne in auto)
    then show ?thesis by (rule valid_weaken) auto
  qed
  have pl: "lifecycle_plans ws source dest history move (n_data n) None = plans n" for n
    by (simp add: plans_def)
  show ?thesis
    unfolding copy_or_move_def Let_def dest_in_def[symmetric] enabled_def[symmetric] b_def[symmetric]
    by (rule valid_if, rule valid_raise, erule PE, rule valid_if, rule valid_raise, erule PE,
      rule valid_seq[OF keep], intro keeps_intro, rule valid_bind[OF up[OF valid_read_source[OF S(1)]]],
      rule valid_split, rule valid_pure, elim conjE, hypsubst,
      rule valid_bind[OF up[OF valid_read_destination[OF S(2)]]], rule valid_split, rule valid_pure, elim conjE, hypsubst,
      rule valid_seq[OF keep], intro keeps_intro, rule valid_bind[OF dirs], unfold pl, rule body[unfolded transitions_def], assumption+)
qed

end
