(* ===== verification/File_Recording.thy ===== *)
theory File_Recording
  imports File_Lifecycle_Proofs
begin

text \<open>
  Writing and deleting with a history: the change of the file and its record succeed together, or the
  change is undone, except where the outcome is reported as unclear.
\<close>

section \<open>The record\<close>

definition record_unclear :: "history_store \<Rightarrow> path \<Rightarrow> bytes option \<Rightarrow> bytes option \<Rightarrow> exc \<Rightarrow> bool" where
  "record_unclear hs p old new e \<longleftrightarrow> e = incomplete
    \<or> (\<exists>m. hs_bytes hs p old new = Inl (OutcomeUnknown m) \<and> e = OutcomeUnknown m)
    \<or> hs_bytes hs p old new = Inr True \<and> e = CancelledError"

lemma valid_record_history:
  assumes apart: "names_apart S ns" and p: "p \<in> S" and old: "recalls f0 p old info" and ne: "old \<noteq> new"
    and size: "validate_history_size ev old new = Inr ()"
  shows "valid (held (undone S {p} f0 g) ns) (record_file_history ev hs ws p old new info new_info)
    (\<lambda>_. held (undone S {p} f0 g) ns)
    (\<lambda>e s. record_unclear hs p old new e \<and> held (undone S {p} f0 g) ns s \<or> held (undone S {} f0 g) ns s)"
proof -
  let ?W = "held (undone S {p} f0 g) ns" and ?V = "held (undone S {} f0 g) ns"
  let ?E = "\<lambda>e s. record_unclear hs p old new e \<and> ?W s \<or> ?V s"
  have restore: "valid ?W (pbind (attempt (restore_transition p old new b info new_info)) (\<lambda>r.
      raise (case r of Inl _ \<Rightarrow> incomplete | Inr _ \<Rightarrow> rolled_back))) (\<lambda>_. ?W) ?E" for b
    by (rule valid_bind[OF valid_attempt[where Q = "\<lambda>r. case r of Inl _ \<Rightarrow> ?W | Inr _ \<Rightarrow> ?V"]], unfold sum.case,
        rule valid_restore_transition[OF apart p old], rule valid_raise)
      (auto simp: record_unclear_def split: sum.splits)
  have answer: "valid ?W (case hs_bytes hs p old new of
           Inr cancelled \<Rightarrow> if cancelled then raise CancelledError else ret True
         | Inl (OutcomeUnknown m) \<Rightarrow> raise (OutcomeUnknown m)
         | Inl _ \<Rightarrow>
             pbind (attempt (restore_transition p old new b info new_info)) (\<lambda>r.
               raise (case r of Inl _ \<Rightarrow> incomplete | Inr _ \<Rightarrow> rolled_back))) (\<lambda>_. ?W) ?E" for b
  proof (cases "hs_bytes hs p old new")
    case (Inl e)
    show ?thesis unfolding Inl sum.case
      by (insert Inl, cases e; simp only: exc.case; (rule restore | rule valid_raise, simp add: record_unclear_def))
  next
    case (Inr c)
    then show ?thesis by (auto intro!: valid_raise valid_ret simp: record_unclear_def)
  qed
  show ?thesis unfolding record_file_history_def size lift_def[of "Inr ()"] sum.case ret_def[symmetric] if_not_P[OF ne]
    by (intro valid_if valid_ret valid_seq[where R = ?W] answer)
qed

text \<open>A record that succeeds does not touch the files.\<close>

lemma record_same_state:
  "record_file_history ev hs ws p old new info new_info s = (Inr b, s') \<Longrightarrow> s' = s"
  by (auto simp: record_file_history_def prog_defs split: prod.splits sum.splits if_splits exc.splits)

text \<open>A record that fails leaves the change in place, has undone it, or says that it could not.\<close>

lemma record_fails:
  assumes apart: "names_apart S ns" and p: "p \<in> S" and old: "recalls f0 p old info"
    and h: "held (undone S {p} f0 g) ns s"
    and e: "record_file_history ev hs ws p old new info new_info s = (Inl e, s')"
  shows "s' = s \<or> e = incomplete \<or> (\<forall>q \<in> S. same (node_at s' q) (f0 q))"
proof (cases "history_resource ws p \<noteq> None \<and> old \<noteq> new \<and> validate_history_size ev old new = Inr ()
    \<and> \<not> (\<exists>b. hs_bytes hs p old new = Inr b) \<and> \<not> (\<exists>m. hs_bytes hs p old new = Inl (OutcomeUnknown m))")
  case True
  then have ne: "old \<noteq> new" and size: "validate_history_size ev old new = Inr ()" by simp_all
  from True validD(2)[OF valid_record_history[OF apart p old ne size] h e] show ?thesis
    by (auto simp: record_unclear_def held_def undone_def)
next
  case False
  with e show ?thesis
    by (auto simp: record_file_history_def prog_defs validate_history_size_def split: prod.splits sum.splits if_splits)
qed

section \<open>Deleting\<close>

lemma valid_ex: "(\<And>g. valid (P g) m Q E) \<Longrightarrow> valid (\<lambda>s. \<exists>g. P g s) m Q E"
  by (rule validI) (blast dest: validD)+

definition removed :: "path set \<Rightarrow> (path \<Rightarrow> node option) \<Rightarrow> path \<Rightarrow> wtxn \<Rightarrow> (path \<Rightarrow> node option) \<Rightarrow> bool" where
  "removed S f0 p t f \<longleftrightarrow> fields_of t = (False, None, False) \<and> f p = None \<and> (\<forall>q \<in> S. q = p \<or> f q = f0 q)"

lemma stable_removed: "stable (removed S f0 p)"
  by (auto simp: stable_def removed_def fields_of_def)

lemma valid_unlink_expected:
  assumes "p \<in> S"
  shows "valid (held (pristine S f0) ns) (unlink_expected ev p d b) (\<lambda>_. held (removed S f0 p) ns)
    (\<lambda>_. held (pristine S f0) ns)"
proof -
  let ?P = "held (pristine S f0) ns"
  have content: "valid ?P (if b then read_history_optional_bytes ev p else read_optional_bytes p None) (\<lambda>_. ?P) (\<lambda>_. ?P)"
    by (rule keeps_valid) (intro keeps_intro)
  have unlink: "valid ?P (sys_unlink p False) (\<lambda>_. held (removed S f0 p) ns) (\<lambda>_. ?P)"
    by (rule valid_weaken[OF valid_sys_unlink[OF stable_pristine[of S f0], where ns = ns]])
      (auto simp: held_def pristine_def removed_def split: if_splits)
  show ?thesis unfolding unlink_expected_def
    by (rule valid_bind[OF content], intro valid_if valid_raise unlink)
qed

lemma valid_delete_file:
  fixes f0 :: "path \<Rightarrow> node option" and ws :: path and hs :: history_store and cancelled :: bool
  assumes apart: "names_apart S ns" and p: "p \<in> S"
  defines "unclear \<equiv> \<lambda>e. \<exists>n. f0 p = Some n \<and> (record_unclear hs p (Some (n_data n)) None e \<or> cancelled \<and> e = CancelledError)"
  shows "valid (held (pristine S f0) ns) (delete_file ev hs ws p expected history cancelled)
    (\<lambda>(h, b) s. held (removed S f0 p) ns s
       \<and> (\<exists>n. f0 p = Some n \<and> n_kind n = Regular \<and> h = sha ev (n_data n) \<and> expected = Some h))
    (\<lambda>e s. unclear e \<and> (\<forall>q \<in> S. q \<noteq> p \<longrightarrow> same (node_at s q) (f0 q)) \<or> (\<forall>q \<in> S. same (node_at s q) (f0 q)))"
proof -
  let ?P = "held (pristine S f0) ns" and ?R = "held (removed S f0 p) ns"
  let ?E = "\<lambda>e s. unclear e \<and> (\<forall>q \<in> S. q \<noteq> p \<longrightarrow> same (node_at s q) (f0 q)) \<or> (\<forall>q \<in> S. same (node_at s q) (f0 q))"
  let ?Q = "\<lambda>(h, b) s. ?R s \<and> (\<exists>n. f0 p = Some n \<and> n_kind n = Regular \<and> h = sha ev (n_data n) \<and> expected = Some h)"
  let ?g = "(False, None, False) :: fields"
  define he where "he = (history \<and> history_resource ws p \<noteq> None)"
  have PE: "?P s \<Longrightarrow> ?E e s" for e s by (simp add: held_def pristine_def same_def)
  have up: "valid ?P m R (\<lambda>_. ?P) \<Longrightarrow> valid ?P m R ?E" for m :: "(wtxn, 'x) prog" and R
    by (erule valid_weaken) (assumption, assumption, rule PE)
  have keep: "valid ?P m (\<lambda>_. ?P) ?E" if "keeps ?P m" for m :: "(wtxn, 'x) prog"
    by (rule up[OF keeps_valid[OF that]])
  have content: "valid ?P (if he then read_history_optional_bytes ev p else read_optional_bytes p None)
    (\<lambda>old. held (\<lambda>t f. pristine S f0 t f \<and> holds old (f0 p)) ns) ?E"
    by (rule up, cases he; simp; rule valid_weaken[OF valid_read_history_optional[OF stable_pristine[of S f0], where ns = ns]]
          valid_weaken[OF valid_read_optional[OF stable_pristine[of S f0], where ns = ns]])
      (use p in \<open>auto simp: held_def pristine_def\<close>)
  have check: "valid ?P (lift (check_expected ev old expected))
      (\<lambda>_. held (\<lambda>t f. pristine S f0 t f \<and> check_expected ev old expected = Inr ()) ns) ?E" for old
    by (rule valid_lift, simp add: held_def, erule PE)
  have rest: "valid ?P (pseq (if he then lift (validate_history_size ev (Some d) None) else ret ())
      (pbind (if he then pbind (sys_stat p) (\<lambda>i. pseq (lift (require_regular i)) (ret (Some i))) else ret None) (\<lambda>old_info.
       pseq (unlink_expected ev p d he)
        (pseq (if he then pseq (record_file_history ev hs ws p (Some d) None old_info None) (ret ()) else ret ())
          (if cancelled then raise CancelledError else ret (sha ev d, he)))))) ?Q ?E"
    if d: "holds (Some d) (f0 p)" "check_expected ev (Some d) expected = Inr ()" "expected \<noteq> None" for d
  proof -
    obtain n where n: "f0 p = Some n" "n_data n = d" "n_kind n = Regular"
      using d(1) by (auto simp: holds_def split: option.splits)
    have final: "valid ?R (if cancelled then raise CancelledError else ret (sha ev d, b)) ?Q ?E" for b
      using n d(2,3) by (intro valid_if valid_raise valid_ret)
        (auto simp: unclear_def held_def removed_def same_def check_expected_def split: if_splits)
    have size: "valid ?P (lift (validate_history_size ev (Some d) None))
      (\<lambda>_. held (\<lambda>t f. pristine S f0 t f \<and> validate_history_size ev (Some d) None = Inr ()) ns) ?E"
      by (rule valid_lift, simp add: held_def, erule PE)
    have is_n: "valid ?P (sys_stat p) (\<lambda>i. held (\<lambda>t f. pristine S f0 t f \<and> i = n) ns) ?E"
      by (rule up, rule valid_weaken[OF valid_sys_stat[OF stable_pristine[of S f0], where ns = ns]])
        (use p n in \<open>auto simp: held_def pristine_def\<close>)
    have stat: "valid ?P (pbind (sys_stat p) (\<lambda>i. pseq (lift (require_regular i)) (ret (Some i))))
      (\<lambda>i. held (\<lambda>t f. pristine S f0 t f \<and> i = f0 p) ns) ?E"
      by (rule valid_bind[OF is_n], rule valid_pure, rule valid_seq[where R = ?P], rule valid_lift, assumption, erule PE, rule valid_ret)
        (auto simp: held_def n)
    have unlink: "valid ?P (unlink_expected ev p d b) (\<lambda>_. ?R) ?E" for b
      by (rule up[OF valid_unlink_expected[OF p]])
    have recorded: "valid ?R (pseq (record_file_history ev hs ws p (Some d) None (f0 p) None) (ret ())) (\<lambda>_. ?R) ?E"
      if size: "validate_history_size ev (Some d) None = Inr ()"
    proof (rule valid_seq[OF validI])
      have old: "recalls f0 p (Some d) (f0 p)" using n by (simp add: recalls_def)
      note v = valid_record_history[OF apart p old _ size, where g = ?g and new_info = None and hs = hs and ws = ws, simplified]
      have weak: "?R s \<Longrightarrow> held (undone S {p} f0 ?g) ns s" for s
        by (auto simp: held_def undone_def removed_def same_def)
      show "?R s'" if "?R s" "record_file_history ev hs ws p (Some d) None (f0 p) None s = (Inr x, s')" for s x s'
        using record_same_state[OF that(2)] that(1) by simp
      show "?E e s'" if "?R s" "record_file_history ev hs ws p (Some d) None (f0 p) None s = (Inl e, s')" for s e s'
        using validD(2)[OF v weak[OF that(1)] that(2)] n
        by (auto simp: unclear_def held_def undone_def)
      show "valid ?R (ret ()) (\<lambda>_. ?R) ?E" by (rule valid_ret)
    qed
    show ?thesis
    proof (cases he)
      case False
      show ?thesis
        by (simp only: False if_False, rule valid_seq[where R = ?P], rule valid_ret, assumption,
          rule valid_bind[where R = "\<lambda>_. ?P"], rule valid_ret, assumption, rule valid_seq[OF unlink],
          rule valid_seq[where R = ?R], rule valid_ret, assumption, rule final)
    next
      case True
      show ?thesis
        by (simp only: True if_True, rule valid_seq[OF size], rule valid_pure, rule valid_bind[OF stat], rule valid_pure,
          simp only:, rule valid_seq[OF unlink], rule valid_seq[OF recorded], assumption, rule final)
    qed
  qed
  have body: "valid (held (\<lambda>t f. pristine S f0 t f \<and> check_expected ev old expected = Inr ()) ns) (case old of
             None \<Rightarrow> raise (FileNotFoundError '''')
           | Some d \<Rightarrow> pseq (if he then lift (validate_history_size ev old None) else ret ())
      (pbind (if he then pbind (sys_stat p) (\<lambda>i. pseq (lift (require_regular i)) (ret (Some i))) else ret None) (\<lambda>old_info.
       pseq (unlink_expected ev p d he)
        (pseq (if he then pseq (record_file_history ev hs ws p old None old_info None) (ret ()) else ret ())
          (if cancelled then raise CancelledError else ret (sha ev d, he)))))) ?Q ?E"
    if old: "holds old (f0 p)" "expected \<noteq> None" for old
  proof (cases old)
    case None
    show ?thesis unfolding None option.case by (rule valid_pure, rule valid_raise, erule PE)
  next
    case (Some d)
    show ?thesis unfolding Some option.case
      by (rule valid_pure, rule rest) (use old Some in auto)
  qed
  have target: "valid ?P (if history then validate_history_target p else ret ()) (\<lambda>_. ?P) ?E"
    by (rule keep) (intro keeps_intro)
  show ?thesis unfolding delete_file_def he_def[symmetric] Let_def
    by (rule valid_if, rule valid_raise, erule PE, rule valid_seq[OF target], rule valid_bind[OF content], rule valid_pure,
      rule valid_seq[OF check], rule body)
qed

section \<open>Writing\<close>

text \<open>Every path but \<open>p\<close> is as it was, and \<open>p\<close> has the new content.\<close>

definition in_place :: "path set \<Rightarrow> (path \<Rightarrow> node option) \<Rightarrow> path \<Rightarrow> bytes \<Rightarrow> (path \<Rightarrow> node option) \<Rightarrow> bool" where
  "in_place S f0 p data f \<longleftrightarrow> has_content (file_mode None (f0 p)) data (f p) \<and> (\<forall>q \<in> S. q \<noteq> p \<longrightarrow> same (f q) (f0 q))"

lemma valid_write_data:
  fixes f0 :: "path \<Rightarrow> node option" and ws :: path and data :: bytes
  assumes apart: "names_apart S ns" and p: "p \<in> S" and parents: "\<And>d r. butlast p = d @ r \<Longrightarrow> d \<notin> S"
  shows "valid (held (untouched S f0) ns) (write_data ev hs ws p data expected overwrite create history cancelled)
    (\<lambda>(res, recorded) s. in_place S f0 p data (node_at s) \<and> reports ev data (f0 p) res
       \<and> may_replace ev expected overwrite (f0 p)
       \<and> (recorded \<noteq> None \<longleftrightarrow> history \<and> history_resource ws p \<noteq> None))
    (\<lambda>e s. e = incomplete \<or> in_place S f0 p data (node_at s) \<or> (\<forall>q \<in> S. same (node_at s q) (f0 q)))"
proof -
  let ?I = "held (untouched S f0) ns"
  let ?new = "\<lambda>t f. changed_at S f0 p t f \<and> has_content (file_mode None (f0 p)) data (f p)"
  let ?R = "\<lambda>res. held (\<lambda>t f. ?new t f \<and> reports ev data (f0 p) res \<and> f p = Some (wr_info res)
       \<and> may_replace ev expected overwrite (f0 p)) ns"
  let ?E = "\<lambda>e s. e = incomplete \<or> in_place S f0 p data (node_at s) \<or> (\<forall>q \<in> S. same (node_at s q) (f0 q))"
  let ?Q = "\<lambda>(res, recorded) s. in_place S f0 p data (node_at s) \<and> reports ev data (f0 p) res
       \<and> may_replace ev expected overwrite (f0 p)
       \<and> (recorded \<noteq> None \<longleftrightarrow> history \<and> history_resource ws p \<noteq> None)"
  define he where "he = (history \<and> history_resource ws p \<noteq> None)"
  have IE: "?I s \<Longrightarrow> ?E e s" for e s by (simp add: held_def untouched_def same_def)
  have RE: "?R res s \<Longrightarrow> in_place S f0 p data (node_at s)" for res s
    by (auto simp: held_def changed_at_def in_place_def same_def)
  have target: "valid ?I (if history then validate_history_target p else ret ()) (\<lambda>_. ?I) ?E"
    by (rule valid_weaken[OF keeps_valid[of ?I]])
      (use framed_stable[OF framed_untouched] in \<open>auto intro!: keeps_intro keeps_validate_history_target IE\<close>)
  have body: "valid ?I (write_file ev p data expected overwrite create he) ?R ?E"
    by (rule valid_weaken[OF valid_write_file[OF apart p parents]])
      (auto simp: held_def changed_at_def in_place_def untouched_def same_def)
  have recorded: "valid (?R res)
    (pbind (record_file_history ev hs ws p (wr_old res) (Some data) (wr_old_info res) (Some (wr_info res))) (\<lambda>b. ret (Some b)))
    (\<lambda>r s. ?R res s \<and> r \<noteq> None) ?E" for res
  proof (rule valid_bind[OF validI])
    fix s
    assume h: "?R res s"
    then have rep: "reports ev data (f0 p) res" by (simp add: held_def)
    then have old: "recalls f0 p (wr_old res) (wr_old_info res)"
      by (auto simp: recalls_def reports_def split: option.splits)
    show "?R res s'" if "record_file_history ev hs ws p (wr_old res) (Some data) (wr_old_info res) (Some (wr_info res)) s = (Inr b, s')" for b s'
      using record_same_state[OF that] h by simp
    show "?E e s'" if e: "record_file_history ev hs ws p (wr_old res) (Some data) (wr_old_info res) (Some (wr_info res)) s = (Inl e, s')" for e s'
    proof -
      have "held (undone S {p} f0 (fields_of s)) ns s"
        using h by (auto simp: held_def undone_def changed_at_def same_def)
      from record_fails[OF apart p old this e] RE[OF h] show ?thesis by blast
    qed
  next
    show "valid (?R res) (ret (Some b)) (\<lambda>r s. ?R res s \<and> r \<noteq> None) ?E" for b by (rule valid_ret) simp
  qed
  have skipped: "valid (?R res) (if he
      then pbind (record_file_history ev hs ws p (wr_old res) (Some data) (wr_old_info res) (Some (wr_info res))) (\<lambda>b. ret (Some b))
      else ret None) (\<lambda>r s. ?R res s \<and> (r \<noteq> None \<longleftrightarrow> he)) ?E" for res
    by (cases he) (use recorded in \<open>auto intro!: valid_ret\<close>)
  have RQ: "in_place S f0 p data (node_at s) \<and> reports ev data (f0 p) res \<and> may_replace ev expected overwrite (f0 p)"
    if "?R res s" for res s
    using RE[OF that] that by (simp add: held_def)
  have final: "valid (\<lambda>s. ?R res s \<and> (r \<noteq> None \<longleftrightarrow> he)) (if cancelled then raise CancelledError else ret (res, r)) ?Q ?E" for res r
  proof (intro valid_if valid_raise valid_ret)
    fix s
    assume "?R res s \<and> (r \<noteq> None \<longleftrightarrow> he)"
    then have h: "?R res s" "r \<noteq> None \<longleftrightarrow> he" by blast+
    from RQ[OF h(1)] h(2) show "?E CancelledError s" and "?Q (res, r) s" by (simp_all add: he_def)
  qed
  show ?thesis unfolding write_data_def he_def[symmetric] Let_def
    by (rule valid_seq[OF target], rule valid_bind[OF body], rule valid_bind[OF skipped], rule final[folded he_def])
qed

end
