(* ===== verification/File_Edit_Proofs.thy ===== *)
theory File_Edit_Proofs
  imports File_Edits File_Recording "HOL-Library.Sublist"
begin

text \<open>
  The exact replacements are the ones at the leftmost disjoint places of the old text, and patching a
  file with them leaves the old or the new content.
\<close>

section \<open>Cutting a text at the places of another\<close>

text \<open>Every piece but the last ends where the first occurrence begins; the last has none.\<close>

fun cut_at :: "pystr \<Rightarrow> pystr list \<Rightarrow> bool" where
  "cut_at old [] = False"
| "cut_at old [p] = (\<not> sublist old p)"
| "cut_at old (p # q # ps) = ((\<forall>a b. p @ old = a @ old @ b \<longrightarrow> b = []) \<and> cut_at old (q # ps))"

lemma cut_exists:
  assumes "old \<noteq> []"
  shows "\<exists>ps. cut_at old ps \<and> tx = join_with old ps"
proof (induction "length tx" arbitrary: tx rule: less_induct)
  case less
  show ?case
  proof (cases "sublist old tx")
    case False
    then show ?thesis by (intro exI[of _ "[tx]"]) simp
  next
    case True
    then obtain a0 where "\<exists>b. tx = a0 @ old @ b" by (auto simp: sublist_def)
    from ex_has_least_nat[where P = "\<lambda>a. \<exists>b. tx = a @ old @ b" and m = length, OF this]
    obtain a b where t: "tx = a @ old @ b" and least: "\<And>x y. tx = x @ old @ y \<Longrightarrow> length a \<le> length x"
      by blast
    have "length b < length tx" using assms by (simp add: t)
    from less[OF this] obtain ps where ps: "cut_at old ps" "b = join_with old ps" by blast
    then obtain q qs where q: "ps = q # qs" by (cases ps) auto
    have "y = []" if "a @ old = x @ old @ y" for x y
    proof -
      have "length a \<le> length x" by (rule least[of x "y @ b"]) (use that t in simp)
      with arg_cong[OF that, of length] show ?thesis by simp
    qed
    with ps q t show ?thesis by (intro exI[of _ "a # ps"]) auto
  qed
qed

lemma first_occurrence:
  assumes "old \<noteq> []" and "\<forall>a b. c # p @ old = a @ old @ b \<longrightarrow> b = []"
  shows "strip_prefix old (c # p @ old @ r) = None" and "\<forall>a b. p @ old = a @ old @ b \<longrightarrow> b = []"
proof -
  show "strip_prefix old (c # p @ old @ r) = None"
  proof (rule ccontr)
    assume "strip_prefix old (c # p @ old @ r) \<noteq> None"
    then obtain x where x: "c # p @ old @ r = old @ x" by (auto simp: strip_prefix_Some_iff)
    have "take (Suc (length p) + length old) (c # p @ old @ r) = c # p @ old" by simp
    moreover have "take (Suc (length p) + length old) (old @ x) = [] @ old @ take (Suc (length p)) x" by simp
    ultimately have e: "c # p @ old = [] @ old @ take (Suc (length p)) x" using x by simp
    with assms(2) have "take (Suc (length p)) x = []" by blast
    with arg_cong[OF e, of length] show False by simp
  qed
  show "\<forall>a b. p @ old = a @ old @ b \<longrightarrow> b = []"
    using assms(2) by (metis append_Cons)
qed

lemma str_count_skip:
  assumes "old \<noteq> []" and "\<forall>a b. p @ old = a @ old @ b \<longrightarrow> b = []"
  shows "str_count old (p @ old @ r) = Suc (str_count old r)"
  using assms(2)
proof (induction p)
  case Nil
  then show ?case using assms(1) by (simp add: str_count.simps[of old "old @ r"])
next
  case (Cons c p)
  note f = first_occurrence[OF assms(1) Cons.prems[unfolded append_Cons]]
  show ?case using f(1)[of r] Cons.IH[OF f(2)] assms(1) by (simp add: str_count.simps[of old "c # _"])
qed

lemma str_replace_skip:
  assumes "old \<noteq> []" and "\<forall>a b. p @ old = a @ old @ b \<longrightarrow> b = []" and "k \<noteq> Some 0"
  shows "str_replace old new k (p @ old @ r) = p @ new @ str_replace old new (less_one k) r"
  using assms(2)
proof (induction p)
  case Nil
  then show ?case using assms(1,3) by (simp add: str_replace.simps[of old new k "old @ r"])
next
  case (Cons c p)
  note f = first_occurrence[OF assms(1) Cons.prems[unfolded append_Cons]]
  show ?case using f(1)[of r] Cons.IH[OF f(2)] assms(1,3) by (simp add: str_replace.simps[of old new k "c # _"])
qed

lemma no_occurrence:
  assumes "old \<noteq> []" and "\<not> sublist old p"
  shows "str_count old p = 0" and "str_replace old new k p = p"
proof -
  have none: "strip_prefix old s = None" if "\<not> sublist old s" for s
    using that by (cases "strip_prefix old s") (auto simp: strip_prefix_Some_iff sublist_def)
  have tl: "\<not> sublist old (c # s) \<Longrightarrow> \<not> sublist old s" for c s by (meson sublist_Cons_right)
  have "str_count old p = 0 \<and> str_replace old new k p = p"
    using assms(2)
  proof (induction p)
    case Nil
    then show ?case using none[of "[]"] assms(1) by (simp add: str_count.simps[of old "[]"] str_replace.simps[of old new k "[]"])
  next
    case (Cons c p)
    then show ?case using none[OF Cons.prems] tl[OF Cons.prems] assms(1)
      by (simp add: str_count.simps[of old "c # _"] str_replace.simps[of old new k "c # _"])
  qed
  then show "str_count old p = 0" "str_replace old new k p = p" by auto
qed

lemma str_count_cut: "old \<noteq> [] \<Longrightarrow> cut_at old ps \<Longrightarrow> str_count old (join_with old ps) = length ps - 1"
  by (induction old ps rule: cut_at.induct) (auto simp: no_occurrence str_count_skip Suc_diff_Suc)

lemma str_replace_all_cut: "old \<noteq> [] \<Longrightarrow> cut_at old ps \<Longrightarrow> str_replace old new None (join_with old ps) = join_with new ps"
  by (induction old ps rule: cut_at.induct) (auto simp: no_occurrence str_replace_skip)

lemma str_replace_zero [simp]: "str_replace old new (Some 0) s = s"
  by (simp add: str_replace.simps)

lemma str_replace_some_cut:
  "old \<noteq> [] \<Longrightarrow> cut_at old ps \<Longrightarrow> k < length ps \<Longrightarrow>
    str_replace old new (Some k) (join_with old ps) = join_with new (take k ps @ [join_with old (drop k ps)])"
proof (induction old ps arbitrary: k rule: cut_at.induct)
  case (3 old p q ps)
  show ?case
  proof (cases k)
    case 0
    then show ?thesis by simp
  next
    case (Suc j)
    obtain x xs where x: "take j (q # ps) @ [join_with old (drop j (q # ps))] = x # xs"
      by (cases "take j (q # ps) @ [join_with old (drop j (q # ps))]") auto
    have "str_replace old new (Some k) (join_with old (p # q # ps))
        = p @ new @ join_with new (take j (q # ps) @ [join_with old (drop j (q # ps))])"
      using 3 Suc by (simp add: str_replace_skip)
    also have "\<dots> = join_with new (take k (p # q # ps) @ [join_with old (drop k (p # q # ps))])"
      using x by (simp add: Suc)
    finally show ?thesis .
  qed
qed (simp_all add: no_occurrence)

section \<open>What an edit means\<close>

definition replaces :: "pyval \<Rightarrow> pystr \<Rightarrow> pystr \<Rightarrow> bool" where
  "replaces e tx u \<longleftrightarrow> (\<exists>d old new ps. e = PDict d \<and> get d (lit ''old'') = Some (PStr old)
     \<and> get d (lit ''new'') = Some (PStr new) \<and> old \<noteq> [] \<and> cut_at old ps \<and> tx = join_with old ps
     \<and> (case get_or d (lit ''count'') PNone of
          PNone \<Rightarrow> length ps = 2 \<and> u = join_with new ps
        | PStr w \<Rightarrow> w = lit ''all'' \<and> 2 \<le> length ps \<and> u = join_with new ps
        | PInt k \<Rightarrow>
            if k = -1 then 2 \<le> length ps \<and> u = join_with new ps
            else 1 \<le> k \<and> k < int (length ps)
              \<and> u = join_with new (take (nat k) ps @ [join_with old (drop (nat k) ps)])
        | _ \<Rightarrow> False))"

fun edits_to :: "pyval list \<Rightarrow> pystr \<Rightarrow> pystr \<Rightarrow> bool" where
  "edits_to [] tx u = (u = tx)"
| "edits_to (e # es) tx u = (\<exists>v. replaces e tx v \<and> edits_to es v u)"

lemma apply_edit_replaces: "apply_edit tx e = Inr u \<longleftrightarrow> replaces e tx u"
proof -
  consider (ok) d old new where "e = PDict d" "get d (lit ''old'') = Some (PStr old)"
      "get d (lit ''new'') = Some (PStr new)" "old \<noteq> []"
    | (bad) "\<not> (\<exists>d old new. e = PDict d \<and> get d (lit ''old'') = Some (PStr old)
      \<and> get d (lit ''new'') = Some (PStr new) \<and> old \<noteq> [])" by blast
  then show ?thesis
  proof cases
    case ok
    obtain ps where ps: "cut_at old ps" "tx = join_with old ps" using cut_exists[OF ok(4)] by blast
    have len: "length ps \<noteq> 0" using ps(1) by auto
    have count: "str_count old tx = length ps - 1" using ps by (simp add: str_count_cut ok(4))
    have unique: "length qs = length ps \<and> join_with new qs = join_with new ps
        \<and> (k < length ps \<longrightarrow> join_with new (take k qs @ [join_with old (drop k qs)]) = join_with new (take k ps @ [join_with old (drop k ps)]))"
      if "cut_at old qs" "tx = join_with old qs" for qs k
    proof -
      have "length qs \<noteq> 0" using that(1) by auto
      with str_count_cut[OF ok(4) that(1), folded that(2)] count len have l: "length qs = length ps" by linarith
      moreover have "join_with new qs = join_with new ps"
        using str_replace_all_cut[OF ok(4) that(1), of new] str_replace_all_cut[OF ok(4) ps(1), of new] that(2) ps(2) by simp
      ultimately show ?thesis
        using str_replace_some_cut[OF ok(4) that(1), of k new] str_replace_some_cut[OF ok(4) ps(1), of k new] that(2) ps(2) by simp
    qed
    have meaning: "replaces e tx u \<longleftrightarrow> (case get_or d (lit ''count'') PNone of
          PNone \<Rightarrow> length ps = 2 \<and> u = join_with new ps
        | PStr w \<Rightarrow> w = lit ''all'' \<and> 2 \<le> length ps \<and> u = join_with new ps
        | PInt k \<Rightarrow>
            if k = -1 then 2 \<le> length ps \<and> u = join_with new ps
            else 1 \<le> k \<and> k < int (length ps)
              \<and> u = join_with new (take (nat k) ps @ [join_with old (drop (nat k) ps)])
        | _ \<Rightarrow> False)"
      (is "_ \<longleftrightarrow> ?M ps")
    proof
      assume "replaces e tx u"
      then obtain qs where qs: "cut_at old qs" "tx = join_with old qs" and m: "?M qs"
        using ok by (auto simp: replaces_def)
      then show "?M ps"
        using unique[OF qs] by (auto split: pyval.splits if_splits)
    next
      assume "?M ps"
      then show "replaces e tx u" unfolding replaces_def using ok ps by blast
    qed
    have two: "join_with new (take (Suc 0) ps @ [join_with old (drop (Suc 0) ps)]) = join_with new ps"
      if "length ps = 2"
      using that by (cases ps; cases "tl ps") auto
    show ?thesis
      unfolding meaning
      using two ok count len ps(2) str_replace_all_cut[OF ok(4) ps(1), of new] str_replace_some_cut[OF ok(4) ps(1), of _ new]
      by (auto simp: apply_edit_def split: pyval.splits if_splits)
  next
    case bad
    then show ?thesis
      by (auto simp: apply_edit_def replaces_def split: pyval.splits option.splits)
  qed
qed

theorem apply_edits_replaces: "apply_edits es tx = Inr u \<longleftrightarrow> edits_to es tx u"
proof (induction es arbitrary: tx)
  case (Cons e es)
  show ?case
  proof (cases "apply_edit tx e")
    case (Inl x)
    then have "\<not> replaces e tx v" for v by (simp flip: apply_edit_replaces)
    with Inl show ?thesis by simp
  next
    case (Inr v)
    then have "replaces e tx w \<longleftrightarrow> w = v" for w by (auto simp flip: apply_edit_replaces)
    with Inr Cons show ?thesis by simp
  qed
qed auto

section \<open>Patching\<close>

text \<open>What the file holds when the edits are applied to what it held.\<close>

definition patched_to :: "codec \<Rightarrow> pyval list \<Rightarrow> node option \<Rightarrow> bytes \<Rightarrow> bool" where
  "patched_to cd es v new \<longleftrightarrow> (\<exists>n original updated. v = Some n \<and> n_kind n = Regular
     \<and> cd_decode cd (n_data n) = Inr original \<and> edits_to es original updated \<and> cd_encode cd updated = Inr new)"

definition patch_reports :: "env \<Rightarrow> codec \<Rightarrow> pyval list \<Rightarrow> pystr option \<Rightarrow> bool \<Rightarrow> node option \<Rightarrow> file_patch \<Rightarrow> bool" where
  "patch_reports ev cd es expected dry v res \<longleftrightarrow> patched_to cd es v (fp_new res)
     \<and> v = Some (fp_old_info res) \<and> fp_old res = n_data (fp_old_info res)
     \<and> check_expected ev (Some (fp_old res)) expected = Inr () \<and> fp_dry_run res = dry
     \<and> fp_changed res = (fp_new res \<noteq> fp_old res) \<and> fp_revision res = sha ev (fp_new res)"

lemma valid_patch_file:
  fixes f0 :: "path \<Rightarrow> node option" and es :: "pyval list" and cd :: codec
  assumes apart: "names_apart S ns" and p: "p \<in> S"
  defines "new \<equiv> \<lambda>s. \<exists>data. patched_to cd es (f0 p) data \<and> held (undone S {p} f0 (False, None, False)) ns s
     \<and> in_place S f0 p data (node_at s)"
  shows "valid (held (pristine S f0) ns) (patch_file ev cd p display es expected dry limit history)
    (\<lambda>res s. patch_reports ev cd es expected dry (f0 p) res
       \<and> (if dry \<or> fp_new res = fp_old res then held (pristine S f0) ns s
          else held (undone S {p} f0 (False, None, False)) ns s \<and> in_place S f0 p (fp_new res) (node_at s)))
    (\<lambda>_ s. held (pristine S f0) ns s \<or> \<not> dry \<and> new s)"
proof -
  let ?P = "held (pristine S f0) ns" and ?U = "undone S {p} f0 (False, None, False)"
  let ?E = "\<lambda>e s. ?P s \<or> \<not> dry \<and> new s"
  let ?Q = "\<lambda>res s. patch_reports ev cd es expected dry (f0 p) res
       \<and> (if dry \<or> fp_new res = fp_old res then ?P s
          else held ?U ns s \<and> in_place S f0 p (fp_new res) (node_at s))"
  let ?b = "if history then Some (blob_limit ev) else None"
  have PE: "?P s \<Longrightarrow> ?E e s" for e s by blast
  have up: "valid ?P m R (\<lambda>_. ?P) \<Longrightarrow> valid ?P m R ?E" for m :: "(wtxn, 'x) prog" and R
    by (erule valid_weaken) (assumption, assumption, rule PE)
  have known: "valid ?P (lift r) (\<lambda>x. held (\<lambda>t f. pristine S f0 t f \<and> r = Inr x) ns) ?E" for r :: "'x result"
    by (rule up, rule valid_lift) (auto simp: held_def)
  have stat: "valid ?P (sys_stat p) (\<lambda>i. held (\<lambda>t f. pristine S f0 t f \<and> f0 p = Some i) ns) ?E"
    by (rule up, rule valid_weaken[OF valid_sys_stat[OF stable_pristine[of S f0], where ns = ns]])
      (use p in \<open>auto simp: held_def pristine_def\<close>)
  have content: "valid ?P (as_history_error (read_regular p ?b))
    (\<lambda>(d, i). held (\<lambda>t f. pristine S f0 t f \<and> f0 p = Some i \<and> d = n_data i) ns) ?E"
    by (rule up, rule valid_as_history_error, rule valid_weaken[OF valid_read_regular[OF stable_pristine[of S f0], where ns = ns]])
      (use p in \<open>auto simp: held_def pristine_def split: prod.splits\<close>)
  have final: "valid ?P (pbind (if \<not> dry \<and> data \<noteq> n_data n then atomic_write (ret ()) p data (Some (n_data n)) (Some n) ?b None
                   else ret n) (\<lambda>new_info.
              ret \<lparr>fp_changed = (data \<noteq> n_data n), fp_dry_run = dry, fp_old_revision = sha ev (n_data n),
                   fp_revision = sha ev data, fp_size = length data, fp_diff = diff, fp_diff_truncated = truncated,
                   fp_old = n_data n, fp_new = data, fp_old_info = n, fp_new_info = new_info\<rparr>)) ?Q ?E"
    if n: "f0 p = Some n" "check_expected ev (Some (n_data n)) expected = Inr ()" and to: "patched_to cd es (f0 p) data"
    for n data diff truncated
  proof (cases "\<not> dry \<and> data \<noteq> n_data n")
    case True
    have put: "valid ?P (atomic_write (ret ()) p data (Some (n_data n)) (Some n) ?b None)
      (\<lambda>_ s. held ?U ns s \<and> in_place S f0 p data (node_at s)) ?E"
      unfolding ret_ghost
      by (rule valid_weaken[OF valid_atomic_write[OF apart framed_pristine[of S f0] framed_undone[of S "{p}" f0 "(False, None, False)"] p ghost_id]])
        (use True n to in \<open>auto simp: held_def undone_def pristine_def same_def in_place_def new_def split: if_splits\<close>)
    show ?thesis unfolding if_P[OF True]
      by (rule valid_bind[OF put], rule valid_ret) (use True n to in \<open>auto simp: patch_reports_def\<close>)
  next
    case False
    show ?thesis unfolding if_not_P[OF False]
      by (rule valid_bind[where R = "\<lambda>_. ?P"], rule valid_ret, assumption, rule valid_ret)
        (use False n to in \<open>auto simp: patch_reports_def\<close>)
  qed
  show ?thesis unfolding patch_file_def Let_def
  proof (rule valid_bind[OF stat], rule valid_pure)
    fix info
    assume info: "f0 p = Some info"
    have sizes: "valid ?P (if history then lift (validate_history_stat_size ev info) else ret ()) (\<lambda>_. ?P) ?E"
      by (intro valid_if valid_lift valid_ret PE)
    show "valid ?P (pseq (lift (require_regular info))
      (pseq (if history then lift (validate_history_stat_size ev info) else ret ())
       (pbind (as_history_error (read_regular p ?b)) (\<lambda>(old, old_info).
        pseq (lift (check_expected ev (Some old) expected))
         (pbind (lift (cd_decode cd old)) (\<lambda>original.
          pbind (lift (apply_edits es original)) (\<lambda>updated.
          pbind (lift (cd_encode cd updated)) (\<lambda>new.
          pseq (if history then lift (validate_history_size ev (Some old) (Some new)) else ret ())
           (pbind (lift (bounded_diff ev display original updated limit)) (\<lambda>(diff, truncated).
            pbind (if \<not> dry \<and> new \<noteq> old then atomic_write (ret ()) p new (Some old) (Some old_info) ?b None
                   else ret old_info) (\<lambda>new_info.
              ret \<lparr>fp_changed = (new \<noteq> old), fp_dry_run = dry, fp_old_revision = sha ev old,
                   fp_revision = sha ev new, fp_size = length new, fp_diff = diff, fp_diff_truncated = truncated,
                   fp_old = old, fp_new = new, fp_old_info = old_info, fp_new_info = new_info\<rparr>))))))))))) ?Q ?E"
    proof (unfold pseq_def[of "lift (require_regular info)"], rule valid_bind[OF known], rule valid_pure, rule valid_seq[OF sizes],
        rule valid_bind[OF content], rule valid_split, rule valid_pure, elim conjE,
        unfold pseq_def[of "lift (check_expected _ _ _)"], rule valid_bind[OF known], rule valid_pure,
        rule valid_bind[OF known], rule valid_pure, rule valid_bind[OF known], rule valid_pure, rule valid_bind[OF known], rule valid_pure)
      fix u old i c original updated data
      assume facts: "require_regular info = Inr u" "f0 p = Some i" "old = n_data i"
        "check_expected ev (Some old) expected = Inr c" "cd_decode cd old = Inr original"
        "apply_edits es original = Inr updated" "cd_encode cd updated = Inr data"
      then have to: "patched_to cd es (f0 p) data"
        using info by (auto simp: patched_to_def require_regular_def apply_edits_replaces split: if_splits)
      have sizes: "valid ?P (if history then lift (validate_history_size ev (Some old) (Some data)) else ret ()) (\<lambda>_. ?P) ?E"
        by (intro valid_if valid_lift valid_ret PE)
      show "valid ?P (pseq (if history then lift (validate_history_size ev (Some old) (Some data)) else ret ())
           (pbind (lift (bounded_diff ev display original updated limit)) (\<lambda>(diff, truncated).
            pbind (if \<not> dry \<and> data \<noteq> old then atomic_write (ret ()) p data (Some old) (Some i) ?b None
                   else ret i) (\<lambda>new_info.
              ret \<lparr>fp_changed = (data \<noteq> old), fp_dry_run = dry, fp_old_revision = sha ev old,
                   fp_revision = sha ev data, fp_size = length data, fp_diff = diff, fp_diff_truncated = truncated,
                   fp_old = old, fp_new = data, fp_old_info = i, fp_new_info = new_info\<rparr>)))) ?Q ?E"
        by (rule valid_seq[OF sizes], rule valid_bind[OF up[OF valid_lift[where Q = "\<lambda>_. ?P"]]], assumption, assumption,
            simp only: split_beta facts(3), rule final) (use facts to in auto)
    qed
  qed
qed

lemma valid_patch_text:
  fixes f0 :: "path \<Rightarrow> node option" and ws :: path
  assumes apart: "names_apart S ns" and p: "p \<in> S"
  shows "valid (held (pristine S f0) ns) (patch_text ev hs cd ws p display edits expected dry_run limit history cancelled)
    (\<lambda>(res, recorded) s. \<exists>es dry. edits = PList es \<and> dry_run = PBool dry
       \<and> patch_reports ev cd es expected dry (f0 p) res
       \<and> (if dry \<or> fp_new res = fp_old res then \<forall>q \<in> S. node_at s q = f0 q
          else in_place S f0 p (fp_new res) (node_at s)))
    (\<lambda>e s. e = incomplete \<or> (\<forall>q \<in> S. same (node_at s q) (f0 q))
       \<or> dry_run \<noteq> PBool True
         \<and> (\<exists>es data. edits = PList es \<and> patched_to cd es (f0 p) data \<and> in_place S f0 p data (node_at s)))"
proof -
  let ?P = "held (pristine S f0) ns" and ?U = "held (undone S {p} f0 (False, None, False)) ns"
  let ?Q = "\<lambda>(res, recorded) s. \<exists>es dry. edits = PList es \<and> dry_run = PBool dry
       \<and> patch_reports ev cd es expected dry (f0 p) res
       \<and> (if dry \<or> fp_new res = fp_old res then \<forall>q \<in> S. node_at s q = f0 q
          else in_place S f0 p (fp_new res) (node_at s))"
  let ?E = "\<lambda>e s. e = incomplete \<or> (\<forall>q \<in> S. same (node_at s q) (f0 q))
       \<or> dry_run \<noteq> PBool True
         \<and> (\<exists>es data. edits = PList es \<and> patched_to cd es (f0 p) data \<and> in_place S f0 p data (node_at s))"
  have PE: "?P s \<Longrightarrow> ?E e s" for e s by (simp add: held_def pristine_def same_def)
  have body: "valid ?P (pseq (if hist then validate_history_target p else ret ())
       (pbind (patch_file ev cd p display es expected dry m he) (\<lambda>res.
        pbind (if he \<and> \<not> dry
               then pbind (record_file_history ev hs ws p (Some (fp_old res)) (Some (fp_new res))
                        (Some (fp_old_info res)) (Some (fp_new_info res))) (\<lambda>b. ret (Some b))
               else ret None) (\<lambda>recorded.
          if cancelled then raise CancelledError else ret (res, recorded))))) ?Q ?E"
    if a: "edits = PList es" "dry_run = PBool dry" for es dry m he hist
  proof -
    let ?R = "\<lambda>res s. patch_reports ev cd es expected dry (f0 p) res
       \<and> (if dry \<or> fp_new res = fp_old res then ?P s else ?U s \<and> in_place S f0 p (fp_new res) (node_at s))"
    have RE: "?E e s" if "?R res s" for e s res
    proof (cases "dry \<or> fp_new res = fp_old res")
      case True
      with that have "?P s" by (auto split: if_splits)
      then show ?thesis by (rule PE)
    next
      case False
      with that a show ?thesis by (auto simp: patch_reports_def)
    qed
    have target: "valid ?P (if hist then validate_history_target p else ret ()) (\<lambda>_. ?P) ?E"
      by (rule valid_weaken[OF keeps_valid[of ?P]], intro keeps_intro, assumption, assumption, erule PE)
    have patched: "valid ?P (patch_file ev cd p display es expected dry m he) ?R ?E"
      by (rule valid_weaken[OF valid_patch_file[OF apart p]], assumption, assumption, erule disjE, erule PE) (use a in auto)
    have recorded: "valid (?R res) (if he \<and> \<not> dry
               then pbind (record_file_history ev hs ws p (Some (fp_old res)) (Some (fp_new res))
                        (Some (fp_old_info res)) (Some (fp_new_info res))) (\<lambda>b. ret (Some b))
               else ret None) (\<lambda>_. ?R res) ?E" for res
    proof (rule valid_if, rule valid_bind[OF validI])
      fix s
      assume h: "?R res s"
      then have old: "recalls f0 p (Some (fp_old res)) (Some (fp_old_info res))"
        by (auto simp: recalls_def patch_reports_def patched_to_def)
      have weak: "?U s"
        using h by (auto simp: held_def undone_def pristine_def same_def split: if_splits)
      show "?R res s'" if "record_file_history ev hs ws p (Some (fp_old res)) (Some (fp_new res))
            (Some (fp_old_info res)) (Some (fp_new_info res)) s = (Inr b, s')" for b s'
        using record_same_state[OF that] h by simp
      show "?E e s'" if "record_file_history ev hs ws p (Some (fp_old res)) (Some (fp_new res))
            (Some (fp_old_info res)) (Some (fp_new_info res)) s = (Inl e, s')" for e s'
        using record_fails[OF apart p old weak that] RE[OF h] by blast
    next
      show "valid (?R res) (ret (Some b)) (\<lambda>_. ?R res) ?E" for b by (rule valid_ret) assumption
      show "valid (?R res) (ret None) (\<lambda>_. ?R res) ?E" by (rule valid_ret) assumption
    qed
    have final: "valid (?R res) (if cancelled then raise CancelledError else ret (res, recorded)) ?Q ?E" for res recorded
    proof (intro valid_if valid_raise valid_ret)
      fix s
      assume h: "?R res s"
      show "?E CancelledError s" by (rule RE[OF h])
      show "?Q (res, recorded) s" using h a by (auto simp: held_def pristine_def)
    qed
    show ?thesis
      by (rule valid_seq[OF target], rule valid_bind[OF patched], rule valid_bind[OF recorded], rule final)
  qed
  have bad: "valid ?P (raise e) ?Q ?E" for e by (rule valid_raise) (rule PE)
  show ?thesis
  proof (cases "\<exists>es dry m hist. edits = PList es \<and> dry_run = PBool dry \<and> limit = PInt m \<and> \<not> m < 1 \<and> history = PBool hist")
    case True
    then obtain es dry m hist where a: "edits = PList es" "dry_run = PBool dry" "limit = PInt m" "\<not> m < 1" "history = PBool hist"
      by blast
    have "patch_text ev hs cd ws p display edits expected dry_run limit history cancelled =
      (let he = (hist \<and> history_resource ws p \<noteq> None) in
       pseq (if hist then validate_history_target p else ret ())
       (pbind (patch_file ev cd p display es expected dry (nat m) he) (\<lambda>res.
        pbind (if he \<and> \<not> dry
               then pbind (record_file_history ev hs ws p (Some (fp_old res)) (Some (fp_new res))
                        (Some (fp_old_info res)) (Some (fp_new_info res))) (\<lambda>b. ret (Some b))
               else ret None) (\<lambda>recorded.
          if cancelled then raise CancelledError else ret (res, recorded)))))"
      unfolding patch_text_def a pyval.case Let_def if_not_P[OF a(4)] ..
    then show ?thesis unfolding Let_def by (simp only:) (rule body[OF a(1,2)])
  next
    case False
    then have "\<exists>e. patch_text ev hs cd ws p display edits expected dry_run limit history cancelled = raise e"
      by (auto simp: patch_text_def split: pyval.splits if_splits)
    then obtain e where "patch_text ev hs cd ws p display edits expected dry_run limit history cancelled = raise e" ..
    then show ?thesis by (simp only: bad)
  qed
qed

end
