(* ===== verification/File_Patches.thy ===== *)
theory File_Patches
  imports File_Edit_Proofs File_Operations
begin

text \<open>
  What \<open>patch\<close> promises for one file, and what its edits mean.
\<close>

text \<open>
  C16: the edits succeed exactly when every one of them finds as many leftmost disjoint places of its
  old text as it asks for, and the result has the new text at these places and nothing else changed.
\<close>

theorem apply_edits_exact: "apply_edits es tx = Inr u \<longleftrightarrow> edits_to es tx u"
  by (rule apply_edits_replaces)

text \<open>
  C7: a patch leaves the old content, with its mode, or the content that the edits make of it,
  whichever calls of the file system, the codec and the history fail, unless it says that the rollback
  was incomplete; a dry run changes nothing.
\<close>

theorem patch_old_or_edited:
  assumes p: "p \<in> S" and apart: "names_apart S (set (fs_names t))"
    and calm: "calm (fs_script t)" and fresh: "fields_of t = (False, None, False)"
    and run: "patch_text ev hs cd ws p display edits expected dry_run limit history cancelled t = (r, t')"
  shows "case r of
      Inr (res, _) \<Rightarrow> \<exists>es dry. edits = PList es \<and> dry_run = PBool dry
        \<and> patch_reports ev cd es expected dry (node_at t p) res
        \<and> (if dry \<or> fp_new res = fp_old res then \<forall>q \<in> S. node_at t' q = node_at t q
           else in_place S (node_at t) p (fp_new res) (node_at t'))
    | Inl e \<Rightarrow> e = incomplete \<or> (\<forall>q \<in> S. same (node_at t' q) (node_at t q))
        \<or> dry_run \<noteq> PBool True
          \<and> (\<exists>es data. edits = PList es \<and> patched_to cd es (node_at t p) data
               \<and> in_place S (node_at t) p data (node_at t'))"
proof -
  have h: "held (pristine S (node_at t)) (set (fs_names t)) t"
    using calm fresh by (simp add: held_def pristine_def)
  note v = valid_patch_text[OF apart p, of _ ev hs cd ws display edits expected dry_run limit history cancelled]
  show ?thesis
  proof (cases r)
    case (Inl e)
    from validD(2)[OF v h run[unfolded Inl]] show ?thesis unfolding Inl by simp
  next
    case (Inr x)
    from validD(1)[OF v h run[unfolded Inr]] show ?thesis unfolding Inr by (simp add: split_beta)
  qed
qed

text \<open>The only place counts as one match although a second one overlaps it.\<close>

lemma overlapping_place_unseen:
  "apply_edits [PDict [(lit ''old'', PStr (lit ''aa'')), (lit ''new'', PStr (lit ''b''))]] (lit ''aaa'')
     = Inr (lit ''ba'')
   \<and> lit ''aaa'' = lit ''a'' @ lit ''aa'' @ []"
  by code_simp

definition ascii_codec :: codec where
  "ascii_codec = \<lparr>cd_decode = (\<lambda>d. Inr (map unat d)), cd_encode = (\<lambda>s. Inr (map of_nat s))\<rparr>"

definition sample_edits :: pyval where
  "sample_edits = PList [PDict [(lit ''old'', PStr [7]), (lit ''new'', PStr [1, 2])]]"

definition sample_patch where
  "sample_patch = patch_text sample_env failing_history ascii_codec [] [[97]] [97] sample_edits (Some [7])
     (PBool False) (PInt 100) (PBool True) False (sample_wtxn [])"

lemma sample_patch_fails:
  "fst sample_patch = Inl rolled_back \<and> map_option n_data (node_at (snd sample_patch) [[97]]) = Some [7]"
  by code_simp

lemma sample_edits_once: "apply_edits [PDict [(lit ''old'', PStr [7]), (lit ''new'', PStr [1, 2])]] [7] = Inr [1, 2]"
  by code_simp

theorem patch_old_or_edited_witness:
  "same (node_at (snd sample_patch) [[97]]) (node_at (sample_wtxn []) [[97]])"
proof -
  have r: "sample_patch = (Inl rolled_back, snd sample_patch)"
    using sample_patch_fails by (simp add: prod_eq_iff)
  have "(\<forall>q \<in> {[[97]], [[98]]}. same (node_at (snd sample_patch) q) (node_at (sample_wtxn []) q))
     \<or> (\<exists>es data. sample_edits = PList es \<and> patched_to ascii_codec es (node_at (sample_wtxn []) [[97]]) data
               \<and> in_place {[[97]], [[98]]} (node_at (sample_wtxn [])) [[97]] data (node_at (snd sample_patch)))"
    using patch_old_or_edited[OF _ sample_apart sample_fresh(1,3) r[unfolded sample_patch_def]]
    by (simp add: sample_patch_def[symmetric]) (simp add: rolled_back_def incomplete_def)
  moreover have "data = [1, 2]" if "sample_edits = PList es"
      "patched_to ascii_codec es (node_at (sample_wtxn []) [[97]]) data" for es data
    using that sample_edits_once
    by (auto simp: patched_to_def sample_edits_def ascii_codec_def node_at_def sample_wtxn_def sample_file_def
        simp flip: apply_edits_replaces simp del: lit_simps)
  ultimately show ?thesis
    using sample_patch_fails by (fastforce simp: in_place_def has_content_def)
qed

end
