(* ===== verification/File_Tree.thy ===== *)
theory File_Tree
  imports File_Transactions Config_Values "HOL-Library.List_Lexorder" "HOL-Library.Multiset"
begin

text \<open>
  The bounded directory tree of filesystem.py (\<open>tree\<close>, \<open>_tree\<close>, \<open>_children\<close>, \<open>_metadata\<close>): a walk that
  counts its entries, with a heap that keeps the smallest names of a directory.  The entries that the
  walk shows are the first ones, in the order of the names, of all that there are.
\<close>

section \<open>Metadata and names\<close>

definition display_path :: "path \<Rightarrow> path \<Rightarrow> pystr" where
  "display_path root p =
    (if starts_with root p then
       (let r = drop (length root) p in if r = [] then lit ''.'' else join_with (lit ''/'') r)
     else lit ''/'' @ join_with (lit ''/'') p)"

record metadata =
  md_path :: pystr
  md_kind :: kind
  md_size :: nat
  md_mtime :: nat
  md_mode :: nat

definition metadata_of :: "pystr \<Rightarrow> node \<Rightarrow> metadata" where
  "metadata_of display n =
    \<lparr>md_path = display, md_kind = n_kind n, md_size = length (n_data n), md_mtime = n_time n, md_mode = n_mode n\<rparr>"

definition read_metadata :: "path \<Rightarrow> pystr \<Rightarrow> (('a) fsys_scheme, metadata) prog" where
  "read_metadata p display = pbind (sys_stat p) (\<lambda>n. ret (metadata_of display n))"

text \<open>\<open>os.scandir\<close>, in the order of the table.\<close>

definition entry_names :: "(path \<times> node) list \<Rightarrow> path \<Rightarrow> pystr list" where
  "entry_names files p = remdups (map last (filter (\<lambda>q. q \<noteq> [] \<and> butlast q = p) (map fst files)))"

definition sys_scandir :: "path \<Rightarrow> (('a) fsys_scheme, pystr list) prog" where
  "sys_scandir p = syscall (\<lambda>fs. case node_at fs p of
      None \<Rightarrow> (Inl (FileNotFoundError ''''), fs)
    | Some n \<Rightarrow>
        if n_kind n \<noteq> Directory then (Inl (OSError ''not a directory''), fs)
        else (Inr (entry_names (fs_files fs) p), fs))"

section \<open>The smallest names of a directory\<close>

text \<open>
  The heap of \<open>_ReverseName\<close>s, as the list of its names in descending order: its first is the
  greatest name.
\<close>

fun heap_push :: "pystr \<Rightarrow> pystr list \<Rightarrow> pystr list" where
  "heap_push x [] = [x]"
| "heap_push x (y # ys) = (if y \<le> x then x # y # ys else y # heap_push x ys)"

definition child_step :: "nat \<Rightarrow> bool \<Rightarrow> pystr \<Rightarrow> pystr list \<Rightarrow> pystr list" where
  "child_step limit hidden name heap =
    (if \<not> hidden \<and> starts_with (lit ''.'') name then heap
     else if length heap < limit then heap_push name heap
     else if name < hd heap then heap_push name (tl heap)
     else heap)"

definition children :: "nat \<Rightarrow> bool \<Rightarrow> pystr list \<Rightarrow> pystr list \<times> bool" where
  "children limit hidden names =
    (let heap = fold (child_step limit hidden) names [] in (sort heap, length heap = limit))"

section \<open>The walk\<close>

datatype tree = Tree (tree_meta: metadata) (tree_entries: "tree list")

record ttxn = fsys +
  t_count :: nat
  t_truncated :: bool

fun visit_children :: "(path \<Rightarrow> (ttxn, tree) prog) \<Rightarrow> nat \<Rightarrow> path list \<Rightarrow> (ttxn, tree list) prog" where
  "visit_children f m [] = ret []"
| "visit_children f m (c # cs) =
    pbind (gets t_count) (\<lambda>n.
      if m \<le> n then pseq (update (\<lambda>t. t\<lparr>t_truncated := True\<rparr>)) (ret [])
      else
        pseq (update (\<lambda>t. t\<lparr>t_count := Suc (t_count t)\<rparr>))
         (pbind (f c) (\<lambda>node.
          pbind (visit_children f m cs) (\<lambda>rest. ret (node # rest)))))"

primrec visit :: "nat \<Rightarrow> path \<Rightarrow> nat \<Rightarrow> bool \<Rightarrow> path \<Rightarrow> (ttxn, tree) prog" where
  "visit 0 root m hidden p = pbind (read_metadata p (display_path root p)) (\<lambda>md. ret (Tree md []))"
| "visit (Suc d) root m hidden p =
    pbind (read_metadata p (display_path root p)) (\<lambda>md.
      if md_kind md \<noteq> Directory then ret (Tree md [])
      else
        pbind (gets t_count) (\<lambda>n.
        pbind (sys_scandir p) (\<lambda>names.
          case children (m - n + 1) hidden names of (cs, overflow) \<Rightarrow>
            pseq (update (\<lambda>t. t\<lparr>t_truncated := (t_truncated t \<or> overflow)\<rparr>))
             (pbind (visit_children (visit d root m hidden) m (map (\<lambda>c. p @ [c]) cs)) (\<lambda>entries.
              ret (Tree md entries))))))"

definition directory_tree :: "path \<Rightarrow> path \<Rightarrow> pyval \<Rightarrow> pyval \<Rightarrow> pyval \<Rightarrow> (ttxn, tree \<times> bool) prog" where
  "directory_tree root p depth max_entries hidden =
    (case depth of
       PInt d \<Rightarrow>
         if d < 0 then raise (ValueError ''depth must be a non-negative integer'')
         else
          (case max_entries of
             PInt m \<Rightarrow>
               if m < 1 then raise (ValueError ''max_entries must be a positive integer'')
               else
                (case hidden of
                   PBool h \<Rightarrow>
                     pseq (update (\<lambda>t. t\<lparr>t_count := 0, t_truncated := False\<rparr>))
                      (pbind (visit (nat d) root (nat m) h p) (\<lambda>node.
                       pbind (gets t_truncated) (\<lambda>truncated. ret (node, truncated))))
                 | _ \<Rightarrow> raise (TypeError ''hidden must be a boolean''))
           | _ \<Rightarrow> raise (ValueError ''max_entries must be a positive integer''))
     | _ \<Rightarrow> raise (ValueError ''depth must be a non-negative integer''))"

section \<open>The heap keeps the smallest names\<close>

definition shown :: "bool \<Rightarrow> pystr \<Rightarrow> bool" where
  "shown hidden name \<longleftrightarrow> hidden \<or> \<not> starts_with (lit ''.'') name"

lemma mset_heap_push [simp]: "mset (heap_push x h) = add_mset x (mset h)"
  by (induction h) auto

lemma heap_push_sorted: "sorted_wrt (\<ge>) h \<Longrightarrow> sorted_wrt (\<ge>) (heap_push x h)"
proof (induction h)
  case (Cons y ys)
  have "set (heap_push x ys) = insert x (set ys)"
    by (metis mset_heap_push set_mset_add_mset_insert set_mset_mset)
  with Cons show ?case by auto
qed simp

lemma descending_rev: "sorted_wrt (\<ge>) h \<longleftrightarrow> sorted (rev h)"
  by (simp add: sorted_wrt_rev)

lemma heap_push_rev: "sorted (rev h) \<Longrightarrow> rev (heap_push x h) = insort x (rev h)"
proof -
  assume s: "sorted (rev h)"
  then have "sorted (rev (heap_push x h))" using heap_push_sorted[of h x] by (simp add: descending_rev)
  then have "sort (x # h) = rev (heap_push x h)" by (intro properties_for_sort) auto
  moreover have "sort (x # h) = insort x (rev h)" using s by (intro properties_for_sort) (auto simp: sorted_insort)
  ultimately show ?thesis by simp
qed

lemma take_insort:
  assumes "sorted S" "x \<notin> set S" "0 < l" "l \<le> length S"
  shows "take l (insort x S) = (if x < last (take l S) then insort x (butlast (take l S)) else take l S)"
  using assms
proof (induction S arbitrary: l)
  case (Cons y ys)
  then obtain l' where l: "l = Suc l'" by (cases l) auto
  show ?case
  proof (cases l')
    case 0
    with l Cons.prems(2) show ?thesis by auto
  next
    case (Suc k)
    with l Cons.prems(4) have ne: "take l' ys \<noteq> []" by (cases ys) auto
    then have lst: "last (take l (y # ys)) = last (take l' ys)" "butlast (take l (y # ys)) = y # butlast (take l' ys)"
      by (simp_all add: l)
    have in_ys: "last (take l' ys) \<in> set ys" using last_in_set[OF ne] by (metis in_set_takeD)
    show ?thesis
    proof (cases "x \<le> y")
      case True
      with Cons.prems(2) have "x < y" by auto
      with in_ys Cons.prems(1) have "x < last (take l' ys)" by auto
      moreover have "take l' (y # ys) = y # butlast (take l' ys)"
        using Suc l Cons.prems(4) by (simp add: butlast_take)
      ultimately show ?thesis using True Suc ne by (auto simp: lst l)
    next
      case False
      have "take l' (insort x ys) = (if x < last (take l' ys) then insort x (butlast (take l' ys)) else take l' ys)"
        using Cons.prems l Suc by (intro Cons.IH) auto
      with False Suc ne show ?thesis by (auto simp: lst l)
    qed
  qed
qed simp

lemma sort_snoc: "sort (xs @ [x]) = insort x (sort xs)"
  by (intro properties_for_sort) (auto simp: sorted_insort)

lemma heap_invariant:
  assumes "0 < limit" and "distinct names"
  shows "fold (child_step limit hidden) names [] = rev (take limit (sort (filter (shown hidden) names)))"
  using assms(2)
proof (induction names rule: rev_induct)
  case (snoc x names)
  define S where "S = sort (filter (shown hidden) names)"
  have heap: "fold (child_step limit hidden) names [] = rev (take limit S)" using snoc by (simp add: S_def)
  have S: "sorted S" "x \<notin> set S" using snoc.prems by (auto simp: S_def)
  show ?case
  proof (cases "shown hidden x")
    case False
    then have "child_step limit hidden x h = h" for h by (simp add: child_step_def shown_def)
    with False show ?thesis using heap by (simp add: S_def)
  next
    case True
    have new: "sort (filter (shown hidden) (names @ [x])) = insort x S" using True by (simp add: sort_snoc S_def)
    have run: "fold (child_step limit hidden) (names @ [x]) [] = child_step limit hidden x (rev (take limit S))"
      by (simp add: heap)
    have step: "child_step limit hidden x h =
        (if length h < limit then heap_push x h else if x < hd h then heap_push x (tl h) else h)" for h
      using True by (auto simp: child_step_def shown_def)
    show ?thesis
    proof (cases "length S < limit")
      case short: True
      then show ?thesis using heap_push_rev[of "rev S" x] S(1)
        unfolding run new step by (simp flip: rev_swap)
    next
      case False
      then have l: "limit \<le> length S" by simp
      have hd: "hd (rev (take limit S)) = last (take limit S)" "tl (rev (take limit S)) = rev (butlast (take limit S))"
        by (simp_all add: hd_rev) (metis butlast_rev rev_rev_ident)
      have "sorted (butlast (take limit S))" using S(1) by (simp add: sorted_butlast sorted_wrt_take)
      with take_insort[OF S assms(1) l] heap_push_rev[of "rev (butlast (take limit S))" x] l show ?thesis
        unfolding run new step by (simp add: hd flip: rev_swap)
    qed
  qed
qed simp

lemma children_eq:
  assumes "0 < limit" and "distinct names"
  shows "children limit hidden names =
    (take limit (sort (filter (shown hidden) names)), limit \<le> length (filter (shown hidden) names))"
proof -
  have "sort (rev (take limit S)) = take limit S" if "sorted S" for S :: "pystr list"
    using that by (intro properties_for_sort) (auto simp: sorted_wrt_take)
  then show ?thesis by (auto simp: children_def heap_invariant[OF assms])
qed

end
