(* ===== verification/File_Tree_Proofs.thy ===== *)
theory File_Tree_Proofs
  imports File_Tree
begin

text \<open>
  The bounded tree is the beginning, in preorder, of the whole tree, and its flag tells whether that is
  all of it.
\<close>

section \<open>The whole tree\<close>

primrec full_tree :: "nat \<Rightarrow> path \<Rightarrow> bool \<Rightarrow> (path \<times> node) list \<Rightarrow> path \<Rightarrow> tree" where
  "full_tree 0 root hidden files p =
    Tree (metadata_of (display_path root p) (the (map_of files p))) []"
| "full_tree (Suc d) root hidden files p =
    Tree (metadata_of (display_path root p) (the (map_of files p)))
      (if n_kind (the (map_of files p)) = Directory
       then map (\<lambda>c. full_tree d root hidden files (p @ [c])) (sort (filter (shown hidden) (entry_names files p)))
       else [])"

text \<open>The entries below a node, in preorder.\<close>

fun below :: "tree \<Rightarrow> metadata list" where
  "below (Tree md ts) = concat (map (\<lambda>t. tree_meta t # below t) ts)"

definition preorder :: "tree list \<Rightarrow> metadata list" where
  "preorder ts = concat (map (\<lambda>t. tree_meta t # below t) ts)"

lemma preorder_simps [simp]:
  "preorder [] = []" "preorder (t # ts) = tree_meta t # below t @ preorder ts" "preorder (ts @ us) = preorder ts @ preorder us"
  by (simp_all add: preorder_def)

lemma below_Tree: "below (Tree md ts) = preorder ts"
  by (simp add: preorder_def)

lemma length_preorder: "length ts \<le> length (preorder ts)"
  by (induction ts) auto

lemma meta_full: "tree_meta (full_tree d root hidden files p) = metadata_of (display_path root p) (the (map_of files p))"
  by (cases d) simp_all

section \<open>The walk\<close>

lemma calm_stat:
  assumes "calm (fs_script s)" and "sys_stat p s = (Inr n, s')"
  shows "\<exists>r. calm r \<and> s' = s\<lparr>fs_script := r\<rparr> \<and> node_at s p = Some n"
proof -
  obtain f r files where e: "next_event (fs_script s) (fs_files s) = (f, r, files)"
    by (cases "next_event (fs_script s) (fs_files s)")
  from next_event_calm[OF assms(1) e] have "files = fs_files s" "calm r" by auto
  with assms(2) e show ?thesis
    by (auto simp: sys_stat_def syscall_def Let_def node_at_def split: if_splits option.splits)
qed

lemma calm_scandir:
  assumes "calm (fs_script s)" and "sys_scandir p s = (Inr names, s')"
  shows "\<exists>r. calm r \<and> s' = s\<lparr>fs_script := r\<rparr> \<and> names = entry_names (fs_files s) p"
proof -
  obtain f r files where e: "next_event (fs_script s) (fs_files s) = (f, r, files)"
    by (cases "next_event (fs_script s) (fs_files s)")
  from next_event_calm[OF assms(1) e] have "files = fs_files s" "calm r" by auto
  with assms(2) e show ?thesis
    by (auto simp: sys_scandir_def syscall_def Let_def node_at_def split: if_splits option.splits)
qed

definition walks :: "nat \<Rightarrow> metadata list \<Rightarrow> metadata list \<Rightarrow> ttxn \<Rightarrow> ttxn \<Rightarrow> bool" where
  "walks m every got s s' \<longleftrightarrow> calm (fs_script s') \<and> fs_files s' = fs_files s
     \<and> got = take (m - t_count s) every \<and> t_count s' = t_count s + length got \<and> t_count s' \<le> m
     \<and> t_truncated s' = (t_truncated s \<or> m - t_count s < length every)"

definition visits :: "nat \<Rightarrow> (path \<times> node) list \<Rightarrow> (path \<Rightarrow> (ttxn, tree) prog) \<Rightarrow> (path \<Rightarrow> tree) \<Rightarrow> bool" where
  "visits m files f g \<longleftrightarrow> (\<forall>p s t s'. calm (fs_script s) \<longrightarrow> fs_files s = files \<longrightarrow> t_count s \<le> m \<longrightarrow>
     f p s = (Inr t, s') \<longrightarrow> walks m (below (g p)) (below t) s s' \<and> tree_meta t = tree_meta (g p)
       \<and> (length (below (g p)) \<le> m - t_count s \<longrightarrow> t = g p))"

lemma walks_children:
  assumes v: "visits m files f g"
  shows "calm (fs_script s) \<Longrightarrow> fs_files s = files \<Longrightarrow> t_count s \<le> m \<Longrightarrow> visit_children f m cs s = (Inr ts, s') \<Longrightarrow>
    walks m (preorder (map g cs)) (preorder ts) s s' \<and> (length (preorder (map g cs)) \<le> m - t_count s \<longrightarrow> ts = map g cs)"
proof (induction cs arbitrary: s ts s')
  case Nil
  then show ?case by (auto simp: walks_def prog_defs)
next
  case (Cons c cs)
  show ?case
  proof (cases "m \<le> t_count s")
    case True
    with Cons.prems show ?thesis by (auto simp: walks_def prog_defs)
  next
    case False
    let ?s1 = "s\<lparr>t_count := Suc (t_count s)\<rparr>"
    obtain t s2 where t: "f c ?s1 = (Inr t, s2)"
      using Cons.prems(4) False by (auto simp: prog_defs split: prod.splits sum.splits)
    obtain us where us: "visit_children f m cs s2 = (Inr us, s')" "ts = t # us"
      using Cons.prems(4) False t by (auto simp: prog_defs split: prod.splits sum.splits)
    have w1: "walks m (below (g c)) (below t) ?s1 s2" and mt: "tree_meta t = tree_meta (g c)"
      and full1: "length (below (g c)) \<le> m - t_count ?s1 \<longrightarrow> t = g c"
      using v[unfolded visits_def, rule_format, of ?s1 c t s2] Cons.prems False t by auto
    have w2: "walks m (preorder (map g cs)) (preorder us) s2 s'"
      and full2: "length (preorder (map g cs)) \<le> m - t_count s2 \<longrightarrow> us = map g cs"
      using Cons.IH[OF _ _ _ us(1)] w1 Cons.prems(2) by (auto simp: walks_def)
    have k: "m - t_count s = Suc (m - Suc (t_count s))" using False by simp
    have "walks m (preorder (map g (c # cs))) (preorder ts) s s'"
    proof (cases "length (below (g c)) \<le> m - Suc (t_count s)")
      case True
      with w1 have "below t = below (g c)" "t_count s2 = Suc (t_count s + length (below (g c)))"
        by (simp_all add: walks_def)
      with w1 w2 mt k True show ?thesis by (simp add: walks_def us(2) not_le) linarith
    next
      case over: False
      with w1 False have "length (below t) = m - Suc (t_count s)" "t_count s2 = m"
        by (simp_all add: walks_def)
      with w1 w2 mt k over show ?thesis by (simp add: walks_def us(2))
    qed
    moreover have "ts = map g (c # cs)" if "length (preorder (map g (c # cs))) \<le> m - t_count s"
    proof -
      from that k have "length (below (g c)) \<le> m - t_count ?s1" by simp
      moreover from this that k w1 have "length (preorder (map g cs)) \<le> m - t_count s2" by (simp add: walks_def)
      ultimately show ?thesis using full1 full2 us(2) by simp
    qed
    ultimately show ?thesis by blast
  qed
qed

lemma visits_visit: "visits m files (visit d root m hidden) (full_tree d root hidden files)"
proof (induction d)
  case 0
  show ?case unfolding visits_def
  proof (intro allI impI)
    fix p s t s'
    assume a: "calm (fs_script s)" "fs_files s = files" "t_count s \<le> m" "visit 0 root m hidden p s = (Inr t, s')"
    then obtain n where n: "sys_stat p s = (Inr n, s')" "t = Tree (metadata_of (display_path root p) n) []"
      by (auto simp: read_metadata_def prog_defs split: prod.splits sum.splits)
    from calm_stat[OF a(1) n(1)] a(2,3) n(2)
    show "walks m (below (full_tree 0 root hidden files p)) (below t) s s'
      \<and> tree_meta t = tree_meta (full_tree 0 root hidden files p)
      \<and> (length (below (full_tree 0 root hidden files p)) \<le> m - t_count s \<longrightarrow> t = full_tree 0 root hidden files p)"
      by (auto simp: walks_def node_at_def)
  qed
next
  case (Suc d)
  show ?case unfolding visits_def
  proof (intro allI impI)
    fix p s t s'
    assume a: "calm (fs_script s)" "fs_files s = files" "t_count s \<le> m" "visit (Suc d) root m hidden p s = (Inr t, s')"
    then obtain n s1 where n: "sys_stat p s = (Inr n, s1)"
      by (auto simp: read_metadata_def prog_defs split: prod.splits sum.splits)
    from calm_stat[OF a(1) n(1)] obtain r where r: "calm r" "s1 = s\<lparr>fs_script := r\<rparr>" "map_of files p = Some n"
      using a(2) by (auto simp: node_at_def)
    let ?md = "metadata_of (display_path root p) n"
    let ?N = "sort (filter (shown hidden) (entry_names files p))"
    let ?g = "\<lambda>c. full_tree d root hidden files (p @ [c])"
    show "walks m (below (full_tree (Suc d) root hidden files p)) (below t) s s'
      \<and> tree_meta t = tree_meta (full_tree (Suc d) root hidden files p)
      \<and> (length (below (full_tree (Suc d) root hidden files p)) \<le> m - t_count s \<longrightarrow> t = full_tree (Suc d) root hidden files p)"
    proof (cases "n_kind n = Directory")
      case False
      with a(4) n r(2) have "t = Tree ?md []" "s' = s1"
        by (auto simp: read_metadata_def prog_defs metadata_of_def)
      with False r a(2,3) show ?thesis by (auto simp: walks_def)
    next
      case True
      let ?L = "m - t_count s + 1"
      obtain names s2 where sc: "sys_scandir p s1 = (Inr names, s2)"
        using a(4) n r(2) True
        by (auto simp: read_metadata_def prog_defs metadata_of_def split: prod.splits sum.splits)
      from calm_scandir[OF _ sc] r a(2) obtain r' where r': "calm r'" "s2 = s\<lparr>fs_script := r'\<rparr>" "names = entry_names files p"
        by auto
      have "distinct names" by (simp add: r'(3) entry_names_def)
      from children_eq[OF _ this, of ?L hidden]
      have ch: "children ?L hidden names = (take ?L ?N, ?L \<le> length ?N)" by (simp add: r'(3))
      let ?s3 = "s2\<lparr>t_truncated := (t_truncated s \<or> ?L \<le> length ?N)\<rparr>"
      obtain ts where ts: "visit_children (visit d root m hidden) m (map (\<lambda>c. p @ [c]) (take ?L ?N)) ?s3 = (Inr ts, s')"
        "t = Tree ?md ts"
        using a(4) n r(2) True sc ch r'(2)
        by (auto simp: read_metadata_def prog_defs metadata_of_def split: prod.splits sum.splits)
      have w: "walks m (preorder (map ?g (take ?L ?N))) (preorder ts) ?s3 s'"
        and full: "length (preorder (map ?g (take ?L ?N))) \<le> m - t_count s \<longrightarrow> ts = map ?g (take ?L ?N)"
        using walks_children[OF Suc.IH, of ?s3 "map (\<lambda>c. p @ [c]) (take ?L ?N)" ts s'] ts(1) r' a(2,3)
        by (simp_all add: comp_def)
      have whole: "full_tree (Suc d) root hidden files p = Tree ?md (map ?g ?N)"
        using True r(3) by simp
      have split: "preorder (map ?g ?N) = preorder (map ?g (take ?L ?N)) @ preorder (map ?g (drop ?L ?N))"
        by (simp flip: preorder_simps(3) map_append)
      have long: "m - t_count s < length (preorder (map ?g (take ?L ?N)))" if "?L \<le> length ?N"
        using length_preorder[of "map ?g (take ?L ?N)"] that by simp
      have "walks m (preorder (map ?g ?N)) (preorder ts) s s'"
      proof (cases "?L \<le> length ?N")
        case le: True
        with w long[OF le] r'(2) show ?thesis by (simp add: walks_def split)
      next
        case False
        have "t_count s + min x (m - t_count s) \<le> m" for x using a(3) by linarith
        with False w r'(2) show ?thesis by (simp add: walks_def)
      qed
      moreover have "ts = map ?g ?N" if "length (preorder (map ?g ?N)) \<le> m - t_count s"
      proof -
        have "\<not> ?L \<le> length ?N" using that long split by auto
        then have "take ?L ?N = ?N" by simp
        with full that show ?thesis by simp
      qed
      ultimately show ?thesis unfolding whole ts(2) below_Tree by simp
    qed
  qed
qed

lemma directory_tree_preorder:
  assumes calm: "calm (fs_script t)"
    and run: "directory_tree root p (PInt d) (PInt m) (PBool hidden) t = (Inr (node, truncated), t')"
  defines "whole \<equiv> full_tree (nat d) root hidden (fs_files t) p"
  shows "tree_meta node = tree_meta whole \<and> below node = take (nat m) (below whole)
    \<and> truncated = (nat m < length (below whole)) \<and> (\<not> truncated \<longrightarrow> node = whole)"
proof -
  let ?s = "t\<lparr>t_count := 0, t_truncated := False\<rparr>"
  from run have v: "visit (nat d) root (nat m) hidden p ?s = (Inr node, t')" and tr: "truncated = t_truncated t'"
    by (auto simp: directory_tree_def prog_defs split: if_splits prod.splits sum.splits)
  from visits_visit[unfolded visits_def, rule_format, OF _ _ _ v] calm tr show ?thesis
    by (auto simp: walks_def whole_def not_less)
qed

section \<open>The tree returns\<close>

definition quiet :: "(path \<times> node) list \<Rightarrow> ttxn \<Rightarrow> bool" where
  "quiet files s \<longleftrightarrow> fs_script s = [] \<and> fs_files s = files"

lemma quiet_stat: "quiet files s \<Longrightarrow> map_of files p = Some n \<Longrightarrow> sys_stat p s = (Inr n, s)"
  by (simp add: quiet_def sys_stat_def syscall_def node_at_def)

lemma quiet_scandir:
  "quiet files s \<Longrightarrow> map_of files p = Some n \<Longrightarrow> n_kind n = Directory \<Longrightarrow> sys_scandir p s = (Inr (entry_names files p), s)"
  by (simp add: quiet_def sys_scandir_def syscall_def node_at_def)

lemma quiet_fields: "quiet files s \<Longrightarrow> quiet files (s\<lparr>t_truncated := b\<rparr>)" "quiet files s \<Longrightarrow> quiet files (s\<lparr>t_count := k\<rparr>)"
  by (simp_all add: quiet_def)

lemma entry_present: "c \<in> set (entry_names files p) \<Longrightarrow> map_of files (p @ [c]) \<noteq> None"
proof -
  assume "c \<in> set (entry_names files p)"
  then obtain q where q: "q \<in> fst ` set files" "q \<noteq> []" "butlast q = p" "last q = c"
    by (auto simp: entry_names_def)
  then have "q = p @ [c]" by (metis append_butlast_last_id)
  with q(1) show ?thesis by (simp add: map_of_eq_None_iff)
qed

lemma children_return:
  assumes "\<And>c s. c \<in> set cs \<Longrightarrow> quiet files s \<Longrightarrow> \<exists>t s'. f c s = (Inr t, s') \<and> quiet files s'"
  shows "quiet files s \<Longrightarrow> \<exists>ts s'. visit_children f m cs s = (Inr ts, s') \<and> quiet files s'"
  using assms
proof (induction cs arbitrary: s)
  case Nil
  then show ?case by (simp add: prog_defs)
next
  case (Cons c cs)
  show ?case
  proof (cases "m \<le> t_count s")
    case True
    with Cons.prems(1) show ?thesis by (simp add: prog_defs quiet_fields)
  next
    case False
    from Cons.prems(2)[of c "s\<lparr>t_count := Suc (t_count s)\<rparr>"] Cons.prems(1) obtain t s1
      where t: "f c (s\<lparr>t_count := Suc (t_count s)\<rparr>) = (Inr t, s1)" "quiet files s1" by (auto simp: quiet_fields)
    from Cons.IH[OF t(2)] Cons.prems(2) obtain ts s2 where "visit_children f m cs s1 = (Inr ts, s2)" "quiet files s2"
      by (meson list.set_intros(2))
    with False t show ?thesis by (simp add: prog_defs)
  qed
qed

lemma visit_returns:
  "quiet files s \<Longrightarrow> map_of files p \<noteq> None \<Longrightarrow> \<exists>t s'. visit d root m hidden p s = (Inr t, s') \<and> quiet files s'"
proof (induction d arbitrary: p s)
  case 0
  then show ?case by (auto simp: read_metadata_def prog_defs quiet_stat)
next
  case (Suc d)
  then obtain n where n: "map_of files p = Some n" by auto
  note st = quiet_stat[OF Suc.prems(1) n]
  show ?case
  proof (cases "n_kind n = Directory")
    case False
    with st Suc.prems(1) show ?thesis by (simp add: read_metadata_def prog_defs metadata_of_def)
  next
    case True
    note sc = quiet_scandir[OF Suc.prems(1) n True]
    let ?cs = "take (m - t_count s + 1) (sort (filter (shown hidden) (entry_names files p)))"
    let ?s = "s\<lparr>t_truncated := (t_truncated s \<or> m - t_count s + 1 \<le> length (filter (shown hidden) (entry_names files p)))\<rparr>"
    have ch: "children (m - t_count s + 1) hidden (entry_names files p) =
        (?cs, m - t_count s + 1 \<le> length (filter (shown hidden) (entry_names files p)))"
      by (rule children_eq) (simp_all add: entry_names_def)
    have "\<exists>ts s'. visit_children (visit d root m hidden) m (map (\<lambda>c. p @ [c]) ?cs) ?s = (Inr ts, s') \<and> quiet files s'"
    proof (rule children_return[OF _ quiet_fields(1)[OF Suc.prems(1)]])
      fix c s
      assume "c \<in> set (map (\<lambda>c. p @ [c]) ?cs)" "quiet files s"
      then obtain x where "c = p @ [x]" "x \<in> set (entry_names files p)" by (auto dest: in_set_takeD)
      then show "\<exists>t s'. visit d root m hidden c s = (Inr t, s') \<and> quiet files s'"
        using Suc.IH[OF \<open>quiet files s\<close>] entry_present by blast
    qed
    with True st sc ch show ?thesis by (auto simp: read_metadata_def prog_defs metadata_of_def)
  qed
qed

section \<open>The property\<close>

text \<open>
  C15: the tree shows the first entries, in preorder and in the order of the names, of all entries down
  to the depth, and is marked as truncated exactly when there are more; it is returned unless a call
  of the file system fails, the path does not exist or an argument is out of range.
\<close>

theorem tree_preorder:
  fixes d m :: int and t :: ttxn and p root :: path and hidden :: bool
  assumes calm: "calm (fs_script t)"
  defines "whole \<equiv> full_tree (nat d) root hidden (fs_files t) p"
  shows "case directory_tree root p (PInt d) (PInt m) (PBool hidden) t of
      (Inr (node, truncated), _) \<Rightarrow> tree_meta node = tree_meta whole \<and> below node = take (nat m) (below whole)
        \<and> truncated = (nat m < length (below whole)) \<and> (\<not> truncated \<longrightarrow> node = whole)
    | (Inl _, _) \<Rightarrow> fs_script t \<noteq> [] \<or> node_at t p = None \<or> d < 0 \<or> m < 1"
proof -
  obtain r t' where run: "directory_tree root p (PInt d) (PInt m) (PBool hidden) t = (r, t')"
    by (cases "directory_tree root p (PInt d) (PInt m) (PBool hidden) t")
  show ?thesis
  proof (cases r)
    case (Inr x)
    obtain node truncated where x: "x = (node, truncated)" by (cases x)
    from directory_tree_preorder[OF calm run[unfolded Inr x]] show ?thesis
      by (simp add: run Inr x whole_def)
  next
    case (Inl e)
    have False if "fs_script t = []" "node_at t p \<noteq> None" "\<not> d < 0" "\<not> m < 1"
    proof -
      have "quiet (fs_files t) (t\<lparr>t_count := 0, t_truncated := False\<rparr>)" using that by (simp add: quiet_def)
      from visit_returns[OF this, of p "nat d" root "nat m" hidden] that(2)
      obtain node s where "visit (nat d) root (nat m) hidden p (t\<lparr>t_count := 0, t_truncated := False\<rparr>) = (Inr node, s)"
        by (auto simp: node_at_def)
      with run Inl that show False by (simp add: directory_tree_def prog_defs)
    qed
    then show ?thesis by (auto simp: run Inl)
  qed
qed

definition tree_file :: "nat \<Rightarrow> node" where
  "tree_file k = \<lparr>n_kind = Regular, n_ino = k, n_data = [], n_mode = 420, n_time = 0\<rparr>"

definition tree_dir :: "nat \<Rightarrow> node" where
  "tree_dir k = \<lparr>n_kind = Directory, n_ino = k, n_data = [], n_mode = 493, n_time = 0\<rparr>"

definition tree_sample :: ttxn where
  "tree_sample = \<lparr>fs_files = [([], tree_dir 0), ([[98]], tree_file 1), ([[97]], tree_dir 2), ([[97], [99]], tree_file 3),
      ([[46]], tree_file 4)],
     fs_script = [], fs_names = [], fs_clock = 9, t_count = 0, t_truncated = False\<rparr>"

definition tree_shown :: "int \<Rightarrow> (pystr list \<times> bool) option" where
  "tree_shown m = (case directory_tree [] [] (PInt 3) (PInt m) (PBool False) tree_sample of
     (Inr (node, truncated), _) \<Rightarrow> Some (map md_path (below node), truncated) | _ \<Rightarrow> None)"

lemma tree_sample_shown:
  "tree_shown 2 = Some ([[97], [97, 47, 99]], True) \<and> tree_shown 3 = Some ([[97], [97, 47, 99], [98]], False)"
  by code_simp

theorem tree_preorder_witness:
  "\<exists>node t'. directory_tree [] [] (PInt 3) (PInt 2) (PBool False) tree_sample = (Inr (node, True), t')
     \<and> below node = take 2 (below (full_tree 3 [] False (fs_files tree_sample) []))"
proof -
  have calm: "calm (fs_script tree_sample)" by (simp add: calm_def tree_sample_def)
  obtain r t' where r: "directory_tree [] [] (PInt 3) (PInt 2) (PBool False) tree_sample = (r, t')"
    by (cases "directory_tree [] [] (PInt 3) (PInt 2) (PBool False) tree_sample")
  with tree_sample_shown obtain node where "r = Inr (node, True)"
    by (cases r) (auto simp: tree_shown_def)
  with tree_preorder[OF calm, where root = "[]" and p = "[]" and d = 3 and m = 2 and hidden = False] r show ?thesis by simp
qed

end
