(* ===== verification/Pages.thy ===== *)
theory Pages
  imports Paging Config_Values
begin

text \<open>
  The client's iterator over paged workspace methods (pages.py): it follows the cursors of any method,
  checks that the revision stays the same and that no cursor comes back, and stops after a number of
  pages with what is needed to go on.  The methods themselves, the text that \<open>json.dumps\<close> gives a
  cursor, and the positions of the parameters that \<open>inspect\<close> reports are parameters; a method is
  given by its dotted name.
\<close>

section \<open>Reading a page\<close>

definition truthy :: "pyval \<Rightarrow> bool" where
  "truthy v = (case v of
      PNone \<Rightarrow> False
    | PBool b \<Rightarrow> b
    | PInt k \<Rightarrow> k \<noteq> 0
    | PFloat x \<Rightarrow> (case x of Finite m e \<Rightarrow> m \<noteq> 0 | _ \<Rightarrow> True)
    | PStr s \<Rightarrow> s \<noteq> []
    | PList vs \<Rightarrow> vs \<noteq> []
    | PDict d \<Rightarrow> d \<noteq> []
    | POther _ \<Rightarrow> True)"

definition unless_none :: "pyval option \<Rightarrow> pyval option" where
  "unless_none v = (if v = Some PNone then None else v)"

definition next_marker :: "table \<Rightarrow> pyval option" where
  "next_marker page =
    (if get page (lit ''next_cursor'') \<noteq> None then unless_none (get page (lit ''next_cursor''))
     else unless_none (get page (lit ''nextCursor'')))"

fun first_value :: "table \<Rightarrow> pystr list \<Rightarrow> pyval option" where
  "first_value page [] = None"
| "first_value page (k # ks) =
    (case unless_none (get page k) of None \<Rightarrow> first_value page ks | Some v \<Rightarrow> Some v)"

definition page_revision :: "table \<Rightarrow> pyval option" where
  "page_revision page = first_value page [lit ''revision'', lit ''sha256'', lit ''source_revision'']"

text \<open>The revision of the first page that has one.\<close>

definition check_revision :: "pyval option \<Rightarrow> table \<Rightarrow> pyval option result" where
  "check_revision seen page =
    (case (page_revision page, seen) of
       (None, _) \<Rightarrow> Inr seen
     | (Some r, None) \<Rightarrow> Inr (Some r)
     | (Some r, Some r0) \<Rightarrow>
         if \<not> py_eq r r0 then Inl (RuntimeError ''source revision changed while iterating pages'') else Inr seen)"

section \<open>Going on\<close>

definition method_parts :: "pystr \<Rightarrow> pystr \<times> pystr" where
  "method_parts name =
    (let parts = split_on 46 name in
     (if 1 < length parts then parts ! (length parts - 2) else [], last parts))"

definition is_fs :: "pystr \<Rightarrow> bool" where
  "is_fs owner = (owner \<in> {lit ''fs'', lit ''filesystem''})"

definition search_method :: "pystr \<Rightarrow> bool" where
  "search_method name =
    (case method_parts name of (owner, m) \<Rightarrow>
       is_fs owner \<and> m \<in> {lit ''search'', lit ''search_docs'', lit ''search_ast''})"

definition search_continuation :: "table \<Rightarrow> pyval \<Rightarrow> table" where
  "search_continuation options marker =
    [(lit ''cursor'', marker)]
    @ concat (map (\<lambda>k. case get options k of None \<Rightarrow> [] | Some v \<Rightarrow> [(k, v)]) [lit ''max_bytes'', lit ''max_matches''])
    @ (case get_or options (lit ''mode'') PNone of PNone \<Rightarrow> [] | v \<Rightarrow> [(lit ''mode'', v)])"

definition advance :: "pystr \<Rightarrow> table \<Rightarrow> pyval \<Rightarrow> table result" where
  "advance name options marker =
    (case method_parts name of (owner, m) \<Rightarrow>
      if owner = lit ''messages'' \<and> m = lit ''read'' then
        Inr (put (lit ''after'') marker (del (lit ''cursor'') options))
      else if is_fs owner \<and> m = lit ''read'' then
        (case marker of
           PDict d \<Rightarrow>
             (case (get d (lit ''line''), get d (lit ''byte'')) of
                (Some line, Some byte) \<Rightarrow>
                  Inr (put (lit ''start_byte'') byte (put (lit ''start_line'') line (del (lit ''cursor'') options)))
              | _ \<Rightarrow> Inl (RuntimeError ''filesystem.read cursor must contain line and byte''))
         | _ \<Rightarrow> Inl (RuntimeError ''filesystem.read returned an invalid continuation cursor''))
      else if (is_fs owner \<or> owner \<in> {lit ''skills'', lit ''modules''}) \<and> m = lit ''read_revision''
          \<or> is_fs owner \<and> m = lit ''read_bytes'' then
        (case marker of
           PInt k \<Rightarrow>
             if k < 0 then Inl (RuntimeError ''revision cursor must be a non-negative byte offset'')
             else Inr (del (lit ''cursor'') (put (lit ''start_byte'') marker options))
         | _ \<Rightarrow> Inl (RuntimeError ''revision cursor must be a non-negative byte offset''))
      else Inr (del (lit ''after'') (put (lit ''cursor'') marker options)))"

section \<open>The iterator\<close>

text \<open>A method: its dotted name, what its \<open>n\<close>th call returns, and the positions of its parameters.\<close>

record source =
  so_name :: pystr
  so_call :: "nat \<Rightarrow> pyval list \<Rightarrow> table \<Rightarrow> pyval result"
  so_positional :: "(pystr \<times> nat) list"

datatype iter_end = Exhausted | Failed exc | Page_Limit nat pyval table

text \<open>A continuation takes the place of an argument that was given by position.\<close>

definition place_argument :: "(pystr \<times> nat) list \<Rightarrow> pystr \<Rightarrow> pyval list \<times> table \<Rightarrow> pyval list \<times> table" where
  "place_argument positional key acc =
    (case acc of (args, options) \<Rightarrow>
      (case (get options key, map_of positional key) of
         (Some v, Some i) \<Rightarrow> if i < length args then (args[i := v], del key options) else (args, options)
       | _ \<Rightarrow> (args, options)))"

definition call_arguments :: "(pystr \<times> nat) list \<Rightarrow> pyval list \<Rightarrow> table \<Rightarrow> pyval list \<times> table" where
  "call_arguments positional args options =
    fold (place_argument positional)
      [lit ''cursor'', lit ''after'', lit ''start_line'', lit ''start_byte''] (args, options)"

definition comes_back :: "(pyval \<Rightarrow> pystr) \<Rightarrow> pyval option \<Rightarrow> pystr list \<Rightarrow> pyval \<Rightarrow> bool" where
  "comes_back key previous seen marker =
    (key marker \<in> set seen \<or> (case previous of None \<Rightarrow> False | Some p \<Rightarrow> py_eq marker p))"

fun page_loop ::
  "source \<Rightarrow> (pyval \<Rightarrow> pystr) \<Rightarrow> nat \<Rightarrow> nat \<Rightarrow> pyval list \<Rightarrow> table \<Rightarrow> pyval option \<Rightarrow> pystr list
    \<Rightarrow> pyval option \<Rightarrow> table list \<times> iter_end" where
  "page_loop src key number 0 args options previous seen revision = ([], Exhausted)"
| "page_loop src key number (Suc left) args options previous seen revision =
    (case (case call_arguments (so_positional src) args options of (a, o') \<Rightarrow> so_call src number a o') of
       Inl e \<Rightarrow> ([], Failed e)
     | Inr (PDict page) \<Rightarrow>
         (case check_revision revision page of
            Inl e \<Rightarrow> ([], Failed e)
          | Inr revision' \<Rightarrow>
              (case (case next_marker page of
                   None \<Rightarrow>
                     ([], if truthy (get_or page (lit ''has_more'') PNone)
                          then Failed (RuntimeError ''more pages without a continuation cursor'') else Exhausted)
                 | Some marker \<Rightarrow>
                     if comes_back key previous seen marker
                     then ([], Failed (RuntimeError ''non-progressing or cyclic cursor''))
                     else
                       (case (if search_method (so_name src) then Inr ([], search_continuation options marker)
                              else rbind (advance (so_name src) options marker) (\<lambda>o'. Inr (args, o'))) of
                          Inl e \<Rightarrow> ([], Failed e)
                        | Inr (args', options') \<Rightarrow>
                            if left = 0 then ([], Page_Limit number marker options')
                            else page_loop src key (Suc number) left args' options' (Some marker)
                                   (key marker # seen) revision'))
               of (ps, e) \<Rightarrow> (page # ps, e)))
     | Inr _ \<Rightarrow> ([], Failed (TypeError ''paged method did not return a mapping'')))"

definition pages_iter ::
  "source \<Rightarrow> (pyval \<Rightarrow> pystr) \<Rightarrow> pyval list \<Rightarrow> pyval \<Rightarrow> table \<Rightarrow> table list \<times> iter_end" where
  "pages_iter src key args max_pages options =
    (case max_pages of
       PInt m \<Rightarrow>
         if m < 1 \<or> 10000 < m then ([], Failed (ValueError ''max_pages must be between 1 and 10000''))
         else
           let cursor = get_or options (lit ''cursor'') PNone;
               page_cursor = get_or options (lit ''page_cursor'') PNone;
               search = search_method (so_name src) in
           if search \<and> cursor \<noteq> PNone \<and> page_cursor \<noteq> PNone
           then ([], Failed (ValueError ''cursor and page_cursor cannot both be provided''))
           else
             (case (if search \<and> (cursor \<noteq> PNone \<or> page_cursor \<noteq> PNone)
                    then ([], search_continuation options (if cursor \<noteq> PNone then cursor else page_cursor))
                    else (args, options)) of
                (args', options') \<Rightarrow>
                  page_loop src key 1 (nat m) args' options' (get options' (lit ''cursor'')) [] None)
     | _ \<Rightarrow> ([], Failed (ValueError ''max_pages must be between 1 and 10000'')))"

end
