(* ===== verification/File_Read_Proofs.thy ===== *)
theory File_Read_Proofs
  imports File_Reading
begin

text \<open>
  The scan in chunks agrees with a reading of the whole text at once, wherever the chunks end.
\<close>

section \<open>Tagged text\<close>

text \<open>The elements of a text with the line and the place of each.\<close>

fun tagged :: "('a \<Rightarrow> nat) \<Rightarrow> ('a \<Rightarrow> bool) \<Rightarrow> nat \<Rightarrow> nat \<Rightarrow> 'a list \<Rightarrow> ('a \<times> nat \<times> nat) list" where
  "tagged w nl place line [] = []"
| "tagged w nl place line (x # xs) =
    (x, line, place) # tagged w nl (place + w x) (if nl x then line + 1 else line) xs"

definition wanted :: "request \<Rightarrow> ('a \<times> nat \<times> nat) \<Rightarrow> bool" where
  "wanted rq t = (case t of (_, line, place) \<Rightarrow>
     in_range rq line \<and> (case rq_byte rq of None \<Rightarrow> True | Some b \<Rightarrow> b \<le> place))"

abbreviation byte_tags :: "nat \<Rightarrow> nat \<Rightarrow> bytes \<Rightarrow> (byte \<times> nat \<times> nat) list" where
  "byte_tags \<equiv> tagged (\<lambda>_. Suc 0) (\<lambda>b. b = 10)"

abbreviation char_tags :: "nat \<Rightarrow> nat \<Rightarrow> pystr \<Rightarrow> (nat \<times> nat \<times> nat) list" where
  "char_tags \<equiv> tagged utf8_width (\<lambda>c. c = 10)"

definition requested :: "request \<Rightarrow> bytes \<Rightarrow> (byte \<times> nat \<times> nat) list" where
  "requested rq data = filter (wanted rq) (byte_tags 0 1 data)"

definition chosen :: "request \<Rightarrow> pystr \<Rightarrow> (nat \<times> nat \<times> nat) list" where
  "chosen rq tx = filter (wanted rq) (char_tags 0 1 tx)"

lemma tagged_append:
  "tagged w nl place line (xs @ ys) = tagged w nl place line xs
    @ tagged w nl (place + sum_list (map w xs)) (line + length (filter nl xs)) ys"
  by (induction xs arbitrary: place line) (auto simp: add.assoc)

lemma length_tagged [simp]: "length (tagged w nl place line xs) = length xs"
  by (induction xs arbitrary: place line) auto

lemma map_fst_tagged [simp]: "map fst (tagged w nl place line xs) = xs"
  by (induction xs arbitrary: place line) auto

lemma tagged_lower: "(x, l, p) \<in> set (tagged w nl place line xs) \<Longrightarrow> line \<le> l \<and> place \<le> p"
proof (induction xs arbitrary: place line)
  case (Cons y ys)
  then show ?case by (fastforce split: if_splits)
qed simp

lemma tagged_sorted: "sorted_wrt (\<lambda>(_, l, p) (_, l', p'). l \<le> l' \<and> p \<le> p') (tagged w nl place line xs)"
proof (induction xs arbitrary: place line)
  case (Cons x xs)
  have "line \<le> l \<and> place \<le> p" if "(y, l, p) \<in> set (tagged w nl (place + w x) (if nl x then line + 1 else line) xs)" for y l p
    using tagged_lower[OF that] by (auto split: if_splits)
  with Cons show ?case by auto
qed simp

text \<open>The wanted elements are an interval.\<close>

lemma filter_interval:
  assumes "sorted_wrt (\<lambda>x y. (A x \<longrightarrow> A y) \<and> (B y \<longrightarrow> B x)) xs"
  shows "filter (\<lambda>x. A x \<and> B x) xs = takeWhile B (dropWhile (\<lambda>x. \<not> A x) xs)"
  using assms
proof (induction xs)
  case (Cons x xs)
  show ?case
  proof (cases "A x")
    case True
    then have "filter (\<lambda>x. A x \<and> B x) xs = takeWhile B xs"
    proof -
      have "\<forall>y \<in> set xs. A y" using Cons.prems True by auto
      then have "dropWhile (\<lambda>x. \<not> A x) xs = xs" by (cases xs) auto
      with Cons show ?thesis by simp
    qed
    moreover have "takeWhile B xs = []" if "\<not> B x"
      using that Cons.prems by (cases xs) auto
    ultimately show ?thesis using True by auto
  next
    case False
    with Cons show ?thesis by simp
  qed
qed simp

lemma wanted_interval:
  "\<exists>m n. filter (wanted rq) (tagged w nl place line xs) = take m (drop n (tagged w nl place line xs))"
proof -
  let ?A = "\<lambda>(x, l, p). rq_start rq \<le> l \<and> (case rq_byte rq of None \<Rightarrow> True | Some b \<Rightarrow> b \<le> p)"
  let ?B = "\<lambda>(x, l, p). (case rq_end rq of None \<Rightarrow> True | Some e \<Rightarrow> l \<le> e)"
  let ?ts = "tagged w nl place line xs"
  have eq: "wanted rq = (\<lambda>t. ?A t \<and> ?B t)"
    by (auto simp: wanted_def in_range_def fun_eq_iff)
  have "sorted_wrt (\<lambda>x y. (?A x \<longrightarrow> ?A y) \<and> (?B y \<longrightarrow> ?B x)) ?ts"
    by (rule sorted_wrt_mono_rel[OF _ tagged_sorted]) (auto split: option.splits)
  then have "filter (wanted rq) ?ts = takeWhile ?B (dropWhile (\<lambda>t. \<not> ?A t) ?ts)"
    unfolding eq by (rule filter_interval)
  then show ?thesis by (metis takeWhile_eq_take dropWhile_eq_drop)
qed

lemma byte_places: "k < length xs \<Longrightarrow> snd (snd (byte_tags place line xs ! k)) = place + k"
proof (induction xs arbitrary: place line k)
  case (Cons x xs)
  then show ?case by (cases k) auto
qed simp

lemma selected_places:
  "k < length (requested rq data) \<Longrightarrow>
    snd (snd (requested rq data ! k)) = snd (snd (requested rq data ! 0)) + k"
proof -
  assume k: "k < length (requested rq data)"
  obtain m n where sel: "requested rq data = take m (drop n (byte_tags 0 1 data))"
    using wanted_interval[of rq "\<lambda>_. Suc 0" "\<lambda>b. b = 10" 0 1 data] by (auto simp: requested_def)
  with k have "n + k < length data" "k < m" by auto
  then show ?thesis
    by (simp add: sel byte_places)
qed

section \<open>The scan\<close>

definition scanned :: "request \<Rightarrow> bytes \<Rightarrow> scan \<Rightarrow> bool" where
  "scanned rq p st \<longleftrightarrow>
    (let sel = requested rq p in
      sc_output st = take (rq_max rq + 3) (map fst sel)
      \<and> sc_seen st = length sel
      \<and> sc_line st = 1 + count_list p 10
      \<and> sc_capture st = (case rq_byte rq of Some b \<Rightarrow> Some b
          | None \<Rightarrow> if sel = [] then None else Some (snd (snd (sel ! 0))))
      \<and> sc_trunc st = (if rq_max rq < length sel then Some (fst (snd (sel ! rq_max rq))) else None)
      \<and> (\<forall>b. rq_byte rq = Some b \<longrightarrow> b < length p \<longrightarrow> sc_start_line st = Some (1 + count_list (take b p) 10)))"

lemma count_list_filter: "length (filter (\<lambda>b. b = x) xs) = count_list xs x"
  by (induction xs) auto

lemma byte_tags_plain:
  "10 \<notin> set s \<Longrightarrow> byte_tags place line s = map (\<lambda>k. (s ! k, line, place + k)) [0..<length s]"
proof (induction s arbitrary: place)
  case (Cons x s)
  then show ?case
    by (simp add: map_upt_Suc del: upt_Suc)
qed simp

text \<open>What a segment adds: its bytes from the start byte on, when its line is in the range.\<close>

lemma selected_segment:
  assumes "10 \<notin> set s \<or> (\<exists>s'. s = s' @ [10] \<and> 10 \<notin> set s')"
  shows "requested rq (p @ s) = requested rq p @
    (if in_range rq (1 + count_list p 10)
     then map (\<lambda>k. (s ! k, 1 + count_list p 10, length p + k))
            [(case rq_byte rq of None \<Rightarrow> 0 | Some b \<Rightarrow> b - length p)..<length s]
     else [])"
proof -
  define l where "l = 1 + count_list p 10"
  have tags: "byte_tags (length p) l s = map (\<lambda>k. (s ! k, l, length p + k)) [0..<length s]"
    using assms
  proof
    assume "\<exists>s'. s = s' @ [10] \<and> 10 \<notin> set s'"
    then obtain s' where s: "s = s' @ [10]" "10 \<notin> set s'" by blast
    then show ?thesis
      by (simp add: tagged_append byte_tags_plain sum_list_triv count_list_filter nth_append)
  qed (rule byte_tags_plain)
  have "filter (wanted rq) (map (\<lambda>k. (s ! k, l, length p + k)) [0..<length s]) =
      (if in_range rq l then map (\<lambda>k. (s ! k, l, length p + k))
         (filter (\<lambda>k. (case rq_byte rq of None \<Rightarrow> 0 | Some b \<Rightarrow> b - length p) \<le> k) [0..<length s]) else [])"
    by (auto simp: filter_map comp_def wanted_def intro!: arg_cong2[of _ _ _ _ map] filter_cong split: option.splits)
  moreover have "filter (\<lambda>k. (n :: nat) \<le> k) [0..<m] = [n..<m]" for n m
    by (induction m) (auto simp: upt_add_eq_append)
  moreover have "requested rq (p @ s) = requested rq p @ filter (wanted rq) (byte_tags (length p) l s)"
    by (simp add: requested_def tagged_append sum_list_triv count_list_filter l_def)
  ultimately show ?thesis unfolding tags by (simp add: l_def)
qed

lemma map_nth_drop: "map ((!) s) [n..<length s] = drop n s"
  by (metis drop_map drop_upt add_0 map_nth)

definition single_line :: "bytes \<Rightarrow> bool" where
  "single_line s \<longleftrightarrow> s \<noteq> [] \<and> (10 \<notin> set s \<or> (\<exists>s'. s = s' @ [10] \<and> 10 \<notin> set s'))"

lemma one_line_take: "single_line s \<Longrightarrow> k < length s \<Longrightarrow> count_list (take k s) 10 = 0"
  by (auto simp: single_line_def count_list_0_iff dest: in_set_takeD)

lemma at_start_simps [simp]:
  "sc_output (at_start rq a z st) = sc_output st" "sc_seen (at_start rq a z st) = sc_seen st"
  "sc_line (at_start rq a z st) = sc_line st" "sc_capture (at_start rq a z st) = sc_capture st"
  "sc_trunc (at_start rq a z st) = sc_trunc st" "sc_total (at_start rq a z st) = sc_total st"
  "sc_pending (at_start rq a z st) = sc_pending st" "sc_has_data (at_start rq a z st) = sc_has_data st"
  by (simp_all add: at_start_def split: option.split)

lemma capture_keeps [simp]:
  "sc_line (capture rq s place l st) = sc_line st" "sc_total (capture rq s place l st) = sc_total st"
  "sc_pending (capture rq s place l st) = sc_pending st" "sc_has_data (capture rq s place l st) = sc_has_data st"
  "sc_start_line (capture rq s place l st) = sc_start_line st"
  by (simp_all add: capture_def Let_def)

lemma segment_scanned:
  assumes st: "scanned rq p st" and s: "single_line s"
  shows "scanned rq (p @ s)
    (capture rq s (length p) (sc_line st) (at_start rq (length p) (length p + length s) st)\<lparr>sc_line := 1 + count_list (p @ s) 10\<rparr>)"
proof -
  let ?st = "capture rq s (length p) (sc_line st) (at_start rq (length p) (length p + length s) st)"
  define l where "l = 1 + count_list p 10"
  define n where "n = (case rq_byte rq of None \<Rightarrow> 0 | Some b \<Rightarrow> b - length p)"
  define new where "new = (if in_range rq l then map (\<lambda>k. (s ! k, l, length p + k)) [n..<length s] else [])"
  have sel: "requested rq (p @ s) = requested rq p @ new"
    using selected_segment[of s rq p] s by (simp add: single_line_def new_def l_def n_def)
  have line: "sc_line st = l" using st by (simp add: scanned_def Let_def l_def)
  have bytes: "map fst new = (if in_range rq l then drop n s else [])"
    by (simp add: new_def comp_def map_nth_drop)
  have lines: "\<forall>t \<in> set new. fst (snd t) = l" by (auto simp: new_def)
  have start: "sc_start_line ?st = Some (1 + count_list (take b (p @ s)) 10)"
    if "rq_byte rq = Some b" "b < length (p @ s)" for b
  proof (cases "b < length p")
    case True
    with st that show ?thesis by (simp add: scanned_def Let_def at_start_def)
  next
    case False
    then have "count_list (take (b - length p) s) 10 = 0" using that s by (intro one_line_take) auto
    with False that line show ?thesis by (simp add: at_start_def l_def)
  qed
  show ?thesis
  proof (cases "new = []")
    case True
    then have "\<not> in_range rq l \<or> drop n s = []" using bytes by (metis list.map_disc_iff)
    then have "capture rq s (length p) (sc_line st) x = x" for x
      by (auto simp: capture_def line n_def split: option.splits)
    with st start True show ?thesis by (simp add: scanned_def sel Let_def)
  next
    case False
    then have inr: "in_range rq l" and seg: "drop n s = map fst new" "map fst new \<noteq> []"
      using bytes by (auto simp: new_def split: if_splits)
    have cut: "(case rq_byte rq of None \<Rightarrow> s | Some b \<Rightarrow> drop (b - length p) s) = map fst new"
      using seg by (auto simp: n_def split: option.splits)
    have first: "snd (snd (new ! 0)) = length p" if "rq_byte rq = None"
      using that False by (auto simp: new_def n_def upt_conv_Cons split: if_splits)
    have trunc: "fst (snd ((requested rq p @ new) ! rq_max rq)) = l"
      if "rq_max rq < length (requested rq p) + length new" "\<not> rq_max rq < length (requested rq p)"
      using that lines by (simp add: nth_append)
    have st': "?st = (let st = at_start rq (length p) (length p + length s) st;
        st = st\<lparr>sc_capture := (case sc_capture st of None \<Rightarrow> Some (length p) | Some p \<Rightarrow> Some p),
                sc_seen := sc_seen st + length new,
                sc_output := sc_output st @ take (rq_max rq + 3 - length (sc_output st)) (map fst new)\<rparr> in
        if rq_max rq < sc_seen st \<and> sc_trunc st = None then st\<lparr>sc_trunc := Some l\<rparr> else st)"
      using False by (simp add: capture_def line inr cut Let_def)
    have out: "take m (xs @ ys) = take m xs @ take (m - length (take m xs)) ys" for m and xs ys :: bytes
      by (simp add: min_def)
    have minus: "m - min a m = m - a" for a m :: nat by (simp add: min_def)
    show ?thesis
      using st start first trunc False unfolding st'
      by (auto simp: scanned_def sel Let_def out minus nth_append split: option.splits)
  qed
qed

lemma scanned_fields:
  assumes "scanned rq p st" and "sc_output st' = sc_output st" and "sc_seen st' = sc_seen st"
    and "sc_line st' = sc_line st" and "sc_capture st' = sc_capture st" and "sc_trunc st' = sc_trunc st"
    and "\<And>b. rq_byte rq = Some b \<Longrightarrow> b < length p \<Longrightarrow> sc_start_line st' = sc_start_line st"
  shows "scanned rq p st'"
  using assms by (simp add: scanned_def Let_def)

lemma scan_segments_scanned:
  "scanned rq p st \<Longrightarrow> scanned rq (p @ rest) (scan_segments rq rest (length p) st)
    \<and> sc_total (scan_segments rq rest (length p) st) = sc_total st
    \<and> sc_pending (scan_segments rq rest (length p) st) = sc_pending st
    \<and> sc_has_data (scan_segments rq rest (length p) st) = sc_has_data st"
proof (induction rest arbitrary: p st rule: length_induct)
  case (1 rest)
  show ?case
  proof (cases "dropWhile (\<lambda>b. b \<noteq> 10) rest")
    case Nil
    show ?thesis
    proof (cases "rest = []")
      case True
      with "1.prems" show ?thesis by (simp add: scan_segments.simps)
    next
      case False
      with Nil have "single_line rest" by (auto simp: single_line_def dropWhile_eq_Nil_conv)
      note seg = segment_scanned[OF "1.prems" this]
      have "10 \<notin> set rest" using Nil by (auto simp: dropWhile_eq_Nil_conv)
      then have "1 + count_list (p @ rest) 10 = sc_line st"
        using "1.prems" by (simp add: scanned_def Let_def count_list_0_iff)
      then have "scanned rq (p @ rest) (capture rq rest (length p) (sc_line st) (at_start rq (length p) (length p + length rest) st))"
        by (intro scanned_fields[OF seg]) simp_all
      moreover have "scan_segments rq rest (length p) st =
          capture rq rest (length p) (sc_line st) (at_start rq (length p) (length p + length rest) st)"
        by (subst scan_segments.simps, unfold Nil) (simp add: False Let_def)
      ultimately show ?thesis by simp
    qed
  next
    case (Cons newline rest')
    then have rest_ne: "rest \<noteq> []" by auto
    have nl: "newline = 10" using hd_dropWhile[of "\<lambda>b. b \<noteq> 10" rest] Cons by simp
    define s where "s = takeWhile (\<lambda>b. b \<noteq> 10) rest @ [newline]"
    have rest: "rest = s @ rest'" using Cons takeWhile_dropWhile_id[of "\<lambda>b. b \<noteq> 10" rest] by (simp add: s_def)
    have "single_line s" by (auto simp: single_line_def s_def nl dest: set_takeWhileD)
    note seg = segment_scanned[OF "1.prems" this]
    let ?st1 = "capture rq s (length p) (sc_line st) (at_start rq (length p) (length p + length s) st)"
    have count: "count_list (p @ s) 10 = count_list p 10 + 1"
      by (auto simp: s_def nl count_list_0_iff dest: set_takeWhileD)
    let ?st2 = "?st1\<lparr>sc_line := sc_line st + 1\<rparr>"
    have "scanned rq (p @ s) ?st2"
      using seg "1.prems" count by (simp add: scanned_def Let_def)
    let ?st3 = "(if rq_byte rq = Some (length p + length s) then ?st2\<lparr>sc_start_line := Some (sc_line ?st2)\<rparr> else ?st2)\<lparr>sc_ends_newline := True\<rparr>"
    have st3: "scanned rq (p @ s) ?st3"
      by (rule scanned_fields[OF \<open>scanned rq (p @ s) ?st2\<close>]) auto
    have step: "scan_segments rq rest (length p) st = scan_segments rq rest' (length (p @ s)) ?st3"
    proof -
      have "scan_segments rq rest (length p) st = scan_segments rq rest' (length p + length s) ?st3"
        by (subst scan_segments.simps, unfold Cons) (simp add: Let_def rest_ne s_def[symmetric] cong: if_cong)
      then show ?thesis by (simp only: length_append)
    qed
    have "length rest' < length rest" using arg_cong[OF rest, of length] by (simp add: s_def)
    from "1.IH"[rule_format, OF this st3] show ?thesis
      unfolding step by (simp add: rest)
  qed
qed

section \<open>Incremental decoding of a valid text\<close>

text \<open>What the decoder holds after \<open>n\<close> bytes of the text.\<close>

definition fitting :: "pystr \<Rightarrow> nat \<Rightarrow> nat" where
  "fitting tx n = length (utf8_bytes (fit tx n))"

definition pending_at :: "pystr \<Rightarrow> nat \<Rightarrow> bytes" where
  "pending_at tx n = drop (fitting tx n) (take n (utf8_bytes tx))"

definition char_boundary :: "pystr \<Rightarrow> nat \<Rightarrow> bool" where
  "char_boundary tx b = (fitting tx b = b)"

lemma fitting_le: "fitting tx n \<le> n"
  by (simp add: fitting_def fit_size)

lemma pending_empty: "n \<le> length (utf8_bytes tx) \<Longrightarrow> pending_at tx n = [] \<longleftrightarrow> char_boundary tx n"
  using fitting_le[of tx n] by (auto simp: pending_at_def char_boundary_def)

lemma pending_0 [simp]: "pending_at tx 0 = []"
  by (simp add: pending_at_def)

lemma fit_split:
  "n \<le> m \<Longrightarrow> \<exists>t. tx = fit tx n @ t \<and> fit tx m = fit tx n @ fit t (m - fitting tx n)"
proof (induction tx arbitrary: n m)
  case Nil
  then show ?case by (simp add: fitting_def)
next
  case (Cons c tx)
  show ?case
  proof (cases "utf8_width c \<le> n")
    case True
    from Cons.IH[OF diff_le_mono[OF Cons.prems, of "utf8_width c"]] obtain t where
      "tx = fit tx (n - utf8_width c) @ t"
      "fit tx (m - utf8_width c) = fit tx (n - utf8_width c) @ fit t (m - utf8_width c - fitting tx (n - utf8_width c))"
      by blast
    with True Cons.prems show ?thesis
      by (intro exI[of _ t]) (simp add: fitting_def length_utf8_char)
  next
    case False
    then show ?thesis by (intro exI[of _ "c # tx"]) (simp add: fitting_def)
  qed
qed

lemma feed_text:
  assumes "list_all is_scalar tx" and "n \<le> m" and "m \<le> length (utf8_bytes tx)"
  shows "feed (pending_at tx n) (take (m - n) (drop n (utf8_bytes tx))) = Inr (pending_at tx m)"
proof -
  define k where "k = fitting tx n"
  obtain t where t: "tx = fit tx n @ t" "fit tx m = fit tx n @ fit t (m - k)"
    using fit_split[OF assms(2)] by (auto simp: k_def)
  have k: "k \<le> n" by (simp add: k_def fitting_le)
  have scalars: "list_all is_scalar t" using assms(1) t(1) by (metis list_all_append)
  have D: "utf8_bytes tx = utf8_bytes (fit tx n) @ utf8_bytes t" by (metis t(1) utf8_bytes_append)
  have len: "length (utf8_bytes (fit tx n)) = k" by (simp add: k_def fitting_def)
  have "pending_at tx n @ take (m - n) (drop n (utf8_bytes tx)) = drop k (take m (utf8_bytes tx))"
    using assms(2,3) k take_add[of n "m - n" "utf8_bytes tx"]
    by (simp add: pending_at_def k_def[symmetric] drop_append)
  also have "\<dots> = take (m - k) (utf8_bytes t)"
    by (simp only: drop_take) (simp add: D len)
  finally have data: "pending_at tx n @ take (m - n) (drop n (utf8_bytes tx)) = take (m - k) (utf8_bytes t)" .
  have m: "m - k \<le> length (utf8_bytes t)" using assms(3) D len by simp
  have fm: "fitting tx m = k + length (utf8_bytes (fit t (m - k)))"
    using t(2) len by (simp add: fitting_def)
  have pend: "pending_at tx m = drop (length (utf8_bytes (fit t (m - k)))) (take (m - k) (utf8_bytes t))"
    unfolding pending_at_def fm by (simp only: drop_take) (simp add: D len)
  show ?thesis
    unfolding feed_def data utf8_decode_take[OF scalars] using m by (auto simp: pend)
qed

section \<open>The chunks of a valid text\<close>

definition progress :: "request \<Rightarrow> pystr \<Rightarrow> nat \<Rightarrow> scan \<Rightarrow> bool" where
  "progress rq tx n st \<longleftrightarrow> scanned rq (take n (utf8_bytes tx)) st \<and> sc_pending st = pending_at tx n \<and> sc_total st = n"

definition splits_char :: "request \<Rightarrow> pystr \<Rightarrow> nat \<Rightarrow> nat \<Rightarrow> bool" where
  "splits_char rq tx n m = (case rq_byte rq of None \<Rightarrow> False | Some b \<Rightarrow> n \<le> b \<and> b < m \<and> \<not> char_boundary tx b)"

lemma validate_chunk_text:
  assumes tx: "list_all is_scalar tx" and st: "progress rq tx n st" and m: "n \<le> m" "m \<le> length (utf8_bytes tx)" "n < m"
  shows "if splits_char rq tx n m
    then validate_chunk rq (take (m - n) (drop n (utf8_bytes tx))) st = Inl boundary_error
    else \<exists>st'. validate_chunk rq (take (m - n) (drop n (utf8_bytes tx))) st = Inr st'
      \<and> sc_pending st' = pending_at tx m \<and> sc_total st' = n \<and> sc_has_data st' = sc_has_data st
      \<and> scanned rq (take n (utf8_bytes tx)) st'"
proof -
  let ?chunk = "take (m - n) (drop n (utf8_bytes tx))"
  have pend: "sc_pending st = pending_at tx n" and total: "sc_total st = n"
    and sc: "scanned rq (take n (utf8_bytes tx)) st"
    using st by (simp_all add: progress_def)
  have fields: "scanned rq (take n (utf8_bytes tx)) (st\<lparr>sc_start_line := x, sc_pending := y\<rparr>)"
    if "\<And>b. rq_byte rq = Some b \<Longrightarrow> n \<le> b" for x y
    using that by (intro scanned_fields[OF sc]) (auto dest: that)
  have fields': "scanned rq (take n (utf8_bytes tx)) (st\<lparr>sc_pending := y\<rparr>)" for y
    by (intro scanned_fields[OF sc]) auto
  have len: "length ?chunk = m - n" using m by simp
  note feed = feed_text[OF tx m(1,2)]
  show ?thesis
  proof (cases "rq_byte rq")
    case None
    then show ?thesis
      using feed fields' by (simp add: splits_char_def validate_chunk_def pend total)
  next
    case (Some b)
    consider "b < n \<or> m \<le> b" | "b = n" | "n < b" "b < m" using m by linarith
    then show ?thesis
    proof cases
      case 1
      then have "n \<noteq> b" "\<not> (n < b \<and> b < n + length ?chunk)" using m len by auto
      with Some 1 feed fields' show ?thesis
        by (auto simp: splits_char_def validate_chunk_def pend total)
    next
      case 2
      then have "pending_at tx n \<noteq> [] \<longleftrightarrow> \<not> char_boundary tx b" using pending_empty[of n tx] m by simp
      with Some 2 feed fields m show ?thesis
        by (auto simp: splits_char_def validate_chunk_def pend total)
    next
      case 3
      have "take (b - n) ?chunk = take (b - n) (drop n (utf8_bytes tx))" using 3 by (simp add: min_def)
      then have feed1: "feed (pending_at tx n) (take (b - n) ?chunk) = Inr (pending_at tx b)"
        using feed_text[OF tx, of n b] 3 m by simp
      have "drop (b - n) ?chunk = take (m - b) (drop b (utf8_bytes tx))" using 3 by (simp add: drop_take)
      then have feed2: "feed (pending_at tx b) (drop (b - n) ?chunk) = Inr (pending_at tx m)"
        using feed_text[OF tx, of b m] 3 m by simp
      have empty: "pending_at tx b = [] \<longleftrightarrow> char_boundary tx b" using pending_empty[of b tx] 3 m by simp
      show ?thesis
        using Some 3 feed1 feed2 empty fields len m
        by (auto simp: splits_char_def validate_chunk_def pend total Let_def simp del: take_take drop_take)
    qed
  qed
qed

lemma ends_with_append: "ys \<noteq> [] \<Longrightarrow> ends_with [x] (xs @ ys) = ends_with [x] ys"
  by (cases ys rule: rev_cases) (auto simp: ends_with_def)

lemma read_chunk_text:
  assumes tx: "list_all is_scalar tx" and st: "progress rq tx n st" and m: "m \<le> length (utf8_bytes tx)" "n < m"
  shows "if splits_char rq tx n m
    then read_chunk rq (take (m - n) (drop n (utf8_bytes tx))) st = Inl boundary_error
    else \<exists>st'. read_chunk rq (take (m - n) (drop n (utf8_bytes tx))) st = Inr st'
      \<and> progress rq tx m st' \<and> sc_has_data st' \<and> sc_ends_newline st' = ends_with [10] (take m (utf8_bytes tx))"
proof -
  let ?chunk = "take (m - n) (drop n (utf8_bytes tx))"
  have "progress rq tx n (st\<lparr>sc_has_data := True\<rparr>)"
    using st by (auto simp: progress_def intro: scanned_fields)
  note valid = validate_chunk_text[OF tx this less_imp_le[OF m(2)] m]
  show ?thesis
  proof (cases "splits_char rq tx n m")
    case True
    with valid show ?thesis by (simp add: read_chunk_def)
  next
    case False
    with valid obtain st' where v: "validate_chunk rq ?chunk (st\<lparr>sc_has_data := True\<rparr>) = Inr st'"
      and st': "sc_pending st' = pending_at tx m" "sc_total st' = n" "sc_has_data st'"
        "scanned rq (take n (utf8_bytes tx)) st'"
      by auto
    have len: "length (take n (utf8_bytes tx)) = n" "length ?chunk = m - n" using m by auto
    have split: "take n (utf8_bytes tx) @ ?chunk = take m (utf8_bytes tx)"
      using m by (simp add: take_add[symmetric] del: take_add)
    note sc = scan_segments_scanned[OF st'(4), of ?chunk, unfolded split len]
    let ?st2 = "scan_segments rq ?chunk n st'"
    have "read_chunk rq ?chunk st = Inr (?st2\<lparr>sc_total := m, sc_ends_newline := ends_with [10] ?chunk\<rparr>)"
      using sc st' m by (simp add: read_chunk_def v Let_def len)
    moreover have "progress rq tx m (?st2\<lparr>sc_total := m, sc_ends_newline := x\<rparr>)" for x
      using sc st' by (auto simp: progress_def intro: scanned_fields)
    moreover have "ends_with [10] ?chunk = ends_with [10] (take m (utf8_bytes tx))"
      using ends_with_append[of ?chunk 10 "take n (utf8_bytes tx)"] m len unfolding split by fastforce
    ultimately show ?thesis using False sc st' by simp
  qed
qed

text \<open>Whatever the chunks are, the whole text is scanned.\<close>

lemma read_chunks_text:
  assumes "list_all is_scalar tx" and "progress rq tx n st" and "n \<le> length (utf8_bytes tx)"
    and "[] \<notin> set cs" and "concat cs = drop n (utf8_bytes tx)"
    and "sc_has_data st = (0 < n)" and "sc_ends_newline st = ends_with [10] (take n (utf8_bytes tx))"
  shows "if splits_char rq tx n (length (utf8_bytes tx)) then rfold (read_chunk rq) cs st = Inl boundary_error
    else \<exists>st'. rfold (read_chunk rq) cs st = Inr st' \<and> progress rq tx (length (utf8_bytes tx)) st'
      \<and> sc_has_data st' = (utf8_bytes tx \<noteq> []) \<and> sc_ends_newline st' = ends_with [10] (utf8_bytes tx)"
  using assms(2-)
proof (induction cs arbitrary: n st)
  case Nil
  then have "n = length (utf8_bytes tx)" by simp
  with Nil show ?case by (auto simp: splits_char_def split: option.splits)
next
  case (Cons c cs)
  define m where "m = n + length c"
  have "c \<noteq> []" using Cons.prems by auto
  have rest: "c @ concat cs = drop n (utf8_bytes tx)" using Cons.prems by simp
  have "length c + length (concat cs) = length (utf8_bytes tx) - n" using arg_cong[OF rest, of length] by simp
  with Cons.prems(2) have m: "m \<le> length (utf8_bytes tx)" unfolding m_def by linarith
  have "n < m" using \<open>c \<noteq> []\<close> by (simp add: m_def)
  note m = m this
  have c: "c = take (m - n) (drop n (utf8_bytes tx))" unfolding rest[symmetric] by (simp add: m_def)
  have "drop (length c) (c @ concat cs) = drop m (utf8_bytes tx)" unfolding rest by (simp add: m_def add.commute)
  then have cs: "concat cs = drop m (utf8_bytes tx)" by simp
  have splits: "splits_char rq tx n (length (utf8_bytes tx)) \<longleftrightarrow>
      splits_char rq tx n m \<or> splits_char rq tx m (length (utf8_bytes tx))"
    using m by (auto simp: splits_char_def split: option.splits)
  note step = read_chunk_text[OF assms(1) Cons.prems(1) m, folded c]
  show ?case
  proof (cases "splits_char rq tx n m")
    case True
    with step splits show ?thesis by simp
  next
    case False
    with step obtain st' where st': "read_chunk rq c st = Inr st'" "progress rq tx m st'" "sc_has_data st'"
        "sc_ends_newline st' = ends_with [10] (take m (utf8_bytes tx))"
      by auto
    from m have "sc_has_data st' = (0 < m)" using st'(3) by simp
    from Cons.IH[OF st'(2) m(1) _ cs this st'(4)] Cons.prems(3) False splits show ?thesis
      by (auto simp: st'(1))
  qed
qed

end
