(* ===== verification/File_Read_Text.thy ===== *)
theory File_Read_Text
  imports File_Read_Proofs
begin

text \<open>
  The reference reading of a range of lines, on the code points of the text, and its equality with the
  reading of the bytes in chunks.
\<close>

section \<open>Bytes of a line\<close>

lemma utf8_char_high: "b \<in> set (utf8_char c) \<Longrightarrow> 128 \<le> c \<Longrightarrow> 128 \<le> b"
  by (auto simp: utf8_char_def split: if_splits)

lemma newline_bytes:
  assumes "is_scalar c" and "c \<noteq> 10"
  shows "(10 :: byte) \<notin> set (map word_of_nat (utf8_char c))"
proof
  assume "(10 :: byte) \<in> set (map word_of_nat (utf8_char c))"
  then obtain b where b: "b \<in> set (utf8_char c)" "(word_of_nat b :: byte) = 10" by auto
  have "b < 256" using b(1) assms(1) by (intro utf8_char_bound) (auto simp: is_scalar_def)
  then have "b = unat (word_of_nat b :: byte)" by (simp add: unat_of_nat)
  also have "\<dots> = 10" by (simp add: b(2))
  finally have "b = 10" .
  with b(1) assms(2) utf8_char_high[OF b(1)] show False by (cases "c < 128") (auto simp: utf8_char_1)
qed

lemma newline_char: "map word_of_nat (utf8_char 10) = [10 :: byte]"
  by (simp add: utf8_char_1)

lemma count_newlines: "list_all is_scalar tx \<Longrightarrow> count_list (utf8_bytes tx) 10 = count_list tx 10"
proof (induction tx)
  case (Cons c tx)
  then show ?case
    using newline_bytes[of c] newline_char by (cases "c = 10") (auto simp: count_list_0_iff)
qed simp

lemma ends_newline: "list_all is_scalar tx \<Longrightarrow> ends_with [10] (utf8_bytes tx) \<longleftrightarrow> tx \<noteq> [] \<and> last tx = 10"
proof (cases tx rule: rev_cases)
  case (snoc ys c)
  assume "list_all is_scalar tx"
  then have c: "is_scalar c" using snoc by simp
  have "ends_with [10] (utf8_bytes tx) = ends_with [10] (map word_of_nat (utf8_char c) :: bytes)"
    unfolding snoc by (simp add: ends_with_append)
  moreover have ends: "ends_with [10] bs \<Longrightarrow> (10 :: byte) \<in> set bs" for bs
    by (auto simp: ends_with_def elim!: starts_with.elims dest: arg_cong[of _ _ set])
  ultimately show ?thesis
    using newline_bytes[OF c] ends[of "map word_of_nat (utf8_char c)"] by (cases "c = 10") (auto simp: snoc utf8_char_1 ends_with_def)
qed (simp add: ends_with_def)

section \<open>From code points to bytes\<close>

definition expand :: "nat \<times> nat \<times> nat \<Rightarrow> (byte \<times> nat \<times> nat) list" where
  "expand t = (case t of (c, line, place) \<Rightarrow>
     map (\<lambda>k. (word_of_nat (utf8_char c ! k), line, place + k)) [0..<utf8_width c])"

lemma byte_tags_utf8:
  "list_all is_scalar tx \<Longrightarrow> byte_tags place line (utf8_bytes tx) = concat (map expand (char_tags place line tx))"
proof (induction tx arbitrary: place line)
  case (Cons c tx)
  define bs :: bytes where "bs = map word_of_nat (utf8_char c)"
  have "byte_tags place line bs = expand (c, line, place)"
  proof (cases "c = 10")
    case False
    with Cons.prems have "(10 :: byte) \<notin> set (map word_of_nat (utf8_char c))" by (intro newline_bytes) auto
    then show ?thesis by (simp add: byte_tags_plain expand_def length_utf8_char bs_def del: set_map)
  qed (simp add: newline_char expand_def utf8_char_1 utf8_width_def bs_def)
  moreover have "length (filter (\<lambda>b. b = 10) bs) = (if c = 10 then 1 else 0)"
  proof (cases "c = 10")
    case False
    with Cons.prems have "(10 :: byte) \<notin> set bs" unfolding bs_def by (intro newline_bytes) auto
    with False show ?thesis by (auto simp: filter_empty_conv)
  qed (simp add: newline_char bs_def)
  moreover have "sum_list (map (\<lambda>_. Suc 0) bs) = utf8_width c"
    by (simp add: sum_list_triv) (simp add: bs_def length_utf8_char)
  moreover have "utf8_bytes (c # tx) = bs @ utf8_bytes tx" by (simp add: bs_def)
  ultimately show ?case
    using Cons by (simp add: tagged_append del: utf8_bytes_Cons)
qed simp

lemma tagged_upper: "(x, l, p) \<in> set (tagged w nl place line xs) \<Longrightarrow> p + w x \<le> place + sum_list (map w xs)"
  by (induction xs arbitrary: place line) fastforce+

lemma boundary_outside:
  assumes "char_boundary tx (b - place)" and "place \<le> b" and "(c, l, p) \<in> set (char_tags place line tx)"
  shows "\<not> (p < b \<and> b < p + utf8_width c)"
  using assms
proof (induction tx arbitrary: place line)
  case (Cons x tx)
  show ?case
  proof (cases "utf8_width x \<le> b - place")
    case True
    then have "char_boundary tx (b - (place + utf8_width x))" "place + utf8_width x \<le> b"
      using Cons.prems(1,2) utf8_width_pos[of x] by (auto simp: char_boundary_def fitting_def length_utf8_char)
    then show ?thesis using Cons.IH Cons.prems(3) by (auto split: if_splits)
  next
    case False
    with Cons.prems(1,2) have "b = place" by (simp add: char_boundary_def fitting_def)
    with tagged_lower[OF Cons.prems(3)] show ?thesis by simp
  qed
qed simp

lemma whole_chars:
  assumes "\<not> splits_char rq tx 0 (length (utf8_bytes tx))" and "rq_byte rq = Some b"
    and "(c, l, p) \<in> set (char_tags 0 line tx)"
  shows "b \<le> p \<or> p + utf8_width c \<le> b"
proof (cases "b < length (utf8_bytes tx)")
  case True
  with assms boundary_outside[of tx b 0 c l p line] show ?thesis by (auto simp: splits_char_def)
next
  case False
  with tagged_upper[OF assms(3)] show ?thesis by (simp add: length_utf8_bytes)
qed

lemma filter_concat_expand:
  assumes "\<And>t b. t \<in> set ts \<Longrightarrow> rq_byte rq = Some b \<Longrightarrow> b \<le> snd (snd t) \<or> snd (snd t) + utf8_width (fst t) \<le> b"
  shows "filter (wanted rq) (concat (map expand ts)) = concat (map expand (filter (wanted rq) ts))"
  using assms
proof (induction ts)
  case (Cons t ts)
  obtain c l p where t: "t = (c, l, p)" by (cases t)
  have "wanted rq (word_of_nat (utf8_char c ! k) :: byte, l, p + k) = wanted rq t" if "k < utf8_width c" for k
    using Cons.prems[of t] that by (auto simp: t wanted_def split: option.splits)
  then have "filter (wanted rq) (expand t) = (if wanted rq t then expand t else [])"
    by (auto simp: expand_def t filter_id_conv filter_empty_conv)
  with Cons show ?case by simp
qed simp

lemma selected_chosen:
  assumes "list_all is_scalar tx" and "\<not> splits_char rq tx 0 (length (utf8_bytes tx))"
  shows "requested rq (utf8_bytes tx) = concat (map expand (chosen rq tx))"
  unfolding requested_def chosen_def byte_tags_utf8[OF assms(1)]
  by (rule filter_concat_expand) (use whole_chars[OF assms(2)] in force)

lemma map_fst_expand: "map fst (concat (map expand ts)) = utf8_bytes (map fst ts)"
proof (induction ts)
  case (Cons t ts)
  obtain c l p where t: "t = (c, l, p)" by (cases t)
  have "map fst (expand t) = map word_of_nat (utf8_char c)"
    by (rule nth_equalityI) (auto simp: t expand_def length_utf8_char)
  with Cons show ?case by (simp add: t)
qed simp

lemma length_expand: "length (concat (map expand ts)) = length (utf8_bytes (map fst ts))"
  by (metis length_map map_fst_expand)

lemma nth_expand:
  assumes "k < length ts" and "j < utf8_width (fst (ts ! k))"
  shows "snd (concat (map expand ts) ! (length (utf8_bytes (map fst (take k ts))) + j))
    = (fst (snd (ts ! k)), snd (snd (ts ! k)) + j)"
proof -
  have ts: "ts = take k ts @ ts ! k # drop (Suc k) ts" using assms(1) by (simp add: id_take_nth_drop)
  have "concat (map expand ts) = concat (map expand (take k ts)) @ expand (ts ! k) @ concat (map expand (drop (Suc k) ts))"
    by (subst ts) simp
  then have "concat (map expand ts) ! (length (utf8_bytes (map fst (take k ts))) + j) = expand (ts ! k) ! j"
    using assms(2) by (simp add: nth_append length_expand) (simp add: expand_def split: prod.splits)
  with assms(2) show ?thesis by (simp add: expand_def split: prod.splits)
qed

section \<open>The chosen code points\<close>

lemma nth_tagged:
  "k < length xs \<Longrightarrow> tagged w nl place line xs ! k =
    (xs ! k, line + length (filter nl (take k xs)), place + sum_list (map w (take k xs)))"
proof (induction xs arbitrary: place line k)
  case (Cons x xs)
  then show ?case by (cases k) (auto simp: add.assoc)
qed simp

lemma nth_char_tags:
  "k < length tx \<Longrightarrow> char_tags 0 1 tx ! k = (tx ! k, 1 + count_list (take k tx) 10, length (utf8_bytes (take k tx)))"
  by (simp add: nth_tagged count_list_filter length_utf8_bytes)

lemma bytes_before:
  assumes "list_all is_scalar tx"
  shows "take (length (utf8_bytes (take k tx))) (utf8_bytes tx) = utf8_bytes (take k tx)"
  by (metis append_eq_conv_conj append_take_drop_id utf8_bytes_append)

lemma char_line:
  assumes "list_all is_scalar tx" and "k < length tx"
  shows "fst (snd (char_tags 0 1 tx ! k)) = 1 + count_list (take (snd (snd (char_tags 0 1 tx ! k))) (utf8_bytes tx)) 10"
proof -
  have "list_all is_scalar (take k tx)" using assms(1) by (metis append_take_drop_id list_all_append)
  with assms show ?thesis
    by (simp only: nth_char_tags snd_conv fst_conv bytes_before count_newlines)
qed

lemma count_take_mono: "a \<le> b \<Longrightarrow> count_list (take a xs) x \<le> count_list (take b xs) x"
  using take_add[of a "b - a" xs] by simp

text \<open>They are a stretch of the text.\<close>

lemma chosen_stretch:
  obtains n where "chosen rq tx = take (length (chosen rq tx)) (drop n (char_tags 0 1 tx))"
    and "n + length (chosen rq tx) \<le> length tx"
proof -
  obtain m n where c: "chosen rq tx = take m (drop n (char_tags 0 1 tx))"
    using wanted_interval[of rq utf8_width "\<lambda>c. c = 10" 0 1 tx] by (auto simp: chosen_def)
  show thesis
  proof (cases "n \<le> length tx")
    case True
    with c show ?thesis by (intro that[of n]) (auto simp: min_def)
  next
    case False
    with c have "chosen rq tx = []" by simp
    then show ?thesis by (intro that[of 0]) simp_all
  qed
qed

lemma chosen_lines:
  assumes "j < length (chosen rq tx)"
  shows "fst (snd (chosen rq tx ! j)) = fst (snd (chosen rq tx ! 0)) + count_list (take j (map fst (chosen rq tx))) 10"
    and "snd (snd (chosen rq tx ! j)) = snd (snd (chosen rq tx ! 0)) + length (utf8_bytes (take j (map fst (chosen rq tx))))"
proof -
  obtain n where c: "chosen rq tx = take (length (chosen rq tx)) (drop n (char_tags 0 1 tx))"
    and n: "n + length (chosen rq tx) \<le> length tx"
    by (rule chosen_stretch)
  have nth: "chosen rq tx ! i = char_tags 0 1 tx ! (n + i)" if "i < length (chosen rq tx)" for i
    by (subst c) (use that n in simp)
  have "take j (map fst (chosen rq tx)) = take j (drop n tx)"
    by (subst c) (use assms in \<open>simp add: take_map drop_map min_def flip: drop_map take_map\<close>)
  moreover have "take (n + j) tx = take n tx @ take j (drop n tx)" by (rule take_add)
  moreover have "0 < length (chosen rq tx)" using assms by linarith
  ultimately show
    "fst (snd (chosen rq tx ! j)) = fst (snd (chosen rq tx ! 0)) + count_list (take j (map fst (chosen rq tx))) 10"
    "snd (snd (chosen rq tx ! j)) = snd (snd (chosen rq tx ! 0)) + length (utf8_bytes (take j (map fst (chosen rq tx))))"
    using n assms nth_char_tags[of "n + j" tx] nth_char_tags[of n tx] by (simp_all add: nth)
qed

text \<open>They begin on the first line, at the start byte.\<close>

lemma chosen_first:
  assumes "list_all is_scalar tx" and "\<not> splits_char rq tx 0 (length (utf8_bytes tx))"
    and "chosen rq tx \<noteq> []" and "1 \<le> rq_start rq"
    and b: "\<forall>b. rq_byte rq = Some b \<longrightarrow> rq_start rq = 1 + count_list (take b (utf8_bytes tx)) 10"
  shows "fst (snd (chosen rq tx ! 0)) = rq_start rq \<and> (\<forall>b. rq_byte rq = Some b \<longrightarrow> snd (snd (chosen rq tx ! 0)) = b)"
proof -
  let ?ts = "char_tags 0 1 tx"
  obtain n where n: "n < length tx" "chosen rq tx ! 0 = ?ts ! n" "wanted rq (?ts ! n)" "\<forall>i < n. \<not> wanted rq (?ts ! i)"
  proof -
    let ?n = "length (takeWhile (\<lambda>t. \<not> wanted rq t) ?ts)"
    have d: "dropWhile (\<lambda>t. \<not> wanted rq t) ?ts \<noteq> []"
      using assms(3) by (auto simp: chosen_def filter_empty_conv dropWhile_eq_Nil_conv)
    then have "?n < length tx" by (metis dropWhile_eq_drop drop_all length_tagged not_le)
    moreover have "chosen rq tx ! 0 = ?ts ! ?n"
    proof -
      have "filter (wanted rq) (takeWhile (\<lambda>t. \<not> wanted rq t) ?ts) = []"
        by (auto simp: filter_empty_conv dest: set_takeWhileD)
      then have "chosen rq tx = filter (wanted rq) (dropWhile (\<lambda>t. \<not> wanted rq t) ?ts)"
        unfolding chosen_def by (metis append_Nil filter_append takeWhile_dropWhile_id)
      then show ?thesis
        using d hd_dropWhile[OF d] by (cases "dropWhile (\<lambda>t. \<not> wanted rq t) ?ts")
          (auto simp: nth_via_drop dropWhile_eq_drop)
    qed
    moreover have "wanted rq (?ts ! ?n)"
      using hd_dropWhile[OF d] \<open>?n < length tx\<close> by (simp add: dropWhile_eq_drop hd_drop_conv_nth)
    moreover have "\<forall>i < ?n. \<not> wanted rq (?ts ! i)"
      by (metis nth_mem set_takeWhileD takeWhile_nth)
    ultimately show thesis by (rule that)
  qed
  define line where "line i = fst (snd (?ts ! i))" for i
  define place where "place i = snd (snd (?ts ! i))" for i
  have at: "line n = 1 + count_list (take (place n) (utf8_bytes tx)) 10"
    using char_line[OF assms(1) n(1)] by (simp add: line_def place_def)
  have low: "rq_start rq \<le> line n" and high: "case rq_end rq of None \<Rightarrow> True | Some e \<Rightarrow> line n \<le> e"
    and byte: "\<And>b. rq_byte rq = Some b \<Longrightarrow> b \<le> place n"
    using n(3) by (auto simp: wanted_def in_range_def line_def place_def split: prod.splits option.splits)
  have "line n = rq_start rq \<and> (\<forall>b. rq_byte rq = Some b \<longrightarrow> place n = b)"
  proof (cases n)
    case 0
    then have zero: "line n = 1" "place n = 0" using n(1) nth_char_tags[of 0 tx] by (simp_all add: line_def place_def)
    with low assms(4) byte show ?thesis by auto
  next
    case (Suc i)
    have i: "i < length tx" using Suc n(1) by simp
    have next_line: "line n \<le> line i + 1" "line i \<le> line n"
      using n(1) i by (simp_all add: line_def Suc nth_char_tags[unfolded One_nat_def] take_Suc_conv_app_nth)
    have next_place: "place n = place i + utf8_width (fst (?ts ! i))"
      using n(1) i by (simp add: place_def Suc nth_char_tags[unfolded One_nat_def] take_Suc_conv_app_nth length_utf8_char)
    have before: "\<not> wanted rq (?ts ! i)" using n(4) Suc by simp
    have high': "case rq_end rq of None \<Rightarrow> True | Some e \<Rightarrow> line i \<le> e"
      using high next_line(2) by (auto split: option.splits)
    show ?thesis
    proof (cases "rq_byte rq")
      case None
      with before high' have "line i < rq_start rq"
        by (auto simp: wanted_def in_range_def line_def split: prod.splits option.splits)
      with low next_line None show ?thesis by simp
    next
      case (Some b)
      have inside: "b \<le> place i \<or> place n \<le> b"
      proof -
        have "(fst (?ts ! i), line i, place i) \<in> set ?ts"
          using nth_mem[of i ?ts] i by (simp add: line_def place_def)
        from whole_chars[OF assms(2) Some this] show ?thesis unfolding next_place .
      qed
      have "place i < b"
      proof (rule ccontr)
        assume "\<not> place i < b"
        then have "rq_start rq \<le> line i"
          using char_line[OF assms(1) i] b[rule_format, OF Some] count_take_mono[of b "place i"]
          by (simp add: line_def place_def)
        with before high' Some \<open>\<not> place i < b\<close> show False
          by (auto simp: wanted_def in_range_def line_def place_def split: prod.splits option.splits)
      qed
      with inside byte[OF Some] have "place n = b" by simp
      with at b[rule_format, OF Some] Some show ?thesis by simp
    qed
  qed
  with n(2) show ?thesis by (simp add: line_def place_def)
qed

section \<open>What fits\<close>

lemma fit_next: "length (fit s n) < length s \<Longrightarrow> n < length (utf8_bytes (fit s n)) + utf8_width (s ! length (fit s n))"
proof (induction s arbitrary: n)
  case (Cons c s)
  show ?case
  proof (cases "utf8_width c \<le> n")
    case True
    with Cons.prems have "length (fit s (n - utf8_width c)) < length s" by simp
    from Cons.IH[OF this] True show ?thesis by (simp add: length_utf8_char)
  qed simp
qed simp

lemma utf8_prefix_text:
  assumes "list_all is_scalar s"
  shows "utf8_prefix (take (n + 3) (utf8_bytes s)) n = Inr (utf8_bytes (fit s n))"
proof -
  have pre: "take (length (utf8_bytes (fit s n))) (utf8_bytes s) = utf8_bytes (fit s n)"
    by (metis append_eq_conv_conj fit_prefix utf8_bytes_append)
  have le: "length (utf8_bytes (fit s n)) \<le> n" by (rule fit_size)
  have "take n (utf8_bytes s) = utf8_bytes (fit s n)" if "length (utf8_bytes (fit s n)) = min n (length (utf8_bytes s))"
    using pre unfolding that by (simp add: min_def split: if_splits)
  then show ?thesis
    using pre le by (simp add: utf8_prefix_def utf8_decode_take[OF assms] Let_def min_def)
qed

section \<open>The reference\<close>

text \<open>
  The page of a text: the chosen code points as far as they fit, the line of the last one, and the
  line and place of the first one that does not fit.
\<close>

definition read_whole :: "(bytes \<Rightarrow> pystr) \<Rightarrow> request \<Rightarrow> pystr \<Rightarrow> bool \<Rightarrow> page_of_lines result" where
  "read_whole sha rq tx same =
    (let bound = length (utf8_bytes tx);
         sel = chosen rq tx;
         kept = length (fit (map fst sel) (rq_max rq)) in
     if splits_char rq tx 0 bound then Inl boundary_error
     else if \<not> same then Inl (RuntimeError ''File changed while reading'')
     else if (case rq_byte rq of None \<Rightarrow> False | Some b \<Rightarrow> bound < b)
     then Inl (ValueError ''start_byte is beyond the file'')
     else if (case rq_byte rq of None \<Rightarrow> False | Some b \<Rightarrow> rq_start rq \<noteq> 1 + count_list (fit tx b) 10)
     then Inl (ValueError ''start_byte does not belong to start_line'')
     else if kept = 0 \<and> sel \<noteq> [] then Inl (ValueError ''max_bytes is too small for the first UTF-8 code point'')
     else Inr \<lparr>pl_text = map fst (take kept sel), pl_start_line = rq_start rq, pl_start_byte = rq_byte rq,
               pl_end_line = (if kept = 0 then rq_start rq - 1 else fst (snd (sel ! (kept - 1)))),
               pl_next = (if kept < length sel then Some (snd (sel ! kept)) else None),
               pl_truncated = (kept < length sel), pl_revision = sha (utf8_bytes tx), pl_size = bound\<rparr>)"

section \<open>The lines of a page\<close>

lemma take_before_last: "0 < k \<Longrightarrow> k \<le> length xs \<Longrightarrow> take k xs = take (k - 1) xs @ [xs ! (k - 1)]"
  by (cases k) (auto simp: take_Suc_conv_app_nth)

lemma chosen_scalar:
  assumes "list_all is_scalar tx"
  shows "list_all is_scalar (map fst (chosen rq tx))"
proof -
  have "set (map fst (chosen rq tx)) \<subseteq> set (map fst (char_tags 0 1 tx))"
    unfolding chosen_def by (auto simp del: map_fst_tagged)
  then show ?thesis using assms by (auto simp: list_all_iff)
qed

lemma chosen_line_kept:
  assumes "list_all is_scalar tx" and "0 < k" and "k \<le> length (chosen rq tx)"
    and "fst (snd (chosen rq tx ! 0)) = rq_start rq"
  defines "kept \<equiv> utf8_bytes (take k (map fst (chosen rq tx)))"
  shows "rq_start rq + count_list kept 10 - (if ends_with [10] kept then 1 else 0) = fst (snd (chosen rq tx ! (k - 1)))"
proof -
  let ?s = "map fst (chosen rq tx)"
  have scalars: "list_all is_scalar (take k ?s)"
    using chosen_scalar[OF assms(1)] by (metis append_take_drop_id list_all_append)
  have split: "take k ?s = take (k - 1) ?s @ [?s ! (k - 1)]"
    using assms(2,3) by (intro take_before_last) auto
  have "last (take k ?s) = ?s ! (k - 1)" "take k ?s \<noteq> []"
    by (subst split, simp)+
  moreover have "count_list (take k ?s) 10 = count_list (take (k - 1) ?s) 10 + (if ?s ! (k - 1) = 10 then 1 else 0)"
    by (subst split) simp
  ultimately show ?thesis
    using chosen_lines(1)[of "k - 1" rq tx] assms(2-4)
    by (simp add: kept_def count_newlines[OF scalars] ends_newline[OF scalars])
qed

lemma places_increase:
  assumes "a < b" and "b \<le> length tx"
  shows "length (utf8_bytes (take a tx)) < length (utf8_bytes (take b tx))"
proof -
  have "take b tx = take a tx @ take (b - a) (drop a tx)" using take_add[of a "b - a" tx] assms(1) by simp
  moreover have "utf8_bytes (take (b - a) (drop a tx)) \<noteq> []" using assms by simp
  ultimately show ?thesis by simp
qed

lemma chosen_line_last:
  assumes "chosen rq tx \<noteq> []"
  defines "last_line \<equiv> 1 + count_list tx 10 - (if tx \<noteq> [] \<and> last tx = 10 then 1 else 0)"
  shows "(case rq_end rq of None \<Rightarrow> last_line | Some e \<Rightarrow> min last_line e)
    = fst (snd (chosen rq tx ! (length (chosen rq tx) - 1)))"
proof -
  let ?ts = "char_tags 0 1 tx" and ?c = "chosen rq tx"
  obtain n where c: "?c = take (length ?c) (drop n ?ts)" and n: "n + length ?c \<le> length tx"
    by (rule chosen_stretch)
  define i where "i = n + length ?c - 1"
  have i: "i < length tx" using n assms(1) by (cases ?c) (auto simp: i_def)
  have nth: "?c ! j = ?ts ! (n + j)" if "j < length ?c" for j
    by (subst c) (use that n in simp)
  have last: "?c ! (length ?c - 1) = ?ts ! i"
    using nth[of "length ?c - 1"] assms(1) by (cases ?c) (auto simp: i_def)
  have line: "fst (snd (?ts ! k)) = 1 + count_list (take k tx) 10" if "k < length tx" for k
    using that by (simp only: nth_char_tags fst_conv snd_conv)
  have tx: "take (length tx - 1) tx = butlast tx" "tx = butlast tx @ [last tx]"
    using i by (simp add: butlast_conv_take, cases tx rule: rev_cases, simp_all)
  have "count_list tx 10 = count_list (butlast tx) 10 + (if last tx = 10 then 1 else 0)"
    by (subst tx(2)) simp
  then have last_line: "last_line = 1 + count_list (take (length tx - 1) tx) 10"
    using i by (auto simp: last_line_def tx(1)[unfolded One_nat_def])
  have upper: "fst (snd (?ts ! i)) \<le> last_line"
    unfolding last_line line[OF i] using count_take_mono[of i "length tx - 1" tx 10] i by simp
  have wanted: "wanted rq (?ts ! i)"
  proof -
    have "?c ! (length ?c - 1) \<in> set ?c" using assms(1) by (intro nth_mem) auto
    then show ?thesis unfolding last by (simp add: chosen_def)
  qed
  have "(case rq_end rq of None \<Rightarrow> last_line | Some e \<Rightarrow> min last_line e) = fst (snd (?ts ! i))"
  proof (cases "Suc i < length tx")
    case False
    then have "length tx - 1 = i" using i by simp
    then have "last_line = fst (snd (?ts ! i))" using line[OF i] last_line by (simp only:)
    with wanted show ?thesis by (auto simp: wanted_def in_range_def split: prod.splits option.splits)
  next
    case True
    have "\<not> wanted rq (?ts ! Suc i)"
    proof
      assume "wanted rq (?ts ! Suc i)"
      then have "?ts ! Suc i \<in> set ?c" using True unfolding chosen_def by (auto intro: nth_mem)
      then obtain j where j: "j < length ?c" "?ts ! (n + j) = ?ts ! Suc i" using nth by (auto simp: in_set_conv_nth)
      have "n + j < Suc i" using j(1) by (simp add: i_def)
      with places_increase[of "n + j" "Suc i" tx] j(2) True show False
        by (simp add: nth_char_tags[unfolded One_nat_def])
    qed
    moreover have "fst (snd (?ts ! i)) \<le> fst (snd (?ts ! Suc i)) \<and> fst (snd (?ts ! Suc i)) \<le> fst (snd (?ts ! i)) + 1
        \<and> snd (snd (?ts ! i)) \<le> snd (snd (?ts ! Suc i))"
      using True by (simp add: nth_char_tags[unfolded One_nat_def] take_Suc_conv_app_nth)
    ultimately show ?thesis
      using wanted upper by (auto simp: wanted_def in_range_def split: prod.splits option.splits)
  qed
  then show ?thesis by (simp only: last)
qed

section \<open>Chunks and whole text agree\<close>

lemma scanned_chosen:
  assumes tx: "list_all is_scalar tx" and rq: "1 \<le> rq_start rq"
    and whole: "\<not> splits_char rq tx 0 (length (utf8_bytes tx))"
    and st: "scanned rq (utf8_bytes tx) st"
    and b: "\<forall>b. rq_byte rq = Some b \<longrightarrow> rq_start rq = 1 + count_list (take b (utf8_bytes tx)) 10"
  defines "s \<equiv> map fst (chosen rq tx)"
  defines "kept \<equiv> length (fit s (rq_max rq))"
  shows "sc_output st = take (rq_max rq + 3) (utf8_bytes s)"
    and "sc_trunc st = (if kept < length (chosen rq tx) then Some (fst (snd (chosen rq tx ! kept))) else None)"
    and "kept < length (chosen rq tx) \<Longrightarrow> sc_capture st = Some (snd (snd (chosen rq tx ! 0)))"
    and "\<not> kept < length (chosen rq tx) \<Longrightarrow> length (utf8_bytes s) \<le> rq_max rq"
proof -
  let ?c = "chosen rq tx" and ?sel = "requested rq (utf8_bytes tx)"
  have sel: "?sel = concat (map expand ?c)" by (rule selected_chosen[OF tx whole])
  have bytes: "map fst ?sel = utf8_bytes s" unfolding sel s_def by (rule map_fst_expand)
  then have len: "length ?sel = length (utf8_bytes s)" by (metis length_map)
  show "sc_output st = take (rq_max rq + 3) (utf8_bytes s)"
    using st by (simp add: scanned_def Let_def bytes)
  have fit: "fit s (rq_max rq) = take kept s" unfolding kept_def by (rule fit_eq_take)
  show small: "length (utf8_bytes s) \<le> rq_max rq" if "\<not> kept < length ?c"
    using that fit fit_size[of s "rq_max rq"] by (simp add: s_def)
  have large: "length (utf8_bytes s) > rq_max rq" if "kept < length ?c"
    using that fit_all[of s "rq_max rq"] unfolding kept_def by (auto simp: length_utf8_bytes s_def not_le[symmetric])
  show "sc_trunc st = (if kept < length ?c then Some (fst (snd (?c ! kept))) else None)"
  proof (cases "kept < length ?c")
    case True
    have le: "length (utf8_bytes (take kept s)) \<le> rq_max rq" using fit_size[of s "rq_max rq"] fit by simp
    have "rq_max rq < length (utf8_bytes (take kept s)) + utf8_width (s ! kept)"
      using fit_next[of s "rq_max rq"] True fit by (simp add: kept_def s_def)
    then have "rq_max rq - length (utf8_bytes (take kept s)) < utf8_width (fst (?c ! kept))"
      using True le by (simp add: s_def)
    from nth_expand[OF True this] have "fst (snd (?sel ! rq_max rq)) = fst (snd (?c ! kept))"
      using le by (simp add: sel s_def take_map)
    with True large st show ?thesis by (simp add: scanned_def Let_def len)
  next
    case False
    with small st show ?thesis by (simp add: scanned_def Let_def len)
  qed
  show "sc_capture st = Some (snd (snd (?c ! 0)))" if "kept < length ?c"
  proof -
    from that have ne: "?c \<noteq> []" by auto
    from nth_expand[of 0 ?c 0] ne utf8_width_pos have "snd (snd (?sel ! 0)) = snd (snd (?c ! 0))"
      by (simp add: sel)
    moreover have "?sel \<noteq> []" using large[OF that] len by auto
    ultimately show ?thesis
      using st chosen_first[OF tx whole ne rq b] by (auto simp: scanned_def Let_def split: option.splits)
  qed
qed

lemma fit_boundary:
  assumes "list_all is_scalar tx" and "char_boundary tx b"
  shows "count_list (take b (utf8_bytes tx)) 10 = count_list (fit tx b) 10"
proof -
  have "take b (utf8_bytes tx) = utf8_bytes (fit tx b)"
    using assms(2) unfolding char_boundary_def fitting_def by (metis append_eq_conv_conj fit_prefix utf8_bytes_append)
  then show ?thesis by (simp add: count_newlines fit_scalar assms(1))
qed

lemma whole_boundary: "char_boundary tx (length (utf8_bytes tx))"
  by (simp add: char_boundary_def fitting_def fit_all length_utf8_bytes)

lemma finish_read_text:
  assumes tx: "list_all is_scalar tx" and rq: "1 \<le> rq_start rq"
    and st: "progress rq tx (length (utf8_bytes tx)) st"
    and whole: "\<not> splits_char rq tx 0 (length (utf8_bytes tx))"
    and data: "sc_has_data st = (utf8_bytes tx \<noteq> [])" "sc_ends_newline st = ends_with [10] (utf8_bytes tx)"
  shows "finish_read rq same (sha (utf8_bytes tx)) st = read_whole sha rq tx same"
proof -
  let ?L = "length (utf8_bytes tx)"
  have sc: "scanned rq (utf8_bytes tx) st" and pend: "sc_pending st = []" and total: "sc_total st = ?L"
    using st pending_empty[of ?L tx] whole_boundary by (simp_all add: progress_def)
  consider "\<not> same" | b where "same" "rq_byte rq = Some b" "?L < b"
    | "same" "\<And>b. rq_byte rq = Some b \<Longrightarrow> b \<le> ?L"
    by (cases same; cases "rq_byte rq") (auto simp: not_le[symmetric])
  then show ?thesis
  proof cases
    case 1
    then show ?thesis using whole by (simp add: finish_read_def read_whole_def pend Let_def)
  next
    case 2
    then show ?thesis using whole by (simp add: finish_read_def read_whole_def pend total Let_def)
  next
    case 3
    let ?st = "if rq_byte rq = Some ?L then st\<lparr>sc_start_line := Some (sc_line st)\<rparr> else st"
    have line: "sc_line st = 1 + count_list (utf8_bytes tx) 10" using sc by (simp add: scanned_def Let_def)
    have start: "sc_start_line ?st = Some (1 + count_list (take b (utf8_bytes tx)) 10)" if "rq_byte rq = Some b" for b
      using that 3(2)[OF that] sc line by (auto simp: scanned_def Let_def)
    have bound: "char_boundary tx b" if "rq_byte rq = Some b" for b
      using that 3(2)[OF that] whole whole_boundary by (cases "b = ?L") (auto simp: splits_char_def)
    have early: "\<not> (case rq_byte rq of None \<Rightarrow> False | Some b \<Rightarrow> ?L < b)"
      using 3(2) by (auto split: option.splits)
    show ?thesis
    proof (cases "\<exists>b. rq_byte rq = Some b \<and> rq_start rq \<noteq> 1 + count_list (take b (utf8_bytes tx)) 10")
      case True
      then obtain b where b: "rq_byte rq = Some b" "rq_start rq \<noteq> 1 + count_list (take b (utf8_bytes tx)) 10" by blast
      have "finish_read rq same (sha (utf8_bytes tx)) st = Inl (ValueError ''start_byte does not belong to start_line'')"
        using start[OF b(1)] b early 3(1) by (auto simp: finish_read_def pend total Let_def)
      moreover have "read_whole sha rq tx same = Inl (ValueError ''start_byte does not belong to start_line'')"
        using whole b early 3(1) fit_boundary[OF tx bound[OF b(1)]] by (simp add: read_whole_def Let_def)
      ultimately show ?thesis by simp
    next
      case False
      then have b: "\<forall>b. rq_byte rq = Some b \<longrightarrow> rq_start rq = 1 + count_list (take b (utf8_bytes tx)) 10"
        by blast
      let ?c = "chosen rq tx" and ?s = "map fst (chosen rq tx)"
      define kept where "kept = length (fit ?s (rq_max rq))"
      note page = scanned_chosen[OF tx rq whole sc b, folded kept_def]
      have fit: "fit ?s (rq_max rq) = take kept ?s" unfolding kept_def by (rule fit_eq_take)
      have scalars: "list_all is_scalar ?s" by (rule chosen_scalar[OF tx])
      then have decode: "decode_bytes (utf8_bytes (take kept ?s)) = Inr (take kept ?s)"
        using fit_scalar[of ?s "rq_max rq"] by (simp add: decode_bytes_def utf8_decode_bytes fit)
      have belongs: "\<not> (rq_byte rq \<noteq> None \<and> sc_start_line ?st \<noteq> None \<and> sc_start_line ?st \<noteq> Some (rq_start rq))"
        using start b by auto
      have belongs': "\<not> (case rq_byte rq of None \<Rightarrow> False | Some b \<Rightarrow> rq_start rq \<noteq> 1 + count_list (fit tx b) 10)"
        using b fit_boundary[OF tx bound] by (auto split: option.splits)
      have first: "?c \<noteq> [] \<Longrightarrow> fst (snd (?c ! 0)) = rq_start rq"
        using chosen_first[OF tx whole _ rq b] by blast
      show ?thesis
      proof (cases "kept < length ?c")
        case True
        then have trunc: "sc_trunc st = Some (fst (snd (?c ! kept)))" and ne: "?c \<noteq> []" using page(2) by auto
        have prefix: "utf8_prefix (sc_output st) (rq_max rq) = Inr (utf8_bytes (take kept ?s))"
          using page(1) utf8_prefix_text[OF scalars, of "rq_max rq"] fit by simp
        have place: "the (sc_capture st) + length (utf8_bytes (take kept ?s)) = snd (snd (?c ! kept))"
          using page(3)[OF True] chosen_lines(2)[OF True] by simp
        have lines: "0 < kept \<Longrightarrow> rq_start rq + count_list (utf8_bytes (take kept ?s)) 10
            - (if ends_with [10] (utf8_bytes (take kept ?s)) then 1 else 0) = fst (snd (?c ! (kept - 1)))"
          using chosen_line_kept[OF tx _ less_imp_le[OF True] first[OF ne]] by simp
        show ?thesis
        proof (cases "rq_byte rq = Some ?L")
          case at_end: True
          show ?thesis
            using True whole 3(1) early belongs belongs' ne trunc prefix decode place lines page(3)[OF True]
            by (cases "kept = 0") (simp_all add: finish_read_def read_whole_def pend total Let_def at_end
              kept_def[symmetric] take_map cong: option.case_cong)
        next
          case inside: False
          show ?thesis
            using True whole 3(1) early belongs belongs' ne trunc prefix decode place lines page(3)[OF True]
            by (cases "kept = 0") (simp_all add: finish_read_def read_whole_def pend total Let_def inside
              kept_def[symmetric] take_map cong: option.case_cong)
        qed
      next
        case False
        then have trunc: "sc_trunc st = None" using page(2) by simp
        have "kept \<le> length ?c" using fit by (metis kept_def length_map length_take min.cobounded1)
        with False have all: "kept = length ?c" by simp
        have out: "sc_output st = utf8_bytes ?s" using page(1) page(4)[OF False] by simp
        have lines: "?c \<noteq> [] \<Longrightarrow> (case rq_end rq of
              None \<Rightarrow> (if sc_ends_newline st then sc_line st - 1 else sc_line st)
            | Some e \<Rightarrow> min (if sc_ends_newline st then sc_line st - 1 else sc_line st) e) = fst (snd (?c ! (length ?c - 1)))"
        proof -
          have "(if sc_ends_newline st then sc_line st - 1 else sc_line st)
              = 1 + count_list tx 10 - (if tx \<noteq> [] \<and> last tx = 10 then 1 else 0)"
            by (simp add: data(2) line ends_newline[OF tx] count_newlines[OF tx])
          with chosen_line_last[of rq tx] show "?c \<noteq> [] \<Longrightarrow> ?thesis" by (simp only:) blast
        qed
        have some: "?c \<noteq> [] \<Longrightarrow> tx \<noteq> []" by (auto simp: chosen_def)
        show ?thesis
        proof (cases "rq_byte rq = Some ?L")
          case at_end: True
          show ?thesis
            using False whole 3(1) early belongs belongs' trunc decode out lines data(1) some
            by (cases "?c = []"; cases "sc_ends_newline st") (simp_all add: finish_read_def read_whole_def pend total Let_def at_end
              kept_def[symmetric] all cong: option.case_cong)
        next
          case inside: False
          show ?thesis
            using False whole 3(1) early belongs belongs' trunc decode out lines data(1) some
            by (cases "?c = []"; cases "sc_ends_newline st") (simp_all add: finish_read_def read_whole_def pend total Let_def inside
              kept_def[symmetric] all cong: option.case_cong)
        qed
      qed
    qed
  qed
qed

end
