(* ===== verification/File_Read_Pages.thy ===== *)
theory File_Read_Pages
  imports File_Read_Text Paging "HOL-Library.Code_Target_Nat"
begin

text \<open>
  The read of a file is the reference reading of its text, wherever the chunks end, and following its
  cursors gives the requested lines.
\<close>

section \<open>The chunks do not matter\<close>

lemma concat_pieces: "0 < n \<Longrightarrow> concat (pieces n xs) = xs"
  by (induction n xs rule: pieces.induct) (subst pieces.simps, simp)

lemma pieces_nonempty: "[] \<notin> set (pieces n xs)"
  by (induction n xs rule: pieces.induct) (subst pieces.simps, simp)

lemma start_progress: "progress rq tx 0 (start_scan rq)"
  by (auto simp: progress_def start_scan_def scanned_def requested_def Let_def split: option.splits)

lemma read_chunks_whole:
  assumes "list_all is_scalar tx" and "1 \<le> rq_start rq" and "[] \<notin> set cs" and "concat cs = utf8_bytes tx"
  shows "read_chunks rq cs same (sha (utf8_bytes tx)) = read_whole sha rq tx same"
proof -
  have start: "sc_has_data (start_scan rq) = (0 < (0::nat))"
    "sc_ends_newline (start_scan rq) = ends_with [10] (take 0 (utf8_bytes tx))"
    by (simp_all add: start_scan_def ends_with_def)
  note scan = read_chunks_text[OF assms(1) start_progress _ assms(3) _ start, simplified drop_0, OF _ assms(4)]
  show ?thesis
  proof (cases "splits_char rq tx 0 (length (utf8_bytes tx))")
    case True
    with scan show ?thesis by (simp add: read_chunks_def read_whole_def Let_def)
  next
    case False
    with scan obtain st where "rfold (read_chunk rq) cs (start_scan rq) = Inr st"
      and st: "progress rq tx (length (utf8_bytes tx)) st"
        "sc_has_data st = (utf8_bytes tx \<noteq> [])" "sc_ends_newline st = ends_with [10] (utf8_bytes tx)"
      by auto
    then show ?thesis
      using finish_read_text[OF assms(1,2) st(1) False st(2,3)] by (simp add: read_chunks_def)
  qed
qed

text \<open>C12: A read of valid text is the reference read.\<close>

theorem read_file_whole:
  assumes "list_all is_scalar tx" and "1 \<le> rq_start rq"
  shows "read_file sha encoding rq (utf8_bytes tx) same =
    (if utf8_name encoding then read_whole sha rq tx same
     else Inl (ValueError ''read currently supports UTF-8 only''))"
  using read_chunks_whole[OF assms pieces_nonempty concat_pieces, of "64 * 1024"] by (simp add: read_file_def)

lemma utf8_name_plain [simp]: "utf8_name [117, 116, 102, 45, 56]"
  by code_simp

theorem read_file_whole_witness:
  "read_file (\<lambda>_. []) (lit ''UTF-8'') \<lparr>rq_start = 2, rq_end = Some 3, rq_byte = None, rq_max = 2\<rparr>
      (utf8_bytes [97, 10, 98, 233, 10, 99]) True
    = Inr \<lparr>pl_text = [98], pl_start_line = 2, pl_start_byte = None, pl_end_line = 2, pl_next = Some (2, 3),
        pl_truncated = True, pl_revision = [], pl_size = 7\<rparr>"
proof -
  have "read_whole (\<lambda>_. []) \<lparr>rq_start = 2, rq_end = Some 3, rq_byte = None, rq_max = 2\<rparr> [97, 10, 98, 233, 10, 99] True
    = Inr \<lparr>pl_text = [98], pl_start_line = 2, pl_start_byte = None, pl_end_line = 2, pl_next = Some (2, 3),
        pl_truncated = True, pl_revision = [], pl_size = 7\<rparr>"
    by code_simp
  moreover have "utf8_name (lit ''UTF-8'')" by code_simp
  ultimately show ?thesis
    using read_file_whole[of "[97, 10, 98, 233, 10, 99]"
        "\<lparr>rq_start = 2, rq_end = Some 3, rq_byte = None, rq_max = 2\<rparr>" "\<lambda>_. []" "lit ''UTF-8''" True]
    by (simp add: is_scalar_def is_surrogate_def)
qed

section \<open>Following the cursors\<close>

type_synonym line_reader = "(bytes \<Rightarrow> pystr) \<times> nat option \<times> nat \<times> pystr"
type_synonym line_cursor = "nat \<times> nat option"

definition cursor_request :: "line_reader \<Rightarrow> line_cursor \<Rightarrow> request" where
  "cursor_request s c = (case s of (_, last_line, bound, _) \<Rightarrow>
     \<lparr>rq_start = fst c, rq_end = last_line, rq_byte = snd c, rq_max = bound\<rparr>)"

definition lines_page :: "line_reader \<Rightarrow> line_cursor \<Rightarrow> exc + (nat list \<times> line_cursor option)" where
  "lines_page s c = (case s of (sha, _, _, tx) \<Rightarrow>
     rbind (read_file sha (lit ''utf-8'') (cursor_request s c) (utf8_bytes tx) True) (\<lambda>pg.
       Inr (pl_text pg, map_option (\<lambda>(line, byte). (line, Some byte)) (pl_next pg))))"

definition lines_valid :: "line_reader \<Rightarrow> line_cursor \<Rightarrow> bool" where
  "lines_valid s c = (case s of (_, _, bound, tx) \<Rightarrow> list_all is_scalar tx \<and> 4 \<le> bound \<and> 1 \<le> fst c
     \<and> (case snd c of None \<Rightarrow> True | Some b \<Rightarrow> char_boundary tx b \<and> b \<le> length (utf8_bytes tx)
          \<and> fst c = 1 + count_list (fit tx b) 10))"

definition lines_rest :: "line_reader \<Rightarrow> line_cursor \<Rightarrow> nat list" where
  "lines_rest s c = (case s of (_, _, _, tx) \<Rightarrow> map fst (chosen (cursor_request s c) tx))"

lemma fit_take: "k \<le> length tx \<Longrightarrow> fit tx (length (utf8_bytes (take k tx))) = take k tx"
proof (induction tx arbitrary: k)
  case (Cons c tx)
  then show ?case by (cases k) (auto simp: length_utf8_char utf8_width_pos not_le)
qed simp

lemma cursor_request_simps [simp]:
  "rq_start (cursor_request (sha, e, m, tx) c) = fst c" "rq_end (cursor_request (sha, e, m, tx) c) = e"
  "rq_byte (cursor_request (sha, e, m, tx) c) = snd c" "rq_max (cursor_request (sha, e, m, tx) c) = m"
  by (simp_all add: cursor_request_def)

lemma lines_page_eq:
  assumes "lines_valid (sha, e, m, tx) c"
  defines "sel \<equiv> chosen (cursor_request (sha, e, m, tx) c) tx"
  defines "kept \<equiv> length (fit (map fst sel) m)"
  shows "lines_page (sha, e, m, tx) c = Inr (map fst (take kept sel),
      if kept < length sel then Some (fst (snd (sel ! kept)), Some (snd (snd (sel ! kept)))) else None)"
    and "sel \<noteq> [] \<Longrightarrow> 0 < kept"
proof -
  let ?rq = "cursor_request (sha, e, m, tx) c"
  show pos: "0 < kept" if "sel \<noteq> []"
  proof -
    have "utf8_width (hd (map fst sel)) \<le> m"
      using utf8_width_le[of "hd (map fst sel)"] assms(1) by (simp add: lines_valid_def)
    then have "fit (map fst sel) m \<noteq> []" using that by (intro fit_nonempty) auto
    then show ?thesis by (simp add: kept_def)
  qed
  have whole: "read_file sha (lit ''utf-8'') ?rq (utf8_bytes tx) True = read_whole sha ?rq tx True"
    using assms(1) read_chunks_whole[of tx ?rq, OF _ _ pieces_nonempty concat_pieces, of "64 * 1024"]
    by (auto simp: lines_valid_def read_file_def)
  have split: "\<not> splits_char ?rq tx 0 (length (utf8_bytes tx))"
    using assms(1) by (auto simp: lines_valid_def splits_char_def split: option.splits)
  have "\<exists>pg. read_whole sha ?rq tx True = Inr pg \<and> pl_text pg = map fst (take kept sel)
      \<and> pl_next pg = (if kept < length sel then Some (snd (sel ! kept)) else None)"
    using assms(1) split pos
    by (cases "snd c") (auto simp: read_whole_def Let_def lines_valid_def simp flip: sel_def kept_def)
  then show "lines_page (sha, e, m, tx) c = Inr (map fst (take kept sel),
      if kept < length sel then Some (fst (snd (sel ! kept)), Some (snd (snd (sel ! kept)))) else None)"
    by (auto simp: lines_page_def whole simp del: lit_simps split: prod.split)
qed

text \<open>What is left at the next cursor.\<close>

lemma filter_from:
  fixes key :: "'a \<Rightarrow> 'k::linorder"
  assumes "sorted_wrt (<) (map key rows)" and "k < length rows"
  shows "filter (\<lambda>r. key (rows ! k) \<le> key r) rows = drop k rows"
  using assms
proof (induction rows arbitrary: k)
  case (Cons r rows)
  show ?case
  proof (cases k)
    case 0
    with Cons.prems show ?thesis by (auto simp: filter_id_conv)
  next
    case (Suc j)
    then have "\<not> key (rows ! j) \<le> key r" using Cons.prems by (auto simp: not_le)
    with Suc Cons show ?thesis by auto
  qed
qed simp

lemma chosen_places: "sorted_wrt (<) (map (\<lambda>t. snd (snd t)) (chosen rq tx))"
proof -
  have "snd (snd (chosen rq tx ! i)) < snd (snd (chosen rq tx ! j))" if "i < j" "j < length (chosen rq tx)" for i j
    using that chosen_lines(2)[of i rq tx] chosen_lines(2)[of j rq tx]
      places_increase[of i j "map fst (chosen rq tx)"] by simp
  then show ?thesis by (simp add: sorted_wrt_iff_nth_less)
qed

lemma chosen_rest:
  assumes "k < length (chosen rq tx)"
  defines "t \<equiv> chosen rq tx ! k"
  shows "chosen (rq\<lparr>rq_start := fst (snd t), rq_byte := Some (snd (snd t))\<rparr>) tx = drop k (chosen rq tx)"
proof -
  let ?ts = "char_tags 0 1 tx"
  have t: "t \<in> set ?ts" "wanted rq t" using assms(1) nth_mem[OF assms(1)] by (auto simp: t_def chosen_def)
  have mono: "fst (snd t) \<le> fst (snd u)" if "u \<in> set ?ts" "snd (snd t) \<le> snd (snd u)" for u
  proof -
    from t(1) obtain i where "i < length tx" "t = ?ts ! i" by (auto simp: in_set_conv_nth)
    moreover from that(1) obtain j where "j < length tx" "u = ?ts ! j" by (auto simp: in_set_conv_nth)
    moreover note ij = calculation
    with that(2) places_increase[of j i tx] have "i \<le> j"
      by (cases "j < i") (auto simp: nth_char_tags[unfolded One_nat_def])
    with ij show ?thesis by (simp add: nth_char_tags[unfolded One_nat_def] count_take_mono)
  qed
  have "wanted (rq\<lparr>rq_start := fst (snd t), rq_byte := Some (snd (snd t))\<rparr>) u \<longleftrightarrow>
      wanted rq u \<and> snd (snd t) \<le> snd (snd u)" if "u \<in> set ?ts" for u
    using t(2) mono[OF that] by (fastforce simp: wanted_def in_range_def split: prod.splits option.splits)
  then have "chosen (rq\<lparr>rq_start := fst (snd t), rq_byte := Some (snd (snd t))\<rparr>) tx
      = filter (\<lambda>u. snd (snd t) \<le> snd (snd u)) (chosen rq tx)"
    by (auto simp: chosen_def intro: filter_cong)
  also have "\<dots> = drop k (chosen rq tx)"
    unfolding t_def by (rule filter_from[OF chosen_places assms(1)])
  finally show ?thesis .
qed

interpretation lines_pager: pager lines_page lines_valid lines_rest
proof
  fix s :: line_reader and c
  assume v: "lines_valid s c"
  obtain sha e m tx where s: "s = (sha, e, m, tx)" by (cases s)
  define sel where "sel = chosen (cursor_request s c) tx"
  define kept where "kept = length (fit (map fst sel) m)"
  note page = lines_page_eq[OF v[unfolded s], folded s, folded sel_def, folded kept_def]
  have rest: "lines_rest s c = map fst sel" by (simp add: lines_rest_def s sel_def)
  show "\<exists>xs n. lines_page s c = Inr (xs, n)" using page(1) by blast
  show "lines_rest s c = xs" if "lines_page s c = Inr (xs, None)" for xs
    using that page(1) rest by (auto split: if_splits)
  show "lines_valid s c' \<and> lines_rest s c = xs @ lines_rest s c' \<and> xs \<noteq> []"
    if "lines_page s c = Inr (xs, Some c')" for xs c'
  proof -
    from that page(1) have k: "kept < length sel" and xs: "xs = map fst (take kept sel)"
      and c': "c' = (fst (snd (sel ! kept)), Some (snd (snd (sel ! kept))))"
      by (auto split: if_splits)
    have "cursor_request s c' = (cursor_request s c)\<lparr>rq_start := fst (snd (sel ! kept)), rq_byte := Some (snd (snd (sel ! kept)))\<rparr>"
      by (simp add: cursor_request_def s c')
    then have rest': "lines_rest s c' = map fst (drop kept sel)"
      using chosen_rest[of kept "cursor_request s c" tx] k by (simp add: lines_rest_def s sel_def)
    have "sel \<noteq> []" using k by auto
    then have "0 < kept" by (rule page(2))
    then have "xs \<noteq> []" using k by (auto simp: xs)
    have "sel ! kept \<in> set (char_tags 0 1 tx)" using nth_mem[OF k] by (simp add: sel_def chosen_def)
    then obtain i where i: "i < length tx" "sel ! kept = char_tags 0 1 tx ! i" by (auto simp: in_set_conv_nth)
    have bytes: "length (utf8_bytes (take i tx)) \<le> length (utf8_bytes tx)"
      by (metis append_take_drop_id le_add1 length_append utf8_bytes_append)
    have "lines_valid s c'"
      using v i bytes by (simp add: lines_valid_def s c' nth_char_tags[unfolded One_nat_def] char_boundary_def fitting_def fit_take)
    with \<open>xs \<noteq> []\<close> show ?thesis by (simp add: rest rest' xs flip: map_append)
  qed
qed

text \<open>The lines of a text, each with its line feed.\<close>

fun text_lines :: "pystr \<Rightarrow> pystr list" where
  "text_lines [] = []"
| "text_lines (c # s) =
    (if c = 10 then [c] # text_lines s
     else case text_lines s of [] \<Rightarrow> [[c]] | l # ls \<Rightarrow> (c # l) # ls)"

definition line_slice :: "nat \<Rightarrow> nat option \<Rightarrow> pystr list \<Rightarrow> pystr list" where
  "line_slice first last_line ls =
    (case last_line of None \<Rightarrow> drop (first - 1) ls | Some e \<Rightarrow> take (e + 1 - first) (drop (first - 1) ls))"

lemma chosen_slice_from:
  assumes "rq_byte rq = None"
  shows "map fst (filter (wanted rq) (char_tags place line tx)) =
    concat (case rq_end rq of None \<Rightarrow> drop (rq_start rq - line) (text_lines tx)
            | Some e \<Rightarrow> take (e + 1 - max (rq_start rq) line) (drop (rq_start rq - line) (text_lines tx)))"
proof (induction tx arbitrary: place line)
  case (Cons c tx)
  show ?case
  proof (cases "rq_start rq \<le> line")
    case True
    then have "max (rq_start rq) line = line" "max (rq_start rq) (Suc line) = Suc line" by auto
    with True Cons.IH[of "place + utf8_width c"] assms show ?thesis
      by (cases "line \<le> the (rq_end rq)")
        (auto simp: wanted_def in_range_def Suc_diff_le split: option.splits list.splits)
  next
    case False
    then have "max (rq_start rq) line = rq_start rq" "max (rq_start rq) (Suc line) = rq_start rq"
      "rq_start rq - line = Suc (rq_start rq - Suc line)" by auto
    with False Cons.IH[of "place + utf8_width c"] assms show ?thesis
      by (auto simp: wanted_def in_range_def split: option.splits list.splits)
  qed
qed (simp split: option.split)


lemma chosen_slice:
  assumes "rq_byte rq = None" and "1 \<le> rq_start rq"
  shows "map fst (chosen rq tx) = concat (line_slice (rq_start rq) (rq_end rq) (text_lines tx))"
  unfolding chosen_def line_slice_def chosen_slice_from[OF assms(1)] max_absorb1[OF assms(2)] ..

text \<open>
  C13: Following the cursors of a read from its first line on, whatever the page size, gives the requested
  lines of the text.
\<close>

theorem read_lines_collects:
  assumes "list_all is_scalar tx" and "4 \<le> bound" and "1 \<le> first"
    and "length tx < fuel"
  shows "collect (lines_page (sha, last_line, bound, tx)) fuel (first, None)
    = Some (Inr (concat (line_slice first last_line (text_lines tx))))"
proof -
  let ?s = "(sha, last_line, bound, tx)"
  have rest: "lines_rest ?s (first, None) = concat (line_slice first last_line (text_lines tx))"
    using chosen_slice[of "cursor_request ?s (first, None)" tx] assms(3) by (simp add: lines_rest_def)
  have "length (lines_rest ?s (first, None)) \<le> length tx"
    by (simp add: lines_rest_def chosen_def) (metis length_filter_le length_tagged)
  with lines_pager.collect_rest[of ?s "(first, None)" fuel] assms show ?thesis
    by (simp add: lines_valid_def rest)
qed

theorem read_lines_collects_witness:
  "collect (lines_page (\<lambda>_. [], None, 4, [97, 10, 233, 98, 10, 99])) 7 (2, None) = Some (Inr [233, 98, 10, 99])"
  using read_lines_collects[of "[97, 10, 233, 98, 10, 99]" 4 2 7 "\<lambda>_. []" None]
  by (simp add: is_scalar_def is_surrogate_def line_slice_def del: collect.simps)

end
