(* ===== verification/File_Bytes.thy ===== *)
theory File_Bytes
  imports File_Read_Pages File_Transactions
begin

text \<open>
  Reading a page of bytes (\<open>read_bytes\<close> and \<open>_read_bytes\<close> of filesystem.py): the file is hashed in
  blocks of one megabyte, and the page is cut out of the blocks that it touches.  The page is given as
  bytes; the code returns their base64 text.
\<close>

definition take_block :: "nat \<Rightarrow> nat \<Rightarrow> bytes \<Rightarrow> nat \<times> bytes \<Rightarrow> nat \<times> bytes" where
  "take_block start stop data acc =
    (case acc of (offset, chunk) \<Rightarrow>
      let block_end = offset + length data;
          left = max start offset;
          right = min stop block_end
      in (block_end, if left < right then chunk @ take (right - left) (drop (left - offset) data) else chunk))"

record byte_page =
  bp_data :: bytes
  bp_start :: nat
  bp_size :: nat
  bp_revision :: pystr
  bp_next :: "nat option"
  bp_truncated :: bool

definition read_byte_page :: "env \<Rightarrow> path \<Rightarrow> nat \<Rightarrow> nat \<Rightarrow> (('a) fsys_scheme, byte_page) prog" where
  "read_byte_page ev p start bound =
    pbind (sys_stat p) (\<lambda>before.
    pseq (lift (require_regular before))
     (let size = length (n_data before); stop = min (start + bound) size in
      if size < start then raise (ValueError ''start_byte is beyond the file'')
      else
       pbind (sys_open p) (\<lambda>f.
       pbind (ensure
         (pbind (sys_fstat f) (\<lambda>opened.
          pseq (lift (require_regular opened))
           (if signature before \<noteq> signature opened then raise (RuntimeError ''File changed while reading'')
            else
              pbind (sys_read f None) (\<lambda>data.
              pbind (sys_stat p) (\<lambda>after.
                ret (fold (take_block start stop) (pieces (1024 * 1024) data) (0, []), data, after))))))
         (sys_close f)) (\<lambda>((offset, chunk), data, after).
         if signature before \<noteq> signature after \<or> offset \<noteq> size then raise (RuntimeError ''File changed while reading'')
         else ret \<lparr>bp_data = chunk, bp_start = start, bp_size = size, bp_revision = sha ev data,
                bp_next = (if stop < size then Some stop else None), bp_truncated = (stop < size)\<rparr>))))"

definition read_bytes :: "env \<Rightarrow> path \<Rightarrow> pyval \<Rightarrow> pyval \<Rightarrow> (('a) fsys_scheme, byte_page) prog" where
  "read_bytes ev p start bound =
    (case start of
       PInt s \<Rightarrow>
         if s < 0 then raise (ValueError ''start_byte must be a non-negative integer'')
         else (case bound of
             PInt m \<Rightarrow>
               if m < 1 then raise (ValueError ''max_bytes must be a positive integer'')
               else read_byte_page ev p (nat s) (nat m)
           | _ \<Rightarrow> raise (ValueError ''max_bytes must be a positive integer''))
     | _ \<Rightarrow> raise (ValueError ''start_byte must be a non-negative integer''))"

section \<open>The blocks make up the page\<close>

definition byte_slice :: "nat \<Rightarrow> nat \<Rightarrow> nat \<Rightarrow> 'a list \<Rightarrow> 'a list" where
  "byte_slice start stop offset xs = take (stop - max start offset) (drop (start - offset) xs)"

lemma slice_append: "byte_slice start stop offset (xs @ ys) = byte_slice start stop offset xs @ byte_slice start stop (offset + length xs) ys"
proof -
  have "stop - max start offset - (length xs - (start - offset)) = stop - max start (offset + length xs)"
    by (auto simp: max_def)
  then show ?thesis by (simp add: byte_slice_def)
qed

lemma take_block_slice:
  "take_block start stop data (offset, chunk) = (offset + length data, chunk @ byte_slice start stop offset data)"
proof (cases "max start offset < min stop (offset + length data)")
  case True
  have "min stop (offset + length data) - max start offset
      = min (stop - max start offset) (length (drop (start - offset) data))"
    using True by (auto simp: max_def min_def)
  then have "take (min stop (offset + length data) - max start offset) (drop (start - offset) data)
      = byte_slice start stop offset data"
    by (metis byte_slice_def take_all_iff take_take nle_le)
  moreover have "max start offset - offset = start - offset" by simp
  ultimately show ?thesis using True by (simp add: take_block_def Let_def)
next
  case False
  then have "byte_slice start stop offset data = []" by (auto simp: byte_slice_def)
  with False show ?thesis by (simp only: take_block_def Let_def prod.case if_False append_Nil2)
qed

lemma blocks_slice:
  "fold (take_block start stop) bs (offset, chunk) =
    (offset + length (concat bs), chunk @ byte_slice start stop offset (concat bs))"
proof (induction bs arbitrary: offset chunk)
  case Nil
  then show ?case by (simp add: byte_slice_def)
next
  case (Cons b bs)
  then show ?case by (simp add: take_block_slice slice_append)
qed

text \<open>A page of a file that nobody changes meanwhile.\<close>

lemma byte_page:
  assumes "fs_script s = []" "node_at s p = Some n" "n_kind n = Regular" "start \<le> length (n_data n)"
  shows "read_byte_page ev p start bound s = (Inr
    \<lparr>bp_data = take bound (drop start (n_data n)), bp_start = start, bp_size = length (n_data n),
     bp_revision = sha ev (n_data n), bp_next = (if start + bound < length (n_data n) then Some (start + bound) else None),
     bp_truncated = (start + bound < length (n_data n))\<rparr>, s)"
proof -
  have same_script: "s\<lparr>fs_script := []\<rparr> = s" using assms(1) by (cases s) simp
  have quiet: "syscall m s = m s" for m :: "('a fsys_scheme, 'x) prog"
    using assms(1) by (simp add: syscall_def same_script)
  have calls: "sys_stat p s = (Inr n, s)" "sys_open p s = (Inr (p, n_ino n), s)"
    "sys_fstat (p, n_ino n) s = (Inr n, s)" "sys_read (p, n_ino n) None s = (Inr (n_data n), s)" "sys_close (p, n_ino n) s = (Inr (), s)"
    using assms(2) by (simp_all add: sys_stat_def sys_open_def sys_fstat_def sys_read_def sys_close_def quiet ret_def)
  have cut: "fold (take_block start stop) (pieces 1048576 (n_data n)) (0, []) = (length (n_data n), byte_slice start stop 0 (n_data n))" for stop
    by (simp add: blocks_slice concat_pieces)
  have page: "byte_slice start (start + bound) 0 (n_data n) = take bound (drop start (n_data n))"
    "byte_slice start (length (n_data n)) 0 (n_data n) = drop start (n_data n)"
    by (simp_all add: byte_slice_def)
  show ?thesis
    using assms(3,4) unfolding read_byte_page_def Let_def
    by (simp add: pbind_def pseq_def lift_def ret_def raise_def ensure_def attempt_def require_regular_def calls cut page min_def)
qed

section \<open>Paging\<close>

type_synonym byte_reader = "env \<times> nat \<times> bytes"

definition one_file :: "bytes \<Rightarrow> fsys" where
  "one_file data = \<lparr>fs_files = [([[97]], \<lparr>n_kind = Regular, n_ino = 1, n_data = data, n_mode = 420, n_time = 0\<rparr>)],
     fs_script = [], fs_names = [], fs_clock = 2\<rparr>"

definition bytes_page :: "byte_reader \<Rightarrow> nat \<Rightarrow> exc + (8 word list \<times> nat option)" where
  "bytes_page s c = (case s of (ev, m, data) \<Rightarrow>
     rbind (fst (read_bytes ev [[97]] (PInt (int c)) (PInt (int m)) (one_file data))) (\<lambda>pg. Inr (bp_data pg, bp_next pg)))"

definition bytes_valid :: "byte_reader \<Rightarrow> nat \<Rightarrow> bool" where
  "bytes_valid s c = (case s of (_, m, data) \<Rightarrow> 1 \<le> m \<and> c \<le> length data)"

definition bytes_rest :: "byte_reader \<Rightarrow> nat \<Rightarrow> bytes" where
  "bytes_rest s c = (case s of (_, _, data) \<Rightarrow> drop c data)"

lemma bytes_page_eq:
  assumes "bytes_valid (ev, m, data) c"
  shows "bytes_page (ev, m, data) c =
    Inr (take m (drop c data), if c + m < length data then Some (c + m) else None)"
proof -
  have "node_at (one_file data) [[97]] = Some \<lparr>n_kind = Regular, n_ino = 1, n_data = data, n_mode = 420, n_time = 0\<rparr>"
    "fs_script (one_file data) = []" by (simp_all add: one_file_def node_at_def)
  from byte_page[OF this(2,1)] assms show ?thesis
    by (simp add: bytes_page_def bytes_valid_def read_bytes_def)
qed

interpretation bytes_pager: pager bytes_page bytes_valid bytes_rest
proof
  fix s :: byte_reader and c
  assume v: "bytes_valid s c"
  obtain ev m data where s: "s = (ev, m, data)" by (cases s)
  note page = bytes_page_eq[OF v[unfolded s], folded s]
  from page show "\<exists>xs n. bytes_page s c = Inr (xs, n)" by blast
  show "bytes_rest s c = xs" if "bytes_page s c = Inr (xs, None)" for xs
    using that page by (simp add: bytes_rest_def s split: if_splits)
  show "bytes_valid s c' \<and> bytes_rest s c = xs @ bytes_rest s c' \<and> xs \<noteq> []" if "bytes_page s c = Inr (xs, Some c')" for xs c'
  proof -
    from that page have c': "c' = c + m" "c + m < length data" and xs: "xs = take m (drop c data)" by (auto split: if_splits)
    have "drop c data = take m (drop c data) @ drop (c + m) data"
      by (metis append_take_drop_id drop_drop add.commute)
    moreover have "take m (drop c data) \<noteq> []" using v c' by (simp add: bytes_valid_def s)
    ultimately show ?thesis using v c' by (simp add: bytes_valid_def bytes_rest_def s xs)
  qed
qed

text \<open>Following the cursors from the start gives the whole file.\<close>

lemma read_bytes_collects:
  "1 \<le> m \<Longrightarrow> collect (bytes_page (ev, m, data)) (Suc (length data)) 0 = Some (Inr data)"
  using bytes_pager.collect_rest[of "(ev, m, data)" 0 "Suc (length data)"]
  by (simp add: bytes_valid_def bytes_rest_def)

end
