(* ===== verification/Page_Iteration.thy ===== *)
theory Page_Iteration
  imports Pages File_Bytes
begin

text \<open>
  Iterating over a method that keeps the contract of a pager shows everything once and in order, or
  stops at the limit of pages with arguments that continue with exactly the rest.
\<close>

lemma py_eq_none: "py_eq x PNone \<longleftrightarrow> x = PNone"
  by (subst py_eq.simps) (auto simp: num_of_def split: pyval.splits option.splits)

lemma next_marker_not_none: "next_marker page \<noteq> Some PNone"
  by (simp add: next_marker_def unless_none_def)

declare page_loop.simps [simp del]

section \<open>The contract of a paged method\<close>

text \<open>
  The pages of the method are those of the pager, written as a mapping; its options hold the cursor,
  and \<open>advance\<close> puts the next one there.
\<close>

locale paged_method = pager page valid rest
  for page :: "'s \<Rightarrow> 'c \<Rightarrow> exc + ('a list \<times> 'c option)"
    and valid :: "'s \<Rightarrow> 'c \<Rightarrow> bool" and rest :: "'s \<Rightarrow> 'c \<Rightarrow> 'a list" +
  fixes src :: "'s \<Rightarrow> source" and key :: "'s \<Rightarrow> pyval \<Rightarrow> pystr" and args :: "'s \<Rightarrow> pyval list"
    and options :: "'s \<Rightarrow> 'c \<Rightarrow> table" and marker :: "'c \<Rightarrow> pyval"
    and shown :: "'s \<Rightarrow> 'c \<Rightarrow> table" and items :: "'s \<Rightarrow> table \<Rightarrow> 'a list"
    and revision :: "'s \<Rightarrow> pyval"
  assumes no_search: "\<not> search_method (so_name (src s))"
    and call: "valid s c \<Longrightarrow>
      (case call_arguments (so_positional (src s)) (args s) (options s c) of (a, o') \<Rightarrow> so_call (src s) n a o')
        = Inr (PDict (shown s c))"
    and shown_items: "valid s c \<Longrightarrow> page s c = Inr (xs, m) \<Longrightarrow> items s (shown s c) = xs"
    and shown_next: "valid s c \<Longrightarrow> page s c = Inr (xs, m) \<Longrightarrow> next_marker (shown s c) = map_option marker m"
    and shown_end: "valid s c \<Longrightarrow> page s c = Inr (xs, None) \<Longrightarrow> \<not> truthy (get_or (shown s c) (lit ''has_more'') PNone)"
    and shown_revision: "valid s c \<Longrightarrow> page_revision (shown s c) = Some (revision s)"
    and revision_same: "py_eq (revision s) (revision s)"
    and advances: "valid s c \<Longrightarrow> valid s c' \<Longrightarrow> advance (so_name (src s)) (options s c) (marker c') = Inr (options s c')"
    and key_inj: "valid s c \<Longrightarrow> valid s c' \<Longrightarrow> key s (marker c) = key s (marker c') \<Longrightarrow> c = c'"
    and marker_inj: "py_eq (marker c) (marker c') \<Longrightarrow> c = c'"
begin

text \<open>What has been seen belongs to cursors with more left.\<close>

definition behind :: "'s \<Rightarrow> 'c \<Rightarrow> pyval option \<Rightarrow> pystr list \<Rightarrow> bool" where
  "behind s c previous seen \<longleftrightarrow>
    (\<forall>k \<in> set seen. \<exists>c0. valid s c0 \<and> k = key s (marker c0) \<and> length (rest s c) \<le> length (rest s c0))
    \<and> (\<forall>p. previous = Some p \<longrightarrow> p = PNone \<or> (\<exists>c0. p = marker c0 \<and> length (rest s c) \<le> length (rest s c0)))"

lemma page_loop_rest:
  assumes "valid s c" "behind s c previous seen" "r0 = None \<or> r0 = Some (revision s)" "0 < left"
  shows "case page_loop (src s) (key s) number left (args s) (options s c) previous seen r0 of
      (ps, Exhausted) \<Rightarrow> concat (map (items s) ps) = rest s c \<and> length ps \<le> left
    | (ps, Page_Limit n m o') \<Rightarrow> left \<le> length (rest s c) \<and> n + 1 = number + left \<and> length ps = left
        \<and> (\<exists>c'. valid s c' \<and> m = marker c' \<and> o' = options s c' \<and> concat (map (items s) ps) @ rest s c' = rest s c)
    | (_, Failed _) \<Rightarrow> False"
  using assms
proof (induction left arbitrary: c previous seen r0 number)
  case 0
  then show ?case by simp
next
  case (Suc left)
  obtain xs m where p: "page s c = Inr (xs, m)" using page_total[OF Suc.prems(1)] by blast
  note it = shown_items[OF Suc.prems(1) p] and nx = shown_next[OF Suc.prems(1) p]
  have rv: "check_revision r0 (shown s c) = Inr (Some (revision s))"
    using Suc.prems(3) shown_revision[OF Suc.prems(1)] revision_same by (auto simp: check_revision_def)
  show ?case
  proof (cases m)
    case None
    with shown_end[OF Suc.prems(1)] p page_last[OF Suc.prems(1)] it show ?thesis
      by (simp add: page_loop.simps(2) call[OF Suc.prems(1)] rv nx)
  next
    case (Some c')
    with p have p': "page s c = Inr (xs, Some c')" by simp
    from page_more[OF Suc.prems(1) p'] have v: "valid s c'" and r: "rest s c = xs @ rest s c'" and ne: "xs \<noteq> []" by auto
    from ne have pos: "Suc 0 \<le> length xs" by (cases xs) auto
    note less = rest_shrinks[OF Suc.prems(1) p']
    have fresh: "c' \<noteq> c0" if "length (rest s c) \<le> length (rest s c0)" for c0
      using less that by auto
    have "marker c' \<noteq> PNone" using nx Some next_marker_not_none[of "shown s c"] by auto
    then have new: "\<not> comes_back (key s) previous seen (marker c')"
      using Suc.prems(2) fresh key_inj[OF v] marker_inj
      by (fastforce simp: comes_back_def behind_def py_eq_none split: option.splits)
    have step: "page_loop (src s) (key s) number (Suc left) (args s) (options s c) previous seen r0 =
      (if left = 0 then ([shown s c], Page_Limit number (marker c') (options s c'))
       else (case page_loop (src s) (key s) (Suc number) left (args s) (options s c') (Some (marker c'))
            (key s (marker c') # seen) (Some (revision s)) of (ps, e) \<Rightarrow> (shown s c # ps, e)))"
      using no_search by (simp add: page_loop.simps(2) call[OF Suc.prems(1)] rv nx Some new advances[OF Suc.prems(1) v])
    show ?thesis
    proof (cases "left = 0")
      case True
      then show ?thesis using v r it ne unfolding step by (cases xs) auto
    next
      case False
      have "behind s c' (Some (marker c')) (key s (marker c') # seen)"
        using Suc.prems(2) less v by (fastforce simp: behind_def)
      from Suc.IH[OF v this, of "Some (revision s)" "Suc number"] False
      show ?thesis
        using it r pos less by (auto simp: step False split: prod.splits iter_end.splits)
    qed
  qed
qed

text \<open>The whole iteration: it ends with everything shown, or at its limit with the rest to go.\<close>

lemma iter_rest:
  assumes "valid s c" "1 \<le> k" "k \<le> 10000"
    and "get (options s c) (lit ''cursor'') \<in> {None, Some PNone, Some (marker c)}"
  shows "case pages_iter (src s) (key s) (args s) (PInt (int k)) (options s c) of
      (ps, Exhausted) \<Rightarrow> concat (map (items s) ps) = rest s c \<and> length ps \<le> k
    | (ps, Page_Limit n m o') \<Rightarrow> n = k \<and> length ps = k \<and> k \<le> length (rest s c)
        \<and> (\<exists>c'. valid s c' \<and> m = marker c' \<and> o' = options s c' \<and> concat (map (items s) ps) @ rest s c' = rest s c)
    | (_, Failed _) \<Rightarrow> False"
proof -
  have "behind s c (get (options s c) (lit ''cursor'')) []"
    using assms(4) by (auto simp: behind_def)
  from page_loop_rest[OF assms(1) this, of None k 1] assms(2,3) show ?thesis
    using no_search by (auto simp: pages_iter_def Let_def split: prod.splits iter_end.splits)
qed

end

section \<open>Reading a file in pages\<close>

text \<open>
  The method \<open>fs.read_bytes\<close>: it reads its options and answers with the page of a file that nobody
  changes.  The base64 text of the bytes, its reading, and the text of a cursor are parameters.
\<close>

text \<open>The mapping that \<open>read_bytes\<close> returns, and the method as the iterator calls it, with its defaults.\<close>

definition byte_mapping :: "(bytes \<Rightarrow> pystr) \<Rightarrow> pystr \<Rightarrow> byte_page \<Rightarrow> table" where
  "byte_mapping encode display pg =
    [(lit ''path'', PStr display),
     (lit ''data_base64'', PStr (encode (bp_data pg))),
     (lit ''start_byte'', PInt (int (bp_start pg))),
     (lit ''size'', PInt (int (bp_size pg))),
     (lit ''revision'', PStr (bp_revision pg)),
     (lit ''next_cursor'', (case bp_next pg of None \<Rightarrow> PNone | Some n \<Rightarrow> PInt (int n))),
     (lit ''truncated'', PBool (bp_truncated pg))]"

definition read_bytes_method :: "(bytes \<Rightarrow> pystr) \<Rightarrow> env \<Rightarrow> bytes \<Rightarrow> source" where
  "read_bytes_method encode ev data =
    \<lparr>so_name = lit ''fs.read_bytes'',
     so_call = (\<lambda>_ args options.
       rbind (fst (read_bytes ev [[97]] (get_or options (lit ''start_byte'') (PInt 0))
           (get_or options (lit ''max_bytes'') (PInt 32768)) (one_file data)))
         (\<lambda>pg. Inr (PDict (byte_mapping encode [97] pg)))),
     so_positional = [(lit ''path'', 0)]\<rparr>"

definition byte_options :: "nat \<Rightarrow> nat \<Rightarrow> table" where
  "byte_options m c = [(lit ''start_byte'', PInt (int c)), (lit ''max_bytes'', PInt (int m))]"

definition page_bytes :: "(pystr \<Rightarrow> bytes) \<Rightarrow> table \<Rightarrow> bytes" where
  "page_bytes decode page = (case get page (lit ''data_base64'') of Some (PStr t) \<Rightarrow> decode t | _ \<Rightarrow> [])"

type_synonym bytes_client = "(bytes \<Rightarrow> pystr) \<times> (pystr \<Rightarrow> bytes) \<times> (pyval \<Rightarrow> pystr) \<times> byte_reader"

definition client_valid :: "bytes_client \<Rightarrow> nat \<Rightarrow> bool" where
  "client_valid s c = (case s of (encode, decode, key, r) \<Rightarrow>
    bytes_valid r c \<and> (\<forall>d. decode (encode d) = d) \<and> inj (\<lambda>k. key (PInt (int k))))"

definition client_shown :: "bytes_client \<Rightarrow> nat \<Rightarrow> table" where
  "client_shown s c = (case s of (encode, _, _, ev, m, data) \<Rightarrow>
    byte_mapping encode [97]
      \<lparr>bp_data = take m (drop c data), bp_start = c, bp_size = length data, bp_revision = sha ev data,
       bp_next = (if c + m < length data then Some (c + m) else None), bp_truncated = (c + m < length data)\<rparr>)"

lemma method_call:
  assumes "bytes_valid (ev, m, data) c"
  shows "(case call_arguments [(lit ''path'', 0)] [PStr [97]] (byte_options m c) of
      (a, o') \<Rightarrow> so_call (read_bytes_method encode ev data) n a o')
    = Inr (PDict (client_shown (encode, decode, key, ev, m, data) c))"
proof -
  have "node_at (one_file data) [[97]] = Some \<lparr>n_kind = Regular, n_ino = 1, n_data = data, n_mode = 420, n_time = 0\<rparr>"
    "fs_script (one_file data) = []" by (simp_all add: one_file_def node_at_def)
  from byte_page[OF this(2,1), of c ev m] assms show ?thesis
    by (simp add: call_arguments_def place_argument_def byte_options_def get_or_def get_def
        read_bytes_method_def read_bytes_def bytes_valid_def client_shown_def)
qed

lemma read_bytes_name: "so_name (read_bytes_method encode ev data) = lit ''fs.read_bytes''"
    "so_positional (read_bytes_method encode ev data) = [(lit ''path'', 0)]"
  by (simp_all add: read_bytes_method_def)

lemma advance_bytes:
  "advance (lit ''fs.read_bytes'') (byte_options m c) (PInt (int c')) = Inr (byte_options m c')"
  by (simp add: advance_def method_parts_def is_fs_def byte_options_def put_def del_def Let_def)

interpretation file_pages: paged_method
  "\<lambda>(_, _, _, r). bytes_page r" client_valid "\<lambda>(_, _, _, r). bytes_rest r"
  "\<lambda>(encode, _, _, ev, _, data). read_bytes_method encode ev data" "\<lambda>(_, _, key, _). key" "\<lambda>_. [PStr [97]]"
  "\<lambda>(_, _, _, _, m, _). byte_options m" "\<lambda>c. PInt (int c)" client_shown
  "\<lambda>(_, decode, _, _). page_bytes decode" "\<lambda>(_, _, _, ev, _, data). PStr (sha ev data)"
proof (unfold_locales, goal_cases)
  case (1 s c)
  then show ?case using bytes_pager.page_total by (auto simp: client_valid_def split: prod.splits)
next
  case (2 s c xs)
  then show ?case using bytes_pager.page_last by (auto simp: client_valid_def split: prod.splits)
next
  case (3 s c xs c')
  then show ?case using bytes_pager.page_more by (fastforce simp: client_valid_def split: prod.splits)
next
  case (4 s)
  then show ?case by (auto simp: read_bytes_name search_method_def method_parts_def Let_def split: prod.splits)
next
  case (5 s c n)
  obtain encode decode key ev m data where s: "s = (encode, decode, key, ev, m, data)" by (cases s)
  from 5 have "bytes_valid (ev, m, data) c" by (simp add: client_valid_def s)
  from method_call[OF this] show ?case by (simp only: s prod.case read_bytes_name)
next
  case (6 s c xs m)
  then show ?case
    by (auto simp: client_valid_def bytes_page_eq page_bytes_def client_shown_def byte_mapping_def get_def split: prod.splits)
next
  case (7 s c xs m)
  then show ?case
    by (auto simp: client_valid_def bytes_page_eq next_marker_def unless_none_def client_shown_def byte_mapping_def get_def
        split: prod.splits if_splits)
next
  case (8 s c xs)
  then show ?case
    by (auto simp: truthy_def client_shown_def byte_mapping_def get_def get_or_def split: prod.splits)
next
  case (9 s c)
  then show ?case
    by (auto simp: page_revision_def unless_none_def client_shown_def byte_mapping_def get_def split: prod.splits)
next
  case (10 s)
  then show ?case by (cases s, subst py_eq.simps) (simp add: num_of_def)
next
  case (11 s c c')
  show ?case by (cases s) (simp only: prod.case read_bytes_name advance_bytes)
next
  case (12 s c c')
  then show ?case by (auto simp: client_valid_def inj_def split: prod.splits)
next
  case (13 c c')
  then show ?case by (subst (asm) py_eq.simps) (auto simp: num_of_def scaled_def)
qed

text \<open>
  C14: reading a file in pages through the iterator with \<open>fs.read_bytes\<close>: it never fails; a run that
  ends gave exactly the bytes of the file, in order; a run that stops at its limit gave that many
  pages, and the options it hands out, a start byte, go on with exactly the bytes that are missing; and
  a limit above the size of the file is never reached.  It holds for any base64 functions that undo
  each other and any text of cursors that keeps different offsets apart.
\<close>

theorem pages_iter_file:
  assumes "\<forall>d. decode (encode d) = d" "inj (\<lambda>k. key (PInt (int k)))" "1 \<le> m" "1 \<le> k" "k \<le> 10000"
  shows "case pages_iter (read_bytes_method encode ev data) key [PStr [97]] (PInt (int k)) (byte_options m 0) of
      (ps, Exhausted) \<Rightarrow> concat (map (page_bytes decode) ps) = data \<and> length ps \<le> k
    | (ps, Page_Limit n _ o') \<Rightarrow> n = k \<and> length ps = k \<and> k \<le> length data
        \<and> (\<exists>c. o' = byte_options m c \<and> concat (map (page_bytes decode) ps) @ drop c data = data)
    | (_, Failed _) \<Rightarrow> False"
proof -
  have cursor: "get (byte_options m 0) (lit ''cursor'') = None"
    by (simp add: byte_options_def get_def)
  have "client_valid (encode, decode, key, ev, m, data) 0"
    using assms by (simp add: client_valid_def bytes_valid_def)
  from file_pages.iter_rest[OF this, of k] show ?thesis
    using assms(4,5) cursor
    by (auto simp: bytes_rest_def split: prod.splits iter_end.splits)
qed

definition iter_env :: env where
  "iter_env = \<lparr>sha = map unat, unified_diff = (\<lambda>_ _ _ _. []), in_history = (\<lambda>_. False), blob_limit = 0,
     record_changes = None\<rparr>"

theorem pages_iter_file_witness:
  "\<exists>ps. pages_iter (read_bytes_method (map unat) iter_env [1, 2, 3]) (\<lambda>v. case v of PInt i \<Rightarrow> [nat i] | _ \<Rightarrow> [])
      [PStr [97]] (PInt 5) (byte_options 2 0) = (ps, Exhausted)
    \<and> concat (map (page_bytes (map of_nat)) ps) = [1, 2, 3]"
  using pages_iter_file[where decode = "map of_nat" and encode = "map unat" and m = 2 and k = 5 and ev = iter_env
      and key = "\<lambda>v. case v of PInt i \<Rightarrow> [nat i] | _ \<Rightarrow> []" and data = "[1, 2, 3]"]
  by (auto simp: inj_def o_def split: prod.splits iter_end.splits)

end
