(* ===== verification/Text_Edits.thy ===== *)
theory Text_Edits
  imports Utf8 Config_Values "HOL-Library.Multiset" "HOL-Library.Product_Lexorder"
begin

text \<open>
  The text edits of a language server (lsp_edits.py): a position of a line and a character, counted
  in the units of the negotiated encoding, as an offset in the text, and a list of edits applied from
  the end of the text to its beginning.  The specification is positions read off a prefix of the
  text, and all edits applied at once in a single pass over the original text.
\<close>

section \<open>Lines and positions\<close>

text \<open>The error of lsp_edits.py, and the error of a codec that it lets through.\<close>

datatype edit_error = Edit_Error string | Codec_Error

definition is_eol :: "nat \<Rightarrow> bool" where
  "is_eol c = (c = 13 \<or> c = 10)"

text \<open>The outer loop: the starts of the lines after the first one, and the lines.\<close>

function scan_lines :: "pystr \<Rightarrow> nat \<Rightarrow> nat list \<times> pystr list" where
  "scan_lines rest index =
    (if rest = [] then ([], [])
     else
       let line = takeWhile (\<lambda>c. \<not> is_eol c) rest;
           after = dropWhile (\<lambda>c. \<not> is_eol c) rest in
       if after = [] then ([], [line])
       else
         let n = (if starts_with [13, 10] after then 2 else 1);
             next_index = index + length line + n;
             (starts, lines) = scan_lines (drop n after) next_index in
         (next_index # starts, line # lines))"
  by pat_completeness auto
termination
proof (relation "measure (length \<circ> fst)", goal_cases)
  case (2 rest index line after n next_index)
  have "length after \<le> length rest" using 2 by (simp add: length_dropWhile_le)
  moreover have "0 < length after" "0 < n" using 2 by auto
  ultimately show ?case by (simp; arith)
qed simp

declare scan_lines.simps [simp del]

definition line_starts :: "pystr \<Rightarrow> nat list \<times> pystr list" where
  "line_starts tx =
    (let (starts, lines) = scan_lines tx 0;
         all_starts = 0 # starts in
     (all_starts, if lines = [] \<or> last all_starts = length tx then lines @ [[]] else lines))"

text \<open>
  The loop over the characters of a line, with the width of a character in units; a surrogate
  cannot be encoded.
\<close>

fun walk_units :: "(nat \<Rightarrow> nat) \<Rightarrow> string \<Rightarrow> int \<Rightarrow> pystr \<Rightarrow> nat \<Rightarrow> nat \<Rightarrow> edit_error + nat" where
  "walk_units width split character [] units offset =
    (if int units \<noteq> character then Inl (Edit_Error ''LSP edit position is outside the line'')
     else Inr offset)"
| "walk_units width split character (c # cs) units offset =
    (if int units = character then Inr offset
     else if \<not> is_scalar c then Inl Codec_Error
     else if int (units + width c) > character then Inl (Edit_Error split)
     else walk_units width split character cs (units + width c) (offset + 1))"

definition position_offset :: "pystr \<Rightarrow> pyval \<Rightarrow> pystr \<Rightarrow> edit_error + nat" where
  "position_offset tx position encoding =
    (case position of
       PDict d \<Rightarrow>
        (case get d (lit ''line'') of
           Some (PInt line) \<Rightarrow>
            (case get d (lit ''character'') of
               Some (PInt character) \<Rightarrow>
                (if line < 0 \<or> character < 0 then Inl (Edit_Error ''LSP edit has an invalid position'')
                 else
                   let (starts, lines) = line_starts tx in
                   if int (length lines) \<le> line
                   then Inl (Edit_Error ''LSP edit position is outside the document'')
                   else
                     let value = lines ! nat line; begin = starts ! nat line in
                     if encoding = lit ''utf-32'' then
                       (if int (length value) < character
                        then Inl (Edit_Error ''LSP edit position is outside the line'')
                        else Inr (begin + nat character))
                     else if encoding = lit ''utf-8'' then
                       rbind (walk_units utf8_width ''LSP edit splits a UTF-8 code point'' character value 0 0)
                         (\<lambda>offset. Inr (begin + offset))
                     else
                       rbind (walk_units utf16_width ''LSP edit splits a UTF-16 code point'' character value 0 0)
                         (\<lambda>offset. Inr (begin + offset)))
             | _ \<Rightarrow> Inl (Edit_Error ''LSP edit has an invalid position''))
         | _ \<Rightarrow> Inl (Edit_Error ''LSP edit has an invalid position''))
     | _ \<Rightarrow> Inl (Edit_Error ''LSP edit has an invalid position''))"

section \<open>Applying edits\<close>

text \<open>Start, end, replacement and index in the list of the client.\<close>

type_synonym text_edit = "nat \<times> nat \<times> pystr \<times> nat"

definition convert_edit :: "pystr \<Rightarrow> pystr \<Rightarrow> pyval \<Rightarrow> nat \<Rightarrow> edit_error + text_edit" where
  "convert_edit tx encoding item index =
    (case item of
       PDict d \<Rightarrow>
        (case get d (lit ''range'') of
           Some (PDict raw_range) \<Rightarrow>
             rbind (position_offset tx (get_or raw_range (lit ''start'') PNone) encoding) (\<lambda>start.
             rbind (position_offset tx (get_or raw_range (lit ''end'') PNone) encoding) (\<lambda>stop.
             if stop < start then Inl (Edit_Error ''LSP text edit range is reversed'')
             else (case get d (lit ''newText'') of
                 Some (PStr replacement) \<Rightarrow>
                   if no_nul replacement then Inr (start, stop, replacement, index)
                   else Inl (Edit_Error ''LSP text edit replacement is invalid'')
               | _ \<Rightarrow> Inl (Edit_Error ''LSP text edit replacement is invalid''))))
         | _ \<Rightarrow> Inl (Edit_Error ''LSP text edit is malformed''))
     | _ \<Rightarrow> Inl (Edit_Error ''LSP text edit is malformed''))"

fun convert_edits :: "pystr \<Rightarrow> pystr \<Rightarrow> pyval list \<Rightarrow> nat \<Rightarrow> edit_error + text_edit list" where
  "convert_edits tx encoding [] index = Inr []"
| "convert_edits tx encoding (item # items) index =
    rbind (convert_edit tx encoding item index) (\<lambda>e.
    rbind (convert_edits tx encoding items (index + 1)) (\<lambda>es. Inr (e # es)))"

fun edit_key :: "text_edit \<Rightarrow> int \<times> int \<times> int" where
  "edit_key (start, stop, _, index) = (- int start, if start < stop then 0 else 1, - int index)"

fun no_overlap :: "nat \<Rightarrow> text_edit list \<Rightarrow> bool" where
  "no_overlap previous_start [] = True"
| "no_overlap previous_start ((start, stop, _, _) # es) =
    (if stop > previous_start then False else no_overlap start es)"

fun replace_range :: "pystr \<Rightarrow> text_edit \<Rightarrow> pystr" where
  "replace_range tx (start, stop, replacement, _) = take start tx @ replacement @ drop stop tx"

definition apply_text_edits :: "pystr \<Rightarrow> pyval \<Rightarrow> pystr \<Rightarrow> edit_error + pystr" where
  "apply_text_edits tx edits encoding =
    (case edits of
       PList items \<Rightarrow>
         rbind (convert_edits tx encoding items 0) (\<lambda>converted.
         let converted = sort_key edit_key converted in
         if \<not> no_overlap (length tx + 1) converted
         then Inl (Edit_Error ''overlapping LSP text edits are unsupported'')
         else Inr (foldl replace_range tx converted))
     | _ \<Rightarrow> Inl (Edit_Error ''LSP text edits must be a list''))"

section \<open>All edits at once\<close>

text \<open>
  In the order of the text: insertions at a place come in the order of the list, before the edit
  that replaces what begins there.
\<close>

fun text_order :: "text_edit \<Rightarrow> nat \<times> nat \<times> nat" where
  "text_order (start, stop, _, index) = (start, if start < stop then 1 else 0, index)"

definition disjoint_edits :: "text_edit list \<Rightarrow> bool" where
  "disjoint_edits es = sorted_wrt (\<lambda>(_, stop, _, _) (start, _, _, _). stop \<le> start) es"

text \<open>One pass over the original text from a place on.\<close>

fun splice :: "pystr \<Rightarrow> nat \<Rightarrow> text_edit list \<Rightarrow> pystr" where
  "splice tx place [] = drop place tx"
| "splice tx place ((start, stop, replacement, _) # es) =
    take (start - place) (drop place tx) @ replacement @ splice tx stop es"

lemma filter_eq_single: "distinct zs \<Longrightarrow> k \<in> set zs \<Longrightarrow> filter ((=) k) zs = [k]"
  by (induction zs) (auto simp: filter_empty_conv)

lemma sort_key_rev:
  assumes "distinct xs" and "inj_on f (set xs)"
    and "\<And>x y. x \<in> set xs \<Longrightarrow> y \<in> set xs \<Longrightarrow> g x \<le> g y \<Longrightarrow> f y \<le> f x"
  shows "sort_key f xs = rev (sort_key g xs)"
proof (rule properties_for_sort_key)
  show "mset (rev (sort_key g xs)) = mset xs" by simp
next
  fix k
  assume "k \<in> set (rev (sort_key g xs))"
  then have k: "k \<in> set xs" by simp
  have "filter (\<lambda>x. f k = f x) zs = [k]" if "distinct zs" "set zs = set xs" for zs
  proof -
    have "filter (\<lambda>x. f k = f x) zs = filter ((=) k) zs"
      using assms(2) that k by (intro filter_cong) (auto dest: inj_onD)
    then show ?thesis using that k by (simp add: filter_eq_single)
  qed
  then show "filter (\<lambda>x. f k = f x) (rev (sort_key g xs)) = filter (\<lambda>x. f k = f x) xs"
    using assms(1) by simp
next
  have "sorted_wrt (\<lambda>x y. g x \<le> g y) (sort_key g xs)"
    using sorted_sort_key[of g xs] by (simp add: sorted_map)
  then have "sorted_wrt (\<lambda>x y. f y \<le> f x) (sort_key g xs)"
    by (rule sorted_wrt_mono_rel[rotated]) (use assms(3) in auto)
  then show "sorted (map f (rev (sort_key g xs)))"
    by (simp add: sorted_map sorted_wrt_rev)
qed

section \<open>The table of lines\<close>

text \<open>The start and the text of every line, the last one without its end.\<close>

function line_table :: "pystr \<Rightarrow> nat \<Rightarrow> (nat \<times> pystr) list" where
  "line_table rest index =
    (let line = takeWhile (\<lambda>c. \<not> is_eol c) rest;
         after = dropWhile (\<lambda>c. \<not> is_eol c) rest in
     if after = [] then [(index, line)]
     else
       let n = (if starts_with [13, 10] after then 2 else 1) in
       (index, line) # line_table (drop n after) (index + length line + n))"
  by pat_completeness auto
termination
proof (relation "measure (length \<circ> fst)", goal_cases)
  case (2 rest index line after n)
  have "length after \<le> length rest" using 2 by (simp add: length_dropWhile_le)
  moreover have "0 < length after" "0 < n" using 2 by auto
  ultimately show ?case by (simp; arith)
qed simp

declare line_table.simps [simp del]

text \<open>A text is a line without an end, or a line, its end and the rest.\<close>

definition line_end :: "pystr \<Rightarrow> pystr \<Rightarrow> bool" where
  "line_end e rest = (e = [10] \<or> e = [13, 10] \<or> e = [13] \<and> (rest = [] \<or> hd rest \<noteq> 10))"

lemma text_cases:
  obtains (last_line) "\<forall>c \<in> set tx. \<not> is_eol c"
  | (more) line e rest where "\<forall>c \<in> set line. \<not> is_eol c" "line_end e rest" "tx = line @ e @ rest"
proof -
  define line after where "line = takeWhile (\<lambda>c. \<not> is_eol c) tx" and "after = dropWhile (\<lambda>c. \<not> is_eol c) tx"
  have tx: "tx = line @ after" by (simp add: line_def after_def)
  have line: "\<forall>c \<in> set line. \<not> is_eol c" by (auto simp: line_def dest: set_takeWhileD)
  show ?thesis
  proof (cases after)
    case Nil
    with tx line last_line show ?thesis by simp
  next
    case (Cons c rest)
    then have "is_eol c" using hd_dropWhile[of "\<lambda>c. \<not> is_eol c" tx] by (simp add: after_def)
    have "\<exists>e rest. after = e @ rest \<and> line_end e rest"
    proof (cases "c = 13 \<and> rest \<noteq> [] \<and> hd rest = 10")
      case True
      then show ?thesis using Cons by (intro exI[of _ "[13, 10]"] exI[of _ "tl rest"]) (cases rest; simp add: line_end_def)
    next
      case False
      with \<open>is_eol c\<close> show ?thesis
        using Cons by (intro exI[of _ "[c]"] exI[of _ rest]) (auto simp: is_eol_def line_end_def)
    qed
    with tx line more show ?thesis by blast
  qed
qed

lemma text_induct [case_names last_line more]:
  assumes "\<And>line. \<forall>c \<in> set line. \<not> is_eol c \<Longrightarrow> P line"
    and "\<And>line e rest. \<forall>c \<in> set line. \<not> is_eol c \<Longrightarrow> line_end e rest \<Longrightarrow> P rest \<Longrightarrow> P (line @ e @ rest)"
  shows "P tx"
proof (induction tx rule: length_induct)
  case (1 tx)
  then have IH: "P rest" if "length rest < length tx" for rest using that by blast
  show ?case
  proof (cases tx rule: text_cases)
    case (more line e rest)
    then have "length rest < length tx" by (auto simp: line_end_def)
    with more assms(2) IH show ?thesis by simp
  qed (rule assms(1))
qed

lemma first_line:
  assumes "\<forall>c \<in> set line. \<not> is_eol c" and "tail = [] \<or> is_eol (hd tail)"
  shows "takeWhile (\<lambda>c. \<not> is_eol c) (line @ tail) = line"
    and "dropWhile (\<lambda>c. \<not> is_eol c) (line @ tail) = tail"
  using takeWhile_append_stop[of line "\<lambda>c. \<not> is_eol c" tail] assms by auto

lemma eol_simps [simp]: "is_eol 10" "is_eol 13"
  by (simp_all add: is_eol_def)

lemma line_end_simps:
  assumes "line_end e rest"
  shows "e \<noteq> []" and "is_eol (hd (e @ rest))"
    and "(if starts_with [13, 10] (e @ rest) then 2 else 1) = length e"
proof -
  show "(if starts_with [13, 10] (e @ rest) then 2 else 1) = length e"
    using assms by (cases rest) (auto simp: line_end_def)
qed (use assms in \<open>auto simp: line_end_def\<close>)

lemma line_table_last: "\<forall>c \<in> set line. \<not> is_eol c \<Longrightarrow> line_table line index = [(index, line)]"
  using first_line[of line "[]"] by (subst line_table.simps) (simp add: Let_def)

lemma line_table_more:
  assumes "\<forall>c \<in> set line. \<not> is_eol c" and "line_end e rest"
  shows "line_table (line @ e @ rest) index = (index, line) # line_table rest (index + length line + length e)"
proof -
  note first = first_line[OF assms(1) disjI2[OF line_end_simps(2)[OF assms(2)]]] line_end_simps(3)[OF assms(2)]
  show ?thesis
    by (subst line_table.simps, unfold Let_def first) (simp add: line_end_simps(1)[OF assms(2)])
qed

lemma scan_lines_last: "\<forall>c \<in> set line. \<not> is_eol c \<Longrightarrow> line \<noteq> [] \<Longrightarrow> scan_lines line index = ([], [line])"
  using first_line[of line "[]"] by (subst scan_lines.simps) (simp add: Let_def)

lemma scan_lines_more:
  assumes "\<forall>c \<in> set line. \<not> is_eol c" and "line_end e rest"
  shows "scan_lines (line @ e @ rest) index =
    (let next_index = index + length line + length e; (ss, ls) = scan_lines rest next_index in
     (next_index # ss, line # ls))"
proof -
  note first = first_line[OF assms(1) disjI2[OF line_end_simps(2)[OF assms(2)]]] line_end_simps(3)[OF assms(2)]
  show ?thesis
    by (subst scan_lines.simps, unfold Let_def first) (simp add: line_end_simps(1)[OF assms(2)])
qed

lemma line_table_not_Nil [simp]: "line_table tx index \<noteq> []"
  by (subst line_table.simps) (simp add: Let_def)

lemma scan_lines_table:
  "scan_lines tx index = (ss, ls) \<Longrightarrow>
    line_table tx index =
      zip (index # ss) (if ls = [] \<or> last (index # ss) = index + length tx then ls @ [[]] else ls)
    \<and> length (index # ss) = length (if ls = [] \<or> last (index # ss) = index + length tx then ls @ [[]] else ls)
    \<and> (ls = [] \<longleftrightarrow> tx = [])"
proof (induction tx arbitrary: index ss ls rule: text_induct)
  case (last_line line)
  show ?case
  proof (cases "line = []")
    case True
    with last_line show ?thesis by (auto simp: line_table_last scan_lines.simps)
  next
    case False
    with last_line show ?thesis by (auto simp: line_table_last scan_lines_last)
  qed
next
  case (more line e rest)
  obtain ss' ls' where sc: "scan_lines rest (index + length line + length e) = (ss', ls')" by fastforce
  note IH = more.IH[OF sc]
  show ?case
    using more.prems more.hyps IH sc line_end_simps(1)[OF more.hyps(2)]
    by (auto simp: line_table_more scan_lines_more add.assoc)
qed

lemma line_starts_table: "line_starts tx = (map fst (line_table tx 0), map snd (line_table tx 0))"
proof -
  obtain ss ls where sc: "scan_lines tx 0 = (ss, ls)" by fastforce
  show ?thesis
    using scan_lines_table[OF sc] sc by (simp add: line_starts_def Let_def)
qed

section \<open>Positions read off a prefix\<close>

text \<open>The number of line ends in a text and what follows the last of them.\<close>

fun line_ends :: "pystr \<Rightarrow> nat" where
  "line_ends [] = 0"
| "line_ends (c # cs) =
    (if c = 10 then 1 + line_ends cs
     else if c = 13 then (if cs \<noteq> [] \<and> hd cs = 10 then line_ends cs else 1 + line_ends cs)
     else line_ends cs)"

definition last_line :: "pystr \<Rightarrow> pystr" where
  "last_line tx = rev (takeWhile (\<lambda>c. \<not> is_eol c) (rev tx))"

text \<open>The units of a character in an encoding.\<close>

definition units_of :: "pystr \<Rightarrow> nat \<Rightarrow> nat" where
  "units_of encoding =
    (if encoding = lit ''utf-32'' then (\<lambda>_. 1) else if encoding = lit ''utf-8'' then utf8_width else utf16_width)"

text \<open>The position of an offset that is not between a carriage return and its line feed.\<close>

definition text_place :: "pystr \<Rightarrow> nat \<Rightarrow> bool" where
  "text_place tx k = (k \<le> length tx \<and> \<not> (0 < k \<and> k < length tx \<and> tx ! (k - 1) = 13 \<and> tx ! k = 10))"

definition position_at :: "pystr \<Rightarrow> pystr \<Rightarrow> nat \<Rightarrow> nat \<times> nat" where
  "position_at tx encoding k =
    (let before = take k tx in (line_ends before, sum_list (map (units_of encoding) (last_line before))))"

definition position_value :: "int \<Rightarrow> int \<Rightarrow> pyval" where
  "position_value line character = PDict [(lit ''line'', PInt line), (lit ''character'', PInt character)]"

lemma line_ends_none: "\<forall>c \<in> set line. \<not> is_eol c \<Longrightarrow> line_ends (line @ cs) = line_ends cs"
  by (induction line) (auto simp: is_eol_def)

lemma line_ends_last: "\<forall>c \<in> set line. \<not> is_eol c \<Longrightarrow> line_ends line = 0"
  using line_ends_none[of line "[]"] by simp

lemma last_line_none: "\<forall>c \<in> set line. \<not> is_eol c \<Longrightarrow> last_line line = line"
  by (simp add: last_line_def takeWhile_eq_all_conv[THEN iffD2])

lemma none_take: "\<forall>c \<in> set line. \<not> is_eol c \<Longrightarrow> \<forall>c \<in> set (take j line). \<not> is_eol c"
  by (auto dest: in_set_takeD)

lemma last_line_eol:
  assumes "is_eol c"
  shows "last_line (line @ c # cs) = last_line cs"
proof (cases "\<forall>x \<in> set cs. \<not> is_eol x")
  case True
  then have "takeWhile (\<lambda>c. \<not> is_eol c) (rev cs @ c # rev line) = rev cs"
    using takeWhile_append_stop(1)[of "rev cs" "\<lambda>c. \<not> is_eol c" "c # rev line"] assms by simp
  with True show ?thesis by (simp add: last_line_def takeWhile_eq_all_conv[THEN iffD2])
next
  case False
  then show ?thesis by (auto simp: last_line_def takeWhile_append1)
qed

lemma line_end_take: "line_end e rest \<Longrightarrow> line_end e (take m rest)"
  by (cases rest; cases m) (auto simp: line_end_def)

lemma prefix_more:
  assumes "\<forall>c \<in> set line. \<not> is_eol c" and "line_end e rest"
  shows "line_ends (line @ e @ rest) = Suc (line_ends rest)" and "last_line (line @ e @ rest) = last_line rest"
proof -
  show "line_ends (line @ e @ rest) = Suc (line_ends rest)"
    using assms by (auto simp: line_ends_none line_end_def)
  have "last_line (line @ e @ rest) = last_line ((line @ butlast e) @ last e # rest)"
    using assms(2) by (auto simp: line_end_def)
  also have "\<dots> = last_line rest"
    using assms(2) by (intro last_line_eol) (auto simp: line_end_def)
  finally show "last_line (line @ e @ rest) = last_line rest" .
qed

lemma text_place_more:
  assumes "line_end e rest"
  shows "text_place (line @ e @ rest) (length line + length e + m) \<longleftrightarrow> text_place rest m"
proof (cases m)
  case 0
  with assms show ?thesis
    by (cases rest) (auto simp: text_place_def line_end_def nth_append)
next
  case (Suc n)
  then show ?thesis
    by (auto simp: text_place_def nth_append)
qed

lemma text_place_first:
  assumes "\<forall>c \<in> set line. \<not> is_eol c" and "k \<le> length line"
  shows "text_place (line @ tail) k"
proof -
  have "(line @ tail) ! (k - 1) \<noteq> 13" if "0 < k"
    using that assms nth_mem[of "k - 1" line] by (auto simp: nth_append is_eol_def)
  with assms(2) show ?thesis by (auto simp: text_place_def)
qed

lemma text_place_split:
  assumes "line_end e rest" and "text_place (line @ e @ rest) k" and "length line < k"
  shows "length line + length e \<le> k"
proof (rule ccontr)
  assume "\<not> length line + length e \<le> k"
  with assms(1,3) have "e = [13, 10]" "k = length line + 1" by (auto simp: line_end_def)
  with assms(2) show False by (auto simp: text_place_def nth_append)
qed

text \<open>The places of a text are the places of its lines.\<close>

lemma line_text_place:
  assumes "l < length (line_table tx index)" and "line_table tx index ! l = (first, line)" and "j \<le> length line"
  shows "index \<le> first \<and> text_place tx (first - index + j)
    \<and> line_ends (take (first - index + j) tx) = l \<and> last_line (take (first - index + j) tx) = take j line"
  using assms
proof (induction tx arbitrary: index l rule: text_induct)
  case (last_line w)
  then show ?case
    using text_place_first[of w j "[]"] none_take[of w j]
    by (auto simp: line_table_last last_line_none line_ends_last)
next
  case (more w e rest)
  show ?case
  proof (cases l)
    case 0
    with more have "first = index" "line = w" by (auto simp: line_table_more)
    with 0 more show ?thesis
      using text_place_first[OF more.hyps(1), of j "e @ rest"]
        none_take[OF more.hyps(1), of j]
      by (auto simp: last_line_none line_ends_last)
  next
    case (Suc m)
    have IH: "index + length w + length e \<le> first
      \<and> text_place rest (first - (index + length w + length e) + j)
      \<and> line_ends (take (first - (index + length w + length e) + j) rest) = m
      \<and> last_line (take (first - (index + length w + length e) + j) rest) = take j line"
      using more.prems Suc by (intro more.IH) (auto simp: line_table_more[OF more.hyps])
    define k where "k = first - (index + length w + length e) + j"
    have k: "first - index + j = length w + length e + k" using IH by (simp add: k_def)
    have "take (length w + length e + k) (w @ e @ rest) = w @ e @ take k rest" by simp
    then show ?thesis
      using IH Suc text_place_more[OF more.hyps(2), of w k] prefix_more[OF more.hyps(1) line_end_take[OF more.hyps(2)], of k]
      by (simp add: k flip: k_def)
  qed
qed

lemma text_place_place:
  assumes "text_place tx k"
  shows "\<exists>l first line j. l < length (line_table tx index) \<and> line_table tx index ! l = (first, line)
    \<and> j \<le> length line \<and> index + k = first + j"
  using assms
proof (induction tx arbitrary: index k rule: text_induct)
  case (last_line w)
  then show ?case
    by (intro exI[of _ 0] exI[of _ index] exI[of _ w] exI[of _ k]) (auto simp: line_table_last text_place_def)
next
  case (more w e rest)
  show ?case
  proof (cases "k \<le> length w")
    case True
    then show ?thesis
      by (intro exI[of _ 0] exI[of _ index] exI[of _ w] exI[of _ k]) (auto simp: line_table_more[OF more.hyps])
  next
    case False
    then have le: "length w + length e \<le> k"
      using text_place_split[OF more.hyps(2) more.prems] by simp
    then have "text_place rest (k - (length w + length e))"
      using more.prems text_place_more[OF more.hyps(2), of w "k - (length w + length e)"] by simp
    from more.IH[OF this, of "index + length w + length e"] obtain l first line j where
      "l < length (line_table rest (index + length w + length e))"
      "line_table rest (index + length w + length e) ! l = (first, line)"
      "j \<le> length line" "index + length w + length e + (k - (length w + length e)) = first + j"
      by blast
    with le show ?thesis
      by (intro exI[of _ "Suc l"] exI[of _ first] exI[of _ line] exI[of _ j])
        (simp add: line_table_more[OF more.hyps])
  qed
qed

section \<open>Positions are exact\<close>

lemma walk_units_Inr:
  assumes "\<And>c. 0 < width c" and "list_all is_scalar line"
  shows "walk_units width split character line units offset = Inr m \<longleftrightarrow>
    (\<exists>j \<le> length line. m = offset + j \<and> int (units + sum_list (map width (take j line))) = character)"
  using assms(2)
proof (induction line arbitrary: units offset)
  case Nil
  then show ?case by auto
next
  case (Cons c cs)
  define here where "here j \<longleftrightarrow> j \<le> length (c # cs) \<and> m = offset + j
    \<and> int (units + sum_list (map width (take j (c # cs)))) = character" for j
  have later: "here (Suc j) \<longleftrightarrow> j \<le> length cs \<and> m = offset + 1 + j
    \<and> int ((units + width c) + sum_list (map width (take j cs))) = character" for j
    by (auto simp: here_def)
  have split: "(\<exists>j. here j) \<longleftrightarrow> here 0 \<or> (\<exists>j. here (Suc j))"
    by (metis not0_implies_Suc)
  have zero: "here 0 \<longleftrightarrow> m = offset \<and> int units = character" by (auto simp: here_def)
  have "walk_units width split character (c # cs) units offset = Inr m \<longleftrightarrow> (\<exists>j. here j)"
  proof (cases "int units = character")
    case True
    then have "\<not> here (Suc j)" for j using assms(1)[of c] by (auto simp: later)
    with True show ?thesis by (auto simp: split zero)
  next
    case False
    show ?thesis
    proof (cases "character < int (units + width c)")
      case True
      then have "\<not> here (Suc j)" for j by (auto simp: later)
      with False True Cons.prems show ?thesis by (auto simp: split zero)
    next
      case below: False
      have "walk_units width split character (c # cs) units offset = Inr m \<longleftrightarrow> (\<exists>j. here (Suc j))"
        unfolding later using False below Cons by (auto simp: Bex_def conj_assoc)
      with False show ?thesis by (simp add: split zero)
    qed
  qed
  then show ?case by (auto simp: here_def)
qed

lemma utf16_width_pos: "0 < utf16_width c"
  by (simp add: utf16_width_def)

lemma line_scalars:
  "list_all is_scalar tx \<Longrightarrow> (first, line) \<in> set (line_table tx index) \<Longrightarrow> list_all is_scalar line"
proof (induction tx arbitrary: index rule: text_induct)
  case (last_line w)
  then show ?case by (simp add: line_table_last)
next
  case (more w e rest)
  then show ?case by (auto simp: line_table_more)
qed

lemma position_offset_place:
  assumes "list_all is_scalar tx"
  shows "position_offset tx (position_value l c) encoding = Inr k \<longleftrightarrow>
    (\<exists>n first line j. n < length (line_table tx 0) \<and> line_table tx 0 ! n = (first, line) \<and> j \<le> length line
      \<and> k = first + j \<and> l = int n \<and> c = int (sum_list (map (units_of encoding) (take j line))))"
proof (cases "0 \<le> l \<and> 0 \<le> c \<and> nat l < length (line_table tx 0)")
  case True
  obtain first line where at_l: "line_table tx 0 ! nat l = (first, line)" by fastforce
  have scalars: "list_all is_scalar line"
    using assms line_scalars at_l True by (metis nth_mem)
  have here: "(\<exists>n first line j. n < length (line_table tx 0) \<and> line_table tx 0 ! n = (first, line) \<and> j \<le> length line
      \<and> k = first + j \<and> l = int n \<and> c = int (sum_list (map (units_of encoding) (take j line)))) \<longleftrightarrow>
    (\<exists>j \<le> length line. k = first + j \<and> c = int (sum_list (map (units_of encoding) (take j line))))"
    using True at_l by (metis int_nat_eq nat_int old.prod.inject)
  note walk = walk_units_Inr[OF utf8_width_pos scalars] walk_units_Inr[OF utf16_width_pos scalars]
  have "position_offset tx (position_value l c) encoding = Inr k \<longleftrightarrow>
    (\<exists>j \<le> length line. k = first + j \<and> c = int (sum_list (map (units_of encoding) (take j line))))"
  proof (cases "encoding = lit ''utf-32''")
    case u32: True
    have "position_offset tx (position_value l c) encoding = Inr k \<longleftrightarrow> c \<le> int (length line) \<and> k = first + nat c"
      using True at_l u32 by (auto simp: position_offset_def position_value_def line_starts_table not_less not_le)
    also have "\<dots> \<longleftrightarrow> (\<exists>j \<le> length line. k = first + j \<and> c = int (sum_list (map (units_of encoding) (take j line))))"
      using True u32 by (auto simp: units_of_def sum_list_triv intro!: exI[of _ "nat c"])
    finally show ?thesis .
  next
    case False
    then show ?thesis
      using True at_l
      by (auto simp: position_offset_def position_value_def line_starts_table not_less not_le units_of_def
          walk result_simps)
  qed
  with here show ?thesis by simp
next
  case False
  then show ?thesis
    by (auto simp: position_offset_def position_value_def line_starts_table not_less not_le Let_def)
qed

text \<open>
  C21: A position is accepted exactly when it is the position of a place in the text, counted in the
  units of the encoding, and then it means that place.
\<close>

theorem position_offset_exact:
  assumes "list_all is_scalar tx"
  shows "position_offset tx (position_value l c) encoding = Inr k \<longleftrightarrow>
    text_place tx k \<and> map_prod int int (position_at tx encoding k) = (l, c)"
proof
  assume "position_offset tx (position_value l c) encoding = Inr k"
  then obtain n first line j where place: "n < length (line_table tx 0)" "line_table tx 0 ! n = (first, line)"
    "j \<le> length line" and k: "k = first + j" "l = int n" "c = int (sum_list (map (units_of encoding) (take j line)))"
    using position_offset_place[OF assms] by blast
  from line_text_place[OF place] k show "text_place tx k \<and> map_prod int int (position_at tx encoding k) = (l, c)"
    by (simp add: position_at_def)
next
  assume right: "text_place tx k \<and> map_prod int int (position_at tx encoding k) = (l, c)"
  then obtain n first line j where place: "n < length (line_table tx 0)" "line_table tx 0 ! n = (first, line)"
    "j \<le> length line" and k: "k = first + j"
    using text_place_place[of tx k 0] by auto
  from line_text_place[OF place] k right have "l = int n" "c = int (sum_list (map (units_of encoding) (take j line)))"
    by (auto simp: position_at_def)
  with place k show "position_offset tx (position_value l c) encoding = Inr k"
    using position_offset_place[OF assms] by blast
qed

text \<open>A place in the second line, past a character of two UTF-16 units.\<close>

lemma position_offset_exact_witness:
  "position_offset [97, 13, 10, 0x1F600, 98] (position_value 1 2) (lit ''utf-16'') = Inr 4"
proof -
  have "list_all is_scalar [97, 13, 10, 0x1F600, 98]"
    by (simp add: is_scalar_def is_surrogate_def)
  moreover have "text_place [97, 13, 10, 0x1F600, 98] 4
      \<and> map_prod int int (position_at [97, 13, 10, 0x1F600, 98] (lit ''utf-16'') 4) = (1, 2)"
    by (simp add: text_place_def position_at_def last_line_def is_eol_def units_of_def utf16_width_def)
  ultimately show ?thesis using position_offset_exact by blast
qed

section \<open>All edits at once\<close>

lemma apply_snoc:
  assumes "sorted_wrt (\<lambda>(_, stop, _, _) (start, _, _, _). stop \<le> start) es"
    and "\<forall>(start, stop, _, _) \<in> set es. place \<le> start \<and> start \<le> stop \<and> stop \<le> length tx"
    and "place \<le> length tx"
  shows "foldl replace_range tx (rev es) = take place tx @ splice tx place es"
  using assms
proof (induction es arbitrary: place)
  case Nil
  then show ?case by simp
next
  case (Cons e es)
  obtain start stop r i where e: "e = (start, stop, r, i)" by (cases e)
  with Cons.prems have bounds: "place \<le> start" "start \<le> stop" "stop \<le> length tx" by auto
  have "foldl replace_range tx (rev es) = take stop tx @ splice tx stop es"
    using Cons.prems bounds by (intro Cons.IH) (auto simp: e split: prod.splits)
  then show ?case
    using bounds by (simp add: e min_def take_add[of place "start - place" tx, simplified, symmetric])
qed

lemma no_overlap_rev:
  assumes "\<forall>(start, stop, _, _) \<in> set es. start \<le> stop"
  shows "no_overlap bound (rev es) \<longleftrightarrow> disjoint_edits es \<and> (\<forall>(_, stop, _, _) \<in> set es. stop \<le> bound)"
  using assms
proof (induction es arbitrary: bound rule: rev_induct)
  case Nil
  then show ?case by (simp add: disjoint_edits_def)
next
  case (snoc e es)
  obtain start stop r i where e: "e = (start, stop, r, i)" by (cases e)
  have "no_overlap start (rev es) \<longleftrightarrow> disjoint_edits es \<and> (\<forall>(_, stop, _, _) \<in> set es. stop \<le> start)"
    using snoc by auto
  moreover have "start \<le> stop" using snoc.prems e by auto
  ultimately show ?case
    by (auto simp: e disjoint_edits_def sorted_wrt_append split: prod.splits)
qed

lemma walk_units_bound:
  "walk_units width split character line units offset = Inr m \<Longrightarrow> \<exists>j \<le> length line. m = offset + j"
proof (induction line arbitrary: units offset)
  case Nil
  then show ?case by (auto split: if_splits)
next
  case (Cons c cs)
  then show ?case by (fastforce split: if_splits)
qed

lemma position_offset_Inr:
  assumes "position_offset tx position encoding = Inr k"
  shows "\<exists>l c. 0 \<le> l \<and> 0 \<le> c \<and> position_offset tx (position_value l c) encoding = Inr k"
proof -
  from assms obtain d where d: "position = PDict d"
    by (auto simp: position_offset_def split: pyval.split_asm)
  with assms obtain l where l: "get d (lit ''line'') = Some (PInt l)"
    by (auto simp: position_offset_def simp del: lit_simps split: pyval.split_asm option.split_asm)
  with assms d obtain c where c: "get d (lit ''character'') = Some (PInt c)"
    by (auto simp: position_offset_def simp del: lit_simps split: pyval.split_asm option.split_asm)
  from assms have "position_offset tx (position_value l c) encoding = Inr k"
    by (simp add: position_offset_def position_value_def d l c del: lit_simps) (simp add: lit_simps)
  moreover from assms have "0 \<le> l" "0 \<le> c"
    by (auto simp: position_offset_def d l c simp del: lit_simps split: if_split_asm)
  ultimately show ?thesis by blast
qed

lemma position_offset_bound:
  assumes "position_offset tx position encoding = Inr k"
  shows "k \<le> length tx"
proof -
  from position_offset_Inr[OF assms] obtain l c where lc: "0 \<le> l" "0 \<le> c"
    "position_offset tx (position_value l c) encoding = Inr k" by blast
  then have n: "nat l < length (line_table tx 0)"
    by (auto simp: position_offset_def position_value_def line_starts_table not_le split: if_split_asm)
  obtain first line where at_l: "line_table tx 0 ! nat l = (first, line)" by fastforce
  have "\<exists>j \<le> length line. k = first + j"
    using lc n at_l
    by (auto simp: position_offset_def position_value_def line_starts_table not_less result_simps
        split: if_split_asm dest!: walk_units_bound)
  then show ?thesis
    using line_text_place[OF n at_l] by (auto simp: text_place_def)
qed

lemma convert_edit_bounds:
  assumes "convert_edit tx encoding item index = Inr (start, stop, r, i)"
  shows "i = index \<and> start \<le> stop \<and> stop \<le> length tx"
proof -
  from assms obtain d raw where item: "item = PDict d" "get d (lit ''range'') = Some (PDict raw)"
    by (auto simp: convert_edit_def simp del: lit_simps split: pyval.split_asm option.split_asm)
  with assms obtain r' where r': "get d (lit ''newText'') = Some (PStr r')"
    by (cases "get d (lit ''newText'')"; cases "the (get d (lit ''newText''))")
      (auto simp: convert_edit_def result_simps simp del: lit_simps split: if_split_asm)
  from assms show ?thesis
    by (auto simp: convert_edit_def item r' result_simps not_less simp del: lit_simps
        split: if_split_asm dest: position_offset_bound)
qed

lemma convert_edits_bounds:
  "convert_edits tx encoding items index = Inr es \<Longrightarrow>
    (\<forall>(start, stop, _, i) \<in> set es. index \<le> i \<and> start \<le> stop \<and> stop \<le> length tx)
    \<and> distinct (map (snd \<circ> snd \<circ> snd) es)"
proof (induction items arbitrary: index es)
  case Nil
  then show ?case by simp
next
  case (Cons item items)
  then obtain e es' where e: "convert_edit tx encoding item index = Inr e"
    and es': "convert_edits tx encoding items (index + 1) = Inr es'" and es: "es = e # es'"
    by (auto simp: result_simps)
  obtain start stop r i where [simp]: "e = (start, stop, r, i)" by (cases e)
  from Cons.IH[OF es'] convert_edit_bounds[of tx encoding item index] e show ?case
    by (fastforce simp: es)
qed

text \<open>
  C17: The edits are applied all at once: each range of the original text is replaced by its text, and
  what is between the ranges stays.  Edits that overlap are refused, whatever their order.
\<close>

theorem apply_text_edits_at_once:
  "apply_text_edits tx (PList items) encoding =
    rbind (convert_edits tx encoding items 0) (\<lambda>converted.
      let es = sort_key text_order converted in
      if disjoint_edits es then Inr (splice tx 0 es)
      else Inl (Edit_Error ''overlapping LSP text edits are unsupported''))"
proof (cases "convert_edits tx encoding items 0")
  case (Inl e)
  then show ?thesis by (simp add: apply_text_edits_def)
next
  case (Inr converted)
  note bounds = convert_edits_bounds[OF Inr]
  define es where "es = sort_key text_order converted"
  have "sort_key edit_key converted = rev es"
    unfolding es_def
  proof (rule sort_key_rev)
    from bounds show "distinct converted" by (simp add: distinct_map)
    from bounds have "inj_on (snd \<circ> snd \<circ> snd) (set converted)" by (simp add: distinct_map)
    moreover have "edit_key x = edit_key y \<Longrightarrow> (snd \<circ> snd \<circ> snd) x = (snd \<circ> snd \<circ> snd) y" for x y
      by (cases x; cases y) simp
    ultimately show "inj_on edit_key (set converted)"
      unfolding inj_on_def by blast
  next
    fix x y :: text_edit
    assume "text_order x \<le> text_order y"
    then show "edit_key y \<le> edit_key x"
      by (cases x; cases y) (auto split: if_splits)
  qed
  moreover have range: "\<forall>(start, stop, _, _) \<in> set es. 0 \<le> start \<and> start \<le> stop \<and> stop \<le> length tx"
    using bounds by (auto simp: es_def)
  moreover have "no_overlap (length tx + 1) (rev es) \<longleftrightarrow> disjoint_edits es"
    using range by (subst no_overlap_rev) (auto split: prod.splits)
  moreover have "foldl replace_range tx (rev es) = splice tx 0 es" if "disjoint_edits es"
    using apply_snoc[of es 0 tx] that range by (simp add: disjoint_edits_def)
  ultimately show ?thesis by (simp add: apply_text_edits_def Inr Let_def flip: es_def)
qed

end
