(* ===== verification/Json.thy ===== *)
theory Json
  imports Utf8 Config_Values
begin

text \<open>
  What the program uses of \<open>json.dumps(value, ensure_ascii=False)\<close>: the text and its size in UTF-8.
  The text of a finite float is a parameter \<open>fl\<close> (CPython's shortest \<open>repr\<close>, which is ASCII).
  None stands for the \<open>TypeError\<close> or \<open>ValueError\<close> of a value that cannot be written.
\<close>

definition hex_digit :: "nat \<Rightarrow> nat" where
  "hex_digit n = (if n < 10 then 48 + n else 87 + n)"

definition escape_char :: "nat \<Rightarrow> pystr" where
  "escape_char c =
    (if c = 34 then [92, 34] else if c = 92 then [92, 92]
     else if c = 10 then [92, 110] else if c = 13 then [92, 114] else if c = 9 then [92, 116]
     else if c = 12 then [92, 102] else if c = 8 then [92, 98]
     else if c < 32 then [92, 117, 48, 48, hex_digit (c div 16), hex_digit (c mod 16)]
     else [c])"

definition escaped :: "pystr \<Rightarrow> pystr" where
  "escaped s = concat (map escape_char s)"

definition quoted :: "pystr \<Rightarrow> pystr" where
  "quoted s = [34] @ escaped s @ [34]"

text \<open>Since 3.11 an integer of more than 4300 digits is not converted.\<close>

definition int_text :: "int \<Rightarrow> pystr option" where
  "int_text n = (let d = digits_of_nat (nat \<bar>n\<bar>) in
     if 4300 < length d then None else Some ((if n < 0 then [45] else []) @ d))"

record json_style =
  js_float :: "pyfloat \<Rightarrow> pystr"
  js_item_sep :: pystr
  js_key_sep :: pystr
  js_allow_nan :: bool

definition spaced :: "(pyfloat \<Rightarrow> pystr) \<Rightarrow> json_style" where
  "spaced fl = \<lparr>js_float = fl, js_item_sep = lit '', '', js_key_sep = lit '': '', js_allow_nan = True\<rparr>"

definition compact :: "(pyfloat \<Rightarrow> pystr) \<Rightarrow> json_style" where
  "compact fl = \<lparr>js_float = fl, js_item_sep = lit '','', js_key_sep = lit '':'', js_allow_nan = False\<rparr>"

fun float_text :: "json_style \<Rightarrow> pyfloat \<Rightarrow> pystr option" where
  "float_text st (Finite m e) = Some (js_float st (Finite m e))"
| "float_text st NaN = (if js_allow_nan st then Some (lit ''NaN'') else None)"
| "float_text st PosInf = (if js_allow_nan st then Some (lit ''Infinity'') else None)"
| "float_text st NegInf = (if js_allow_nan st then Some (lit ''-Infinity'') else None)"

text \<open>Writing a value, the items of a list and the entries of a table.\<close>

fun json_dumps :: "json_style \<Rightarrow> pyval \<Rightarrow> pystr option"
  and json_items :: "json_style \<Rightarrow> pyval list \<Rightarrow> pystr list option"
  and json_pairs :: "json_style \<Rightarrow> table \<Rightarrow> pystr list option" where
  "json_dumps st PNone = Some (lit ''null'')"
| "json_dumps st (PBool b) = Some (if b then lit ''true'' else lit ''false'')"
| "json_dumps st (PInt n) = int_text n"
| "json_dumps st (PFloat f) = float_text st f"
| "json_dumps st (PStr s) = Some (quoted s)"
| "json_dumps st (PList xs) =
    map_option (\<lambda>ps. [91] @ join_with (js_item_sep st) ps @ [93]) (json_items st xs)"
| "json_dumps st (PDict d) =
    map_option (\<lambda>ps. [123] @ join_with (js_item_sep st) ps @ [125]) (json_pairs st d)"
| "json_dumps st (POther n) = None"
| "json_items st [] = Some []"
| "json_items st (x # xs) =
    (case json_dumps st x of None \<Rightarrow> None | Some p \<Rightarrow> map_option ((#) p) (json_items st xs))"
| "json_pairs st [] = Some []"
| "json_pairs st ((k, v) # d) =
    (case json_dumps st v of
       None \<Rightarrow> None
     | Some p \<Rightarrow> map_option ((#) (quoted k @ js_key_sep st @ p)) (json_pairs st d))"

text \<open>\<open>len(json.dumps(value, ensure_ascii=False).encode("utf-8"))\<close>.\<close>

definition json_size :: "(pyfloat \<Rightarrow> pystr) \<Rightarrow> pyval \<Rightarrow> nat result" where
  "json_size fl v = (case json_dumps (spaced fl) v of
      None \<Rightarrow> Inl (TypeError ''value is not JSON serializable'')
    | Some s \<Rightarrow> rbind (utf8_encode s) (\<lambda>raw. Inr (length raw)))"

section \<open>Lemmas\<close>

lemma json_items_append:
  "json_items st (xs @ ys) = (case json_items st xs of None \<Rightarrow> None
     | Some ps \<Rightarrow> map_option (\<lambda>qs. ps @ qs) (json_items st ys))"
  by (induction xs) (auto split: option.splits simp: option.map_comp comp_def map_option_case)

lemma json_pairs_append:
  "json_pairs st (xs @ ys) = (case json_pairs st xs of None \<Rightarrow> None
     | Some ps \<Rightarrow> map_option (\<lambda>qs. ps @ qs) (json_pairs st ys))"
  by (induction xs) (auto split: option.splits simp: option.map_comp comp_def map_option_case)

lemma escaped_append [simp]: "escaped (s @ t) = escaped s @ escaped t"
  by (simp add: escaped_def)

lemma escape_char_scalar: "is_scalar c \<Longrightarrow> list_all is_scalar (escape_char c)"
  by (auto simp: escape_char_def hex_digit_def is_scalar_def is_surrogate_def)

lemma escaped_scalar: "list_all is_scalar s \<Longrightarrow> list_all is_scalar (escaped s)"
  by (induction s) (auto simp: escaped_def escape_char_scalar)


lemma join_with_last:
  "join_with sep (ps @ [p]) = (if ps = [] then p else join_with sep ps @ sep @ p)"
  by (induction sep ps rule: join_with.induct) auto

lemma json_size_scalar: "json_size fl v = Inr n \<longleftrightarrow>
    (\<exists>s. json_dumps (spaced fl) v = Some s \<and> list_all is_scalar s \<and> n = length (utf8_bytes s))"
  by (auto simp: json_size_def utf8_encode_def split: option.splits)


text \<open>A value that is written, as text that can be encoded.\<close>

definition writable :: "(pyfloat \<Rightarrow> pystr) \<Rightarrow> pyval \<Rightarrow> bool" where
  "writable fl v \<longleftrightarrow> (\<exists>s. json_dumps (spaced fl) v = Some s \<and> list_all is_scalar s)"

lemma json_size_writable: "(\<exists>n. json_size fl v = Inr n) \<longleftrightarrow> writable fl v"
  by (auto simp: json_size_scalar writable_def)

lemma join_with_scalar:
  "list_all is_scalar sep \<Longrightarrow> list_all is_scalar (join_with sep ps) \<longleftrightarrow> list_all (list_all is_scalar) ps"
  by (induction sep ps rule: join_with.induct) auto

lemma seps_scalar: "list_all is_scalar (js_item_sep (spaced fl))" "list_all is_scalar (js_key_sep (spaced fl))"
  by (simp_all add: spaced_def is_scalar_def is_surrogate_def)

lemma json_items_writable:
  "(\<exists>ps. json_items (spaced fl) xs = Some ps \<and> list_all (list_all is_scalar) ps) \<longleftrightarrow> list_all (writable fl) xs"
proof (induction xs)
  case (Cons x xs)
  then show ?case
    by (cases "json_dumps (spaced fl) x"; cases "json_items (spaced fl) xs") (auto simp: writable_def)
qed simp

lemma escaped_scalar_iff: "list_all is_scalar (escaped s) \<longleftrightarrow> list_all is_scalar s"
proof (induction s)
  case (Cons c s)
  have "list_all is_scalar (escape_char c) \<longleftrightarrow> is_scalar c"
    using escape_char_scalar [of c]
    by (auto simp: escape_char_def hex_digit_def is_scalar_def is_surrogate_def split: if_splits)
  with Cons show ?case by (simp add: escaped_def)
qed (simp add: escaped_def)

lemma quoted_scalar: "list_all is_scalar (quoted s) \<longleftrightarrow> list_all is_scalar s"
  by (simp add: quoted_def escaped_scalar_iff) (simp add: is_scalar_def is_surrogate_def)

lemma json_pairs_writable:
  "(\<exists>ps. json_pairs (spaced fl) d = Some ps \<and> list_all (list_all is_scalar) ps)
    \<longleftrightarrow> list_all (\<lambda>(k, v). list_all is_scalar k \<and> writable fl v) d"
proof (induction d)
  case (Cons kv d)
  obtain k v where "kv = (k, v)" by (cases kv)
  with Cons show ?case
    by (cases "json_dumps (spaced fl) v"; cases "json_pairs (spaced fl) d")
      (auto simp: writable_def quoted_scalar seps_scalar)
qed simp

lemma brackets_scalar: "is_scalar 91" "is_scalar 93" "is_scalar 123" "is_scalar 125"
  by (simp_all add: is_scalar_def is_surrogate_def)

lemma writable_list: "writable fl (PList xs) \<longleftrightarrow> list_all (writable fl) xs"
  unfolding json_items_writable [symmetric]
  by (auto simp: writable_def join_with_scalar seps_scalar brackets_scalar)

lemma writable_dict:
  "writable fl (PDict d) \<longleftrightarrow> list_all (\<lambda>(k, v). list_all is_scalar k \<and> writable fl v) d"
  unfolding json_pairs_writable [symmetric]
  by (auto simp: writable_def join_with_scalar seps_scalar brackets_scalar)

lemma writable_simps [simp]:
  "writable fl PNone" "writable fl (PBool b)" "writable fl (PStr s) \<longleftrightarrow> list_all is_scalar s"
  by (simp_all add: writable_def quoted_scalar) (simp_all add: is_scalar_def is_surrogate_def)

text \<open>One entry more costs its text and a separator.\<close>

lemma json_size_snoc:
  assumes "d \<noteq> []"
  shows "json_size fl (PDict (d @ [(k, v)])) = Inr n \<longleftrightarrow>
    (\<exists>m s. json_size fl (PDict d) = Inr m \<and> json_dumps (spaced fl) v = Some s \<and> list_all is_scalar (k @ s)
      \<and> n = m + length (utf8_bytes (quoted k @ s)) + 4)"
proof -
  have sep: "length (utf8_bytes (js_item_sep (spaced fl))) + length (utf8_bytes (js_key_sep (spaced fl))) = 4"
    by (simp add: spaced_def utf8_char_def)
  have ne: "ps \<noteq> []" if "json_pairs (spaced fl) d = Some ps" for ps
    using that assms by (cases d) (auto split: option.splits)
  show ?thesis
    using sep ne by (auto simp: json_size_scalar json_pairs_append join_with_last quoted_scalar
        seps_scalar brackets_scalar split: option.splits)
qed

end
