(* ===== verification/Journal.thy ===== *)
theory Journal
  imports Json Paging "HOL-Library.Code_Target_Nat"
begin

text \<open>
  The event journal (journal.py): a file of JSON lines and a sidecar file with the byte offset of
  every line, valid for one identity of the journal file.  Readers may rebuild the sidecar; a single
  writer appends to both files.  \<open>json.loads\<close> and the text of a float are given by \<open>journal_env\<close>.
\<close>

section \<open>Binary fields\<close>

text \<open>\<open>struct\<close> fields \<open><Q\<close>: eight bytes, the least significant first.\<close>

fun le_bytes :: "nat \<Rightarrow> nat \<Rightarrow> bytes" where
  "le_bytes 0 n = []"
| "le_bytes (Suc k) n = word_of_nat (n mod 256) # le_bytes k (n div 256)"

fun from_le :: "bytes \<Rightarrow> nat" where
  "from_le [] = 0"
| "from_le (b # bs) = unat b + 256 * from_le bs"

definition pack_q :: "nat \<Rightarrow> bytes" where
  "pack_q n = le_bytes 8 n"

definition magic :: bytes where
  "magic = map word_of_nat (lit ''MYPRIDX1'')"

text \<open>Device, inode, size and time of modification of the journal.\<close>

type_synonym file_identity = "nat \<times> nat \<times> nat \<times> nat"

fun pack_header :: "file_identity \<Rightarrow> bytes" where
  "pack_header (dev, ino, long, mtime) = magic @ pack_q dev @ pack_q ino @ pack_q long @ pack_q mtime"

definition unpack_header :: "bytes \<Rightarrow> bytes \<times> file_identity" where
  "unpack_header bs =
    (take 8 bs, from_le (take 8 (drop 8 bs)), from_le (take 8 (drop 16 bs)), from_le (take 8 (drop 24 bs)),
     from_le (take 8 (drop 32 bs)))"

section \<open>The two files\<close>

record journal_file =
  jf_dev :: nat
  jf_ino :: nat
  jf_mtime :: nat
  jf_data :: bytes

record files =
  fi_journal :: "journal_file option"
  fi_index :: "bytes option"

record journal_env =
  je_loads :: "bytes \<Rightarrow> pyval option"   \<comment> \<open>none is a \<open>ValueError\<close>\<close>
  je_float :: "pyfloat \<Rightarrow> pystr"

definition identity :: "journal_file \<Rightarrow> file_identity" where
  "identity j = (jf_dev j, jf_ino j, length (jf_data j), jf_mtime j)"

text \<open>The number of lines that an index has for a journal, none if it is not an index of it.\<close>

definition index_count :: "bytes \<Rightarrow> file_identity \<Rightarrow> nat option" where
  "index_count index stat =
    (let header = take 40 index in
     if length header \<noteq> 40 \<or> unpack_header header \<noteq> (magic, stat) then None
     else
       let long = length index - 40 in
       if long < 8 \<or> long mod 8 \<noteq> 0 then None
       else if take 8 (drop 40 index) \<noteq> pack_q 0 then None
       else if drop (length index - 8) index \<noteq> pack_q (fst (snd (snd stat))) then None
       else Some (long div 8 - 1))"

definition cached_index :: "bytes option \<Rightarrow> file_identity \<Rightarrow> (bytes \<times> nat) option" where
  "cached_index sidecar stat =
    (case sidecar of
       None \<Rightarrow> None
     | Some index \<Rightarrow> (case index_count index stat of None \<Rightarrow> None | Some count \<Rightarrow> Some (index, count)))"

text \<open>\<open>source.readline()\<close>: up to and with the next line feed, or the rest.\<close>

definition readline :: "bytes \<Rightarrow> bytes" where
  "readline bs = (case dropWhile (\<lambda>b. b \<noteq> 10) bs of [] \<Rightarrow> bs | b # _ \<Rightarrow> takeWhile (\<lambda>b. b \<noteq> 10) bs @ [b])"

lemma readline_Nil [simp]: "readline bs = [] \<longleftrightarrow> bs = []"
  by (cases bs) (auto simp: readline_def split: list.splits)

text \<open>The position after each line, for a source read from \<open>place\<close> on.\<close>

function line_offsets :: "bytes \<Rightarrow> nat \<Rightarrow> nat list" where
  "line_offsets bs place =
    (if bs = [] then []
     else let line = readline bs in
       (place + length line) # line_offsets (drop (length line) bs) (place + length line))"
  by pat_completeness auto
termination
  by (relation "measure (length \<circ> fst)") auto

declare line_offsets.simps [simp del]

text \<open>
  Indexing a journal that was opened as \<open>j\<close>; \<open>final\<close> is what \<open>path.stat()\<close> sees at the end, before
  the finished index replaces the sidecar.
\<close>

definition build_index :: "journal_file \<Rightarrow> journal_file option \<Rightarrow> (bytes \<times> nat) result" where
  "build_index j final =
    (let offsets = line_offsets (jf_data j) 0;
         target = pack_header (identity j) @ pack_q 0 @ concat (map pack_q offsets) in
     case final of
       None \<Rightarrow> Inl (FileNotFoundError ''journal'')
     | Some k \<Rightarrow>
         if identity k \<noteq> identity j then Inl (RuntimeError ''Output journal changed while indexing'')
         else Inr (target, length offsets))"

text \<open>
  What an operation sees of the files as others change them: at the first look, under the lock, at
  the end of indexing, and when it reads the lines.
\<close>

record views =
  vw_first :: files
  vw_locked :: files
  vw_final :: "journal_file option"
  vw_later :: "journal_file option"

definition steady :: "files \<Rightarrow> views" where
  "steady f = \<lparr>vw_first = f, vw_locked = f, vw_final = fi_journal f, vw_later = fi_journal f\<rparr>"

text \<open>The index, its number of lines, and the files with the sidecar that is now in place.\<close>

definition open_index :: "views \<Rightarrow> (bytes \<times> nat \<times> files) result" where
  "open_index v =
    (case fi_journal (vw_first v) of
       None \<Rightarrow> Inl (FileNotFoundError ''journal'')
     | Some j \<Rightarrow>
        (case cached_index (fi_index (vw_first v)) (identity j) of
           Some (index, count) \<Rightarrow> Inr (index, count, vw_first v)
         | None \<Rightarrow>
            (case fi_journal (vw_locked v) of
               None \<Rightarrow> Inl (FileNotFoundError ''journal'')
             | Some j \<Rightarrow>
                (case cached_index (fi_index (vw_locked v)) (identity j) of
                   Some (index, count) \<Rightarrow> Inr (index, count, vw_locked v)
                 | None \<Rightarrow>
                     rbind (build_index j (vw_final v)) (\<lambda>(index, count).
                     Inr (index, count, (vw_locked v)\<lparr>fi_index := Some index\<rparr>))))))"

section \<open>Writing\<close>

definition hex4 :: "nat \<Rightarrow> pystr" where
  "hex4 c = [hex_digit (c div 4096 mod 16), hex_digit (c div 256 mod 16), hex_digit (c div 16 mod 16), hex_digit (c mod 16)]"

text \<open>\<open>s.encode("utf-8", "backslashreplace")\<close>: a surrogate becomes its escape.\<close>

definition backslashed :: "pystr \<Rightarrow> pystr" where
  "backslashed s = concat (map (\<lambda>c. if is_surrogate c then [92, 117] @ hex4 c else [c]) s)"

definition json_bytes :: "journal_env \<Rightarrow> pyval \<Rightarrow> bytes result" where
  "json_bytes env v =
    (case json_dumps (spaced (je_float env)) v of
       None \<Rightarrow> Inl (TypeError ''value is not JSON serializable'')
     | Some s \<Rightarrow> Inr (utf8_bytes (backslashed s)))"

text \<open>The loop over the events: what has been written to the two files when it ends or raises.\<close>

fun write_events :: "journal_env \<Rightarrow> pyval list \<Rightarrow> bytes \<Rightarrow> bytes \<Rightarrow> unit result \<times> bytes \<times> bytes" where
  "write_events env [] data entries = (Inr (), data, entries)"
| "write_events env (e # es) data entries =
    (case json_bytes env e of
       Inl x \<Rightarrow> (Inl x, data, entries)
     | Inr raw \<Rightarrow>
         let data = data @ raw @ [10] in write_events env es data (entries @ pack_q (length data)))"

definition touch :: "journal_file \<Rightarrow> files \<Rightarrow> files" where
  "touch fresh f = (case fi_journal f of None \<Rightarrow> f\<lparr>fi_journal := Some (fresh\<lparr>jf_data := []\<rparr>)\<rparr> | Some _ \<Rightarrow> f)"

text \<open>A file to which something has been written, at the time \<open>mtime\<close>.\<close>

definition rewritten :: "journal_file \<Rightarrow> nat \<Rightarrow> bytes \<Rightarrow> journal_file" where
  "rewritten j mtime d = (if d = jf_data j then j else j\<lparr>jf_data := d, jf_mtime := mtime\<rparr>)"

text \<open>\<open>fresh\<close> is the identity of a journal created here, \<open>mtime\<close> the time of the write.\<close>

definition append_events :: "journal_env \<Rightarrow> journal_file \<Rightarrow> nat \<Rightarrow> pyval list \<Rightarrow> files \<Rightarrow> unit result \<times> files" where
  "append_events env fresh mtime events f =
    (if events = [] then (Inr (), f)
     else
       let f = touch fresh f in
       case open_index (steady f) of
         Inl e \<Rightarrow> (Inl e, f)
       | Inr (index, _, f) \<Rightarrow>
           let j = the (fi_journal f);
               (r, data, entries) = write_events env events (jf_data j) [];
               j' = rewritten j mtime data;
               index = index @ entries;
               index = (case r of Inl _ \<Rightarrow> index | Inr _ \<Rightarrow> pack_header (identity j') @ drop 40 index) in
           (r, f\<lparr>fi_journal := Some j', fi_index := Some index\<rparr>))"

section \<open>Reading\<close>

definition journal_warning :: "bool \<Rightarrow> nat \<Rightarrow> pyval" where
  "journal_warning truncated line_number =
    PDict [(lit ''type'', PStr (lit ''warning'')),
           (lit ''code'', PStr (if truncated then lit ''journal_truncated'' else lit ''journal_corrupt'')),
           (lit ''text'', PStr (lit ''Output journal line '' @ digits_of_nat line_number @ lit '' is ''
              @ (if truncated then lit ''incomplete'' else lit ''corrupt'')
              @ lit ''; its output could not be recovered.'')),
           (lit ''line'', PInt (int line_number))]"

definition decode_event :: "journal_env \<Rightarrow> bytes \<Rightarrow> nat \<Rightarrow> pyval" where
  "decode_event env line line_number =
    (case je_loads env line of
       Some (PDict d) \<Rightarrow> PDict d
     | _ \<Rightarrow> journal_warning (\<not> ends_with [10] line) line_number)"

text \<open>The loop over the positions, with the number of positions left.\<close>

fun read_events ::
  "journal_env \<Rightarrow> int \<Rightarrow> nat \<Rightarrow> bytes \<Rightarrow> nat \<Rightarrow> int \<Rightarrow> pyval list \<Rightarrow> pyval list result" where
  "read_events env budget 0 source position used output = Inr output"
| "read_events env budget (Suc n) source position used output =
    (let line = readline source; event = decode_event env line (position + 1) in
     rbind (json_bytes env event) (\<lambda>raw.
     let len = int (length raw) in
     if output \<noteq> [] \<and> budget < used + len then Inr output
     else read_events env budget n (drop (length line) source) (position + 1) (used + len) (output @ [event])))"

definition read_journal :: "journal_env \<Rightarrow> views \<Rightarrow> pyval \<Rightarrow> int \<Rightarrow> int \<Rightarrow> (pyval list \<times> nat) result" where
  "read_journal env v cursor budget initial_size =
    (case cursor of
       PInt c \<Rightarrow>
        (if c < 0 then Inl (ValueError ''Invalid output cursor'')
         else
          (case open_index v of
             Inl (FileNotFoundError m) \<Rightarrow>
               (if c \<noteq> 0 then Inl (ValueError ''Invalid output cursor'') else Inr ([], 0))
           | Inl e \<Rightarrow> Inl e
           | Inr (index, count, _) \<Rightarrow>
               if int count < c then Inl (ValueError ''Invalid output cursor'')
               else
                 let offset = from_le (take 8 (drop (40 + nat c * 8) index)) in
                 (case vw_later v of
                    None \<Rightarrow> Inl (FileNotFoundError ''journal'')
                  | Some j \<Rightarrow>
                      rbind (read_events env budget (count - nat c) (drop offset (jf_data j)) (nat c) initial_size [])
                        (\<lambda>output. Inr (output, count)))))
     | _ \<Rightarrow> Inl (ValueError ''Invalid output cursor''))"

section \<open>Fields and headers\<close>

lemma length_le_bytes [simp]: "length (le_bytes k n) = k"
  by (induction k arbitrary: n) auto

lemma unat_byte: "unat (word_of_nat (n mod 256) :: byte) = n mod 256"
  by (simp add: unat_of_nat)

lemma from_le_bytes [simp]: "from_le (le_bytes k n) = n mod 256 ^ k"
proof (induction k arbitrary: n)
  case (Suc k)
  have "n mod (256 * 256 ^ k) = n mod 256 + 256 * (n div 256 mod 256 ^ k)"
    by (simp add: mod_mult2_eq)
  with Suc show ?case by (simp add: unat_byte)
qed simp

lemma le_bytes_from [simp]: "le_bytes (length bs) (from_le bs) = bs"
proof (induction bs)
  case (Cons b bs)
  have "unat b < 256" using unsigned_less[of b] by simp
  with Cons show ?case by simp
qed simp

lemma length_pack_q [simp]: "length (pack_q n) = 8"
  by (simp add: pack_q_def)

lemma from_pack_q: "n < 2 ^ 64 \<Longrightarrow> from_le (pack_q n) = n"
  by (simp add: pack_q_def)

lemma pack_q_inject: "m < 2 ^ 64 \<Longrightarrow> n < 2 ^ 64 \<Longrightarrow> pack_q m = pack_q n \<longleftrightarrow> m = n"
  using from_pack_q by metis

lemma pack_from_le: "length bs = 8 \<Longrightarrow> pack_q (from_le bs) = bs"
  using le_bytes_from[of bs] by (simp add: pack_q_def)

lemma length_magic [simp]: "length magic = 8"
  by (simp add: magic_def)

lemma length_header [simp]: "length (pack_header i) = 40"
  by (cases i) simp

definition fits_u64 :: "file_identity \<Rightarrow> bool" where
  "fits_u64 i = (case i of (dev, ino, long, mtime) \<Rightarrow> dev < 2 ^ 64 \<and> ino < 2 ^ 64 \<and> long < 2 ^ 64 \<and> mtime < 2 ^ 64)"

lemma unpack_pack: "fits_u64 i \<Longrightarrow> unpack_header (pack_header i) = (magic, i)"
  by (cases i) (simp add: unpack_header_def fits_u64_def from_pack_q)

lemma header_eq:
  assumes "length bs = 40" and "unpack_header bs = (magic, i)"
  shows "bs = pack_header i"
proof -
  have q: "pack_q (from_le (take 8 (drop k bs))) = take 8 (drop k bs)" if "k \<le> 32" for k
    using that assms(1) by (intro pack_from_le) simp
  have slice: "drop k bs = take 8 (drop k bs) @ drop (8 + k) bs" for k
    by (metis append_take_drop_id drop_drop)
  have "bs = take 8 bs @ take 8 (drop 8 bs) @ take 8 (drop 16 bs) @ take 8 (drop 24 bs) @ take 8 (drop 32 bs)"
    using slice[of 0] slice[of 8] slice[of 16] slice[of 24] slice[of 32] assms(1) by simp
  with assms(2) q show ?thesis by (auto simp: unpack_header_def)
qed

end
