(* ===== verification/Journal_Proofs.thy ===== *)
theory Journal_Proofs
  imports Journal
begin

text \<open>
  The journal in every reachable state: an index that is accepted has the offsets of exactly the
  lines of the journal, whatever a crash left behind; following the cursors shows every line once;
  and what was appended reads back.
\<close>

section \<open>Lines\<close>

function lines_of :: "bytes \<Rightarrow> bytes list" where
  "lines_of bs = (if bs = [] then [] else readline bs # lines_of (drop (length (readline bs)) bs))"
  by pat_completeness auto
termination
  by (relation "measure length") auto

declare lines_of.simps [simp del]

lemma lines_of_Nil [simp]: "lines_of [] = []"
  by (subst lines_of.simps) simp

definition complete :: "bytes \<Rightarrow> bool" where
  "complete bs = (bs = [] \<or> last bs = 10)"

lemma readline_line:
  assumes "10 \<notin> set raw"
  shows "readline raw = raw" and "readline (raw @ 10 # rest) = raw @ [10]"
proof -
  have raw: "\<forall>b \<in> set raw. b \<noteq> 10" using assms by auto
  then have "dropWhile (\<lambda>b. b \<noteq> 10) raw = []" by simp
  then show "readline raw = raw" by (simp only: readline_def list.case)
  from takeWhile_append_stop[OF raw, of "10 # rest"] show "readline (raw @ 10 # rest) = raw @ [10]"
    by (simp add: readline_def)
qed

text \<open>A file is a last line without a line feed, or a line and the rest.\<close>

lemma bytes_induct [case_names last_line line]:
  assumes "\<And>raw. 10 \<notin> set raw \<Longrightarrow> P raw"
    and "\<And>raw rest. 10 \<notin> set raw \<Longrightarrow> P rest \<Longrightarrow> P (raw @ 10 # rest)"
  shows "P bs"
proof (induction bs rule: length_induct)
  case (1 bs)
  show ?case
  proof (cases "10 \<in> set bs")
    case True
    then obtain raw rest where "bs = raw @ 10 # rest" "10 \<notin> set raw" by (metis split_list_first)
    with 1 assms(2) show ?thesis by simp
  qed (rule assms(1))
qed

lemma lines_of_last: "10 \<notin> set raw \<Longrightarrow> lines_of raw = (if raw = [] then [] else [raw])"
  by (subst lines_of.simps) (simp add: readline_line)

lemma lines_of_line: "10 \<notin> set raw \<Longrightarrow> lines_of (raw @ 10 # rest) = (raw @ [10]) # lines_of rest"
  by (subst lines_of.simps) (simp add: readline_line)

lemma concat_lines_of [simp]: "concat (lines_of bs) = bs"
  by (induction bs rule: bytes_induct) (simp_all add: lines_of_last lines_of_line)

lemma complete_simps [simp]:
  "complete []" "complete (bs @ [10])" "complete (a @ 10 # rest) \<longleftrightarrow> complete rest"
  by (auto simp: complete_def)

lemma lines_of_append: "complete a \<Longrightarrow> lines_of (a @ b) = lines_of a @ lines_of b"
proof (induction a rule: bytes_induct)
  case (last_line raw)
  then have "raw = []" by (metis complete_def last_in_set)
  then show ?case by simp
next
  case (line raw rest)
  then show ?case by (simp add: lines_of_line)
qed

fun line_places :: "nat \<Rightarrow> bytes list \<Rightarrow> nat list" where
  "line_places place [] = []"
| "line_places place (l # ls) = (place + length l) # line_places (place + length l) ls"

lemma line_offsets_places: "line_offsets bs place = line_places place (lines_of bs)"
proof (induction bs arbitrary: place rule: bytes_induct)
  case (last_line raw)
  then show ?case
    by (subst line_offsets.simps) (simp add: readline_line lines_of_last Let_def line_offsets.simps)
next
  case (line raw rest)
  then show ?case
    by (subst line_offsets.simps) (simp add: readline_line lines_of_line Let_def)
qed

lemma length_line_places [simp]: "length (line_places place ls) = length ls"
  by (induction ls arbitrary: place) auto

lemma nth_line_places: "k \<le> length ls \<Longrightarrow> (place # line_places place ls) ! k = place + length (concat (take k ls))"
proof (induction ls arbitrary: place k)
  case (Cons l ls)
  then show ?case by (cases k) auto
qed simp

lemma last_line_places: "last (place # line_places place ls) = place + length (concat ls)"
  by (induction ls arbitrary: place) auto

lemma line_places_append:
  "line_places place (ls @ ls') = line_places place ls @ line_places (place + length (concat ls)) ls'"
  by (induction ls arbitrary: place) (auto simp: add.assoc)

section \<open>Indexes\<close>

definition entries_of :: "nat list \<Rightarrow> bytes" where
  "entries_of ns = concat (map pack_q ns)"

definition full_index :: "journal_file \<Rightarrow> bytes" where
  "full_index j = pack_header (identity j) @ entries_of (0 # line_offsets (jf_data j) 0)"

lemma length_entries [simp]: "length (entries_of ns) = 8 * length ns"
  by (induction ns) (auto simp: entries_of_def)

lemma entries_append [simp]: "entries_of (ms @ ns) = entries_of ms @ entries_of ns"
  by (simp add: entries_of_def)

lemma entries_Cons: "entries_of (n # ns) = pack_q n @ entries_of ns"
  by (simp add: entries_of_def)

lemma drop_entries: "drop (8 * k) (entries_of ns) = entries_of (drop k ns)"
proof (induction k arbitrary: ns)
  case (Suc k)
  then show ?case by (cases ns) (auto simp: entries_Cons entries_of_def)
qed simp

lemma take_entries: "take (8 * k) (entries_of ns) = entries_of (take k ns)"
proof (induction k arbitrary: ns)
  case (Suc k)
  then show ?case by (cases ns) (auto simp: entries_Cons entries_of_def)
qed (simp add: entries_of_def)

lemma nth_entry: "k < length ns \<Longrightarrow> take 8 (drop (8 * k) (entries_of ns)) = pack_q (ns ! k)"
  by (simp add: drop_entries Cons_nth_drop_Suc[symmetric] entries_Cons)

lemma last_entry:
  assumes "ns \<noteq> []"
  shows "drop (length h + 8 * length ns - 8) (h @ entries_of ns) = pack_q (last ns)"
proof -
  obtain ms n where "ns = ms @ [n]" using assms by (cases ns rule: rev_cases) auto
  then show ?thesis by (simp add: entries_Cons entries_of_def[of "[]"])
qed

lemma index_count_entries:
  assumes "fits_u64 i" and "last (0 # ns) < 2 ^ 64"
  shows "index_count (pack_header i @ entries_of (0 # ns)) i =
    (if last (0 # ns) = fst (snd (snd i)) then Some (length ns) else None)"
proof -
  obtain dev ino long mtime where i: "i = (dev, ino, long, mtime)" by (cases i)
  have "drop (length (pack_header i @ entries_of (0 # ns)) - 8) (pack_header i @ entries_of (0 # ns)) = pack_q (last (0 # ns))"
    using last_entry[of "0 # ns" "pack_header i"] by (simp add: i del: last.simps)
  moreover have "pack_q (last (0 # ns)) = pack_q long \<longleftrightarrow> last (0 # ns) = long"
    using assms by (intro pack_q_inject) (auto simp: fits_u64_def i)
  ultimately show ?thesis
    using unpack_pack[OF assms(1)]
    by (simp add: index_count_def i entries_Cons del: pack_header.simps last.simps)
qed

lemma index_count_header: "index_count index i = Some n \<Longrightarrow> take 40 index = pack_header i"
  by (intro header_eq) (auto simp: index_count_def Let_def split: if_splits)

lemma index_count_full:
  assumes "fits_u64 (identity j)"
  shows "index_count (full_index j) (identity j) = Some (length (lines_of (jf_data j)))"
proof -
  have "last (0 # line_offsets (jf_data j) 0) = length (jf_data j)"
    using last_line_places[of 0 "lines_of (jf_data j)"] by (simp only: line_offsets_places) simp
  with assms show ?thesis
    unfolding full_index_def
    by (subst index_count_entries) (auto simp: fits_u64_def identity_def line_offsets_places simp del: last.simps)
qed

lemma build_full: "build_index j (Some j) = Inr (full_index j, length (lines_of (jf_data j)))"
  by (simp add: build_index_def full_index_def entries_of_def line_offsets_places Let_def)

section \<open>The text of an event is one line\<close>

text \<open>Values of Python strings, and a float text without a line feed.\<close>

definition one_line_floats :: "journal_env \<Rightarrow> bool" where
  "one_line_floats env \<longleftrightarrow> (\<forall>x. 10 \<notin> set (je_float env x))"

definition code_points :: "journal_env \<Rightarrow> pyval \<Rightarrow> bool" where
  "code_points env v = (case json_dumps (spaced (je_float env)) v of
     None \<Rightarrow> True | Some s \<Rightarrow> list_all (\<lambda>c. c < 0x110000) s)"

lemma escape_char_lf [simp]: "10 \<notin> set (escape_char c)"
  by (auto simp: escape_char_def hex_digit_def)

lemma quoted_lf [simp]: "10 \<notin> set (quoted s)"
  by (auto simp: quoted_def escaped_def)

lemma digits_lf: "10 \<notin> set (digits_of_nat n)"
proof (induction n rule: digits_of_nat.induct)
  case (1 n)
  then show ?case by (subst digits_of_nat.simps) auto
qed

lemma int_text_lf: "int_text n = Some s \<Longrightarrow> 10 \<notin> set s"
  using digits_lf by (auto simp: int_text_def Let_def split: if_splits)

definition line_style :: "json_style \<Rightarrow> bool" where
  "line_style st \<longleftrightarrow> (\<forall>x. 10 \<notin> set (js_float st x)) \<and> 10 \<notin> set (js_item_sep st) \<and> 10 \<notin> set (js_key_sep st)"

lemma float_text_lf: "line_style st \<Longrightarrow> float_text st f = Some s \<Longrightarrow> 10 \<notin> set s"
  by (cases "(st, f)" rule: float_text.cases) (auto simp: line_style_def split: if_splits)

lemma join_with_lf: "10 \<notin> set sep \<Longrightarrow> \<forall>p \<in> set ps. 10 \<notin> set p \<Longrightarrow> 10 \<notin> set (join_with sep ps)"
  by (induction sep ps rule: join_with.induct) auto

lemma json_lf:
  "line_style st \<Longrightarrow> json_dumps st v = Some s \<Longrightarrow> 10 \<notin> set s"
  "line_style st \<Longrightarrow> json_items st vs = Some ps \<Longrightarrow> \<forall>p \<in> set ps. 10 \<notin> set p"
  "line_style st \<Longrightarrow> json_pairs st d = Some qs \<Longrightarrow> \<forall>q \<in> set qs. 10 \<notin> set q"
proof (induction st v and st vs and st d arbitrary: s and ps and qs rule: json_dumps_json_items_json_pairs.induct)
  case (6 st xs)
  then obtain ps where ps: "json_items st xs = Some ps" "s = [91] @ join_with (js_item_sep st) ps @ [93]" by auto
  have "\<forall>p \<in> set ps. 10 \<notin> set p" using "6.IH" "6.prems"(1) ps(1) .
  with ps(2) "6.prems"(1) show ?case by (simp add: line_style_def join_with_lf)
next
  case (7 st d)
  then obtain ps where ps: "json_pairs st d = Some ps" "s = [123] @ join_with (js_item_sep st) ps @ [125]" by auto
  have "\<forall>p \<in> set ps. 10 \<notin> set p" using "7.IH" "7.prems"(1) ps(1) .
  with ps(2) "7.prems"(1) show ?case by (simp add: line_style_def join_with_lf)
next
  case (12 st k v d)
  then obtain p ps where "json_dumps st v = Some p" "json_pairs st d = Some ps"
    and qs: "qs = (quoted k @ js_key_sep st @ p) # ps"
    by (auto split: option.splits)
  with 12 have "10 \<notin> set p" "\<forall>q \<in> set ps. 10 \<notin> set q" by auto
  with qs "12.prems"(1) show ?case by (simp add: line_style_def)
qed (auto split: option.splits if_splits dest: int_text_lf float_text_lf)

lemma utf8_char_lf: "c < 0x110000 \<Longrightarrow> c \<noteq> 10 \<Longrightarrow> 10 \<notin> set (map word_of_nat (utf8_char c) :: bytes)"
proof
  assume c: "c < 0x110000" "c \<noteq> 10"
  assume "10 \<in> set (map word_of_nat (utf8_char c) :: bytes)"
  then obtain b where b: "b \<in> set (utf8_char c)" "word_of_nat b = (10 :: byte)" by auto
  have "b < 256" using utf8_char_bound[OF c(1) b(1)] .
  then have "b = 10"
    using unat_byte[of b] b(2) by simp
  with b(1) c show False by (auto simp: utf8_char_def split: if_splits)
qed

lemma json_bytes_line:
  assumes "json_bytes env e = Inr raw" and "one_line_floats env" and "code_points env e"
  shows "10 \<notin> set raw"
proof -
  from assms(1) obtain s where s: "json_dumps (spaced (je_float env)) e = Some s"
    and raw: "raw = utf8_bytes (backslashed s)"
    by (auto simp: json_bytes_def split: option.splits)
  have "line_style (spaced (je_float env))"
    using assms(2) by (simp add: line_style_def spaced_def one_line_floats_def)
  then have "10 \<notin> set s" using s json_lf(1) by blast
  moreover have "\<forall>c \<in> set s. c < 0x110000" using assms(3) s by (simp add: code_points_def list_all_iff)
  ultimately have "\<forall>c \<in> set (backslashed s). c < 0x110000 \<and> c \<noteq> 10"
    by (auto simp: backslashed_def hex4_def hex_digit_def split: if_splits)
  then show ?thesis
    using utf8_char_lf by (fastforce simp: raw utf8_bytes_def)
qed

end
