(* ===== verification/Journal_Recovery.thy ===== *)
theory Journal_Recovery
  imports Journal_Proofs
begin

text \<open>
  The index after appending, after a crash in the middle of an append at any byte of either file,
  and after the sidecar was lost or replaced: an index that is accepted is the full index of the
  journal.
\<close>

section \<open>Sound files\<close>

definition index_sound :: "files \<Rightarrow> bool" where
  "index_sound f \<longleftrightarrow> (\<forall>j index n. fi_journal f = Some j \<longrightarrow> fi_index f = Some index \<longrightarrow>
     index_count index (identity j) = Some n \<longrightarrow> index = full_index j)"

definition bounded :: "files \<Rightarrow> bool" where
  "bounded f \<longleftrightarrow> (\<forall>j. fi_journal f = Some j \<longrightarrow> fits_u64 (identity j))"

lemma open_steady:
  assumes "index_sound f" and "bounded f" and j: "fi_journal f = Some j"
  shows "open_index (steady f) = Inr (full_index j, length (lines_of (jf_data j)), f\<lparr>fi_index := Some (full_index j)\<rparr>)"
proof (cases "cached_index (fi_index f) (identity j)")
  case None
  then show ?thesis by (simp add: open_index_def steady_def j build_full)
next
  case (Some p)
  then obtain index n where idx: "fi_index f = Some index" "index_count index (identity j) = Some n" "p = (index, n)"
    by (auto simp: cached_index_def split: option.splits)
  with assms have "index = full_index j" by (auto simp: index_sound_def)
  moreover have "n = length (lines_of (jf_data j))"
    using idx index_count_full[of j] assms(2) j \<open>index = full_index j\<close> by (simp add: bounded_def)
  moreover have "f = f\<lparr>fi_index := fi_index f\<rparr>" by simp
  ultimately show ?thesis
    using idx Some by (simp add: open_index_def steady_def j)
qed

text \<open>Bytes after a full index make it unacceptable, unless there are none.\<close>

lemma index_tail:
  assumes "fits_u64 (identity j)" and "\<forall>p \<in> set ps. length (jf_data j) < p \<and> p < 2 ^ 64"
    and "index_count (full_index j @ take k (entries_of ps)) (identity j) = Some n"
  shows "take k (entries_of ps) = []"
proof (rule ccontr)
  define t where "t = take k (entries_of ps)"
  assume "take k (entries_of ps) \<noteq> []"
  then have t: "t \<noteq> []" by (simp add: t_def)
  have "(length (full_index j @ t) - 40) mod 8 = 0"
    using assms(3) by (auto simp: index_count_def Let_def t_def split: if_splits)
  then have "length t mod 8 = 0"
    by (simp add: full_index_def mod_add_left_eq[symmetric])
  then obtain m where m: "length t = 8 * m" by (metis mod_eq_0_iff_dvd dvdE)
  have "t = take (8 * m) (entries_of ps)"
    using m by (auto simp: t_def min_def split: if_splits)
  then have te: "t = entries_of (take m ps)" by (simp add: take_entries)
  with t have ne: "take m ps \<noteq> []" by (metis entries_of_def concat.simps(1) list.simps(8))
  then have inps: "last (take m ps) \<in> set ps" by (meson in_set_takeD last_in_set)
  have app: "full_index j @ t = pack_header (identity j) @ entries_of (0 # (line_offsets (jf_data j) 0 @ take m ps))"
    by (simp add: full_index_def te flip: entries_append)
  have last: "last (0 # (line_offsets (jf_data j) 0 @ take m ps)) = last (take m ps)"
    using ne by simp
  have "fst (snd (snd (identity j))) = length (jf_data j)" by (simp add: identity_def)
  then have "index_count (full_index j @ t) (identity j) = None"
    unfolding app using inps assms(1,2) last
    by (subst index_count_entries) (auto simp del: last.simps)
  with assms(3) show False by (simp add: t_def)
qed

lemma header_inject: "fits_u64 i \<Longrightarrow> fits_u64 i' \<Longrightarrow> pack_header i = pack_header i' \<longleftrightarrow> i = i'"
  by (metis unpack_pack prod.inject)

text \<open>Before the header is written: any part of the new lines and any part of the new entries.\<close>

lemma sound_before_header:
  assumes "fits_u64 (identity j)" and "fits_u64 (identity j')" and "jf_data j' = jf_data j @ d"
    and "d = [] \<Longrightarrow> j' = j" and "\<forall>p \<in> set ps. length (jf_data j) < p \<and> p < 2 ^ 64"
  shows "index_sound \<lparr>fi_journal = Some j', fi_index = Some (full_index j @ take k (entries_of ps))\<rparr>"
proof -
  have "full_index j @ take k (entries_of ps) = full_index j'"
    if count: "index_count (full_index j @ take k (entries_of ps)) (identity j') = Some n" for n
  proof -
    have "pack_header (identity j') = pack_header (identity j)"
      using index_count_header[OF count] by (simp add: full_index_def)
    then have "identity j' = identity j" using assms header_inject by blast
    then have "d = []" using assms(3) by (simp add: identity_def)
    then have "j' = j" using assms by simp
    with index_tail[OF assms(1,5), of k n] count show ?thesis by simp
  qed
  then show ?thesis by (auto simp: index_sound_def)
qed

text \<open>While the header is written, after everything else.\<close>

lemma sound_in_header:
  assumes "h \<le> 40" and "full_index j' = pack_header (identity j') @ rest" and "length old = 40"
  shows "index_sound \<lparr>fi_journal = Some j', fi_index = Some (take h (pack_header (identity j')) @ drop h (old @ rest))\<rparr>"
proof -
  let ?index = "take h (pack_header (identity j')) @ drop h (old @ rest)"
  have split: "?index = (take h (pack_header (identity j')) @ drop h old) @ rest"
    using assms by simp
  have "?index = full_index j'" if "index_count ?index (identity j') = Some n" for n
    using index_count_header[OF that] assms unfolding split by simp
  then show ?thesis by (auto simp: index_sound_def)
qed

section \<open>What an append writes\<close>

definition raw_lines :: "bytes list \<Rightarrow> bytes list" where
  "raw_lines raws = map (\<lambda>raw. raw @ [10]) raws"

lemma write_events_effect:
  assumes "write_events env es data entries = (r, data', entries')"
    and "one_line_floats env" and "\<forall>e \<in> set es. code_points env e"
  shows "\<exists>raws. length raws \<le> length es \<and> (\<forall>raw \<in> set raws. 10 \<notin> set raw)
    \<and> (\<forall>k < length raws. json_bytes env (es ! k) = Inr (raws ! k))
    \<and> (r = Inr () \<longrightarrow> length raws = length es)
    \<and> data' = data @ concat (raw_lines raws)
    \<and> entries' = entries @ entries_of (line_places (length data) (raw_lines raws))"
  using assms
proof (induction es arbitrary: data entries)
  case Nil
  then show ?case by (intro exI[of _ "[]"]) (auto simp: raw_lines_def entries_of_def)
next
  case (Cons e es)
  show ?case
  proof (cases "json_bytes env e")
    case (Inl x)
    with Cons.prems show ?thesis
      by (intro exI[of _ "[]"]) (auto simp: raw_lines_def entries_of_def)
  next
    case (Inr raw)
    let ?data = "data @ raw @ [10]"
    have "write_events env es ?data (entries @ pack_q (length ?data)) = (r, data', entries')"
      using Cons.prems Inr by (simp add: Let_def)
    from Cons.IH[OF this] Cons.prems obtain raws where raws: "length raws \<le> length es"
      "\<forall>raw \<in> set raws. 10 \<notin> set raw" "\<forall>k < length raws. json_bytes env (es ! k) = Inr (raws ! k)"
      "r = Inr () \<longrightarrow> length raws = length es" "data' = ?data @ concat (raw_lines raws)"
      "entries' = (entries @ pack_q (length ?data)) @ entries_of (line_places (length ?data) (raw_lines raws))"
      by auto
    moreover have "10 \<notin> set raw" using json_bytes_line Inr Cons.prems by simp
    moreover have "json_bytes env ((e # es) ! k) = Inr ((raw # raws) ! k)" if "k < Suc (length raws)" for k
      using that raws(3) Inr by (cases k) auto
    ultimately show ?thesis
      by (intro exI[of _ "raw # raws"]) (auto simp: raw_lines_def entries_Cons)
  qed
qed

lemma lines_of_raw: "\<forall>raw \<in> set raws. 10 \<notin> set raw \<Longrightarrow> lines_of (concat (raw_lines raws)) = raw_lines raws"
  by (induction raws) (auto simp: raw_lines_def lines_of_line)

lemma line_places_range:
  "\<forall>p \<in> set (line_places place (raw_lines raws)). place < p \<and> p \<le> place + length (concat (raw_lines raws))"
proof (induction raws arbitrary: place)
  case (Cons raw raws)
  show ?case
    using Cons[of "place + length raw + 1"] by (fastforce simp: raw_lines_def)
qed (simp add: raw_lines_def)

lemma full_index_append:
  assumes "jf_data j' = jf_data j @ concat (raw_lines raws)" and "complete (jf_data j)"
    and "\<forall>raw \<in> set raws. 10 \<notin> set raw"
  shows "full_index j' = pack_header (identity j')
    @ drop 40 (full_index j) @ entries_of (line_places (length (jf_data j)) (raw_lines raws))"
  using assms
  by (simp add: full_index_def line_offsets_places lines_of_append lines_of_raw line_places_append
      flip: entries_append)

section \<open>Crashes\<close>

text \<open>
  The files after the process was killed in \<open>append_events\<close>: each file has been written from its
  buffer up to some byte, and the header, the last write to the index, only when the lines and the
  entries are all there.
\<close>

datatype crash_point = Before_Header nat nat | In_Header nat

definition crash_append ::
  "journal_env \<Rightarrow> journal_file \<Rightarrow> nat \<Rightarrow> pyval list \<Rightarrow> crash_point \<Rightarrow> files \<Rightarrow> files" where
  "crash_append env fresh mtime events point f =
    (let f = touch fresh f in
     case open_index (steady f) of
       Inl e \<Rightarrow> f
     | Inr (index, _, f) \<Rightarrow>
         let j = the (fi_journal f);
             (r, data, entries) = write_events env events (jf_data j) [];
             written = rewritten j mtime in
         case (point, r) of
           (In_Header h, Inr _) \<Rightarrow>
             let j' = written data in
             f\<lparr>fi_journal := Some j',
               fi_index := Some (take (min h 40) (pack_header (identity j')) @ drop (min h 40) (index @ entries))\<rparr>
         | (In_Header h, Inl _) \<Rightarrow> f\<lparr>fi_journal := Some (written data), fi_index := Some (index @ entries)\<rparr>
         | (Before_Header n k, _) \<Rightarrow>
             f\<lparr>fi_journal := Some (written (take (length (jf_data j) + n) data)),
               fi_index := Some (index @ take k entries)\<rparr>)"

text \<open>An append that ends is the case where the header is complete.\<close>

lemma append_crash:
  "events \<noteq> [] \<Longrightarrow> snd (append_events env fresh mtime events f) = crash_append env fresh mtime events (In_Header 40) f"
  by (simp add: append_events_def crash_append_def Let_def split: sum.splits prod.splits)

text \<open>The journal that an append begins with, and that the events may be appended to.\<close>

definition ready :: "journal_env \<Rightarrow> journal_file \<Rightarrow> pyval list \<Rightarrow> files \<Rightarrow> bool" where
  "ready env fresh events f \<longleftrightarrow> one_line_floats env \<and> (\<forall>e \<in> set events. code_points env e)
    \<and> (\<forall>j. fi_journal f = Some j \<longrightarrow> complete (jf_data j)) \<and> (fi_journal f = None \<longrightarrow> fi_index f = None)
    \<and> fits_u64 (identity (fresh\<lparr>jf_data := []\<rparr>))"

lemma touch_sound:
  assumes "index_sound f" and "bounded f" and "ready env fresh events f"
  obtains j where "fi_journal (touch fresh f) = Some j" and "index_sound (touch fresh f)"
    and "bounded (touch fresh f)" and "complete (jf_data j)"
    and "jf_data j = (case fi_journal f of None \<Rightarrow> [] | Some j \<Rightarrow> jf_data j)"
proof (cases "fi_journal f")
  case None
  with assms show ?thesis
    by (intro that[of "fresh\<lparr>jf_data := []\<rparr>"]) (auto simp: touch_def ready_def index_sound_def bounded_def)
next
  case (Some j)
  with assms show ?thesis
    by (intro that[of j]) (auto simp: touch_def ready_def)
qed

lemma rewritten_simps [simp]: "jf_data (rewritten j mtime d) = d" "rewritten j mtime (jf_data j) = j"
  by (simp_all add: rewritten_def)

text \<open>The journal that is written to, the lines and entries that are written, and what is left of them.\<close>

lemma crash_shape:
  assumes "index_sound f" and "bounded f" and "ready env fresh events f"
  obtains j r raws where
    "index_sound \<lparr>fi_journal = Some j, fi_index = None\<rparr>" "fits_u64 (identity j)" "complete (jf_data j)"
    "jf_data j = (case fi_journal f of None \<Rightarrow> [] | Some j \<Rightarrow> jf_data j)"
    "length raws \<le> length events" "\<forall>raw \<in> set raws. 10 \<notin> set raw"
    "\<forall>k < length raws. json_bytes env (events ! k) = Inr (raws ! k)"
    "r = Inr () \<longrightarrow> length raws = length events"
    "events \<noteq> [] \<Longrightarrow> fst (append_events env fresh mtime events f) = r"
    "\<And>point. crash_append env fresh mtime events point f =
      (let data = jf_data j @ concat (raw_lines raws);
           entries = entries_of (line_places (length (jf_data j)) (raw_lines raws));
           j' = rewritten j mtime data in
       case point of
         Before_Header n k \<Rightarrow>
           \<lparr>fi_journal = Some (rewritten j mtime (take (length (jf_data j) + n) data)),
            fi_index = Some (full_index j @ take k entries)\<rparr>
       | In_Header h \<Rightarrow>
           \<lparr>fi_journal = Some j',
            fi_index = Some (case r of Inl _ \<Rightarrow> full_index j @ entries
              | Inr _ \<Rightarrow> take (min h 40) (pack_header (identity j')) @ drop (min h 40) (full_index j @ entries))\<rparr>)"
proof -
  define ft where "ft = touch fresh f"
  obtain j where j: "fi_journal ft = Some j" "index_sound ft" "bounded ft" "complete (jf_data j)"
    "jf_data j = (case fi_journal f of None \<Rightarrow> [] | Some j \<Rightarrow> jf_data j)"
    using touch_sound[OF assms] unfolding ft_def by blast
  obtain r data entries where w: "write_events env events (jf_data j) [] = (r, data, entries)"
    by (cases "write_events env events (jf_data j) []")
  from write_events_effect[OF w] assms(3) obtain raws where raws: "length raws \<le> length events"
    "\<forall>raw \<in> set raws. 10 \<notin> set raw" "\<forall>k < length raws. json_bytes env (events ! k) = Inr (raws ! k)"
    "r = Inr () \<longrightarrow> length raws = length events" "data = jf_data j @ concat (raw_lines raws)"
    "entries = entries_of (line_places (length (jf_data j)) (raw_lines raws))"
    by (auto simp: ready_def)
  note op = open_steady[OF j(2,3,1)]
  show ?thesis
  proof (rule that[of j raws r])
    show "events \<noteq> [] \<Longrightarrow> fst (append_events env fresh mtime events f) = r"
      unfolding append_events_def Let_def ft_def[symmetric] op by (simp add: w j(1))
    show "crash_append env fresh mtime events point f =
      (let data = jf_data j @ concat (raw_lines raws);
           entries = entries_of (line_places (length (jf_data j)) (raw_lines raws));
           j' = rewritten j mtime data in
       case point of
         Before_Header n k \<Rightarrow>
           \<lparr>fi_journal = Some (rewritten j mtime (take (length (jf_data j) + n) data)),
            fi_index = Some (full_index j @ take k entries)\<rparr>
       | In_Header h \<Rightarrow>
           \<lparr>fi_journal = Some j',
            fi_index = Some (case r of Inl _ \<Rightarrow> full_index j @ entries
              | Inr _ \<Rightarrow> take (min h 40) (pack_header (identity j')) @ drop (min h 40) (full_index j @ entries))\<rparr>)" for point
      unfolding crash_append_def Let_def ft_def[symmetric] op
      by (cases point; cases r) (simp_all add: w j(1) raws(5,6))
  qed (use j raws in \<open>auto simp: bounded_def index_sound_def\<close>)
qed

lemma crash_sound:
  assumes sound: "index_sound f" "bounded f" and ready: "ready env fresh events f"
    and bounded: "bounded (snd (append_events env fresh mtime events f))" "mtime < 2 ^ 64" and "events \<noteq> []"
  shows "index_sound (crash_append env fresh mtime events point f) \<and> bounded (crash_append env fresh mtime events point f)"
proof (rule crash_shape[OF sound ready, of mtime])
  fix j :: journal_file and r :: "unit result" and raws
  let ?data = "jf_data j @ concat (raw_lines raws)"
  let ?ps = "line_places (length (jf_data j)) (raw_lines raws)"
  assume fj: "fits_u64 (identity j)" and comp: "complete (jf_data j)" and raws: "\<forall>raw \<in> set raws. 10 \<notin> set raw"
  assume crash: "\<And>point. crash_append env fresh mtime events point f =
      (let data = ?data; entries = entries_of ?ps; j' = rewritten j mtime data in
       case point of
         Before_Header n k \<Rightarrow>
           \<lparr>fi_journal = Some (rewritten j mtime (take (length (jf_data j) + n) data)),
            fi_index = Some (full_index j @ take k entries)\<rparr>
       | In_Header h \<Rightarrow>
           \<lparr>fi_journal = Some j',
            fi_index = Some (case r of Inl _ \<Rightarrow> full_index j @ entries
              | Inr _ \<Rightarrow> take (min h 40) (pack_header (identity j')) @ drop (min h 40) (full_index j @ entries))\<rparr>)"
  have size: "length ?data < 2 ^ 64"
    using bounded(1) unfolding append_crash[OF \<open>events \<noteq> []\<close>] crash
    by (simp add: bounded_def fits_u64_def identity_def Let_def)
  have fits_u64: "fits_u64 (identity (rewritten j mtime (jf_data j @ take n (concat (raw_lines raws)))))" for n
    using fj size bounded(2) by (auto simp: fits_u64_def identity_def rewritten_def)
  have places: "\<forall>p \<in> set ?ps. length (jf_data j) < p \<and> p < 2 ^ 64"
    using line_places_range[of "length (jf_data j)" raws] size by fastforce
  have before: "index_sound \<lparr>fi_journal = Some (rewritten j mtime (take (length (jf_data j) + n) ?data)),
      fi_index = Some (full_index j @ take k (entries_of ?ps))\<rparr>" for n k
  proof -
    have "take (length (jf_data j) + n) ?data = jf_data j @ take n (concat (raw_lines raws))" by simp
    then show ?thesis
      by (simp only:) (rule sound_before_header[OF fj fits_u64 _ _ places, of _ "take n (concat (raw_lines raws))"],
        simp_all del: take_eq_Nil take_eq_Nil2)
  qed
  have all: "take (length (jf_data j) + length ?data) ?data = ?data" "take (length (entries_of ?ps)) (entries_of ?ps) = entries_of ?ps"
    by simp_all
  show ?thesis
  proof (cases point)
    case (Before_Header n k)
    with before fits_u64 show ?thesis unfolding crash by (simp add: bounded_def Let_def)
  next
    case (In_Header h)
    show ?thesis
    proof (cases r)
      case (Inl e)
      with In_Header before[of "length ?data" "length (entries_of ?ps)"] fits_u64[of "length (concat (raw_lines raws))"] show ?thesis
        unfolding crash all by (simp add: bounded_def Let_def)
    next
      case (Inr u)
      let ?j = "rewritten j mtime ?data"
      have "full_index ?j = pack_header (identity ?j) @ drop 40 (full_index j) @ entries_of ?ps"
        using full_index_append[of ?j j raws] raws comp by simp
      from sound_in_header[OF _ this, of "min h 40" "take 40 (full_index j)"] have
        "index_sound \<lparr>fi_journal = Some ?j,
          fi_index = Some (take (min h 40) (pack_header (identity ?j)) @ drop (min h 40) (full_index j @ entries_of ?ps))\<rparr>"
        by (simp add: full_index_def)
      with In_Header Inr fits_u64[of "length (concat (raw_lines raws))"] show ?thesis
        unfolding crash by (simp add: bounded_def Let_def)
    qed
  qed
qed

end
