(* ===== verification/Journal_Reading.thy ===== *)
theory Journal_Reading
  imports Journal_Recovery
begin

text \<open>
  Reading the journal: in every reachable state, also while the writer appends, a page is the
  beginning of the events from the cursor on; following the cursors gives every event once; and what
  was appended reads back as it was.
\<close>

section \<open>Reachable states\<close>

text \<open>
  Appending, being killed while appending, a reader that brings the index up to date, and what others
  do to the two files: the index is lost, or one of the files is replaced by one that the index is
  not for.
\<close>

inductive journal_run :: "journal_env \<Rightarrow> files \<Rightarrow> bool" for env where
  run_start: "journal_run env \<lparr>fi_journal = None, fi_index = None\<rparr>"
| run_append: "journal_run env f \<Longrightarrow> ready env fresh events f \<Longrightarrow> events \<noteq> [] \<Longrightarrow> mtime < 2 ^ 64 \<Longrightarrow>
    append_events env fresh mtime events f = (r, f') \<Longrightarrow> bounded f' \<Longrightarrow> journal_run env f'"
| run_crash: "journal_run env f \<Longrightarrow> ready env fresh events f \<Longrightarrow> events \<noteq> [] \<Longrightarrow> mtime < 2 ^ 64 \<Longrightarrow>
    bounded (snd (append_events env fresh mtime events f)) \<Longrightarrow>
    journal_run env (crash_append env fresh mtime events point f)"
| run_open: "journal_run env f \<Longrightarrow> open_index (steady f) = Inr (index, count, f') \<Longrightarrow> journal_run env f'"
| run_lost: "journal_run env f \<Longrightarrow> journal_run env (f\<lparr>fi_index := None\<rparr>)"
| run_spoiled: "journal_run env f \<Longrightarrow> fi_journal f = Some j \<Longrightarrow> index_count index (identity j) = None \<Longrightarrow>
    journal_run env (f\<lparr>fi_index := Some index\<rparr>)"
| run_replaced: "journal_run env f \<Longrightarrow> fits_u64 (identity j) \<Longrightarrow> cached_index (fi_index f) (identity j) = None \<Longrightarrow>
    journal_run env (f\<lparr>fi_journal := Some j\<rparr>)"

lemma journal_run_sound: "journal_run env f \<Longrightarrow> index_sound f \<and> bounded f"
proof (induction rule: journal_run.induct)
  case (run_append f fresh events mtime r f')
  then show ?case
    using crash_sound[of f env fresh events mtime "In_Header 40"] append_crash[of events env fresh mtime f] by simp
next
  case (run_crash f fresh events mtime point)
  then show ?case using crash_sound by blast
next
  case (run_open f index count f')
  then obtain j where j: "fi_journal f = Some j"
    by (cases "fi_journal f") (auto simp: open_index_def steady_def)
  with run_open open_steady[of f j] show ?case
    by (auto simp: index_sound_def bounded_def)
next
  case (run_replaced f j)
  then show ?case by (auto simp: index_sound_def bounded_def cached_index_def)
qed (auto simp: index_sound_def bounded_def)

section \<open>The events of a journal\<close>

fun decode_lines :: "journal_env \<Rightarrow> nat \<Rightarrow> bytes list \<Rightarrow> pyval list" where
  "decode_lines env n [] = []"
| "decode_lines env n (l # ls) = decode_event env l (n + 1) # decode_lines env (n + 1) ls"

definition journal_events :: "journal_env \<Rightarrow> files \<Rightarrow> pyval list" where
  "journal_events env f = (case fi_journal f of None \<Rightarrow> [] | Some j \<Rightarrow> decode_lines env 0 (lines_of (jf_data j)))"

lemma length_decode_lines [simp]: "length (decode_lines env n ls) = length ls"
  by (induction ls arbitrary: n) auto

lemma drop_decode_lines: "drop k (decode_lines env n ls) = decode_lines env (n + k) (drop k ls)"
proof (induction ls arbitrary: n k)
  case (Cons l ls)
  then show ?case by (cases k) auto
qed simp

text \<open>The size of an event in a page, and as many events as fit the budget, but at least one.\<close>

definition event_size :: "journal_env \<Rightarrow> pyval \<Rightarrow> nat" where
  "event_size env e = (case json_bytes env e of Inl _ \<Rightarrow> 0 | Inr raw \<Rightarrow> length raw)"

fun fill_page :: "(pyval \<Rightarrow> nat) \<Rightarrow> int \<Rightarrow> int \<Rightarrow> pyval list \<Rightarrow> pyval list" where
  "fill_page sz budget used [] = []"
| "fill_page sz budget used (e # es) =
    (if budget < used + int (sz e) then [] else e # fill_page sz budget (used + int (sz e)) es)"

fun first_page :: "(pyval \<Rightarrow> nat) \<Rightarrow> int \<Rightarrow> int \<Rightarrow> pyval list \<Rightarrow> pyval list" where
  "first_page sz budget used [] = []"
| "first_page sz budget used (e # es) = e # fill_page sz budget (used + int (sz e)) es"

lemma fill_page_prefix: "\<exists>k. fill_page sz budget used es = take k es"
proof (induction es arbitrary: used)
  case (Cons e es)
  then obtain k where "fill_page sz budget (used + int (sz e)) es = take k es" by blast
  then show ?case by (auto intro: exI[of _ "Suc k"] exI[of _ 0])
qed simp

lemma first_page_prefix: "\<exists>k. first_page sz budget used es = take (Suc k) es"
  using fill_page_prefix by (cases es) auto

text \<open>What \<open>json.loads\<close> gives can be written again.\<close>

definition writable_again :: "journal_env \<Rightarrow> bool" where
  "writable_again env \<longleftrightarrow> (\<forall>line d. je_loads env line = Some (PDict d) \<longrightarrow> (\<exists>raw. json_bytes env (PDict d) = Inr raw))"

lemma digits_bound: "n < 10 ^ k \<Longrightarrow> 0 < k \<Longrightarrow> length (digits_of_nat n) \<le> k"
proof (induction n arbitrary: k rule: digits_of_nat.induct)
  case (1 n)
  show ?case
  proof (cases "n < 10")
    case True
    with 1 show ?thesis by (subst digits_of_nat.simps) simp
  next
    case False
    with 1 obtain k' where k: "k = Suc k'" "0 < k'" by (cases k; cases "k - 1") auto
    then have "n div 10 < 10 ^ k'" using 1(2) by (simp add: div_less_iff_less_mult mult.commute)
    with 1(1) k False show ?thesis by (subst digits_of_nat.simps) simp
  qed
qed

lemma warning_bytes: "n < 2 ^ 64 \<Longrightarrow> \<exists>raw. json_bytes env (journal_warning t n) = Inr raw"
proof -
  assume "n < 2 ^ 64"
  then have "n < 10 ^ 64" by simp
  then have "length (digits_of_nat n) \<le> 64" by (rule digits_bound) simp
  then have "\<not> 4300 < length (digits_of_nat n)" by simp
  then show ?thesis by (auto simp: json_bytes_def journal_warning_def int_text_def Let_def simp del: lit_simps)
qed

lemma decode_event_bytes:
  "writable_again env \<Longrightarrow> n < 2 ^ 64 \<Longrightarrow> \<exists>raw. json_bytes env (decode_event env line n) = Inr raw"
  using warning_bytes[of n env]
  by (auto simp: decode_event_def writable_again_def split: option.split pyval.split)

lemma read_events_lines:
  assumes "writable_again env" and "position + length ls < 2 ^ 64"
    and "lines_of source = ls @ tail"
  shows "read_events env budget (length ls) source position used acc =
    Inr (acc @ (if acc = [] then first_page (event_size env) budget used (decode_lines env position ls)
                   else fill_page (event_size env) budget used (decode_lines env position ls)))"
  using assms(2,3)
proof (induction ls arbitrary: source position used acc)
  case Nil
  then show ?case by simp
next
  case (Cons l ls)
  have source: "source \<noteq> []" using Cons.prems by auto
  then have "lines_of source = readline source # lines_of (drop (length (readline source)) source)"
    by (subst lines_of.simps) simp
  then have l: "readline source = l" "lines_of (drop (length l) source) = ls @ tail"
    using Cons.prems(2) by auto
  obtain raw where raw: "json_bytes env (decode_event env l (position + 1)) = Inr raw"
    using decode_event_bytes[OF assms(1), of "position + 1"] Cons.prems(1) by auto
  have "event_size env (decode_event env l (position + 1)) = length raw" using raw by (simp add: event_size_def)
  then show ?case
    using Cons.IH[of "position + 1" "drop (length l) source"] Cons.prems(1) l raw by (simp add: Let_def)
qed

text \<open>The offset that the full index has for a cursor is where the line begins.\<close>

lemma full_index_offset:
  assumes "fits_u64 (identity j)" and "c \<le> length (lines_of (jf_data j))"
  shows "from_le (take 8 (drop (40 + c * 8) (full_index j))) = length (concat (take c (lines_of (jf_data j))))"
proof -
  let ?ns = "0 # line_places 0 (lines_of (jf_data j))"
  have c: "c < length ?ns" using assms(2) by simp
  have nth: "?ns ! c = length (concat (take c (lines_of (jf_data j))))"
    using nth_line_places[OF assms(2), of 0] by simp
  have "length (concat (take c (lines_of (jf_data j)))) \<le> length (concat (lines_of (jf_data j)))"
    by (metis append_take_drop_id concat_append le_add1 length_append)
  then have small: "?ns ! c < 2 ^ 64"
    using assms(1) unfolding nth by (simp add: fits_u64_def identity_def)
  have "take 8 (drop (40 + c * 8) (full_index j)) = pack_q (?ns ! c)"
    using nth_entry[OF c] by (simp add: full_index_def line_offsets_places mult.commute)
  with small nth show ?thesis by (simp add: from_pack_q)
qed

lemma length_lines_le: "length (lines_of bs) \<le> length (concat (lines_of bs))"
  by (induction bs rule: bytes_induct) (auto simp: lines_of_last lines_of_line Suc_le_eq)

lemma lines_at: "c \<le> length (lines_of bs) \<Longrightarrow>
    drop (length (concat (take c (lines_of bs)))) bs = concat (drop c (lines_of bs))
    \<and> lines_of (concat (drop c (lines_of bs))) = drop c (lines_of bs)"
proof (induction bs arbitrary: c rule: bytes_induct)
  case (last_line raw)
  then consider "c = 0" | "raw \<noteq> []" "c = 1" by (auto simp: lines_of_last le_Suc_eq split: if_splits)
  then show ?case using last_line.hyps by cases (simp_all add: lines_of_last)
next
  case (line raw rest)
  show ?case
  proof (cases c)
    case 0
    then show ?thesis by simp
  next
    case (Suc d)
    with line show ?thesis by (simp add: lines_of_line)
  qed
qed

text \<open>Reading from the journal as it was indexed, or with complete lines appended since.\<close>

definition later_view :: "files \<Rightarrow> bytes \<Rightarrow> views" where
  "later_view f added =
    (steady f)\<lparr>vw_later := map_option (\<lambda>j. j\<lparr>jf_data := jf_data j @ added\<rparr>) (fi_journal f)\<rparr>"

definition growing :: "files \<Rightarrow> bytes \<Rightarrow> bool" where
  "growing f added \<longleftrightarrow> added = [] \<or> (\<forall>j. fi_journal f = Some j \<longrightarrow> complete (jf_data j))"

lemma open_index_later [simp]: "open_index (v\<lparr>vw_later := x\<rparr>) = open_index v"
  by (simp add: open_index_def cong: option.case_cong)

lemma read_sound:
  assumes "index_sound f" and "bounded f" and "writable_again env" and "growing f added"
  shows "read_journal env (later_view f added) (PInt c) budget initial_size =
    (let events = journal_events env f in
     if c < 0 \<or> int (length events) < c then Inl (ValueError ''Invalid output cursor'')
     else Inr (first_page (event_size env) budget initial_size (drop (nat c) events), length events))"
proof (cases "fi_journal f")
  case None
  then show ?thesis
    by (auto simp: read_journal_def open_index_def later_view_def steady_def journal_events_def)
next
  case (Some j)
  let ?ls = "lines_of (jf_data j)"
  have fj: "fits_u64 (identity j)" using assms(2) Some by (simp add: bounded_def)
  have open': "open_index (later_view f added) = Inr (full_index j, length ?ls, f\<lparr>fi_index := Some (full_index j)\<rparr>)"
    using open_steady[OF assms(1,2) Some] by (simp add: later_view_def)
  have events: "journal_events env f = decode_lines env 0 ?ls" by (simp add: journal_events_def Some)
  show ?thesis
  proof (cases "c < 0 \<or> int (length ?ls) < c")
    case True
    then show ?thesis
      by (auto simp: read_journal_def open' events)
  next
    case False
    define k where "k = nat c"
    have k: "k \<le> length ?ls" "c = int k" using False by (auto simp: k_def)
    have more: "lines_of (jf_data j @ added) = ?ls @ lines_of added"
      using assms(4) Some lines_of_append by (auto simp: growing_def)
    let ?source = "drop (length (concat (take k ?ls))) (jf_data j @ added)"
    have lines: "lines_of ?source = drop k ?ls @ lines_of added"
      using lines_at[of k "jf_data j @ added"] k more by simp
    have "k + length (drop k ?ls) < 2 ^ 64"
    proof -
      have "length ?ls \<le> length (concat ?ls)" by (rule length_lines_le)
      with fj k show ?thesis by (simp add: fits_u64_def identity_def)
    qed
    from read_events_lines[OF assms(3) this lines, of budget initial_size "[]"]
    have "read_events env budget (length ?ls - k) ?source k initial_size [] =
        Inr (first_page (event_size env) budget initial_size (decode_lines env k (drop k ?ls)))"
      by (simp only: length_drop append_Nil if_True simp_thms)
    then show ?thesis
      using full_index_offset[OF fj k(1)] k
      by (simp add: read_journal_def open' events drop_decode_lines del: drop_append)
        (simp add: later_view_def Some del: drop_append)
  qed
qed


section \<open>Following the cursors\<close>

type_synonym journal_reader = "journal_env \<times> files \<times> int"

fun jreader_page :: "journal_reader \<Rightarrow> nat \<Rightarrow> exc + (pyval list \<times> nat option)" where
  "jreader_page (env, f, budget) c =
    (case read_journal env (steady f) (PInt (int c)) budget 0 of
       Inl e \<Rightarrow> Inl e
     | Inr (output, count) \<Rightarrow> Inr (output, if c + length output < count then Some (c + length output) else None))"

fun jreader_valid :: "journal_reader \<Rightarrow> nat \<Rightarrow> bool" where
  "jreader_valid (env, f, budget) c \<longleftrightarrow>
    writable_again env \<and> index_sound f \<and> bounded f \<and> c \<le> length (journal_events env f)"

fun jreader_rest :: "journal_reader \<Rightarrow> nat \<Rightarrow> pyval list" where
  "jreader_rest (env, f, budget) c = drop c (journal_events env f)"

lemma steady_later: "steady f = later_view f []"
proof -
  have "map_option (\<lambda>j. j\<lparr>jf_data := jf_data j\<rparr>) (fi_journal f) = fi_journal f"
    by (cases "fi_journal f") auto
  then show ?thesis by (simp add: later_view_def steady_def)
qed

lemma jreader_page_eq:
  assumes "jreader_valid (env, f, budget) c"
  obtains k where "jreader_page (env, f, budget) c =
    Inr (take (Suc k) (drop c (journal_events env f)),
         if c + Suc k < length (journal_events env f) then Some (c + Suc k) else None)"
proof -
  obtain k where k: "first_page (event_size env) budget 0 (drop c (journal_events env f))
      = take (Suc k) (drop c (journal_events env f))"
    using first_page_prefix by blast
  have "read_journal env (steady f) (PInt (int c)) budget 0
      = Inr (take (Suc k) (drop c (journal_events env f)), length (journal_events env f))"
    using assms read_sound[of f env "[]" "int c" budget 0] k by (simp add: steady_later growing_def Let_def)
  then show ?thesis by (intro that[of k]) (auto simp: min_def)
qed

interpretation journal_pager: pager jreader_page jreader_valid jreader_rest
proof
  fix s :: journal_reader and c
  assume v: "jreader_valid s c"
  obtain env f budget where s: "s = (env, f, budget)" by (cases s)
  from v obtain k where page: "jreader_page s c = Inr (take (Suc k) (drop c (journal_events env f)),
      if c + Suc k < length (journal_events env f) then Some (c + Suc k) else None)"
    unfolding s by (rule jreader_page_eq)
  show "\<exists>xs n. jreader_page s c = Inr (xs, n)" using page by blast
  show "jreader_rest s c = xs" if "jreader_page s c = Inr (xs, None)" for xs
    using that page by (auto simp: s split: if_splits)
  show "jreader_valid s c' \<and> jreader_rest s c = xs @ jreader_rest s c' \<and> xs \<noteq> []"
    if "jreader_page s c = Inr (xs, Some c')" for xs c'
    using that page v append_take_drop_id[of "Suc k" "drop c (journal_events env f)"]
    by (auto simp: s add.commute simp del: append_take_drop_id split: if_splits)
qed

text \<open>Following the cursors from the beginning gives every event once, in order.\<close>

theorem journal_collects:
  assumes "journal_run env f" and "writable_again env"
  shows "collect (jreader_page (env, f, budget)) (Suc (length (journal_events env f))) 0
    = Some (Inr (journal_events env f))"
  using journal_pager.collect_rest[of "(env, f, budget)" 0] journal_run_sound[OF assms(1)] assms(2)
  by (simp del: collect.simps)

section \<open>Appended events read back\<close>

text \<open>\<open>json.loads\<close> reads the line of the event.\<close>

definition event_round_trips :: "journal_env \<Rightarrow> pyval \<Rightarrow> bool" where
  "event_round_trips env e \<longleftrightarrow> (\<exists>d. e = PDict d)
    \<and> (case json_bytes env e of Inl _ \<Rightarrow> False | Inr raw \<Rightarrow> je_loads env (raw @ [10]) = Some e)"

lemma decode_lines_append:
  "decode_lines env n (ls @ ls') = decode_lines env n ls @ decode_lines env (n + length ls) ls'"
  by (induction ls arbitrary: n) auto

lemma decode_raw_lines:
  assumes "length raws \<le> length es" and "\<forall>k < length raws. json_bytes env (es ! k) = Inr (raws ! k)"
    and "\<forall>e \<in> set es. event_round_trips env e"
  shows "decode_lines env n (raw_lines raws) = take (length raws) es"
  using assms
proof (induction raws arbitrary: es n)
  case Nil
  then show ?case by (simp add: raw_lines_def)
next
  case (Cons raw raws)
  then obtain e es' where es: "es = e # es'" by (cases es) auto
  have "json_bytes env e = Inr raw" using Cons.prems(2) es by force
  moreover have "event_round_trips env e" using Cons.prems(3) es by simp
  ultimately have "decode_event env (raw @ [10]) (n + 1) = e"
    by (auto simp: event_round_trips_def decode_event_def)
  moreover have "decode_lines env (n + 1) (raw_lines raws) = take (length raws) es'"
    using Cons.prems es by (intro Cons.IH) auto
  ultimately show ?case by (simp add: es raw_lines_def)
qed

text \<open>A part of the lines: some of them, and perhaps the beginning of the next.\<close>

lemma lines_of_part:
  assumes "\<forall>raw \<in> set raws. 10 \<notin> set raw"
  shows "\<exists>k torn. k \<le> length raws \<and> length torn \<le> 1
    \<and> lines_of (take n (concat (raw_lines raws))) = raw_lines (take k raws) @ torn"
  using assms
proof (induction raws arbitrary: n)
  case Nil
  then show ?case by (intro exI[of _ 0] exI[of _ "[]"]) (simp add: raw_lines_def)
next
  case (Cons raw raws)
  show ?case
  proof (cases "n \<le> length raw")
    case True
    then have "10 \<notin> set (take n raw)" using Cons.prems by (auto dest: in_set_takeD)
    then have "length (lines_of (take n raw)) \<le> 1" by (simp add: lines_of_last)
    with True show ?thesis
      by (intro exI[of _ 0] exI[of _ "lines_of (take n raw)"]) (simp add: raw_lines_def)
  next
    case False
    then obtain m where m: "n = length raw + Suc m" by (metis add_Suc_right less_imp_Suc_add not_le)
    obtain k torn where k: "k \<le> length raws" "length torn \<le> 1"
      "lines_of (take m (concat (raw_lines raws))) = raw_lines (take k raws) @ torn"
      using Cons by fastforce
    then show ?thesis
      using Cons.prems by (intro exI[of _ "Suc k"] exI[of _ torn]) (simp add: raw_lines_def m lines_of_line)
  qed
qed

text \<open>What the journal holds after an append that was killed or ended.\<close>

lemma crash_events:
  assumes sound: "index_sound f" "bounded f" and ready: "ready env fresh events f"
    and trips: "\<forall>e \<in> set events. event_round_trips env e"
  obtains k torn where "k \<le> length events" and "length torn \<le> 1"
    and "journal_events env (crash_append env fresh mtime events point f) = journal_events env f @ take k events @ torn"
    and "\<And>h. point = In_Header h \<Longrightarrow> events \<noteq> [] \<Longrightarrow>
      fst (append_events env fresh mtime events f) = Inr () \<Longrightarrow> k = length events \<and> torn = []"
proof (rule crash_shape[OF sound ready, of mtime])
  fix j :: journal_file and r :: "unit result" and raws
  let ?f = "crash_append env fresh mtime events point f"
  assume comp: "complete (jf_data j)" and raws: "length raws \<le> length events" "\<forall>raw \<in> set raws. 10 \<notin> set raw"
      "\<forall>k < length raws. json_bytes env (events ! k) = Inr (raws ! k)"
    and old: "jf_data j = (case fi_journal f of None \<Rightarrow> [] | Some j \<Rightarrow> jf_data j)"
    and r: "r = Inr () \<longrightarrow> length raws = length events"
      "events \<noteq> [] \<Longrightarrow> fst (append_events env fresh mtime events f) = r"
    and crash: "\<And>point. crash_append env fresh mtime events point f =
      (let data = jf_data j @ concat (raw_lines raws);
           entries = entries_of (line_places (length (jf_data j)) (raw_lines raws));
           j' = rewritten j mtime data in
       case point of
         Before_Header n k \<Rightarrow>
           \<lparr>fi_journal = Some (rewritten j mtime (take (length (jf_data j) + n) data)),
            fi_index = Some (full_index j @ take k entries)\<rparr>
       | In_Header h \<Rightarrow>
           \<lparr>fi_journal = Some j',
            fi_index = Some (case r of Inl _ \<Rightarrow> full_index j @ entries
              | Inr _ \<Rightarrow> take (min h 40) (pack_header (identity j')) @ drop (min h 40) (full_index j @ entries))\<rparr>)"
  have events: "journal_events env f = decode_lines env 0 (lines_of (jf_data j))"
    using old by (simp add: journal_events_def split: option.splits)
  have decoded: "decode_lines env n (raw_lines (take k raws)) = take (length (take k raws)) events" for n k
    using raws(1,3) trips by (intro decode_raw_lines) auto
  define part where "part = (case point of Before_Header n _ \<Rightarrow> take n (concat (raw_lines raws))
    | In_Header _ \<Rightarrow> concat (raw_lines raws))"
  have "\<exists>j'. fi_journal ?f = Some j' \<and> jf_data j' = jf_data j @ part"
    unfolding crash by (cases point) (simp_all add: part_def Let_def)
  then have now: "journal_events env ?f = journal_events env f
      @ decode_lines env (length (lines_of (jf_data j))) (lines_of part)"
    using comp by (auto simp: events lines_of_append decode_lines_append) (auto simp: journal_events_def lines_of_append decode_lines_append)
  show thesis
  proof (cases point)
    case (In_Header h)
    then have "lines_of part = raw_lines raws" by (simp add: part_def lines_of_raw raws(2))
    with now decoded[of _ "length raws"] raws(1) r show thesis
      by (intro that[of "length raws" "[]"]) auto
  next
    case (Before_Header n m)
    then obtain k torn where k: "k \<le> length raws" "length torn \<le> 1" "lines_of part = raw_lines (take k raws) @ torn"
      using lines_of_part[OF raws(2), of n] unfolding part_def Before_Header crash_point.case by blast
    with now decoded[of _ k] raws(1) Before_Header show thesis
      by (intro that[of k "decode_lines env (length (lines_of (jf_data j)) + length (raw_lines (take k raws))) torn"])
        (auto simp: decode_lines_append min_def)
  qed
qed



end
