(* ===== verification/Journal_Samples.thy ===== *)
theory Journal_Samples
  imports Journal_Reading
begin

text \<open>
  The journal at work: the properties of the journal at concrete files, and what happens when a
  journal whose last line was torn is appended to.
\<close>

definition journal_sample_env :: journal_env where
  "journal_sample_env = \<lparr>je_loads = (\<lambda>line. if line = [123, 125, 10] then Some (PDict []) else None), je_float = (\<lambda>_. [48])\<rparr>"

definition journal_sample_file :: journal_file where
  "journal_sample_file = \<lparr>jf_dev = 1, jf_ino = 2, jf_mtime = 3, jf_data = []\<rparr>"

definition journal_sample_files :: files where
  "journal_sample_files = snd (append_events journal_sample_env journal_sample_file 4 [PDict [], PDict []] \<lparr>fi_journal = None, fi_index = None\<rparr>)"

lemma journal_sample_bytes: "json_bytes journal_sample_env (PDict []) = Inr [123, 125]"
  by code_simp

lemma journal_sample_events: "journal_events journal_sample_env journal_sample_files = [PDict [], PDict []]"
  by code_simp

lemma journal_sample_readable: "writable_again journal_sample_env"
  by (simp add: writable_again_def journal_sample_env_def journal_sample_bytes[unfolded journal_sample_env_def] split: if_splits)

lemma journal_sample_ready: "ready journal_sample_env journal_sample_file [PDict [], PDict []] \<lparr>fi_journal = None, fi_index = None\<rparr>"
  by (simp add: ready_def one_line_floats_def code_points_def journal_sample_env_def journal_sample_file_def fits_u64_def identity_def)

lemma journal_sample_run: "journal_run journal_sample_env journal_sample_files"
proof -
  have "append_events journal_sample_env journal_sample_file 4 [PDict [], PDict []] \<lparr>fi_journal = None, fi_index = None\<rparr> = (Inr (), journal_sample_files)"
    by code_simp
  moreover have "fi_journal journal_sample_files =
      Some (journal_sample_file\<lparr>jf_mtime := 4, jf_data := [123, 125, 10, 123, 125, 10]\<rparr>)"
    by code_simp
  then have "bounded journal_sample_files"
    by (simp add: bounded_def fits_u64_def identity_def journal_sample_file_def)
  ultimately show ?thesis
    using run_append[OF run_start journal_sample_ready, of 4] by simp
qed

lemma journal_sample_journal: "\<exists>j. fi_journal journal_sample_files = Some j \<and> complete (jf_data j)"
proof -
  have "fi_journal journal_sample_files = Some (journal_sample_file\<lparr>jf_mtime := 4, jf_data := [123, 125, 10, 123, 125, 10]\<rparr>)"
    by code_simp
  then show ?thesis by (simp add: complete_def)
qed

lemma journal_sample_ready_more: "ready journal_sample_env journal_sample_file [PDict []] journal_sample_files"
  using journal_sample_journal
  by (auto simp: ready_def one_line_floats_def code_points_def journal_sample_env_def journal_sample_file_def fits_u64_def identity_def)

lemma journal_sample_trips: "event_round_trips journal_sample_env (PDict [])"
  by (simp add: event_round_trips_def journal_sample_bytes) (simp add: journal_sample_env_def)

section \<open>The properties at the sample\<close>


lemma journal_collects_witness:
  "collect (jreader_page (journal_sample_env, journal_sample_files, 2)) 3 0 = Some (Inr [PDict [], PDict []])"
  using journal_collects[OF journal_sample_run journal_sample_readable, of 2]
  by (simp add: journal_sample_events eval_nat_numeral del: collect.simps)



section \<open>Appending to a torn journal\<close>

text \<open>
  A journal that ends in a torn line is indexed with that line, and the next append goes on in it.  A
  page from the new event on shows it; a page from the torn line on loses it and reports a line
  more that is incomplete.
\<close>

lemma torn_append_shifts:
  "let torn = \<lparr>fi_journal = Some (journal_sample_file\<lparr>jf_data := [123]\<rparr>), fi_index = None\<rparr>;
       f = snd (append_events journal_sample_env journal_sample_file 4 [PDict []] torn) in
   read_journal journal_sample_env (steady f) (PInt 1) 1000 0 = Inr ([PDict []], 2)
   \<and> read_journal journal_sample_env (steady f) (PInt 0) 1000 0 = Inr ([journal_warning False 1, journal_warning True 2], 2)"
  by code_simp

end
