(* ===== verification/Config_Validate.thy ===== *)
theory Config_Validate
  imports Config_Values
begin

text \<open>
  The validators of config.py and lsp_config.py: the effective configuration and the layers it is
  merged from.  Splitting a URL and reading an e-mail address are parameters.
\<close>

record conf_env =
  split_url :: "pystr \<Rightarrow> (pystr \<times> pystr option) option"  \<comment> \<open>scheme and host, none for ValueError\<close>
  parse_addr :: "pystr \<Rightarrow> pystr"

section \<open>Constants\<close>

definition config_version :: int where "config_version = 1"
definition max_response_bytes :: int where "max_response_bytes = 1048576"
definition max_wait_ms :: int where "max_wait_ms = 30000"

definition default_limits :: table where
  "default_limits =
    [(lit ''output_bytes'', PInt 16777216), (lit ''response_bytes'', PInt 32768),
     (lit ''execute_wait_ms'', PInt 1000), (lit ''poll_wait_ms'', PInt 1000),
     (lit ''completed_tasks'', PInt 128), (lit ''completed_records'', PInt 128),
     (lit ''cache_bytes'', PInt 33554432)]"

definition default_storage :: table where
  "default_storage =
    [(lit ''enabled'', PBool True), (lit ''revision_keep'', PInt 50), (lit ''retention_days'', PInt 30),
     (lit ''max_bytes'', PInt 1073741824), (lit ''gc_interval_seconds'', PInt 300)]"

definition default_mail :: table where
  "default_mail = [(lit ''default_account'', PStr []), (lit ''accounts'', PDict [])]"

definition default_web :: table where
  "default_web =
    [(lit ''default_provider'', PStr []), (lit ''timeout_seconds'', PInt 30),
     (lit ''max_concurrency'', PInt 4), (lit ''providers'', PDict [])]"

definition default_dependencies :: table where
  "default_dependencies = [(lit ''auto_install'', PBool True)]"

definition link_modes :: "pystr list" where
  "link_modes = [lit ''clone'', lit ''hardlink'', lit ''copy'']"

definition web_provider_names :: "pystr list" where
  "web_provider_names = [lit ''kagi'', lit ''brave'', lit ''tavily'']"

definition web_fields :: "pystr list" where
  "web_fields = [lit ''default_provider'', lit ''timeout_seconds'', lit ''max_concurrency'', lit ''providers'']"

definition mail_security :: "pystr list" where
  "mail_security = [lit ''ssl'', lit ''starttls'', lit ''plain'']"

definition mail_account_fields :: "pystr list" where
  "mail_account_fields = [lit ''from'', lit ''imap'', lit ''smtp'', lit ''sent_mailbox'']"

definition mail_endpoint_fields :: "pystr list" where
  "mail_endpoint_fields =
    [lit ''host'', lit ''port'', lit ''security'', lit ''username'', lit ''password_from'', lit ''ca_file'']"

section \<open>MCP servers\<close>

definition mcp_path :: pystr where "mcp_path = lit ''mcp.servers''"

definition validate_name :: "pystr \<Rightarrow> unit checked" where
  "validate_name n = check (not_blank n \<and> length n \<le> 128 \<and> no_nul n)
     mcp_path ''MCP server name must contain 1..128 characters''"

definition plain_str :: "pyval \<Rightarrow> bool" where
  "plain_str v = (case v of PStr s \<Rightarrow> no_nul s | _ \<Rightarrow> False)"

definition filled_str :: "pyval \<Rightarrow> bool" where
  "filled_str v = (case v of PStr s \<Rightarrow> s \<noteq> [] \<and> no_nul s | _ \<Rightarrow> False)"

definition valid_command :: "pyval \<Rightarrow> bool" where
  "valid_command v = (case v of
      PStr s \<Rightarrow> not_blank s \<and> no_nul s
    | PList xs \<Rightarrow> xs \<noteq> [] \<and> list_all filled_str xs
    | _ \<Rightarrow> False)"

definition validate_http :: "conf_env \<Rightarrow> pystr \<Rightarrow> table \<Rightarrow> unit checked" where
  "validate_http ev p d =
    (case get_or d (lit ''url'') PNone of
       PStr url \<Rightarrow>
         if \<not> no_nul url then fail (dot p (lit ''url'')) ''must be an HTTP(S) URL''
         else (case split_url ev url of
             None \<Rightarrow> fail (dot p (lit ''url'')) ''invalid HTTP(S) URL''
           | Some (scheme, host) \<Rightarrow>
               check (scheme \<in> {lit ''http'', lit ''https''} \<and> host \<noteq> None \<and> host \<noteq> Some [])
                 (dot p (lit ''url'')) ''must be an HTTP(S) URL'')
     | _ \<Rightarrow> fail (dot p (lit ''url'')) ''must be an HTTP(S) URL'')"

definition validate_stdio :: "pystr \<Rightarrow> table \<Rightarrow> unit checked" where
  "validate_stdio p d =
    rbind (check (valid_command (get_or d (lit ''command'') PNone)) (dot p (lit ''command''))
             ''must be a non-empty string or argument list'') (\<lambda>_.
    rbind (check (case get d (lit ''args'') of None \<Rightarrow> True
             | Some v \<Rightarrow> (case v of PList xs \<Rightarrow> list_all plain_str xs | _ \<Rightarrow> False))
             (dot p (lit ''args'')) ''must be a list of strings'') (\<lambda>_.
    check (case get d (lit ''cwd'') of None \<Rightarrow> True | Some v \<Rightarrow> filled_str v)
      (dot p (lit ''cwd'')) ''must be a non-empty string''))"

definition validate_env_map :: "pystr \<Rightarrow> pystr \<Rightarrow> table \<Rightarrow> unit checked" where
  "validate_env_map p fld d =
    check (case get d fld of None \<Rightarrow> True
        | Some v \<Rightarrow> (case v of
            PDict m \<Rightarrow> list_all (\<lambda>(k, x). k \<noteq> [] \<and> no_nul k \<and> filled_str x) m | _ \<Rightarrow> False))
      (dot p fld) ''must map names to non-empty environment variable names''"

definition validate_server :: "conf_env \<Rightarrow> pystr \<Rightarrow> pyval \<Rightarrow> unit checked" where
  "validate_server ev name v =
    (let p = dot mcp_path name in
     rbind (validate_name name) (\<lambda>_.
      case v of
        PDict d \<Rightarrow>
         (let http = (get d (lit ''url'') \<noteq> None); cmd = (get d (lit ''command'') \<noteq> None) in
          rbind (check (http \<noteq> cmd) p ''requires exactly one of command or url'') (\<lambda>_.
          rbind (check (known_fields (if http then [lit ''url'', lit ''headers_from'']
                   else [lit ''command'', lit ''args'', lit ''cwd'', lit ''env_from'']) d) p
                 ''unknown fields'') (\<lambda>_.
          rbind (if http then validate_http ev p d else validate_stdio p d) (\<lambda>_.
            validate_env_map p (if http then lit ''headers_from'' else lit ''env_from'') d))))
      | _ \<Rightarrow> fail p ''must be a table''))"

definition validate_servers :: "conf_env \<Rightarrow> pyval \<Rightarrow> table checked" where
  "validate_servers ev v =
    (case v of
       PDict d \<Rightarrow> rbind (check_all (validate_server ev) d) (\<lambda>_. Inr d)
     | _ \<Rightarrow> fail mcp_path ''must be a table'')"

section \<open>Numbers and simple sections\<close>

definition positive :: "pyval \<Rightarrow> pystr \<Rightarrow> int \<Rightarrow> int option \<Rightarrow> pyval checked" where
  "positive v p minimum maximum =
    (case v of
       PInt n \<Rightarrow>
         if n < minimum then fail p ''must be an integer >= minimum''
         else if (case maximum of None \<Rightarrow> False | Some m \<Rightarrow> m < n)
           then fail p ''must be an integer <= maximum''
         else Inr v
     | _ \<Rightarrow> fail p ''must be an integer >= minimum'')"

definition validate_wait_ms :: "pyval \<Rightarrow> pystr \<Rightarrow> pyval checked" where
  "validate_wait_ms v p = positive v p 0 (Some max_wait_ms)"

definition limits_path :: pystr where "limits_path = lit ''limits''"

definition limit_item :: "pystr \<Rightarrow> pyval \<Rightarrow> pyval checked" where
  "limit_item k v =
    (if get default_limits k = None then Inr v
     else if k \<in> {lit ''execute_wait_ms'', lit ''poll_wait_ms''} then validate_wait_ms v (dot limits_path k)
     else positive v (dot limits_path k)
       (if k \<in> {lit ''output_bytes'', lit ''response_bytes'', lit ''cache_bytes''} then 1024 else 1)
       (if k = lit ''response_bytes'' then Some max_response_bytes else None))"

definition int_below :: "table \<Rightarrow> pystr \<Rightarrow> int \<Rightarrow> bool" where
  "int_below d k n = (case get d k of Some v \<Rightarrow> (case v of PInt m \<Rightarrow> m < n | _ \<Rightarrow> False) | None \<Rightarrow> False)"

definition validate_limits :: "pyval \<Rightarrow> table checked" where
  "validate_limits v =
    (case v of
       PNone \<Rightarrow> Inr default_limits
     | PDict d \<Rightarrow>
         rbind (put_all limit_item d default_limits) (\<lambda>r.
           if int_below r (lit ''response_bytes'') 1024 \<or> int_below r (lit ''output_bytes'') 1024
           then fail limits_path ''output_bytes and response_bytes must be at least 1024''
           else Inr r)
     | _ \<Rightarrow> fail limits_path ''must be a table'')"

definition storage_path :: pystr where "storage_path = lit ''storage''"

definition is_bool :: "pyval \<Rightarrow> bool" where
  "is_bool v = (case v of PBool _ \<Rightarrow> True | _ \<Rightarrow> False)"

definition storage_item :: "pystr \<Rightarrow> pyval \<Rightarrow> pyval checked" where
  "storage_item k v =
    (if k = lit ''enabled'' then
       (if is_bool v then Inr v else fail (dot storage_path k) ''must be a boolean'')
     else if get default_storage k \<noteq> None then positive v (dot storage_path k) 1 None
     else Inr v)"

definition validate_storage :: "pyval \<Rightarrow> table checked" where
  "validate_storage v =
    (case v of
       PNone \<Rightarrow> Inr default_storage
     | PDict d \<Rightarrow> put_all storage_item d default_storage
     | _ \<Rightarrow> fail storage_path ''must be a table'')"

definition dependencies_path :: pystr where "dependencies_path = lit ''dependencies''"

definition valid_cache_dir :: "pyval \<Rightarrow> bool" where
  "valid_cache_dir v = (case v of
      PStr s \<Rightarrow> s \<noteq> [] \<and> no_nul s \<and> (s = lit ''~'' \<or> starts_with (lit ''~/'') s \<or> starts_with (lit ''/'') s)
    | _ \<Rightarrow> False)"

definition dependency_item :: "pystr \<Rightarrow> pyval \<Rightarrow> pyval checked" where
  "dependency_item k v =
    (if k = lit ''auto_install'' then
       (if is_bool v then Inr v else fail (dot dependencies_path k) ''must be a boolean'')
     else if k = lit ''uv_cache_dir'' then
       (if valid_cache_dir v then Inr v else fail (dot dependencies_path k)
          ''must be an absolute path, ~, or a path beginning with ~/'')
     else if k = lit ''uv_link_mode'' then
       (if (case v of PStr s \<Rightarrow> s \<in> set link_modes | _ \<Rightarrow> False) then Inr v
        else fail (dot dependencies_path k) ''must be one of clone, hardlink, or copy'')
     else Inr v)"

definition validate_dependencies :: "pyval \<Rightarrow> table checked" where
  "validate_dependencies v =
    (case v of
       PNone \<Rightarrow> Inr default_dependencies
     | PDict d \<Rightarrow> put_all dependency_item d default_dependencies
     | _ \<Rightarrow> fail dependencies_path ''must be a table'')"

section \<open>Language servers\<close>

definition lsp_name_char :: "nat \<Rightarrow> bool" where
  "lsp_name_char c = (is_letter c \<or> is_ascii_digit c \<or> c \<in> {95, 46, 45})"

text \<open>\<open>_NAME\<close> and \<open>_LANGUAGE_ID\<close>.\<close>

definition valid_lsp_name :: "pystr \<Rightarrow> bool" where
  "valid_lsp_name s = (case s of [] \<Rightarrow> False
    | c # r \<Rightarrow> (is_letter c \<or> is_ascii_digit c) \<and> length r \<le> 63 \<and> list_all lsp_name_char r)"

definition valid_language_id :: "pystr \<Rightarrow> bool" where
  "valid_language_id s = (s \<noteq> [] \<and> length s \<le> 64 \<and> list_all (\<lambda>c. lsp_name_char c \<or> c = 43) s)"

definition valid_command_arg :: "pyval \<Rightarrow> bool" where
  "valid_command_arg v = (case v of PStr s \<Rightarrow> s \<noteq> [] \<and> no_nul s \<and> length s \<le> 4096 | _ \<Rightarrow> False)"

definition keep_first :: "'a list \<Rightarrow> 'a list" where
  "keep_first xs = rev (remdups (rev xs))"

definition items_of :: "pyval \<Rightarrow> pyval list" where
  "items_of v = (case v of PList xs \<Rightarrow> xs | _ \<Rightarrow> [])"

definition validate_configuration :: "pyval \<Rightarrow> pyval \<Rightarrow> string + pyval list \<times> pyval list" where
  "validate_configuration command languages =
    (let cs = items_of command; ls = items_of languages in
     if cs = [] \<or> 64 < length cs then Inl ''command must be a non-empty list of at most 64 strings''
     else if \<not> list_all valid_command_arg cs then
       Inl ''command arguments must be non-empty strings of at most 4096 characters''
     else if ls = [] then Inl ''languages must be a non-empty list of language IDs''
     else if 64 < length ls then Inl ''languages must be a non-empty list of at most 64 language IDs''
     else if \<not> list_all (\<lambda>v. case v of PStr s \<Rightarrow> valid_language_id s | _ \<Rightarrow> False) ls then
       Inl ''language IDs must be 1-64 letters, numbers, dots, underscores, pluses, or dashes''
     else Inr (cs, keep_first ls))"

definition number_between :: "pyval \<Rightarrow> int \<Rightarrow> int \<Rightarrow> bool" where
  "number_between v a b = (case v of
      PInt n \<Rightarrow> a \<le> n \<and> n \<le> b
    | PFloat x \<Rightarrow> num_le (Finite a 0) x \<and> num_le x (Finite b 0)
    | _ \<Rightarrow> False)"

definition to_float :: "pyval \<Rightarrow> pyval" where
  "to_float v = (case v of PInt n \<Rightarrow> PFloat (Finite n 0) | _ \<Rightarrow> v)"

definition validate_lsp_server :: "pystr \<Rightarrow> pyval \<Rightarrow> string + pyval" where
  "validate_lsp_server name v =
    (if \<not> valid_lsp_name name then Inl ''LSP server names must contain 1..64 characters''
     else case v of
       PDict d \<Rightarrow>
         if \<not> known_fields [lit ''command'', lit ''languages'', lit ''timeout''] d then
           Inl ''Unknown LSP configuration fields''
         else rbind (validate_configuration (get_or d (lit ''command'') PNone) (get_or d (lit ''languages'') PNone))
           (\<lambda>(cs, ls).
             let timeout = get_or d (lit ''timeout'') (PFloat (Finite 10 0)) in
             if \<not> number_between timeout 1 60 then
               Inl ''LSP server timeout must be between 1 and 60 seconds''
             else Inr (PDict [(lit ''command'', PList cs), (lit ''languages'', PList ls),
                              (lit ''timeout'', to_float timeout)]))
     | _ \<Rightarrow> Inl ''LSP server must be a table'')"

definition validate_lsp_servers :: "pyval \<Rightarrow> string + table" where
  "validate_lsp_servers v =
    (case v of
       PNone \<Rightarrow> Inr []
     | PDict d \<Rightarrow> rfold (\<lambda>(k, x) r. rbind (validate_lsp_server k x) (\<lambda>y. Inr (put k y r))) d []
     | _ \<Rightarrow> Inl ''lsp.servers must be a table'')"

definition lsp_checked :: "pystr \<Rightarrow> (string + 'a) \<Rightarrow> 'a checked" where
  "lsp_checked p r = (case r of Inl m \<Rightarrow> fail p m | Inr x \<Rightarrow> Inr x)"

definition validate_lsp :: "pyval \<Rightarrow> table checked" where
  "validate_lsp v =
    (case v of
       PNone \<Rightarrow> Inr [(lit ''servers'', PDict [])]
     | PDict d \<Rightarrow>
         rbind (lsp_checked (lit ''lsp.servers'') (validate_lsp_servers (get_or d (lit ''servers'') (PDict []))))
           (\<lambda>s. Inr (put (lit ''servers'') (PDict s) d))
     | _ \<Rightarrow> fail (lit ''lsp'') ''must be a table'')"

section \<open>Mail\<close>

definition mail_text :: "pyval \<Rightarrow> pystr \<Rightarrow> nat \<Rightarrow> pystr checked" where
  "mail_text v p maximum =
    (case v of
       PStr s \<Rightarrow>
         if \<not> not_blank s \<or> \<not> one_line s then fail p ''must be a non-empty string''
         else if length s > maximum then fail p ''must contain at most maximum characters''
         else Inr s
     | _ \<Rightarrow> fail p ''must be a non-empty string'')"

definition env_name :: "pystr \<Rightarrow> bool" where
  "env_name s = (case s of [] \<Rightarrow> False
    | c # r \<Rightarrow> (is_letter c \<or> c = 95) \<and> list_all (\<lambda>x. is_letter x \<or> is_ascii_digit x \<or> x = 95) r)"

definition mail_env_name :: "pyval \<Rightarrow> pystr \<Rightarrow> pystr checked" where
  "mail_env_name v p =
    rbind (mail_text v p 256) (\<lambda>s.
      if env_name s then Inr s else fail p ''must be a valid environment variable name'')"

definition mail_port :: "pyval \<Rightarrow> pystr \<Rightarrow> int \<Rightarrow> int checked" where
  "mail_port v p dflt =
    (case v of
       PNone \<Rightarrow> Inr dflt
     | PInt n \<Rightarrow> if 1 \<le> n \<and> n \<le> 65535 then Inr n
                else fail p ''must be an integer between 1 and 65535''
     | _ \<Rightarrow> fail p ''must be an integer between 1 and 65535'')"

datatype endpoint_kind = Imap | Smtp

definition default_port :: "endpoint_kind \<Rightarrow> pystr \<Rightarrow> int" where
  "default_port kind security =
    (case kind of
       Imap \<Rightarrow> if security = lit ''ssl'' then 993 else 143
     | Smtp \<Rightarrow> if security = lit ''ssl'' then 465 else if security = lit ''starttls'' then 587 else 25)"

definition endpoint_credentials :: "pystr \<Rightarrow> endpoint_kind \<Rightarrow> table \<Rightarrow> table \<Rightarrow> table checked" where
  "endpoint_credentials p kind d r =
    (let username = get_or d (lit ''username'') PNone; password = get_or d (lit ''password_from'') PNone;
         both = rbind (mail_text username (dot p (lit ''username'')) 320) (\<lambda>u.
                rbind (if kind = Smtp \<and> password = PNone
                       then fail (dot p (lit ''password_from'')) ''is required when username is configured''
                       else mail_env_name password (dot p (lit ''password_from''))) (\<lambda>pw.
                  Inr (put (lit ''password_from'') (PStr pw) (put (lit ''username'') (PStr u) r))))
     in if kind = Imap \<or> username \<noteq> PNone then both
        else if password \<noteq> PNone then
          fail (dot p (lit ''password_from'')) ''requires a username for SMTP authentication''
        else Inr r)"

definition validate_mail_endpoint :: "pyval \<Rightarrow> pystr \<Rightarrow> endpoint_kind \<Rightarrow> table checked" where
  "validate_mail_endpoint v p kind =
    (case v of
       PDict d \<Rightarrow>
        rbind (check (known_fields mail_endpoint_fields d) p ''unknown fields'') (\<lambda>_.
        rbind (mail_text (get_or d (lit ''host'') PNone) (dot p (lit ''host'')) 253) (\<lambda>host.
        rbind (case get_or d (lit ''security'') (PStr (lit ''ssl'')) of
                 PStr s \<Rightarrow> if s \<in> set mail_security then Inr s
                   else fail (dot p (lit ''security'')) ''must be one of ssl, starttls, or plain''
               | _ \<Rightarrow> fail (dot p (lit ''security'')) ''must be one of ssl, starttls, or plain'') (\<lambda>sec.
        rbind (mail_port (get_or d (lit ''port'') PNone) (dot p (lit ''port'')) (default_port kind sec)) (\<lambda>port.
        rbind (endpoint_credentials p kind d
                 [(lit ''host'', PStr host), (lit ''port'', PInt port), (lit ''security'', PStr sec)]) (\<lambda>r.
          case get d (lit ''ca_file'') of
            None \<Rightarrow> Inr r
          | Some f \<Rightarrow> rbind (mail_text f (dot p (lit ''ca_file'')) 4096)
              (\<lambda>s. Inr (put (lit ''ca_file'') (PStr s) r)))))))
     | _ \<Rightarrow> fail p ''must be a table'')"

definition valid_address :: "pystr \<Rightarrow> bool" where
  "valid_address a = (a \<noteq> [] \<and> 64 \<in> set a \<and> \<not> list_ex is_space a)"

definition validate_mail_account :: "conf_env \<Rightarrow> pyval \<Rightarrow> pystr \<Rightarrow> pyval checked" where
  "validate_mail_account ev v p =
    (case v of
       PDict d \<Rightarrow>
        rbind (check (known_fields mail_account_fields d) p ''unknown fields'') (\<lambda>_.
        rbind (mail_text (get_or d (lit ''from'') PNone) (dot p (lit ''from'')) 320) (\<lambda>sender.
        rbind (check (valid_address (parse_addr ev sender)) (dot p (lit ''from''))
                 ''must contain a valid email address'') (\<lambda>_.
        rbind (check (get d (lit ''imap'') \<noteq> None) (dot p (lit ''imap'')) ''is required'') (\<lambda>_.
        rbind (check (get d (lit ''smtp'') \<noteq> None) (dot p (lit ''smtp'')) ''is required'') (\<lambda>_.
        rbind (validate_mail_endpoint (get_or d (lit ''imap'') PNone) (dot p (lit ''imap'')) Imap) (\<lambda>imap.
        rbind (validate_mail_endpoint (get_or d (lit ''smtp'') PNone) (dot p (lit ''smtp'')) Smtp) (\<lambda>smtp.
        let r = [(lit ''from'', PStr sender), (lit ''imap'', PDict imap), (lit ''smtp'', PDict smtp)] in
          case get d (lit ''sent_mailbox'') of
            None \<Rightarrow> Inr (PDict r)
          | Some f \<Rightarrow> rbind (mail_text f (dot p (lit ''sent_mailbox'')) 255)
              (\<lambda>s. Inr (PDict (put (lit ''sent_mailbox'') (PStr s) r))))))))))
     | _ \<Rightarrow> fail p ''must be a table'')"

definition validate_mail_name :: "pystr \<Rightarrow> pystr \<Rightarrow> unit checked" where
  "validate_mail_name n p =
    check (not_blank n \<and> length n \<le> 128 \<and> one_line n) p ''must contain 1..128 characters''"

definition mail_accounts_path :: pystr where "mail_accounts_path = lit ''mail.accounts''"

definition validate_mail_accounts :: "conf_env \<Rightarrow> pyval \<Rightarrow> pystr \<Rightarrow> bool \<Rightarrow> table checked" where
  "validate_mail_accounts ev v p norm =
    (case v of
       PDict d \<Rightarrow>
         put_all (\<lambda>name x. rbind (validate_mail_name name p) (\<lambda>_.
           if server_tombstone x then Inr tombstone_value
           else rbind (validate_mail_account ev x (dot p name)) (\<lambda>y. Inr (if norm then y else x)))) d []
     | _ \<Rightarrow> fail p ''must be a table'')"

definition mail_path :: pystr where "mail_path = lit ''mail''"

definition validate_mail_layer :: "conf_env \<Rightarrow> pyval \<Rightarrow> table checked" where
  "validate_mail_layer ev v =
    (case v of
       PNone \<Rightarrow> Inr []
     | PDict d \<Rightarrow>
        rbind (check (known_fields [lit ''default_account'', lit ''accounts''] d) mail_path ''unknown fields'') (\<lambda>_.
        rbind (check (case get d (lit ''default_account'') of None \<Rightarrow> True
                 | Some x \<Rightarrow> (case x of PStr s \<Rightarrow> length s \<le> 128 \<and> one_line s | _ \<Rightarrow> False))
                 (lit ''mail.default_account'') ''must be an account name or empty'') (\<lambda>_.
          case get d (lit ''accounts'') of
            None \<Rightarrow> Inr d
          | Some a \<Rightarrow> rbind (validate_mail_accounts ev a mail_accounts_path False)
              (\<lambda>r. Inr (put (lit ''accounts'') (PDict r) d))))
     | _ \<Rightarrow> fail mail_path ''must be a table'')"

text \<open>\<open>d.get("enabled", True) is False\<close>.\<close>

definition disabled :: "pyval \<Rightarrow> bool" where
  "disabled v = (case v of PDict d \<Rightarrow> get d (lit ''enabled'') = Some (PBool False) | _ \<Rightarrow> False)"

definition validate_mail_config :: "conf_env \<Rightarrow> pyval \<Rightarrow> table checked" where
  "validate_mail_config ev v =
    (if v = PNone then Inr default_mail
     else rbind (validate_mail_layer ev v) (\<lambda>layer.
       let r0 = (case get layer (lit ''default_account'') of
                   None \<Rightarrow> default_mail | Some x \<Rightarrow> put (lit ''default_account'') x default_mail) in
       rbind (case get layer (lit ''accounts'') of
                None \<Rightarrow> Inr r0
              | Some a \<Rightarrow> rbind (validate_mail_accounts ev a mail_accounts_path True)
                  (\<lambda>acc. Inr (put (lit ''accounts'') (PDict acc) r0))) (\<lambda>r.
         case get_or r (lit ''default_account'') PNone of
           PStr s \<Rightarrow>
             if s \<noteq> [] \<and> (case get (table_of (get_or r (lit ''accounts'') PNone)) s of
                  None \<Rightarrow> True | Some x \<Rightarrow> disabled x)
             then Inr (put (lit ''default_account'') (PStr []) r) else Inr r
         | _ \<Rightarrow> Inr r)))"

section \<open>Web search\<close>

definition validate_web_provider_name :: "pystr \<Rightarrow> pystr \<Rightarrow> unit checked" where
  "validate_web_provider_name n p = check (n \<in> set web_provider_names) p ''must be one of kagi, brave, or tavily''"

definition web_providers_path :: pystr where "web_providers_path = lit ''web.providers''"

definition validate_web_providers :: "pyval \<Rightarrow> pystr \<Rightarrow> bool \<Rightarrow> table checked" where
  "validate_web_providers v p norm =
    (case v of
       PDict d \<Rightarrow>
         put_all (\<lambda>name x.
           let pp = dot p name in
           rbind (validate_web_provider_name name pp) (\<lambda>_.
            if server_tombstone x then Inr tombstone_value
            else case x of
              PDict def \<Rightarrow>
                rbind (check (known_fields [lit ''api_key_env''] def) pp ''unknown fields'') (\<lambda>_.
                 case get def (lit ''api_key_env'') of
                   None \<Rightarrow> fail (dot pp (lit ''api_key_env'')) ''is required''
                 | Some k \<Rightarrow> rbind (mail_env_name k (dot pp (lit ''api_key_env''))) (\<lambda>s.
                     Inr (if norm then PDict [(lit ''api_key_env'', PStr s)] else x)))
            | _ \<Rightarrow> fail pp ''must be a table'')) d []
     | _ \<Rightarrow> fail p ''must be a table'')"

definition web_path :: pystr where "web_path = lit ''web''"

definition validate_web_layer :: "pyval \<Rightarrow> table checked" where
  "validate_web_layer v =
    (case v of
       PNone \<Rightarrow> Inr []
     | PDict d \<Rightarrow>
        rbind (check (known_fields web_fields d) web_path ''unknown fields'') (\<lambda>_.
        rbind (check (case get d (lit ''default_provider'') of None \<Rightarrow> True
                 | Some x \<Rightarrow> (case x of PStr s \<Rightarrow> s = [] \<or> s \<in> set web_provider_names | _ \<Rightarrow> False))
                 (lit ''web.default_provider'') ''must be empty or one of kagi, brave, or tavily'') (\<lambda>_.
        rbind (check (case get d (lit ''timeout_seconds'') of None \<Rightarrow> True | Some x \<Rightarrow> number_between x 1 120)
                 (lit ''web.timeout_seconds'') ''must be a finite number between 1 and 120'') (\<lambda>_.
        rbind (check (case get d (lit ''max_concurrency'') of None \<Rightarrow> True
                 | Some x \<Rightarrow> (case x of PInt n \<Rightarrow> 1 \<le> n \<and> n \<le> 32 | _ \<Rightarrow> False))
                 (lit ''web.max_concurrency'') ''must be an integer between 1 and 32'') (\<lambda>_.
          case get d (lit ''providers'') of
            None \<Rightarrow> Inr d
          | Some a \<Rightarrow> rbind (validate_web_providers a web_providers_path False)
              (\<lambda>r. Inr (put (lit ''providers'') (PDict r) d))))))
     | _ \<Rightarrow> fail web_path ''must be a table'')"

text \<open>Copying the keys that are present.\<close>

definition copy_keys :: "pystr list \<Rightarrow> table \<Rightarrow> table \<Rightarrow> table" where
  "copy_keys ks d r = foldl (\<lambda>r k. case get d k of None \<Rightarrow> r | Some v \<Rightarrow> put k v r) r ks"

definition validate_web_config :: "pyval \<Rightarrow> table checked" where
  "validate_web_config v =
    rbind (validate_web_layer v) (\<lambda>layer.
    let r0 = copy_keys [lit ''default_provider'', lit ''timeout_seconds'', lit ''max_concurrency''] layer default_web in
    rbind (case get layer (lit ''providers'') of
             None \<Rightarrow> Inr r0
           | Some a \<Rightarrow> rbind (validate_web_providers a web_providers_path True)
               (\<lambda>ps. Inr (put (lit ''providers'') (PDict ps) r0))) (\<lambda>r.
      case get_or r (lit ''default_provider'') PNone of
        PStr s \<Rightarrow>
          if s \<noteq> [] \<and> (case get (table_of (get_or r (lit ''providers'') PNone)) s of
               None \<Rightarrow> True | Some x \<Rightarrow> server_tombstone x)
          then fail (lit ''web.default_provider'') ''must refer to an active configured provider''
          else Inr r
      | _ \<Rightarrow> Inr r))"

section \<open>The effective configuration\<close>

definition version_ok :: "pyval \<Rightarrow> bool" where
  "version_ok v = (case v of PInt n \<Rightarrow> 1 \<le> n \<and> n \<le> config_version | _ \<Rightarrow> False)"

text \<open>One section: replaced by what its validator returns.\<close>

definition section_step :: "string \<Rightarrow> (pyval \<Rightarrow> table checked) \<Rightarrow> table \<Rightarrow> table checked" where
  "section_step s f r = rbind (f (get_or r (lit s) PNone)) (\<lambda>t. Inr (put (lit s) (PDict t) r))"

definition validate_mcp :: "conf_env \<Rightarrow> pyval \<Rightarrow> table checked" where
  "validate_mcp ev v =
    (case v of
       PNone \<Rightarrow> Inr [(lit ''servers'', PDict [])]
     | PDict d \<Rightarrow> rbind (validate_servers ev (get_or d (lit ''servers'') (PDict [])))
         (\<lambda>s. Inr (put (lit ''servers'') (PDict s) d))
     | _ \<Rightarrow> fail (lit ''mcp'') ''must be a table'')"

definition validate_config :: "conf_env \<Rightarrow> pyval \<Rightarrow> table checked" where
  "validate_config ev v =
    (case v of
       PDict d \<Rightarrow>
        (let version = get_or d (lit ''version'') (PInt config_version) in
         rbind (check (version_ok version) (lit ''version'') ''must be an integer between 1 and 1'') (\<lambda>_.
         rbind (section_step ''limits'' validate_limits (put (lit ''version'') version d)) (\<lambda>r.
         rbind (section_step ''storage'' validate_storage r) (\<lambda>r.
         rbind (section_step ''dependencies'' validate_dependencies r) (\<lambda>r.
         rbind (section_step ''lsp'' validate_lsp r) (\<lambda>r.
         rbind (section_step ''mail'' (validate_mail_config ev) r) (\<lambda>r.
         rbind (section_step ''web'' validate_web_config r) (\<lambda>r.
           section_step ''mcp'' (validate_mcp ev) r))))))))
     | _ \<Rightarrow> fail [] ''configuration must be a table'')"

section \<open>One layer\<close>

definition validate_server_layer :: "conf_env \<Rightarrow> pystr \<Rightarrow> pyval \<Rightarrow> unit checked" where
  "validate_server_layer ev sec v =
    (let p = dot sec (lit ''servers'') in
     case v of
       PDict d \<Rightarrow>
        rbind (rfold (\<lambda>(name, x) active.
            case x of
              PDict def \<Rightarrow>
                if get def (lit ''enabled'') \<noteq> None then
                  (if \<not> py_eq x tombstone_value then
                     fail (dot p name) ''enabled=false is only valid as a server tombstone''
                   else if sec = lit ''mcp'' then
                     (case validate_name name of Inl _ \<Rightarrow> fail p ''invalid server name'' | Inr _ \<Rightarrow> Inr active)
                   else if valid_lsp_name name then Inr active else fail p ''invalid server name'')
                else Inr (put name x active)
            | _ \<Rightarrow> Inr (put name x active)) d []) (\<lambda>active.
          if sec = lit ''mcp'' then
            (case validate_servers ev (PDict active) of Inl _ \<Rightarrow> fail p ''invalid server'' | Inr _ \<Rightarrow> Inr ())
          else rbind (lsp_checked p (validate_lsp_servers (PDict active))) (\<lambda>_. Inr ()))
     | _ \<Rightarrow> fail p ''must be a table'')"

text \<open>A section of a layer that may be missing and must be a table.\<close>

definition layer_section :: "table \<Rightarrow> string \<Rightarrow> (table \<Rightarrow> unit checked) \<Rightarrow> unit checked" where
  "layer_section d s f =
    (case get_or d (lit s) PNone of
       PNone \<Rightarrow> Inr ()
     | PDict t \<Rightarrow> f t
     | _ \<Rightarrow> fail (lit s) ''must be a table'')"

definition servers_section :: "conf_env \<Rightarrow> string \<Rightarrow> table \<Rightarrow> unit checked" where
  "servers_section ev s t =
    (case get_or t (lit ''servers'') PNone of
       PNone \<Rightarrow> Inr () | v \<Rightarrow> validate_server_layer ev (lit s) v)"

definition validate_layer :: "conf_env \<Rightarrow> pyval \<Rightarrow> pystr \<Rightarrow> table checked" where
  "validate_layer ev v p =
    (case v of
       PDict d \<Rightarrow>
        rbind (check (case get d (lit ''version'') of None \<Rightarrow> True | Some x \<Rightarrow> version_ok x)
                 (lit ''version'') ''must be an integer between 1 and 1'') (\<lambda>_.
        rbind (layer_section d ''limits'' (check_all (\<lambda>k x. rbind (limit_item k x) (\<lambda>_. Inr ())))) (\<lambda>_.
        rbind (layer_section d ''storage'' (check_all (\<lambda>k x. rbind (storage_item k x) (\<lambda>_. Inr ())))) (\<lambda>_.
        rbind (layer_section d ''dependencies'' (\<lambda>t. rbind (validate_dependencies (PDict t)) (\<lambda>_. Inr ()))) (\<lambda>_.
        rbind (layer_section d ''mcp'' (servers_section ev ''mcp'')) (\<lambda>_.
        rbind (layer_section d ''lsp'' (servers_section ev ''lsp'')) (\<lambda>_.
        rbind (case get d (lit ''mail'') of None \<Rightarrow> Inr () | Some x \<Rightarrow> rbind (validate_mail_layer ev x) (\<lambda>_. Inr ())) (\<lambda>_.
        rbind (case get d (lit ''web'') of None \<Rightarrow> Inr () | Some x \<Rightarrow> rbind (validate_web_layer x) (\<lambda>_. Inr ())) (\<lambda>_.
          Inr d))))))))
     | _ \<Rightarrow> fail p ''configuration must be a table'')"

end
