(* ===== verification/Config_Layers.thy ===== *)
theory Config_Layers
  imports Config_Validate Utf8 "HOL-Library.List_Lexorder"
begin

text \<open>
  The two configuration layers of config.py: merging, dotted paths, the public view, \<open>get\<close> and
  \<open>explain\<close>, and every way of changing a layer.  The TOML library is a parameter: \<open>toml_parse\<close>
  gives the unwrapped document (none for a parse error) and \<open>toml_dumps\<close> prints one.
\<close>

record toml =
  toml_parse :: "pystr \<Rightarrow> pyval option"
  toml_dumps :: "table \<Rightarrow> pystr"
  sha256 :: "bytes \<Rightarrow> pystr"

section \<open>Merging\<close>

function merge_value :: "pyval \<Rightarrow> pyval \<Rightarrow> pyval"
  and merge_items :: "table \<Rightarrow> table \<Rightarrow> table" where
  "merge_value l r =
    (case (l, r) of
       (PDict a, PDict b) \<Rightarrow> PDict (merge_items a b)
     | _ \<Rightarrow> if r = PNone then l else r)"
| "merge_items m [] = m"
| "merge_items m ((k, v) # rest) =
    merge_items
      (put k (case get m k of
                Some w \<Rightarrow> if is_table w \<and> is_table v then merge_value w v else v
              | None \<Rightarrow> v) m)
      rest"
  by pat_completeness auto
termination
  by (relation "measure (\<lambda>x. case x of Inl (l, r) \<Rightarrow> 2 * size r
        | Inr (m, r) \<Rightarrow> 2 * size_list (size_prod (\<lambda>_. 0) size) r + 1)")
    (auto split: pyval.splits)

declare merge_value.simps [simp del]

text \<open>\<open>_merge_servers\<close> and \<open>_merge_named\<close>: complete replacements with tombstones.\<close>

definition merge_named_step :: "pystr \<times> pyval \<Rightarrow> table \<Rightarrow> table" where
  "merge_named_step = (\<lambda>(name, x) r. if disabled x then del name r else put name x r)"

definition merge_source :: "string \<Rightarrow> pyval \<Rightarrow> table \<Rightarrow> table checked" where
  "merge_source m v r =
    (case v of
       PNone \<Rightarrow> Inr r
     | PDict d \<Rightarrow> Inr (fold merge_named_step d r)
     | _ \<Rightarrow> fail [] m)"

definition merge_named :: "string \<Rightarrow> pyval \<Rightarrow> pyval \<Rightarrow> table checked" where
  "merge_named m g w = rbind (merge_source m g []) (merge_source m w)"

definition field_of :: "pyval \<Rightarrow> pystr \<Rightarrow> pyval" where
  "field_of v k = (case v of PDict d \<Rightarrow> get_or d k PNone | _ \<Rightarrow> PNone)"

definition has_field :: "pyval \<Rightarrow> pystr \<Rightarrow> bool" where
  "has_field v k = (case v of PDict d \<Rightarrow> get d k \<noteq> None | _ \<Rightarrow> False)"

text \<open>One section with a map of named definitions.\<close>

definition merge_section ::
  "string \<Rightarrow> pystr \<Rightarrow> string \<Rightarrow> table \<Rightarrow> table \<Rightarrow> table \<Rightarrow> table checked" where
  "merge_section sec fld m g w merged =
    (let gs = get_or g (lit sec) (PDict []); ws = get_or w (lit sec) (PDict []);
         value = table_of (get_or merged (lit sec) (PDict [])) in
     if has_field gs fld \<or> has_field ws fld then
       rbind (merge_named m (field_of gs fld) (field_of ws fld)) (\<lambda>r.
         Inr (put (lit sec) (PDict (put fld (PDict r) value)) merged))
     else Inr (put (lit sec) (PDict value) merged))"

definition merge_server_section :: "string \<Rightarrow> table \<Rightarrow> table \<Rightarrow> table \<Rightarrow> table checked" where
  "merge_server_section sec g w merged =
    (if \<not> is_table (get_or g (lit sec) (PDict [])) \<and> \<not> is_table (get_or w (lit sec) (PDict []))
     then Inr merged
     else merge_section sec (lit ''servers'') ''servers must be a table'' g w merged)"

definition merge_layers :: "table \<Rightarrow> table \<Rightarrow> table checked" where
  "merge_layers g w =
    rbind (merge_server_section ''mcp'' g w (merge_items g w)) (\<lambda>r.
    rbind (merge_server_section ''lsp'' g w r) (\<lambda>r.
    rbind (merge_section ''mail'' (lit ''accounts'') ''accounts must be a table'' g w r) (\<lambda>r.
      merge_section ''web'' (lit ''providers'') ''accounts must be a table'' g w r)))"

section \<open>Dotted paths\<close>

definition managed_sections :: "pystr list" where
  "managed_sections = [lit ''limits'', lit ''storage'', lit ''mcp'', lit ''lsp'', lit ''mail'', lit ''web'',
     lit ''dependencies'']"

definition server_sections :: "pystr list" where
  "server_sections = [lit ''mcp'', lit ''lsp'']"

definition bad_path :: "'a checked" where
  "bad_path = fail (lit ''path'') ''must be a TOML dotted key''"

fun path_parts :: "pyval \<Rightarrow> pystr list checked" where
  "path_parts (PDict [(k, v)]) =
    (if k = [] \<or> 128 < length k then fail (lit ''path'') ''must contain non-empty key parts''
     else case v of
         PDict _ \<Rightarrow> rbind (path_parts v) (\<lambda>ps. Inr (k # ps))
       | _ \<Rightarrow> if py_eq v (PInt 0) then Inr [k] else bad_path)"
| "path_parts _ = bad_path"

definition parse_path :: "toml \<Rightarrow> pystr \<Rightarrow> pystr list checked" where
  "parse_path tm p =
    (if p = [] \<or> 512 < length p \<or> list_ex (\<lambda>c. c < 32) p then bad_path
     else case toml_parse tm (p @ lit '' = 0'' @ [10]) of
         None \<Rightarrow> bad_path
       | Some v \<Rightarrow>
           rbind (path_parts v) (\<lambda>ps.
             if 16 < length ps then bad_path
             else if hd ps \<notin> set managed_sections then
               fail p ''only managed configuration sections are supported''
             else Inr ps))"

definition joined :: "pystr list \<Rightarrow> pystr" where
  "joined ps = join_with [of_char CHR ''.''] ps"

definition unknown_field :: "pystr list \<Rightarrow> unit checked" where
  "unknown_field ps = fail (joined ps) ''unknown managed configuration field''"

definition section_fields :: "pystr \<Rightarrow> pystr list" where
  "section_fields s =
    (if s = lit ''limits'' then map fst default_limits
     else if s = lit ''storage'' then map fst default_storage
     else [lit ''auto_install'', lit ''uv_cache_dir'', lit ''uv_link_mode''])"

definition validate_public_path :: "pystr list \<Rightarrow> unit checked" where
  "validate_public_path ps =
    (let s = hd ps; n = length ps; second = (if 2 \<le> n then ps ! 1 else []) in
     if n = 1 \<and> s \<in> set managed_sections then Inr ()
     else if s \<in> {lit ''limits'', lit ''storage'', lit ''dependencies''} then
       (if 2 < n \<or> n = 2 \<and> second \<notin> set (section_fields s) then unknown_field ps else Inr ())
     else if s \<in> set server_sections \<and> 2 \<le> n \<and> second = lit ''servers'' then Inr ()
     else if s = lit ''mail'' \<and> (n = 2 \<and> second \<in> {lit ''default_account'', lit ''accounts''}
         \<or> n = 3 \<and> second = lit ''accounts'') then Inr ()
     else if s = lit ''web'' \<and> n = 2 \<and> second \<in> set web_fields then Inr ()
     else if s = lit ''web'' \<and> n = 3 \<and> second = lit ''providers'' then
       validate_web_provider_name (ps ! 2) (joined ps)
     else unknown_field ps)"

fun lookup_path :: "pyval \<Rightarrow> pystr list \<Rightarrow> pyval option" where
  "lookup_path v [] = Some v"
| "lookup_path v (p # ps) =
    (case v of
       PDict d \<Rightarrow> (case get d p of None \<Rightarrow> None | Some w \<Rightarrow> lookup_path w ps)
     | _ \<Rightarrow> None)"

section \<open>Reading\<close>

definition pick_keys :: "pystr list \<Rightarrow> table \<Rightarrow> table" where
  "pick_keys ks d = concat (map (\<lambda>k. case get d k of None \<Rightarrow> [] | Some v \<Rightarrow> [(k, v)]) ks)"

definition public_section :: "pystr \<Rightarrow> table \<Rightarrow> table" where
  "public_section s d =
    (if s \<in> {lit ''limits'', lit ''storage'', lit ''dependencies''} then pick_keys (section_fields s) d
     else if s \<in> set server_sections then [(lit ''servers'', get_or d (lit ''servers'') (PDict []))]
     else if s = lit ''mail'' then
       [(lit ''default_account'', get_or d (lit ''default_account'') (PStr [])),
        (lit ''accounts'', get_or d (lit ''accounts'') (PDict []))]
     else
       [(lit ''default_provider'', get_or d (lit ''default_provider'') (PStr [])),
        (lit ''timeout_seconds'', get_or d (lit ''timeout_seconds'') (PInt 30)),
        (lit ''max_concurrency'', get_or d (lit ''max_concurrency'') (PInt 4)),
        (lit ''providers'', get_or d (lit ''providers'') (PDict []))])"

definition public_values :: "table \<Rightarrow> table" where
  "public_values v =
    concat (map (\<lambda>s. case get v s of
        Some (PDict d) \<Rightarrow> [(s, PDict (public_section s d))] | _ \<Rightarrow> [])
      [lit ''limits'', lit ''storage'', lit ''dependencies'', lit ''mcp'', lit ''lsp'', lit ''mail'', lit ''web''])"

record snapshot =
  sn_values :: table
  sn_global :: table
  sn_workspace :: table
  sn_revisions :: "pystr option \<times> pystr option"

datatype scope = Global | Workspace | Default

datatype read_scope = Effective | Layer scope

definition layer_of :: "snapshot \<Rightarrow> scope \<Rightarrow> table" where
  "layer_of sn s = (case s of Global \<Rightarrow> sn_global sn | Workspace \<Rightarrow> sn_workspace sn | Default \<Rightarrow> [])"

definition config_get :: "toml \<Rightarrow> snapshot \<Rightarrow> pystr option \<Rightarrow> read_scope \<Rightarrow> pyval checked" where
  "config_get tm sn path sc =
    (let values = (case sc of Effective \<Rightarrow> sn_values sn | Layer s \<Rightarrow> layer_of sn s) in
     case path of
       None \<Rightarrow> Inr (PDict (public_values values))
     | Some p \<Rightarrow>
         rbind (parse_path tm p) (\<lambda>ps. rbind (validate_public_path ps) (\<lambda>_.
           Inr (case lookup_path (PDict (public_values values)) ps of None \<Rightarrow> PNone | Some v \<Rightarrow> v))))"

definition or_none :: "pyval option \<Rightarrow> pyval" where
  "or_none v = (case v of None \<Rightarrow> PNone | Some x \<Rightarrow> x)"

text \<open>The first scope whose layer has the path.\<close>

definition first_scope :: "(scope \<Rightarrow> table) \<Rightarrow> pystr list \<Rightarrow> (scope \<times> pyval) option" where
  "first_scope layer ps =
    (case lookup_path (PDict (layer Workspace)) ps of
       Some v \<Rightarrow> Some (Workspace, v)
     | None \<Rightarrow> (case lookup_path (PDict (layer Global)) ps of
         Some v \<Rightarrow> Some (Global, v) | None \<Rightarrow> None))"

text \<open>\<open>explain\<close>: the value and the scope it comes from.\<close>

definition explain_parts :: "snapshot \<Rightarrow> pystr list \<Rightarrow> pyval \<times> scope" where
  "explain_parts sn ps =
    (let found = lookup_path (PDict (public_values (sn_values sn))) ps;
         server = (hd ps \<in> set server_sections \<and> 3 \<le> length ps);
         by_server = (if server then first_scope (layer_of sn) (take 3 ps) else None);
         by_layer = first_scope (\<lambda>s. public_values (layer_of sn s)) ps in
     case by_server of
       Some (s, def) \<Rightarrow> (if server_tombstone def then PNone else or_none found, s)
     | None \<Rightarrow>
        (case found of
           Some v \<Rightarrow>
            (case by_layer of
               None \<Rightarrow> (v, Default)
             | Some (s, lv) \<Rightarrow> (if server then (if server_tombstone lv then PNone else lv) else v, s))
         | None \<Rightarrow>
            (case by_layer of
               None \<Rightarrow> (PNone, Default)
             | Some (s, lv) \<Rightarrow> (if server_tombstone lv then PNone else lv, s))))"

definition explain :: "toml \<Rightarrow> snapshot \<Rightarrow> pystr \<Rightarrow> (pyval \<times> scope) checked" where
  "explain tm sn path =
    rbind (parse_path tm path) (\<lambda>ps. rbind (validate_public_path ps) (\<lambda>_. Inr (explain_parts sn ps)))"

section \<open>Editing a document\<close>

fun set_document :: "table \<Rightarrow> pystr list \<Rightarrow> pyval \<Rightarrow> table checked" where
  "set_document d [] v = Inl (Callee ''empty path'')"
| "set_document d [k] v = Inr (put k v d)"
| "set_document d (k # j # ps) v =
    (case get d k of
       None \<Rightarrow> rbind (set_document [] (j # ps) v) (\<lambda>c. Inr (put k (PDict c) d))
     | Some (PDict c) \<Rightarrow> rbind (set_document c (j # ps) v) (\<lambda>c'. Inr (put k (PDict c') d))
     | Some _ \<Rightarrow> fail (joined (k # j # ps)) ''must be a table'')"

text \<open>\<open>None\<close> stands for the answer \<open>False\<close>: nothing was removed.\<close>

fun unset_document :: "table \<Rightarrow> pystr list \<Rightarrow> table option" where
  "unset_document d [] = None"
| "unset_document d [k] = (if get d k = None then None else Some (del k d))"
| "unset_document d (k # j # ps) =
    (case get d k of
       Some (PDict c) \<Rightarrow> map_option (\<lambda>c'. put k (PDict c') d) (unset_document c (j # ps))
     | _ \<Rightarrow> None)"

definition or_same :: "table \<Rightarrow> table option \<Rightarrow> table" where
  "or_same d r = (case r of None \<Rightarrow> d | Some d' \<Rightarrow> d')"

section \<open>Changes\<close>

text \<open>A change takes the document and the two layers; \<open>None\<close> is the answer \<open>False\<close>.\<close>

type_synonym doc_change = "table \<Rightarrow> table \<Rightarrow> table \<Rightarrow> table option checked"

definition set_change :: "pystr list \<Rightarrow> pyval \<Rightarrow> doc_change" where
  "set_change ps v d g w = rbind (set_document d ps v) (\<lambda>d'. Inr (Some d'))"

definition unset_change :: "pystr list \<Rightarrow> doc_change" where
  "unset_change ps d g w = Inr (unset_document d ps)"

text \<open>\<open>layers[...].get(section, {}).get(field, {})\<close>, a table or nothing.\<close>

definition named_in :: "table \<Rightarrow> pystr \<Rightarrow> pystr \<Rightarrow> table" where
  "named_in layer sec fld = table_of (field_of (get_or layer sec (PDict [])) fld)"

text \<open>Removing one server or account: a tombstone when it is inherited.\<close>

definition remove_named :: "bool \<Rightarrow> pystr \<Rightarrow> pystr \<Rightarrow> pystr \<Rightarrow> pystr list \<Rightarrow> doc_change" where
  "remove_named global_only sec fld name ps d g w =
    (if global_only then Inr (unset_document d ps)
     else case get (named_in g sec fld) name of
         Some inherited \<Rightarrow>
           if server_tombstone inherited then Inr (unset_document d ps)
           else rbind (set_document d ps tombstone_value) (\<lambda>d'. Inr (Some d'))
       | None \<Rightarrow> Inr (unset_document d ps))"

definition is_stone :: "pyval option \<Rightarrow> bool" where
  "is_stone v = (case v of None \<Rightarrow> False | Some x \<Rightarrow> server_tombstone x)"

definition opt_eq :: "pyval option \<Rightarrow> pyval \<Rightarrow> bool" where
  "opt_eq v w = (case v of None \<Rightarrow> False | Some x \<Rightarrow> py_eq x w)"

text \<open>
  One name of \<open>save_servers\<close> in a workspace: \<open>norm\<close> validates and normalizes a definition.
\<close>

definition save_server_step ::
  "(pystr \<Rightarrow> pyval \<Rightarrow> pyval checked) \<Rightarrow> pystr \<Rightarrow> table \<Rightarrow> table \<Rightarrow> table \<Rightarrow> pystr \<Rightarrow> table \<Rightarrow> table checked" where
  "save_server_step norm sec desired g w name d =
    (let ps = [sec, lit ''servers'', name]; inherited = get g name; current = get w name in
     case get desired name of
       None \<Rightarrow>
         if inherited \<noteq> None \<and> \<not> is_stone inherited then
           (if \<not> is_stone current then set_document d ps tombstone_value else Inr d)
         else Inr (or_same d (unset_document d ps))
     | Some wanted \<Rightarrow>
        (case (current, is_stone current) of
           (Some c, False) \<Rightarrow>
             rbind (norm name c) (\<lambda>eff. if py_eq eff wanted then Inr d else set_document d ps wanted)
         | _ \<Rightarrow>
            (case (inherited, is_stone inherited) of
               (Some i, False) \<Rightarrow>
                 rbind (norm name i) (\<lambda>eff.
                   if py_eq eff wanted then Inr (or_same d (unset_document d ps))
                   else set_document d ps wanted)
             | _ \<Rightarrow> if opt_eq inherited wanted then Inr (or_same d (unset_document d ps))
                    else set_document d ps wanted)))"

definition sorted_names :: "table list \<Rightarrow> pystr list" where
  "sorted_names ts = sort (remdups (concat (map (map fst) ts)))"

definition save_servers_change ::
  "(pystr \<Rightarrow> pyval \<Rightarrow> pyval checked) \<Rightarrow> bool \<Rightarrow> pystr \<Rightarrow> table \<Rightarrow> doc_change" where
  "save_servers_change norm global_only sec desired d g w =
    (let gs = named_in g sec (lit ''servers''); ws = named_in w sec (lit ''servers'') in
     rbind
      (if global_only then
         rfold (\<lambda>name d. case get desired name of
             Some x \<Rightarrow> set_document d [sec, lit ''servers'', name] x
           | None \<Rightarrow> Inr (or_same d (unset_document d [sec, lit ''servers'', name])))
           (sorted_names [desired, gs]) d
       else rfold (save_server_step norm sec desired gs ws) (sorted_names [desired, gs, ws]) d)
      (\<lambda>d'. Inr (Some d')))"

definition save_account_step ::
  "conf_env \<Rightarrow> bool \<Rightarrow> table \<Rightarrow> table \<Rightarrow> table \<Rightarrow> pystr \<Rightarrow> table \<Rightarrow> table checked" where
  "save_account_step ev global_only desired g w name d =
    (let ps = [lit ''mail'', lit ''accounts'', name]; inherited = get g name; current = get w name;
         p = dot mail_accounts_path name;
         wanted = (if is_stone (get desired name) then None else get desired name) in
     case wanted of
       None \<Rightarrow>
         if \<not> global_only \<and> inherited \<noteq> None \<and> \<not> is_stone inherited then
           (if \<not> is_stone current then set_document d ps tombstone_value else Inr d)
         else Inr (or_same d (unset_document d ps))
     | Some want \<Rightarrow>
        (case (global_only, current, is_stone current) of
           (False, Some c, False) \<Rightarrow>
             rbind (validate_mail_account ev c p) (\<lambda>eff.
               if py_eq eff want then Inr d else set_document d ps want)
         | _ \<Rightarrow>
            (case (global_only, inherited, is_stone inherited) of
               (False, Some i, False) \<Rightarrow>
                 rbind (validate_mail_account ev i p) (\<lambda>eff.
                   if py_eq eff want then Inr (or_same d (unset_document d ps))
                   else set_document d ps want)
             | _ \<Rightarrow> if opt_eq inherited want then Inr (or_same d (unset_document d ps))
                    else set_document d ps want)))"

definition save_accounts_change :: "conf_env \<Rightarrow> bool \<Rightarrow> table \<Rightarrow> doc_change" where
  "save_accounts_change ev global_only desired d g w =
    (let gs = named_in g (lit ''mail'') (lit ''accounts''); ws = named_in w (lit ''mail'') (lit ''accounts'') in
     rbind (rfold (save_account_step ev global_only desired gs ws) (sorted_names [desired, gs, ws]) d)
       (\<lambda>d'. Inr (Some d')))"

section \<open>The store\<close>

definition quote_key :: "pystr \<Rightarrow> pystr checked" where
  "quote_key s =
    (if s \<noteq> [] \<and> list_all (\<lambda>c. is_letter c \<or> is_ascii_digit c \<or> c \<in> {95, 45}) s then Inr s
     else if list_ex (\<lambda>c. c < 32) s then
       fail mail_accounts_path ''configuration name contains a control character''
     else Inr ([34] @ concat (map (\<lambda>c. if c = 92 then [92, 92] else if c = 34 then [92, 34] else [c]) s) @ [34]))"

type_synonym raw = "bytes option"

definition decode_text :: "bytes \<Rightarrow> pystr option" where
  "decode_text b = (case utf8_decode b of Inl _ \<Rightarrow> None | Inr s \<Rightarrow> Some s)"

definition parse_table :: "toml \<Rightarrow> raw \<Rightarrow> pystr \<Rightarrow> pyval checked" where
  "parse_table tm r p =
    (case r of
       None \<Rightarrow> Inr (PDict [])
     | Some b \<Rightarrow>
        if b = [] then Inr (PDict [])
        else case decode_text b of
            None \<Rightarrow> fail p ''invalid TOML''
          | Some s \<Rightarrow> (case toml_parse tm s of None \<Rightarrow> fail p ''invalid TOML'' | Some v \<Rightarrow> Inr v))"

definition parse_layer :: "conf_env \<Rightarrow> toml \<Rightarrow> raw \<Rightarrow> pystr \<Rightarrow> table checked" where
  "parse_layer ev tm r p =
    (if r = None \<or> r = Some [] then Inr []
     else rbind (parse_table tm r p) (\<lambda>v. validate_layer ev v p))"

record store =
  st_global_path :: pystr
  st_workspace_path :: "pystr option"
  st_global :: raw
  st_workspace :: raw

definition revision :: "toml \<Rightarrow> raw \<Rightarrow> pystr option" where
  "revision tm r = map_option (sha256 tm) r"

text \<open>\<open>_composite_revision\<close>.\<close>

definition composite_revision :: "pystr option \<times> pystr option \<Rightarrow> pystr" where
  "composite_revision rs =
    (let show = (\<lambda>r. case r of Some s \<Rightarrow> if s = [] then lit ''-'' else s | None \<Rightarrow> lit ''-'') in
     lit ''global='' @ show (fst rs) @ lit '';workspace='' @ show (snd rs))"

definition store_snapshot :: "conf_env \<Rightarrow> toml \<Rightarrow> store \<Rightarrow> snapshot checked" where
  "store_snapshot ev tm st =
    rbind (parse_layer ev tm (st_global st) (st_global_path st)) (\<lambda>g.
    rbind (case st_workspace_path st of
             None \<Rightarrow> Inr [] | Some p \<Rightarrow> parse_layer ev tm (st_workspace st) p) (\<lambda>w.
    rbind (merge_layers g w) (\<lambda>merged.
    rbind (validate_config ev (PDict merged)) (\<lambda>v.
      Inr \<lparr>sn_values = v, sn_global = g, sn_workspace = w,
            sn_revisions = (revision tm (st_global st), revision tm (st_workspace st))\<rparr>))))"

definition max_config_bytes :: int where "max_config_bytes = 16777216"

text \<open>
  \<open>_mutate\<close> under its locks.  \<open>reread\<close> are the two files when they are read again before
  the write.
\<close>

definition mutate ::
  "conf_env \<Rightarrow> toml \<Rightarrow> pystr \<Rightarrow> scope \<Rightarrow> pystr option \<Rightarrow> doc_change \<Rightarrow> raw \<times> raw \<Rightarrow> store
     \<Rightarrow> (snapshot \<times> store) checked" where
  "mutate ev tm path sc expected change reread st =
    (if sc = Default then fail (lit ''scope'') ''writes require global or workspace scope''
     else if sc = Workspace \<and> st_workspace_path st = None then
       fail (lit ''scope'') ''workspace scope is unavailable in global-only mode''
     else
       rbind (store_snapshot ev tm st) (\<lambda>current.
       if expected \<noteq> None \<and> expected \<noteq> Some (composite_revision (sn_revisions current)) then Inl Changed
       else
         let original = (if sc = Global then st_global st else st_workspace st);
             target = (if sc = Global then st_global_path st
                       else case st_workspace_path st of None \<Rightarrow> [] | Some p \<Rightarrow> p) in
         rbind (parse_table tm original path) (\<lambda>doc.
         rbind (change (table_of doc) (sn_global current) (sn_workspace current)) (\<lambda>r.
           case r of
             None \<Rightarrow> Inr (current, st)
           | Some d \<Rightarrow>
              (case utf8_encode (toml_dumps tm d) of
                 Inl _ \<Rightarrow> fail path ''invalid configuration''
               | Inr data \<Rightarrow>
                  if int (length data) > max_config_bytes then
                    fail path ''configuration file exceeds the size limit''
                  else
                    rbind (parse_layer ev tm (Some data) target) (\<lambda>_.
                    let st' = (if sc = Global then st\<lparr>st_global := Some data\<rparr>
                               else st\<lparr>st_workspace := Some data\<rparr>) in
                    rbind (store_snapshot ev tm st') (\<lambda>updated.
                      if fst reread \<noteq> st_global st
                        \<or> st_workspace_path st \<noteq> None \<and> snd reread \<noteq> st_workspace st then Inl Changed
                      else Inr (updated, st'))))))))"

definition whole_definition :: "pystr list \<Rightarrow> pystr \<Rightarrow> string \<Rightarrow> string \<Rightarrow> unit checked" where
  "whole_definition ps path server_message web_message =
    (if hd ps \<in> set server_sections \<and> 3 < length ps then fail path server_message
     else if hd ps = lit ''web'' \<and> 4 \<le> length ps then fail path web_message
     else Inr ())"

definition config_set ::
  "conf_env \<Rightarrow> toml \<Rightarrow> pystr \<Rightarrow> pyval \<Rightarrow> scope \<Rightarrow> pystr option \<Rightarrow> raw \<times> raw \<Rightarrow> store \<Rightarrow> (snapshot \<times> store) checked" where
  "config_set ev tm path v sc expected reread st =
    rbind (parse_path tm path) (\<lambda>ps. rbind (validate_public_path ps) (\<lambda>_.
      if v = PNone then fail path ''use unset() to remove a value''
      else rbind (whole_definition ps path ''server definitions must be replaced as a whole''
             ''web provider definitions must be replaced as a whole'') (\<lambda>_.
        mutate ev tm path sc expected (set_change ps v) reread st)))"

definition config_unset ::
  "conf_env \<Rightarrow> toml \<Rightarrow> pystr \<Rightarrow> scope \<Rightarrow> pystr option \<Rightarrow> raw \<times> raw \<Rightarrow> store \<Rightarrow> (snapshot \<times> store) checked" where
  "config_unset ev tm path sc expected reread st =
    rbind (parse_path tm path) (\<lambda>ps. rbind (validate_public_path ps) (\<lambda>_.
      rbind (whole_definition ps path ''server definitions must be removed as a whole''
             ''web provider definitions must be removed as a whole'') (\<lambda>_.
        mutate ev tm path sc expected (unset_change ps) reread st)))"

definition write_scope :: "store \<Rightarrow> scope" where
  "write_scope st = (if st_workspace_path st = None then Global else Workspace)"

definition save_server ::
  "conf_env \<Rightarrow> toml \<Rightarrow> pystr \<Rightarrow> pystr \<Rightarrow> pyval option \<Rightarrow> pystr option \<Rightarrow> raw \<times> raw \<Rightarrow> store \<Rightarrow> (snapshot \<times> store) checked" where
  "save_server ev tm sec name def expected reread st =
    (if sec \<notin> set server_sections \<or> name = [] then fail (dot sec (lit ''servers'')) ''invalid server target''
     else rbind (quote_key name) (\<lambda>q.
       let path = dot (dot sec (lit ''servers'')) q in
       case def of
         None \<Rightarrow> rbind (parse_path tm path) (\<lambda>ps.
           mutate ev tm path (write_scope st) expected
             (remove_named (st_workspace_path st = None) sec (lit ''servers'') name ps) reread st)
       | Some v \<Rightarrow>
           if \<not> is_table v then fail path ''server definition must be a table''
           else config_set ev tm path v (write_scope st) expected reread st))"

text \<open>The validator of one section, and one definition normalized by it.\<close>

definition section_validator :: "conf_env \<Rightarrow> pystr \<Rightarrow> pyval \<Rightarrow> table checked" where
  "section_validator ev sec v =
    (if sec = lit ''mcp'' then validate_servers ev v
     else case validate_lsp_servers v of Inl m \<Rightarrow> Inl (Callee m) | Inr t \<Rightarrow> Inr t)"

definition normalized_server :: "conf_env \<Rightarrow> pystr \<Rightarrow> pystr \<Rightarrow> pyval \<Rightarrow> pyval checked" where
  "normalized_server ev sec name v =
    rbind (section_validator ev sec (PDict [(name, v)])) (\<lambda>t. Inr (get_or t name PNone))"

definition save_servers ::
  "conf_env \<Rightarrow> toml \<Rightarrow> pystr \<Rightarrow> pyval \<Rightarrow> pystr option \<Rightarrow> raw \<times> raw \<Rightarrow> store \<Rightarrow> (snapshot \<times> store) checked" where
  "save_servers ev tm sec defs expected reread st =
    (if sec \<notin> set server_sections \<or> \<not> is_table defs then
       fail (dot sec (lit ''servers'')) ''invalid server definitions''
     else rbind (section_validator ev sec defs) (\<lambda>desired.
       mutate ev tm (dot sec (lit ''servers'')) (write_scope st) expected
         (save_servers_change (normalized_server ev sec) (st_workspace_path st = None) sec desired) reread st))"

definition save_mail_account ::
  "conf_env \<Rightarrow> toml \<Rightarrow> pystr \<Rightarrow> pyval option \<Rightarrow> pystr option \<Rightarrow> raw \<times> raw \<Rightarrow> store \<Rightarrow> (snapshot \<times> store) checked" where
  "save_mail_account ev tm name def expected reread st =
    rbind (validate_mail_name name mail_accounts_path) (\<lambda>_. rbind (quote_key name) (\<lambda>q.
      let path = dot mail_accounts_path q in
      case def of
        Some v \<Rightarrow>
          if \<not> is_table v then fail path ''mail account definition must be a table''
          else if server_tombstone v then
            config_set ev tm path tombstone_value (write_scope st) expected reread st
          else rbind (validate_mail_account ev v path) (\<lambda>x.
            config_set ev tm path x (write_scope st) expected reread st)
      | None \<Rightarrow> rbind (parse_path tm path) (\<lambda>ps.
          mutate ev tm path (write_scope st) expected
            (remove_named (st_workspace_path st = None) (lit ''mail'') (lit ''accounts'') name ps) reread st)))"

definition save_mail_accounts ::
  "conf_env \<Rightarrow> toml \<Rightarrow> pyval \<Rightarrow> pystr option \<Rightarrow> raw \<times> raw \<Rightarrow> store \<Rightarrow> (snapshot \<times> store) checked" where
  "save_mail_accounts ev tm defs expected reread st =
    rbind (validate_mail_accounts ev defs mail_accounts_path True) (\<lambda>desired.
      mutate ev tm mail_accounts_path (write_scope st) expected
        (save_accounts_change ev (st_workspace_path st = None) desired) reread st)"

end
