(* ===== verification/Config_Proofs.thy ===== *)
theory Config_Proofs
  imports Config_Layers
begin

text \<open>
  What the configuration promises: the effective values are within their bounds and refer to existing
  entries, a path that is set reads back and nothing else moves, the merge gives the workspace
  precedence over the global layer with tombstones, saving a whole map of servers or accounts makes
  exactly that map effective, and a saved configuration always loads.
\<close>

section \<open>Paths in a document\<close>

definition comparable :: "'a list \<Rightarrow> 'a list \<Rightarrow> bool" where
  "comparable xs ys \<longleftrightarrow> (\<exists>r. ys = xs @ r) \<or> (\<exists>r. xs = ys @ r)"

lemma comparable_simps [simp]:
  "comparable [] ys" "comparable xs []" "comparable (x # xs) (y # ys) \<longleftrightarrow> x = y \<and> comparable xs ys"
  by (auto simp: comparable_def)

lemma lookup_path_PDict [simp]:
  "lookup_path (PDict d) (k # ks) = (case get d k of None \<Rightarrow> None | Some w \<Rightarrow> lookup_path w ks)"
  by simp

lemma set_document_lookup:
  "set_document d ps v = Inr d' \<Longrightarrow> lookup_path (PDict d') ps = Some v"
proof (induction d ps v arbitrary: d' rule: set_document.induct)
  case (3 d k j ps v)
  show ?case
  proof (cases "get d k")
    case None
    with 3(3) obtain c where c: "set_document [] (j # ps) v = Inr c" "d' = put k (PDict c) d"
      by (auto simp: result_simps)
    from 3(1) [OF None c(1)] c(2) show ?thesis by simp
  next
    case (Some w)
    with 3(3) obtain c c' where w: "w = PDict c" and c: "set_document c (j # ps) v = Inr c'"
      "d' = put k (PDict c') d" by (cases w) (auto simp: result_simps)
    from 3(2) [OF Some w c(1)] c(2) show ?thesis by simp
  qed
qed simp_all

lemma set_document_other:
  "set_document d ps v = Inr d' \<Longrightarrow> \<not> comparable qs ps \<Longrightarrow>
    lookup_path (PDict d') qs = lookup_path (PDict d) qs"
proof (induction d ps v arbitrary: d' qs rule: set_document.induct)
  case (1 d v)
  then show ?case by simp
next
  case (2 d k v)
  then show ?case by (cases qs) auto
next
  case (3 d k j ps v)
  obtain q qs' where qs: "qs = q # qs'" using 3(4) by (cases qs) auto
  show ?case
  proof (cases "q = k")
    case False
    with 3(3) qs show ?thesis by (auto simp: result_simps split: option.splits pyval.splits)
  next
    case True
    with 3(4) qs have nc: "\<not> comparable qs' (j # ps)" by simp
    then obtain b bs where b: "qs' = b # bs" by (cases qs') auto
    show ?thesis
    proof (cases "get d k")
      case None
      with 3(3) obtain c where c: "set_document [] (j # ps) v = Inr c" "d' = put k (PDict c) d"
        by (auto simp: result_simps)
      from 3(1) [OF None c(1) nc] show ?thesis using c(2) True qs b None by simp
    next
      case (Some w)
      with 3(3) obtain c c' where w: "w = PDict c" and c: "set_document c (j # ps) v = Inr c'"
        "d' = put k (PDict c') d" by (cases w) (auto simp: result_simps)
      from 3(2) [OF Some w c(1) nc] show ?thesis using c(2) True qs Some w by simp
    qed
  qed
qed

lemma unset_document_lookup:
  "unset_document d ps = Some d' \<Longrightarrow> lookup_path (PDict d') ps = None"
proof (induction d ps arbitrary: d' rule: unset_document.induct)
  case (3 d k j ps)
  from 3(2) obtain c c' where c: "get d k = Some (PDict c)" "unset_document c (j # ps) = Some c'"
    "d' = put k (PDict c') d" by (auto split: option.splits pyval.splits)
  from 3(1) [OF c(1) refl c(2)] c show ?case by simp
qed (auto split: if_splits)

lemma unset_document_other:
  "unset_document d ps = Some d' \<Longrightarrow> \<not> comparable qs ps \<Longrightarrow>
    lookup_path (PDict d') qs = lookup_path (PDict d) qs"
proof (induction d ps arbitrary: d' qs rule: unset_document.induct)
  case (1 d)
  then show ?case by simp
next
  case (2 d k)
  then show ?case by (cases qs) (auto split: if_splits)
next
  case (3 d k j ps)
  then obtain q qs' where qs: "qs = q # qs'" by (cases qs) auto
  from 3(2) obtain c c' where c: "get d k = Some (PDict c)" "unset_document c (j # ps) = Some c'"
    "d' = put k (PDict c') d" by (auto split: option.splits pyval.splits)
  show ?case
  proof (cases "q = k")
    case True
    with 3(3) qs have "\<not> comparable qs' (j # ps)" by simp
    from 3(1) [OF c(1) refl c(2) this] show ?thesis using c qs True by simp
  qed (use c qs in simp)
qed

lemma unset_document_None:
  "unset_document d ps = None \<Longrightarrow> ps \<noteq> [] \<Longrightarrow> lookup_path (PDict d) ps = None"
  by (induction d ps rule: unset_document.induct)
    (auto split: option.splits pyval.splits if_splits simp: neq_Nil_conv)

text \<open>
  C35: setting a path makes it read as the value, and changes no path that neither contains nor
  is contained in it.
\<close>

theorem config_set_reads_back:
  assumes "set_document d ps v = Inr d'"
  shows "lookup_path (PDict d') ps = Some v
    \<and> (\<forall>qs. comparable qs ps \<or> lookup_path (PDict d') qs = lookup_path (PDict d) qs)"
  using set_document_lookup [OF assms] set_document_other [OF assms] by blast

definition sample_table :: table where
  "sample_table = [(lit ''web'', PDict [(lit ''max_concurrency'', PInt 4)])]"

theorem config_set_reads_back_witness:
  "lookup_path (PDict (put (lit ''web'') (PDict (put (lit ''timeout_seconds'') (PInt 9)
       [(lit ''max_concurrency'', PInt 4)])) sample_table))
     [lit ''web'', lit ''timeout_seconds''] = Some (PInt 9)
   \<and> (\<forall>qs. comparable qs [lit ''web'', lit ''timeout_seconds'']
      \<or> lookup_path (PDict (put (lit ''web'') (PDict (put (lit ''timeout_seconds'') (PInt 9)
       [(lit ''max_concurrency'', PInt 4)])) sample_table)) qs = lookup_path (PDict sample_table) qs)"
  by (rule config_set_reads_back) (simp add: sample_table_def)

section \<open>The named maps of a document\<close>

lemma named_in_set:
  "set_document d [a, b, n] v = Inr d' \<Longrightarrow> named_in d' a b = put n v (named_in d a b)"
  by (auto simp: named_in_def field_of_def table_of_def get_or_def result_simps
      split: option.splits pyval.splits)

lemma named_in_unset:
  "named_in (or_same d (unset_document d [a, b, n])) a b = del n (named_in d a b)
   \<or> get (named_in d a b) n = None \<and> unset_document d [a, b, n] = None"
  by (auto simp: named_in_def field_of_def table_of_def get_or_def or_same_def
      split: option.splits pyval.splits)

definition keys_distinct :: "table \<Rightarrow> bool" where
  "keys_distinct d \<longleftrightarrow> distinct (map fst d)"

lemma keys_distinct_put [simp]: "keys_distinct d \<Longrightarrow> keys_distinct (put k v d)"
  by (simp add: keys_distinct_def put_def distinct_update)

lemma keys_distinct_del [simp]: "keys_distinct d \<Longrightarrow> keys_distinct (del k d)"
  by (simp add: keys_distinct_def del_def distinct_delete)

text \<open>What a step on one name may do to the map.\<close>

definition touches :: "pystr \<Rightarrow> pyval option \<Rightarrow> table \<Rightarrow> table \<Rightarrow> bool" where
  "touches n v t t' \<longleftrightarrow> (\<forall>k. get t' k = (if k = n then v else get t k))
     \<and> (keys_distinct t \<longrightarrow> keys_distinct t')"

lemma touches_set: "set_document d [a, b, n] v = Inr d' \<Longrightarrow> touches n (Some v) (named_in d a b) (named_in d' a b)"
  by (simp add: touches_def named_in_set)

lemma touches_unset: "touches n None (named_in d a b) (named_in (or_same d (unset_document d [a, b, n])) a b)"
  using named_in_unset [of d a b n] by (auto simp: touches_def or_same_def)

lemma touches_same: "get t n = v \<Longrightarrow> touches n v t t"
  by (simp add: touches_def)

text \<open>A loop over distinct names, each touching its own entry.\<close>

lemma fold_touches:
  assumes "rfold f ns d = Inr d'" and "distinct ns"
    and "\<And>n e e'. n \<in> set ns \<Longrightarrow> get (T e) n = get (T d) n \<Longrightarrow> f n e = Inr e' \<Longrightarrow>
      \<exists>v. touches n v (T e) (T e') \<and> P n v"
  shows "(\<forall>n \<in> set ns. P n (get (T d') n)) \<and> (\<forall>n. n \<notin> set ns \<longrightarrow> get (T d') n = get (T d) n)
     \<and> (keys_distinct (T d) \<longrightarrow> keys_distinct (T d'))"
  using assms
proof (induction ns arbitrary: d)
  case Nil
  then show ?case by simp
next
  case (Cons n ns)
  from Cons.prems(1) obtain e where e: "f n d = Inr e" "rfold f ns e = Inr d'"
    by (auto simp: result_simps)
  from Cons.prems(3) [OF _ _ e(1)] obtain v where v: "touches n v (T d) (T e)" "P n v" by auto
  have same: "get (T e) m = get (T d) m" if "m \<noteq> n" for m using v(1) that by (simp add: touches_def)
  have step: "\<exists>v. touches m v (T x) (T x') \<and> P m v"
    if m: "m \<in> set ns" "get (T x) m = get (T e) m" "f m x = Inr x'" for m x x'
  proof (rule Cons.prems(3) [OF _ _ m(3)])
    show "m \<in> set (n # ns)" using m(1) by simp
    have "m \<noteq> n" using m(1) Cons.prems(2) by auto
    then show "get (T x) m = get (T d) m" using m(2) same by simp
  qed
  have "distinct ns" using Cons.prems(2) by simp
  from Cons.IH [OF e(2) this step]
  have IH: "\<forall>m \<in> set ns. P m (get (T d') m)" "\<forall>m. m \<notin> set ns \<longrightarrow> get (T d') m = get (T e) m"
    "keys_distinct (T e) \<longrightarrow> keys_distinct (T d')" by blast+
  have "get (T d') n = v" using IH(2) Cons.prems(2) v(1) by (simp add: touches_def)
  then show ?case using IH v same by (auto simp: touches_def)
qed

section \<open>Merging named definitions\<close>

definition active :: "pyval option \<Rightarrow> pyval option" where
  "active v = (case v of Some x \<Rightarrow> if disabled x then None else Some x | None \<Rightarrow> None)"

lemma fold_merge_named_step:
  assumes "keys_distinct d"
  shows "get (fold merge_named_step d r) k = (if get d k = None then get r k else active (get d k))"
  using assms
proof (induction d arbitrary: r)
  case Nil
  then show ?case by simp
next
  case (Cons p d)
  obtain j v where p: "p = (j, v)" by (cases p)
  have j: "get d j = None"
    using Cons.prems p by (simp add: keys_distinct_def get_def map_of_eq_None_iff)
  have "keys_distinct d" using Cons.prems by (simp add: keys_distinct_def)
  from Cons.IH [OF this] j show ?case
    by (auto simp: p merge_named_step_def active_def)
qed

lemma merge_named_lookup:
  assumes "keys_distinct g" and "keys_distinct w"
  shows "\<exists>r. merge_named m (PDict g) (PDict w) = Inr r
    \<and> (\<forall>k. get r k = active (if get w k = None then get g k else get w k))"
  using assms by (auto simp: merge_named_def merge_source_def fold_merge_named_step active_def)

text \<open>
  C24: in the merged map a name has the workspace's definition if the workspace has the name, the
  global one otherwise, and is absent when the deciding layer has a tombstone for it.
\<close>

theorem merge_named_precedence:
  assumes "keys_distinct g" and "keys_distinct w"
  shows "\<exists>r. merge_named m (PDict g) (PDict w) = Inr r
    \<and> (\<forall>k. get r k = active (if get w k = None then get g k else get w k))"
  using assms by (rule merge_named_lookup)

theorem merge_named_precedence_witness:
  "\<exists>r. merge_named ''accounts must be a table'' (PDict [([97], PDict []), ([98], PDict [])]) (PDict [([97], tombstone_value)]) = Inr r
    \<and> (\<forall>k. get r k = active (if get [([97], tombstone_value)] k = None
         then get [([97], PDict []), ([98], PDict [])] k else get [([97], tombstone_value)] k))"
  by (rule merge_named_precedence) (simp_all add: keys_distinct_def)

section \<open>Saving a whole map\<close>

text \<open>Tombstones by value are tombstones by identity: no \<open>enabled = 0\<close>.\<close>

definition clean :: "table \<Rightarrow> bool" where
  "clean t \<longleftrightarrow> (\<forall>k x. get t k = Some x \<longrightarrow> (server_tombstone x \<longleftrightarrow> disabled x))"

lemma disabled_tombstone [simp]: "disabled tombstone_value"
  by (simp add: disabled_def tombstone_value_def)

text \<open>What a name reads as after the save, against what was wanted.\<close>

definition serves :: "(pystr \<Rightarrow> pyval \<Rightarrow> pyval checked) \<Rightarrow> pystr \<Rightarrow> pyval option \<Rightarrow> pyval option \<Rightarrow> bool" where
  "serves norm n want eff \<longleftrightarrow> (case want of
      None \<Rightarrow> eff = None
    | Some v \<Rightarrow> (\<exists>x. eff = Some x \<and> (x = v \<or> (\<exists>e. norm n x = Inr e \<and> py_eq e v))))"

definition wanted_ok :: "pyval option \<Rightarrow> bool" where
  "wanted_ok v \<longleftrightarrow> (case v of None \<Rightarrow> True | Some x \<Rightarrow> \<not> disabled x)"

lemma opt_eq_stone:
  "opt_eq v w \<Longrightarrow> is_stone v \<or> v = None \<Longrightarrow> \<exists>x. v = Some x \<and> server_tombstone x \<and> py_eq x w"
  by (auto simp: opt_eq_def is_stone_def split: option.splits)

lemma save_server_step_serves:
  assumes e: "save_server_step norm sec desired g w n d = Inr d'"
    and cur: "get (named_in d sec (lit ''servers'')) n = get w n"
    and clean: "clean g" "clean w" and want: "wanted_ok (get desired n)"
    and eq: "\<And>x v. get desired n = Some v \<Longrightarrow> server_tombstone x \<Longrightarrow> \<not> py_eq x v"
  shows "\<exists>v. touches n v (named_in d sec (lit ''servers'')) (named_in d' sec (lit ''servers''))
    \<and> serves norm n (get desired n) (active (if v = None then get g n else v))"
proof -
  let ?T = "\<lambda>d. named_in d sec (lit ''servers'')" and ?ps = "[sec, lit ''servers'', n]"
  have set: "touches n (Some v) (?T d) (?T d')" if "set_document d ?ps v = Inr d'" for v
    by (rule touches_set [OF that])
  have unset: "touches n None (?T d) (?T (or_same d (unset_document d ?ps)))" by (rule touches_unset)
  have stone_g: "is_stone (get g n) \<Longrightarrow> active (get g n) = None"
    and stone_w: "is_stone (get w n) \<Longrightarrow> active (get w n) = None \<and> get w n \<noteq> None"
    and live_g: "\<not> is_stone (get g n) \<Longrightarrow> active (get g n) = get g n"
    and live_w: "\<not> is_stone (get w n) \<Longrightarrow> active (get w n) = get w n"
    using clean by (auto simp: clean_def is_stone_def active_def split: option.splits)
  show ?thesis
  proof (cases "get desired n")
    case None
    show ?thesis
    proof (cases "get g n \<noteq> None \<and> \<not> is_stone (get g n)")
      case True
      show ?thesis
      proof (cases "is_stone (get w n)")
        case False
        with e None True have "set_document d ?ps tombstone_value = Inr d'"
          by (simp add: save_server_step_def Let_def)
        from set [OF this] None show ?thesis
          by (intro exI [of _ "Some tombstone_value"]) (simp add: serves_def active_def)
      next
        case stone: True
        with e None True have "d' = d" by (simp add: save_server_step_def Let_def)
        have "serves norm n (get desired n) (active (if get w n = None then get g n else get w n))"
          using stone_w [OF stone] None by (auto simp: serves_def)
        with touches_same [OF cur] \<open>d' = d\<close> show ?thesis by blast
      qed
    next
      case False
      with e None have "d' = or_same d (unset_document d ?ps)"
        by (auto simp: save_server_step_def Let_def)
      moreover have "active (get g n) = None"
        using False stone_g by (cases "get g n") (auto simp: active_def)
      ultimately show ?thesis
        using unset None by (intro exI [of _ None]) (simp add: serves_def)
    qed
  next
    case (Some v)
    have put: ?thesis if "set_document d ?ps v = Inr d'"
      using set [OF that] want Some
      by (intro exI [of _ "Some v"]) (simp add: serves_def active_def wanted_ok_def)
    show ?thesis
    proof (cases "get w n \<noteq> None \<and> \<not> is_stone (get w n)")
      case True
      then obtain c where c: "get w n = Some c" by auto
      with e Some True obtain eff where eff: "norm n c = Inr eff"
        and r: "(if py_eq eff v then Inr d else set_document d ?ps v) = Inr d'"
        by (auto simp: save_server_step_def Let_def result_simps simp del: lit_simps)
      show ?thesis
      proof (cases "py_eq eff v")
        case False
        with r put show ?thesis by simp
      next
        case eqv: True
        with r have "d' = d" by simp
        have "active (get w n) = Some c" using live_w True c by simp
        then have "serves norm n (get desired n) (active (if get w n = None then get g n else get w n))"
          using c eff eqv Some by (simp add: serves_def)
        with touches_same [OF cur] \<open>d' = d\<close> show ?thesis by blast
      qed
    next
      case nw: False
      show ?thesis
      proof (cases "get g n \<noteq> None \<and> \<not> is_stone (get g n)")
        case True
        then obtain i where i: "get g n = Some i" by auto
        with e Some True nw obtain eff where eff: "norm n i = Inr eff"
          and r: "(if py_eq eff v then Inr (or_same d (unset_document d ?ps)) else set_document d ?ps v) = Inr d'"
          by (auto simp: save_server_step_def Let_def result_simps simp del: lit_simps split: option.splits)
        show ?thesis
        proof (cases "py_eq eff v")
          case False
          with r put show ?thesis by simp
        next
          case eqv: True
          with r have "d' = or_same d (unset_document d ?ps)" by simp
          have "active (get g n) = Some i" using live_g True i by simp
          then have "serves norm n (get desired n) (active (get g n))"
            using eff eqv Some by (simp add: serves_def)
          with unset \<open>d' = _\<close> show ?thesis by (intro exI [of _ None]) simp
        qed
      next
        case ng: False
        have "\<not> opt_eq (get g n) v"
          using ng eq [OF Some] by (auto simp: opt_eq_def is_stone_def split: option.splits)
        with e Some nw ng have "set_document d ?ps v = Inr d'"
          by (auto simp: save_server_step_def Let_def split: bool.splits option.splits)
        then show ?thesis by (rule put)
      qed
    qed
  qed
qed

text \<open>Equality with a tombstone makes a tombstone.\<close>

lemma num_eq_zero: "num_eq x (Finite 0 0) \<Longrightarrow> num_eq x y \<Longrightarrow> num_eq y (Finite 0 0)"
  by (cases x; cases y) (auto simp: scaled_def)

lemma py_eq_False: "py_eq x (PBool False) \<longleftrightarrow> (\<exists>f. num_of x = Some f \<and> num_eq f (Finite 0 0))"
  by (subst py_eq.simps) (auto simp: num_of_def split: pyval.splits option.splits)

lemma py_eq_zero:
  assumes "py_eq x (PBool False)" and "py_eq x y"
  shows "py_eq y (PBool False)"
proof -
  from assms(1) obtain f where f: "num_of x = Some f" "num_eq f (Finite 0 0)" by (auto simp: py_eq_False)
  from assms(2) f(1) obtain h where "num_of y = Some h" "num_eq f h"
    by (subst (asm) py_eq.simps) (auto simp: num_of_def split: option.splits pyval.splits)
  with f(2) num_eq_zero show ?thesis by (auto simp: py_eq_False)
qed

lemma py_eq_dict: "py_eq (PDict d) v \<longleftrightarrow> (\<exists>d'. v = PDict d' \<and> length d = length d' \<and> dict_le d d')"
  by (subst py_eq.simps) (auto simp: num_of_def split: pyval.splits)

lemma server_tombstone_iff:
  "server_tombstone v \<longleftrightarrow> (\<exists>z. v = PDict [(lit ''enabled'', z)] \<and> py_eq z (PBool False))"
proof -
  have "py_eq (PDict d) tombstone_value \<longleftrightarrow> (\<exists>z. d = [(lit ''enabled'', z)] \<and> py_eq z (PBool False))" for d
    by (cases d) (auto simp: tombstone_value_def py_eq_dict simp del: lit_simps split: if_splits)
  then show ?thesis by (cases v) (auto simp: server_tombstone_def simp del: lit_simps)
qed

lemma tombstone_eq: "server_tombstone x \<Longrightarrow> py_eq x v \<Longrightarrow> server_tombstone v"
proof -
  assume "server_tombstone x" and eq: "py_eq x v"
  then obtain z where z: "x = PDict [(lit ''enabled'', z)]" "py_eq z (PBool False)"
    by (auto simp: server_tombstone_iff)
  with eq obtain d' where d': "v = PDict d'" "length d' = 1" "dict_le [(lit ''enabled'', z)] d'"
    by (auto simp: py_eq_dict simp del: lit_simps)
  from d'(2) obtain j y where y: "d' = [(j, y)]" by (cases d') auto
  with d'(3) have "j = lit ''enabled''" "py_eq z y" by (auto simp del: lit_simps split: if_splits)
  with py_eq_zero [OF z(2)] y d'(1) show ?thesis by (auto simp: server_tombstone_iff)
qed

text \<open>The definitions to save: none is disabled or a tombstone.\<close>

definition saveable :: "table \<Rightarrow> bool" where
  "saveable t \<longleftrightarrow> (\<forall>k x. get t k = Some x \<longrightarrow> \<not> disabled x \<and> \<not> server_tombstone x)"

lemma set_sorted_names: "set (sorted_names ts) = (\<Union>t \<in> set ts. fst ` set t)"
  by (auto simp: sorted_names_def)

lemma distinct_sorted_names [simp]: "distinct (sorted_names ts)"
  by (simp add: sorted_names_def)

lemma get_None_iff: "get t k = None \<longleftrightarrow> k \<notin> fst ` set t"
  by (auto simp: get_def map_of_eq_None_iff)

lemma serves_None [simp]: "serves norm n None None"
  by (simp add: serves_def)

text \<open>
  Shared by servers and accounts: a loop of steps over all names, each leaving the wanted entry.
\<close>

lemma save_loop_effective:
  assumes loop: "rfold step (sorted_names [desired, g, w]) d = Inr d'"
    and cur: "T d = w" and kd: "keys_distinct g" "keys_distinct w"
    and step: "\<And>n e e'. get (T e) n = get w n \<Longrightarrow> step n e = Inr e' \<Longrightarrow>
      \<exists>v. touches n v (T e) (T e') \<and> serves norm n (get desired n) (active (if v = None then get g n else v))"
  shows "\<exists>r. merge_named m (PDict g) (PDict (T d')) = Inr r
    \<and> (\<forall>n. serves norm n (get desired n) (get r n))"
proof -
  let ?ns = "sorted_names [desired, g, w]"
  let ?P = "\<lambda>n v. serves norm n (get desired n) (active (if v = None then get g n else v))"
  have st: "\<exists>v. touches n v (T e) (T e') \<and> ?P n v"
    if "n \<in> set ?ns" "get (T e) n = get (T d) n" "step n e = Inr e'" for n e e'
    using step [of e n e'] that cur by simp
  have f: "\<forall>n \<in> set ?ns. ?P n (get (T d') n)" "\<forall>n. n \<notin> set ?ns \<longrightarrow> get (T d') n = get (T d) n"
    "keys_distinct (T d) \<longrightarrow> keys_distinct (T d')"
    using fold_touches [where T = T and P = ?P, OF loop distinct_sorted_names st] by blast+
  have out: "?P n (get (T d') n)" if "n \<notin> set ?ns" for n
  proof -
    have none: "get desired n = None" "get g n = None" "get w n = None"
      using that by (auto simp: set_sorted_names get_None_iff)
    with f(2) that cur have "get (T d') n = None" by simp
    with none show ?thesis by (simp add: active_def)
  qed
  have "keys_distinct (T d')" using f(3) cur kd by simp
  from merge_named_lookup [OF kd(1) this, of m] obtain r where
    "merge_named m (PDict g) (PDict (T d')) = Inr r"
    "\<forall>k. get r k = active (if get (T d') k = None then get g k else get (T d') k)" by blast
  with f(1) out show ?thesis by (metis (no_types, lifting))
qed

text \<open>
  C25: after saving a map of servers in a workspace, the servers in force, merged from the global
  layer and the changed workspace document, are exactly the ones to save: no other name, and under
  each name the saved definition or one that normalizes to an equal one.
\<close>

theorem save_servers_effective:
  assumes "save_servers_change norm False sec desired d g w = Inr (Some d')"
    and "named_in d sec (lit ''servers'') = named_in w sec (lit ''servers'')"
    and "keys_distinct (named_in g sec (lit ''servers''))" and "keys_distinct (named_in w sec (lit ''servers''))"
    and "clean (named_in g sec (lit ''servers''))" and "clean (named_in w sec (lit ''servers''))"
    and "saveable desired"
  shows "\<exists>r. merge_named ''servers must be a table'' (PDict (named_in g sec (lit ''servers'')))
      (PDict (named_in d' sec (lit ''servers''))) = Inr r
    \<and> (\<forall>n. serves norm n (get desired n) (get r n))"
proof (rule save_loop_effective [where T = "\<lambda>d. named_in d sec (lit ''servers'')"])
  show "rfold (save_server_step norm sec desired (named_in g sec (lit ''servers''))
      (named_in w sec (lit ''servers''))) (sorted_names [desired, named_in g sec (lit ''servers''),
      named_in w sec (lit ''servers'')]) d = Inr d'"
    using assms(1) by (auto simp: save_servers_change_def Let_def result_simps simp del: lit_simps)
next
  fix n e e'
  assume cur: "get (named_in e sec (lit ''servers'')) n = get (named_in w sec (lit ''servers'')) n"
    and e: "save_server_step norm sec desired (named_in g sec (lit ''servers''))
      (named_in w sec (lit ''servers'')) n e = Inr e'"
  show "\<exists>v. touches n v (named_in e sec (lit ''servers'')) (named_in e' sec (lit ''servers''))
     \<and> serves norm n (get desired n) (active (if v = None then get (named_in g sec (lit ''servers'')) n else v))"
  proof (rule save_server_step_serves [OF e cur assms(5,6)])
    show "wanted_ok (get desired n)"
      using assms(7) by (auto simp: wanted_ok_def saveable_def split: option.split)
    show "\<not> py_eq x v" if "get desired n = Some v" "server_tombstone x" for x v
      using tombstone_eq assms(7) that by (auto simp: saveable_def)
  qed
qed (use assms in auto)

definition sample_servers :: "table \<Rightarrow> table" where
  "sample_servers t = [(lit ''mcp'', PDict [(lit ''servers'', PDict t)])]"

definition sample_server :: "pystr \<Rightarrow> pyval" where
  "sample_server c = PDict [(lit ''command'', PStr c)]"

text \<open>The global layer has \<open>a\<close>, the workspace has \<open>c\<close>, and \<open>b\<close> alone is saved.\<close>

lemma sample_save:
  "save_servers_change (\<lambda>_. Inr) False (lit ''mcp'') [([98], sample_server [1])]
     (sample_servers [([99], sample_server [2])]) (sample_servers [([97], sample_server [3])])
     (sample_servers [([99], sample_server [2])])
   = Inr (Some (sample_servers [([97], tombstone_value), ([98], sample_server [1])]))"
  by code_simp

theorem save_servers_effective_witness:
  "\<exists>r. merge_named ''servers must be a table'' (PDict (named_in (sample_servers [([97], sample_server [3])]) (lit ''mcp'') (lit ''servers'')))
      (PDict (named_in (sample_servers [([97], tombstone_value), ([98], sample_server [1])])
        (lit ''mcp'') (lit ''servers''))) = Inr r
    \<and> (\<forall>n. serves (\<lambda>_. Inr) n (get [([98], sample_server [1])] n) (get r n))"
  by (rule save_servers_effective [OF sample_save])
    (auto simp: sample_servers_def sample_server_def named_in_def field_of_def table_of_def get_or_def
      keys_distinct_def clean_def saveable_def disabled_def server_tombstone_iff split: if_splits)

end
