(* ===== verification/Config_Effective.thy ===== *)
theory Config_Effective
  imports Config_Proofs "HOL-Library.Code_Target_Nat"
begin

text \<open>
  The effective configuration: the values every component reads are within their bounds, the default
  account and provider exist, and a change that succeeds leaves a store that loads.
\<close>

lemma lit_inj [simp]: "lit s = lit t \<longleftrightarrow> s = t"
proof
  have "inj (of_char :: char \<Rightarrow> nat)" by (auto intro: injI)
  then have "inj (map (of_char :: char \<Rightarrow> nat))" by simp
  then show "lit s = lit t \<Longrightarrow> s = t" unfolding lit_def by (rule injD)
qed simp

section \<open>Bounds of the effective values\<close>

definition limit_low :: "pystr \<Rightarrow> int" where
  "limit_low k = (if k \<in> {lit ''execute_wait_ms'', lit ''poll_wait_ms''} then 0
     else if k \<in> {lit ''output_bytes'', lit ''response_bytes'', lit ''cache_bytes''} then 1024 else 1)"

definition limit_high :: "pystr \<Rightarrow> int option" where
  "limit_high k = (if k \<in> {lit ''execute_wait_ms'', lit ''poll_wait_ms''} then Some 30000
     else if k = lit ''response_bytes'' then Some 1048576 else None)"

definition limit_ok :: "pystr \<Rightarrow> pyval \<Rightarrow> bool" where
  "limit_ok k v = (case v of
      PInt n \<Rightarrow> limit_low k \<le> n \<and> (case limit_high k of None \<Rightarrow> True | Some m \<Rightarrow> n \<le> m)
    | _ \<Rightarrow> False)"

text \<open>A loop that stores checked values keeps the keys it starts with and only stores such values.\<close>

lemma put_all_keys: "put_all f d acc = Inr r \<Longrightarrow> get acc k \<noteq> None \<Longrightarrow> get r k \<noteq> None"
  by (induction d arbitrary: acc) (auto simp: result_simps)

lemma put_all_values:
  assumes "put_all f d acc = Inr r" and "\<And>k v. get acc k = Some v \<Longrightarrow> Q k v"
    and "\<And>k v w. f k v = Inr w \<Longrightarrow> Q k w"
  shows "get r k = Some v \<Longrightarrow> Q k v"
  using assms
proof (induction d arbitrary: acc)
  case Nil
  then show ?case by simp
next
  case (Cons p d)
  obtain j x where p: "p = (j, x)" by (cases p)
  with Cons.prems(2) obtain w where w: "f j x = Inr w" "put_all f d (put j w acc) = Inr r"
    by (auto simp: result_simps)
  show ?case
    by (rule Cons.IH [OF Cons.prems(1) w(2)]) (use Cons.prems w(1) in \<open>auto split: if_splits\<close>)
qed

lemma limit_item_ok:
  "limit_item k v = Inr w \<Longrightarrow> get default_limits k \<noteq> None \<Longrightarrow> limit_ok k w"
  by (auto simp: limit_item_def validate_wait_ms_def positive_def limit_ok_def limit_low_def
      limit_high_def max_wait_ms_def max_response_bytes_def simp del: lit_simps
      split: if_splits pyval.splits option.splits)

lemma default_limits_ok: "get default_limits k = Some v \<Longrightarrow> limit_ok k v"
  by (auto simp: default_limits_def limit_ok_def limit_low_def limit_high_def split: if_splits)

lemma validate_limits_ok:
  assumes "validate_limits v = Inr l" and "get default_limits k \<noteq> None"
  shows "\<exists>x. get l k = Some x \<and> limit_ok k x"
proof (cases v)
  case PNone
  with assms show ?thesis by (auto simp: validate_limits_def intro: default_limits_ok)
next
  case (PDict d)
  with assms(1) have p: "put_all limit_item d default_limits = Inr l"
    by (auto simp: validate_limits_def result_simps simp del: lit_simps split: if_splits)
  from put_all_keys [OF p assms(2)] obtain x where x: "get l k = Some x" by auto
  have "get default_limits k \<noteq> None \<longrightarrow> limit_ok k x"
    by (rule put_all_values [OF p _ _ x]) (auto intro: limit_item_ok default_limits_ok)
  with assms(2) x show ?thesis by simp
qed (use assms in \<open>simp_all add: validate_limits_def\<close>)


text \<open>A default name: empty, or the name of an entry that is in force.\<close>

definition refers :: "pystr \<Rightarrow> pystr \<Rightarrow> (pyval \<Rightarrow> bool) \<Rightarrow> table \<Rightarrow> bool" where
  "refers fld names off t \<longleftrightarrow> (\<exists>s. get t fld = Some (PStr s)
     \<and> (s = [] \<or> (\<exists>x. get (table_of (get_or t names PNone)) s = Some x \<and> \<not> off x)))"

lemma mail_layer_default:
  "validate_mail_layer ev v = Inr l \<Longrightarrow> get l (lit ''default_account'') = Some x \<Longrightarrow> \<exists>s. x = PStr s"
  by (auto simp: validate_mail_layer_def result_simps split: pyval.splits option.splits)

lemma mail_config_refers:
  assumes "validate_mail_config ev v = Inr m"
  shows "refers (lit ''default_account'') (lit ''accounts'') disabled m"
proof (cases "v = PNone")
  case True
  with assms show ?thesis by (auto simp: validate_mail_config_def default_mail_def refers_def)
next
  case False
  let ?r0 = "(\<lambda>layer. case get layer (lit ''default_account'') of
      None \<Rightarrow> default_mail | Some x \<Rightarrow> put (lit ''default_account'') x default_mail)"
  from assms False obtain layer r where l: "validate_mail_layer ev v = Inr layer"
    and r: "(case get layer (lit ''accounts'') of
                None \<Rightarrow> Inr (?r0 layer)
              | Some a \<Rightarrow> rbind (validate_mail_accounts ev a mail_accounts_path True)
                  (\<lambda>acc. Inr (put (lit ''accounts'') (PDict acc) (?r0 layer)))) = Inr r"
    and m: "(case get_or r (lit ''default_account'') PNone of
           PStr s \<Rightarrow>
             if s \<noteq> [] \<and> (case get (table_of (get_or r (lit ''accounts'') PNone)) s of
                  None \<Rightarrow> True | Some x \<Rightarrow> disabled x)
             then Inr (put (lit ''default_account'') (PStr []) r) else Inr r
         | _ \<Rightarrow> Inr r) = (Inr m :: table checked)"
    unfolding validate_mail_config_def Let_def if_not_P [OF False] rbind_Inr_iff by blast
  have "\<exists>s. get (?r0 layer) (lit ''default_account'') = Some (PStr s)"
    using mail_layer_default [OF l]
    by (auto simp: default_mail_def split: option.splits)
  with r obtain s where "get r (lit ''default_account'') = Some (PStr s)"
    by (auto simp: result_simps simp del: lit_simps split: option.splits)
  with m show ?thesis
    by (auto simp: refers_def get_or_def simp del: lit_simps split: if_splits option.splits)
qed

lemma copy_keys_get:
  "distinct ks \<Longrightarrow> get (copy_keys ks d r) k = (if k \<in> set ks \<and> get d k \<noteq> None then get d k else get r k)"
  unfolding copy_keys_def by (induction ks arbitrary: r) (auto split: option.splits)

lemma web_layer_default:
  "validate_web_layer v = Inr l \<Longrightarrow> get l (lit ''default_provider'') = Some x \<Longrightarrow> \<exists>s. x = PStr s"
  by (auto simp: validate_web_layer_def result_simps simp del: lit_simps split: pyval.splits option.splits)

lemma web_config_refers:
  assumes "validate_web_config v = Inr m"
  shows "refers (lit ''default_provider'') (lit ''providers'') server_tombstone m"
proof -
  let ?ks = "[lit ''default_provider'', lit ''timeout_seconds'', lit ''max_concurrency'']"
  let ?r0 = "\<lambda>layer. copy_keys ?ks layer default_web"
  from assms obtain layer r where l: "validate_web_layer v = Inr layer"
    and r: "(case get layer (lit ''providers'') of
             None \<Rightarrow> Inr (?r0 layer)
           | Some a \<Rightarrow> rbind (validate_web_providers a web_providers_path True)
               (\<lambda>ps. Inr (put (lit ''providers'') (PDict ps) (?r0 layer)))) = Inr r"
    and m: "(case get_or r (lit ''default_provider'') PNone of
        PStr s \<Rightarrow>
          if s \<noteq> [] \<and> (case get (table_of (get_or r (lit ''providers'') PNone)) s of
               None \<Rightarrow> True | Some x \<Rightarrow> server_tombstone x)
          then fail (lit ''web.default_provider'') ''must refer to an active configured provider''
          else Inr r
      | _ \<Rightarrow> Inr r) = (Inr m :: table checked)"
    unfolding validate_web_config_def Let_def rbind_Inr_iff by blast
  have "\<exists>s. get (copy_keys ?ks layer default_web) (lit ''default_provider'') = Some (PStr s)"
    using web_layer_default [OF l] by (auto simp: copy_keys_get default_web_def)
  with r obtain s where "get r (lit ''default_provider'') = Some (PStr s)"
    by (auto simp: result_simps simp del: lit_simps split: option.splits)
  with m show ?thesis
    by (auto simp: refers_def get_or_def simp del: lit_simps split: if_splits option.splits)
qed

lemma section_step_Inr:
  "section_step s f r = Inr r' \<longleftrightarrow> (\<exists>t. f (get_or r (lit s) PNone) = Inr t \<and> r' = put (lit s) (PDict t) r)"
  by (auto simp: section_step_def result_simps)

text \<open>
  C36: in an accepted configuration every limit is an integer within its bounds, the default mail
  account is empty or an enabled account, and the default provider is empty or an active provider.
\<close>

theorem validate_config_bounds:
  assumes "validate_config ev v = Inr r"
  shows "\<exists>l m w. get r (lit ''limits'') = Some (PDict l) \<and> get r (lit ''mail'') = Some (PDict m)
     \<and> get r (lit ''web'') = Some (PDict w)
     \<and> (\<forall>k. get default_limits k \<noteq> None \<longrightarrow> (\<exists>x. get l k = Some x \<and> limit_ok k x))
     \<and> refers (lit ''default_account'') (lit ''accounts'') disabled m
     \<and> refers (lit ''default_provider'') (lit ''providers'') server_tombstone w"
proof -
  from assms obtain d a b c e f g h where steps:
      "section_step ''limits'' validate_limits a = Inr b" "section_step ''storage'' validate_storage b = Inr c"
      "section_step ''dependencies'' validate_dependencies c = Inr e" "section_step ''lsp'' validate_lsp e = Inr f"
      "section_step ''mail'' (validate_mail_config ev) f = Inr g" "section_step ''web'' validate_web_config g = Inr h"
      "section_step ''mcp'' (validate_mcp ev) h = Inr r"
    by (cases v) (auto simp: validate_config_def result_simps Let_def simp del: lit_simps)
  from steps obtain l m w where
    l: "validate_limits (get_or a (lit ''limits'') PNone) = Inr l" and
    m: "validate_mail_config ev (get_or f (lit ''mail'') PNone) = Inr m" and
    w: "validate_web_config (get_or g (lit ''web'') PNone) = Inr w" and
    "get r (lit ''limits'') = Some (PDict l)" "get r (lit ''mail'') = Some (PDict m)"
    "get r (lit ''web'') = Some (PDict w)"
    unfolding section_step_Inr by (elim exE conjE) (simp del: lit_simps)
  with validate_limits_ok [OF l] mail_config_refers [OF m] web_config_refers [OF w] show ?thesis by blast
qed

definition sample_conf :: conf_env where
  "sample_conf = \<lparr>split_url = \<lambda>_. None, parse_addr = id\<rparr>"

definition sample_mail :: table where
  "sample_mail = [(lit ''mail'', PDict [(lit ''default_account'', PStr (lit ''work''))])]"

lemma sample_mail_valid:
  "validate_config sample_conf (PDict sample_mail) = Inr
    [(lit ''mail'', PDict default_mail), (lit ''version'', PInt 1), (lit ''limits'', PDict default_limits),
     (lit ''storage'', PDict default_storage), (lit ''dependencies'', PDict default_dependencies),
     (lit ''lsp'', PDict [(lit ''servers'', PDict [])]), (lit ''web'', PDict default_web),
     (lit ''mcp'', PDict [(lit ''servers'', PDict [])])]"
  by code_simp

theorem validate_config_bounds_witness:
  "\<exists>l m w. get [(lit ''mail'', PDict default_mail), (lit ''version'', PInt 1), (lit ''limits'', PDict default_limits),
     (lit ''storage'', PDict default_storage), (lit ''dependencies'', PDict default_dependencies),
     (lit ''lsp'', PDict [(lit ''servers'', PDict [])]), (lit ''web'', PDict default_web),
     (lit ''mcp'', PDict [(lit ''servers'', PDict [])])] (lit ''limits'') = Some (PDict l)
   \<and> get [(lit ''mail'', PDict default_mail), (lit ''version'', PInt 1), (lit ''limits'', PDict default_limits),
     (lit ''storage'', PDict default_storage), (lit ''dependencies'', PDict default_dependencies),
     (lit ''lsp'', PDict [(lit ''servers'', PDict [])]), (lit ''web'', PDict default_web),
     (lit ''mcp'', PDict [(lit ''servers'', PDict [])])] (lit ''mail'') = Some (PDict m)
   \<and> get [(lit ''mail'', PDict default_mail), (lit ''version'', PInt 1), (lit ''limits'', PDict default_limits),
     (lit ''storage'', PDict default_storage), (lit ''dependencies'', PDict default_dependencies),
     (lit ''lsp'', PDict [(lit ''servers'', PDict [])]), (lit ''web'', PDict default_web),
     (lit ''mcp'', PDict [(lit ''servers'', PDict [])])] (lit ''web'') = Some (PDict w)
   \<and> (\<forall>k. get default_limits k \<noteq> None \<longrightarrow> (\<exists>x. get l k = Some x \<and> limit_ok k x))
   \<and> refers (lit ''default_account'') (lit ''accounts'') disabled m
   \<and> refers (lit ''default_provider'') (lit ''providers'') server_tombstone w"
  by (rule validate_config_bounds [OF sample_mail_valid])

section \<open>Changing a layer\<close>

text \<open>
  C26: when a change succeeds, the store it leaves loads, with the values that are returned; the
  caller's revision was the current one, the files had not changed before the write, the other layer
  and the paths are untouched, and the text written is at most 16 MiB.
\<close>

theorem mutate_effect:
  assumes "mutate ev tm path sc expected change reread st = Inr (sn, st')"
  shows "store_snapshot ev tm st' = Inr sn
    \<and> (\<exists>current. store_snapshot ev tm st = Inr current
        \<and> (expected = None \<or> expected = Some (composite_revision (sn_revisions current))))
    \<and> (st' = st \<or> (\<exists>data. int (length data) \<le> max_config_bytes
        \<and> fst reread = st_global st \<and> (st_workspace_path st = None \<or> snd reread = st_workspace st)
        \<and> (if sc = Global then st' = st\<lparr>st_global := Some data\<rparr>
           else sc = Workspace \<and> st_workspace_path st \<noteq> None \<and> st' = st\<lparr>st_workspace := Some data\<rparr>)))"
proof -
  have sc: "sc \<noteq> Default" "\<not> (sc = Workspace \<and> st_workspace_path st = None)"
    using assms by (auto simp: mutate_def simp del: lit_simps split: if_splits)
  from assms sc obtain current where c: "store_snapshot ev tm st = Inr current"
    and rev: "expected = None \<or> expected = Some (composite_revision (sn_revisions current))"
    by (auto simp: mutate_def result_simps Let_def simp del: lit_simps split: if_splits)
  let ?original = "if sc = Global then st_global st else st_workspace st"
  let ?target = "if sc = Global then st_global_path st
                       else case st_workspace_path st of None \<Rightarrow> [] | Some p \<Rightarrow> p"
  from assms sc c rev obtain doc r where doc: "parse_table tm ?original path = Inr doc"
    and r: "change (table_of doc) (sn_global current) (sn_workspace current) = Inr r"
    by (auto simp: mutate_def result_simps Let_def simp del: lit_simps split: if_splits)
  show ?thesis
  proof (cases r)
    case None
    with assms sc c rev doc r have "sn = current" "st' = st"
      by (auto simp: mutate_def result_simps Let_def simp del: lit_simps split: if_splits)
    with c rev show ?thesis by auto
  next
    case (Some d)
    let ?st' = "\<lambda>data. if sc = Global then st\<lparr>st_global := Some data\<rparr> else st\<lparr>st_workspace := Some data\<rparr>"
    from assms sc c rev doc r Some obtain data where
      data: "utf8_encode (toml_dumps tm d) = Inr data" "int (length data) \<le> max_config_bytes"
      and p: "rbind (parse_layer ev tm (Some data) ?target) (\<lambda>_.
           rbind (store_snapshot ev tm (?st' data)) (\<lambda>updated.
                      if fst reread \<noteq> st_global st
                        \<or> st_workspace_path st \<noteq> None \<and> snd reread \<noteq> st_workspace st then Inl Changed
                      else Inr (updated, ?st' data))) = Inr (sn, st')"
      by (cases "utf8_encode (toml_dumps tm d)")
        (auto simp: mutate_def Let_def simp del: lit_simps split: if_splits)
    from p have "store_snapshot ev tm (?st' data) = Inr sn" "st' = ?st' data"
      "fst reread = st_global st" "st_workspace_path st = None \<or> snd reread = st_workspace st"
      by (auto simp: result_simps simp del: lit_simps split: if_splits)
    with c rev data sc show ?thesis by (cases sc) auto
  qed
qed

definition sample_toml :: toml where
  "sample_toml = \<lparr>toml_parse = (\<lambda>s. if s = lit ''limits.completed_tasks = 5'' then
        Some (PDict [(lit ''limits'', PDict [(lit ''completed_tasks'', PInt 5)])]) else None),
     toml_dumps = (\<lambda>_. lit ''limits.completed_tasks = 5''), sha256 = map unat\<rparr>"

definition sample_store :: store where
  "sample_store = \<lparr>st_global_path = lit ''/g'', st_workspace_path = Some (lit ''/w''),
     st_global = None, st_workspace = None\<rparr>"

definition sample_mutation :: "(snapshot \<times> store) checked" where
  "sample_mutation = mutate sample_conf sample_toml (lit ''limits.completed_tasks'') Workspace
     (Some (lit ''global=-;workspace=-''))
     (set_change [lit ''limits'', lit ''completed_tasks''] (PInt 5)) (None, None) sample_store"

lemma sample_mutation_ok:
  "case sample_mutation of Inr r \<Rightarrow> st_workspace (snd r) \<noteq> None | Inl _ \<Rightarrow> False"
  by code_simp

theorem mutate_effect_witness:
  "\<exists>sn st'. st_workspace st' \<noteq> None \<and> store_snapshot sample_conf sample_toml st' = Inr sn
    \<and> (\<exists>current. store_snapshot sample_conf sample_toml sample_store = Inr current
        \<and> (Some (lit ''global=-;workspace=-'') = None
           \<or> Some (lit ''global=-;workspace=-'') = Some (composite_revision (sn_revisions current))))
    \<and> (st' = sample_store \<or> (\<exists>data. int (length data) \<le> max_config_bytes
        \<and> fst (None :: raw, None :: raw) = st_global sample_store
        \<and> (st_workspace_path sample_store = None \<or> snd (None :: raw, None :: raw) = st_workspace sample_store)
        \<and> (if Workspace = Global then st' = sample_store\<lparr>st_global := Some data\<rparr>
           else Workspace = Workspace \<and> st_workspace_path sample_store \<noteq> None
             \<and> st' = sample_store\<lparr>st_workspace := Some data\<rparr>)))"
proof -
  obtain sn st' where r: "sample_mutation = Inr (sn, st')" and w: "st_workspace st' \<noteq> None"
    using sample_mutation_ok by (auto split: sum.splits)
  from mutate_effect [OF r [unfolded sample_mutation_def]] w show ?thesis by blast
qed

section \<open>A tombstone by value\<close>

text \<open>
  A layer with \<open>enabled = 0\<close> passes the layer's validation as a tombstone, because the
  definition equals \<open>{"enabled": False}\<close>; but the merge tests for the object \<open>False\<close>, so that
  the server it should remove is replaced by the table, which is not a valid server.
\<close>

lemma zero_tombstone:
  "validate_layer sample_conf (PDict [(lit ''mcp'', PDict [(lit ''servers'',
      PDict [(lit ''a'', PDict [(lit ''enabled'', PInt 0)])])])]) [] = Inr [(lit ''mcp'', PDict [(lit ''servers'',
      PDict [(lit ''a'', PDict [(lit ''enabled'', PInt 0)])])])]"
  "merge_named m (PDict [(lit ''a'', PDict [(lit ''command'', PStr (lit ''x''))])])
     (PDict [(lit ''a'', PDict [(lit ''enabled'', PInt 0)])]) = Inr [(lit ''a'', PDict [(lit ''enabled'', PInt 0)])]"
  "validate_servers sample_conf (PDict [(lit ''a'', PDict [(lit ''enabled'', PInt 0)])])
     = Inl (Config_Error (lit ''mcp.servers.a'') ''requires exactly one of command or url'')"
  by (code_simp, simp add: merge_named_def merge_source_def merge_named_step_def disabled_def get_def put_def, code_simp)

end
