(* ===== verification/Tasks.thy ===== *)
theory Tasks
  imports Output_Buffer "HOL-Library.AList"
begin

text \<open>
  The background tasks of a workspace kernel (kernel_api.py): \<open>TaskHandle\<close> without its remote
  reporting and the registry \<open>TaskManager\<close>.  Handles live in a heap, a handle's address is its
  identity (Python's \<open>is\<close>), and the registry's \<open>dict\<close> is an association list from ids to
  addresses.  The event loop is the step relation: a task begins and finishes, a reporter finishes,
  and clients call the registry, in any order.
\<close>

section \<open>Identifiers\<close>

definition is_hex :: "nat \<Rightarrow> bool" where
  "is_hex c = (48 \<le> c \<and> c \<le> 57 \<or> 97 \<le> c \<and> c \<le> 102)"

definition hex_id :: "pystr \<Rightarrow> bool" where
  "hex_id s = (length s = 32 \<and> list_all is_hex s)"

text \<open>\<open>.+\<close> of a regular expression, and the splits of a string in two.\<close>

definition some_line :: "pystr \<Rightarrow> bool" where
  "some_line s = (s \<noteq> [] \<and> 10 \<notin> set s)"

fun splits :: "'a list \<Rightarrow> ('a list \<times> 'a list) list" where
  "splits [] = [([], [])]"
| "splits (x # xs) = ([], x # xs) # map (\<lambda>(a, b). (x # a, b)) (splits xs)"

definition task_id_match :: "pystr \<Rightarrow> bool" where
  "task_id_match s =
    (case strip_prefix (lit ''task-'') s of
       None \<Rightarrow> False
     | Some r \<Rightarrow> list_ex (\<lambda>(a, b). some_line a \<and> (case b of
           [] \<Rightarrow> False | c # ds \<Rightarrow> c = of_char CHR ''-'' \<and> ds \<noteq> [] \<and> list_all is_digit ds)) (splits r))"

definition history_id_match :: "pystr \<Rightarrow> bool" where
  "history_id_match s =
    (case strip_prefix (lit ''python:'') s of
       None \<Rightarrow> False
     | Some r \<Rightarrow> hex_id (take 32 r) \<and> (case drop 32 r of
           [] \<Rightarrow> False | c # t \<Rightarrow> c = of_char CHR '':'' \<and> some_line t))"

definition reserved_generated_id :: "pystr \<Rightarrow> bool" where
  "reserved_generated_id s =
    (hex_id s \<or> task_id_match s \<or> history_id_match s \<or> starts_with (lit ''remote-watch:'') s)"

section \<open>Handles\<close>

text \<open>How an \<open>asyncio.Task\<close> is done: its result and its exception by an identity.\<close>

datatype outcome = Returned nat | Raised nat | Was_Cancelled

datatype task_state = Running | Cancelling | Succeeded | Failed | Cancelled

record task_handle =
  th_id :: pystr
  th_task :: "outcome option"           \<comment> \<open>none until the task is done\<close>
  th_buffer :: output_buffer
  th_coroutine :: bool                  \<comment> \<open>the source is a coroutine\<close>
  th_started :: bool
  th_source_closed :: bool
  th_created :: int
  th_finished_at :: "int option"
  th_cancel_requested :: bool
  th_client :: "(pystr \<times> pystr option) option"
  th_exec_id :: "pystr option"
  th_generation :: pystr
  th_persist_result :: bool
  th_result_persisted :: "bool option"
  th_result_warnings :: "(pystr \<times> pystr) list"
  th_reporter :: bool                   \<comment> \<open>a visible task has a reporter\<close>

record task_status =
  ts_id :: pystr
  ts_status :: task_state
  ts_created_at :: int
  ts_client_id :: "pystr option"
  ts_connection_id :: "pystr option"
  ts_exec_id :: "pystr option"
  ts_finished_at :: "int option"
  ts_result_persisted :: "bool option option"   \<comment> \<open>the key is only there with \<open>persist_result\<close>\<close>
  ts_warnings :: "(pystr \<times> pystr) list"

definition handle_state :: "task_handle \<Rightarrow> task_state" where
  "handle_state h = (case th_task h of
      Some Was_Cancelled \<Rightarrow> Cancelled
    | None \<Rightarrow> if th_cancel_requested h then Cancelling else Running
    | Some (Raised _) \<Rightarrow> Failed
    | Some (Returned _) \<Rightarrow> Succeeded)"

definition status :: "task_handle \<Rightarrow> task_status" where
  "status h = \<lparr>ts_id = th_id h, ts_status = handle_state h, ts_created_at = th_created h,
     ts_client_id = map_option fst (th_client h),
     ts_connection_id = (case th_client h of None \<Rightarrow> None | Some c \<Rightarrow> snd c),
     ts_exec_id = th_exec_id h, ts_finished_at = th_finished_at h,
     ts_result_persisted = (if th_persist_result h then Some (th_result_persisted h) else None),
     ts_warnings = th_result_warnings h\<rparr>"

definition terminal :: "task_state \<Rightarrow> bool" where
  "terminal s = (s \<in> {Succeeded, Failed, Cancelled})"

text \<open>\<open>_finished\<close>, the done callback.\<close>

definition finished :: "int \<Rightarrow> outcome \<Rightarrow> task_handle \<Rightarrow> task_handle" where
  "finished now r h = h\<lparr>th_task := Some r, th_finished_at := Some now,
     th_buffer := (th_buffer h)\<lparr>ob_changed := True\<rparr>,
     th_source_closed := (th_source_closed h \<or> r = Was_Cancelled \<and> \<not> th_started h \<and> th_coroutine h)\<rparr>"

text \<open>\<open>result\<close>: the value, \<open>NotReady\<close>, cancellation, or the exception of the task.\<close>

datatype result_error = Not_Ready | Result_Cancelled | Task_Raised nat

definition task_result :: "task_handle \<Rightarrow> result_error + nat" where
  "task_result h = (case th_task h of
      None \<Rightarrow> Inl Not_Ready
    | Some Was_Cancelled \<Rightarrow> Inl Result_Cancelled
    | Some (Raised e) \<Rightarrow> Inl (Task_Raised e)
    | Some (Returned v) \<Rightarrow> Inr v)"

definition cancel :: "task_handle \<Rightarrow> bool \<times> task_handle" where
  "cancel h = (if th_task h \<noteq> None then (False, h) else (True, h\<lparr>th_cancel_requested := True\<rparr>))"

text \<open>\<open>output\<close> with a code point cursor, which Python slices: negative counts from the end.\<close>

definition slice_from :: "'a list \<Rightarrow> int \<Rightarrow> 'a list" where
  "slice_from xs i = drop (nat (if i < 0 then max 0 (int (length xs) + i) else i)) xs"

definition task_output :: "task_handle \<Rightarrow> pystr" where
  "task_output h = fst (ob_get (th_buffer h) None)"

definition output_from :: "task_handle \<Rightarrow> int \<Rightarrow> pystr \<times> int \<times> bool" where
  "output_from h cursor = (let tx = slice_from (task_output h) cursor in
     (tx, cursor + int (length tx), ob_truncated (th_buffer h)))"

section \<open>The registry\<close>

record tasks =
  tk_heap :: "task_handle list"
  tk_handles :: "(pystr \<times> nat) list"
  tk_counter :: nat
  tk_completed :: "(pystr \<times> nat) list"
  tk_completed_ids :: "pystr list"
  tk_explicit_ids :: "pystr list"
  tk_closing :: bool
  tk_blocked :: bool
  tk_origin :: "pystr option"
  tk_lifecycle_generation :: "pystr option"
  tk_token :: "pystr option"
  tk_generation :: pystr          \<comment> \<open>\<open>MYPR_GENERATION\<close>, fixed for the process\<close>
  tk_limit :: nat                 \<comment> \<open>\<open>COMPLETED_TASKS\<close>\<close>

definition tasks_init :: "pystr \<Rightarrow> nat \<Rightarrow> tasks" where
  "tasks_init generation limit = \<lparr>tk_heap = [], tk_handles = [], tk_counter = 0, tk_completed = [],
     tk_completed_ids = [], tk_explicit_ids = [], tk_closing = False, tk_blocked = False,
     tk_origin = None, tk_lifecycle_generation = None, tk_token = None,
     tk_generation = generation, tk_limit = limit\<rparr>"

definition handle_at :: "tasks \<Rightarrow> nat \<Rightarrow> task_handle" where
  "handle_at s r = tk_heap s ! r"

definition lookup_handle :: "tasks \<Rightarrow> pystr \<Rightarrow> nat option" where
  "lookup_handle s i = map_of (tk_handles s) i"

definition active :: "tasks \<Rightarrow> nat list" where
  "active s = filter (\<lambda>r. handle_state (handle_at s r) \<in> {Running, Cancelling}) (map snd (tk_handles s))"

definition list_tasks :: "tasks \<Rightarrow> pystr option \<Rightarrow> task_status list" where
  "list_tasks s client =
    (let items = map (\<lambda>(_, r). status (handle_at s r)) (tk_handles s) in
     case client of None \<Rightarrow> items | Some c \<Rightarrow> filter (\<lambda>i. ts_client_id i = Some c) items)"

definition get_task :: "tasks \<Rightarrow> pystr \<Rightarrow> nat result" where
  "get_task s i = (case lookup_handle s i of
      None \<Rightarrow> Inl (KeyError ''unknown task'') | Some r \<Rightarrow> Inr r)"

text \<open>Tasks other than the one that asks, by id.\<close>

definition active_lifecycle_handles :: "tasks \<Rightarrow> pystr option \<Rightarrow> nat list" where
  "active_lifecycle_handles s exclude =
    filter (\<lambda>r. Some (th_id (handle_at s r)) \<noteq> exclude) (active s)"

definition begin_lifecycle :: "pystr option \<Rightarrow> pystr option \<Rightarrow> pystr option \<Rightarrow> tasks \<Rightarrow> tasks result" where
  "begin_lifecycle exec_id generation token s =
    (if generation \<noteq> None \<and> generation \<noteq> Some (tk_generation s) then
       Inl (RuntimeError ''Expired lifecycle generation'')
     else let token = (if token = None then exec_id else token) in
     if tk_blocked s then
       (if tk_lifecycle_generation s = Some (tk_generation s) \<and> tk_origin s = exec_id \<and> tk_token s = token
        then Inr s
        else Inl (RuntimeError ''Workspace lifecycle transition is in progress''))
     else Inr (s\<lparr>tk_blocked := True, tk_origin := exec_id,
            tk_lifecycle_generation := Some (tk_generation s), tk_token := token\<rparr>))"

definition abort_lifecycle :: "pystr option \<Rightarrow> pystr option \<Rightarrow> pystr option \<Rightarrow> tasks \<Rightarrow> tasks" where
  "abort_lifecycle exec_id generation token s =
    (if generation \<noteq> None \<and> generation \<noteq> tk_lifecycle_generation s
       \<or> exec_id \<noteq> None \<and> tk_origin s \<noteq> exec_id
       \<or> token \<noteq> None \<and> tk_token s \<noteq> token
     then s
     else s\<lparr>tk_blocked := False, tk_origin := None, tk_lifecycle_generation := None, tk_token := None\<rparr>)"

text \<open>\<open>_reserve_lifecycle\<close>: the answer (generation, token and the ids of the active tasks).\<close>

definition reserve_lifecycle ::
  "pystr option \<Rightarrow> pystr option \<Rightarrow> pystr option \<Rightarrow> bool \<Rightarrow> tasks
     \<Rightarrow> (pystr \<times> pystr option \<times> pystr list) result \<times> tasks" where
  "reserve_lifecycle exec_id generation token force s =
    (let token = (if token = None then exec_id else token) in
     case begin_lifecycle exec_id generation token s of
       Inl e \<Rightarrow> (Inl e, s)
     | Inr s1 \<Rightarrow>
        (let act = active_lifecycle_handles s1 exec_id in
         if act \<noteq> [] \<and> \<not> force then
           (Inl (RuntimeError ''Workspace has active Python tasks; pass force=True to continue''),
            abort_lifecycle exec_id (Some (tk_generation s1)) token s1)
         else (Inr (tk_generation s1, token, map (\<lambda>r. th_id (handle_at s1 r)) act), s1)))"

definition check_admission :: "tasks \<Rightarrow> unit result" where
  "check_admission s =
    (if tk_closing s then Inl (RuntimeError ''Workspace tasks are closing'')
     else if tk_blocked s then Inl (RuntimeError ''Workspace lifecycle transition is in progress'')
     else Inr ())"

definition validate_new_id :: "pystr \<Rightarrow> bool \<Rightarrow> tasks \<Rightarrow> unit result" where
  "validate_new_id i generated s =
    (if i = [] then Inl (ValueError ''Task ID must be a non-empty string'')
     else if lookup_handle s i \<noteq> None then Inl (ValueError ''Task ID already exists'')
     else if i \<in> set (tk_explicit_ids s) then Inl (ValueError ''Task ID already exists'')
     else if \<not> generated \<and> reserved_generated_id i then
       Inl (ValueError ''Task ID uses a reserved generated namespace'')
     else Inr ())"

definition track :: "nat \<Rightarrow> bool \<Rightarrow> tasks \<Rightarrow> tasks result" where
  "track r generated s =
    (let i = th_id (handle_at s r) in
     if lookup_handle s i = Some r then Inr s
     else rbind (validate_new_id i generated s) (\<lambda>_.
       Inr (s\<lparr>tk_handles := AList.update i r (tk_handles s),
              tk_explicit_ids := (if generated then tk_explicit_ids s
                else List.insert i (tk_explicit_ids s))\<rparr>)))"

text \<open>The loop that evicts the oldest completed handles, one per turn.\<close>

definition evict_oldest :: "tasks \<Rightarrow> tasks" where
  "evict_oldest s =
    (case tk_completed s of
       [] \<Rightarrow> s
     | (i, r) # rest \<Rightarrow>
        s\<lparr>tk_completed := rest, tk_completed_ids := removeAll i (tk_completed_ids s),
          tk_handles := (if lookup_handle s i = Some r then AList.delete i (tk_handles s)
                         else tk_handles s)\<rparr>)"

function evict :: "tasks \<Rightarrow> tasks" where
  "evict s = (if tk_limit s < length (tk_completed s) then evict (evict_oldest s) else s)"
  by pat_completeness auto
termination
  by (relation "measure (\<lambda>s. length (tk_completed s))")
    (auto simp: evict_oldest_def split: list.splits)

declare evict.simps [simp del]

definition completed_handle :: "nat \<Rightarrow> tasks \<Rightarrow> tasks" where
  "completed_handle r s =
    (let h = handle_at s r; i = th_id h in
     if \<not> terminal (handle_state h) then s
     else if th_task h = None then s
     else if lookup_handle s i \<noteq> Some r \<or> i \<in> set (tk_completed_ids s) then s
     else evict (s\<lparr>tk_completed := tk_completed s @ [(i, r)],
                   tk_completed_ids := List.insert i (tk_completed_ids s)\<rparr>))"

text \<open>The arguments of \<open>start\<close> and what it reads from its surroundings.\<close>

record start_call =
  sc_awaitable :: bool
  sc_coroutine :: bool
  sc_task_id :: "pystr option"
  sc_visible :: bool
  sc_persist :: "bool option"     \<comment> \<open>none: not a boolean\<close>
  sc_created :: bool              \<comment> \<open>\<open>asyncio.create_task\<close> succeeds\<close>
  sc_now :: int
  sc_client :: "(pystr \<times> pystr option) option"
  sc_exec :: "pystr option"
  sc_output_limit :: int

definition new_handle :: "start_call \<Rightarrow> pystr \<Rightarrow> bool \<Rightarrow> pystr \<Rightarrow> task_handle" where
  "new_handle a i persist gen = \<lparr>th_id = i, th_task = None, th_buffer = ob_init (sc_output_limit a),
     th_coroutine = sc_coroutine a, th_started = False, th_source_closed = False,
     th_created = sc_now a, th_finished_at = None, th_cancel_requested = False,
     th_client = sc_client a, th_exec_id = sc_exec a, th_generation = gen,
     th_persist_result = persist, th_result_persisted = None, th_result_warnings = [],
     th_reporter = sc_visible a\<rparr>"

definition generated_id :: "tasks \<Rightarrow> nat \<Rightarrow> pystr" where
  "generated_id s n = lit ''task-'' @ tk_generation s @ of_char CHR ''-'' # digits_of_nat n"

text \<open>
  \<open>start\<close>: the error or the new handle, whether the coroutine that was passed has been closed,
  and the registry.
\<close>

definition start :: "start_call \<Rightarrow> tasks \<Rightarrow> nat result \<times> bool \<times> tasks" where
  "start a s =
    (if \<not> sc_awaitable a then (Inl (TypeError ''tasks.start expects an awaitable''), False, s)
     else case check_admission s of
       Inl e \<Rightarrow> (Inl e, sc_coroutine a, s)
     | Inr _ \<Rightarrow>
      (case (if sc_persist a = Some True \<and> \<not> sc_visible a then None else sc_persist a) of
         None \<Rightarrow> (Inl (ValueError ''persist_result must be a boolean and requires a visible task''),
                  sc_coroutine a, s)
       | Some persist \<Rightarrow>
         let generated = (sc_task_id a = None);
             s1 = (if generated then s\<lparr>tk_counter := tk_counter s + 1\<rparr> else s);
             i = (case sc_task_id a of None \<Rightarrow> generated_id s1 (tk_counter s1) | Some i \<Rightarrow> i) in
         case validate_new_id i generated s1 of
           Inl e \<Rightarrow> (Inl e, sc_coroutine a, s1)
         | Inr _ \<Rightarrow>
            if \<not> sc_created a then
              (Inl (OSError ''asyncio.create_task''), sc_coroutine a,
               (if generated then s1 else s1\<lparr>tk_explicit_ids := removeAll i (tk_explicit_ids s1)\<rparr>))
            else
              let r = length (tk_heap s1);
                  s2 = s1\<lparr>tk_heap := tk_heap s1 @ [new_handle a i persist (tk_generation s1)]\<rparr> in
              if sc_visible a then
                (case track r generated s2 of
                   Inl e \<Rightarrow> (Inl e, False, s2)
                 | Inr s3 \<Rightarrow> (Inr r, False, s3))
              else (Inr r, False,
                    if generated then s2
                    else s2\<lparr>tk_explicit_ids := List.insert i (tk_explicit_ids s2)\<rparr>)))"

section \<open>The event loop\<close>

definition update_handle :: "nat \<Rightarrow> (task_handle \<Rightarrow> task_handle) \<Rightarrow> tasks \<Rightarrow> tasks" where
  "update_handle r f s = s\<lparr>tk_heap := (tk_heap s)[r := f (handle_at s r)]\<rparr>"

text \<open>
  One step of the kernel process.  A cell's handle has the execution id, 32 hexadecimal digits, and
  is tracked as generated.
\<close>

inductive task_step :: "tasks \<Rightarrow> tasks \<Rightarrow> bool" where
  Start: "task_step s (snd (snd (start a s)))"
| Begin: "r < length (tk_heap s) \<Longrightarrow> th_task (handle_at s r) = None \<Longrightarrow>
    task_step s (update_handle r (\<lambda>h. h\<lparr>th_started := True\<rparr>) s)"
| Write: "r < length (tk_heap s) \<Longrightarrow> ob_write (th_buffer (handle_at s r)) v name = Inr (b, n) \<Longrightarrow>
    task_step s (update_handle r (\<lambda>h. h\<lparr>th_buffer := b\<rparr>) s)"
| Finish: "r < length (tk_heap s) \<Longrightarrow> th_task (handle_at s r) = None \<Longrightarrow>
    task_step s (update_handle r (finished now out) s)"
| Cancel: "r < length (tk_heap s) \<Longrightarrow> task_step s (update_handle r (\<lambda>h. snd (cancel h)) s)"
| Warn: "r < length (tk_heap s) \<Longrightarrow>
    task_step s (update_handle r (\<lambda>h. h\<lparr>th_result_persisted := p, th_result_warnings := w\<rparr>) s)"
| Report: "r < length (tk_heap s) \<Longrightarrow> task_step s (completed_handle r s)"
| Cell: "hex_id (th_id h) \<Longrightarrow> th_task h = None \<Longrightarrow>
    validate_new_id (th_id h) True s = Inr () \<Longrightarrow>
    track (length (tk_heap s)) True (s\<lparr>tk_heap := tk_heap s @ [h]\<rparr>) = Inr s' \<Longrightarrow> task_step s s'"
| Lifecycle: "begin_lifecycle e g t s = Inr s' \<Longrightarrow> task_step s s'"
| Reserve: "task_step s (snd (reserve_lifecycle e g t force s))"
| Abort: "task_step s (abort_lifecycle e g t s)"
| Close: "task_step s (s\<lparr>tk_closing := True\<rparr>)"

inductive_cases task_stepE: "task_step s s'"

definition kernel_states :: "pystr \<Rightarrow> nat \<Rightarrow> tasks \<Rightarrow> bool" where
  "kernel_states generation limit s \<longleftrightarrow> task_step\<^sup>*\<^sup>* (tasks_init generation limit) s"

end
