(* ===== verification/Task_Registry.thy ===== *)
theory Task_Registry
  imports Tasks "HOL-Library.Code_Target_Nat"
begin

text \<open>
  The registry of tasks in every reachable state: a visible task that has not finished is always
  listed, at most the configured number of completed tasks is kept, ids are never reused, and a
  lifecycle reservation keeps new tasks out.
\<close>

section \<open>Facts about the helpers\<close>

lemma lookup_simps [simp]:
  "lookup_handle (s\<lparr>tk_heap := hp\<rparr>) i = lookup_handle s i"
  "lookup_handle (s\<lparr>tk_counter := n\<rparr>) i = lookup_handle s i"
  "lookup_handle (s\<lparr>tk_explicit_ids := ex\<rparr>) i = lookup_handle s i"
  "lookup_handle (s\<lparr>tk_completed := c, tk_completed_ids := ci\<rparr>) i = lookup_handle s i"
  "lookup_handle (s\<lparr>tk_handles := AList.update j r (tk_handles s), tk_explicit_ids := ex\<rparr>) i
     = (if i = j then Some r else lookup_handle s i)"
  by (simp_all add: lookup_handle_def update_conv')

lemma handle_at_simps [simp]:
  "handle_at (s\<lparr>tk_counter := n\<rparr>) r = handle_at s r"
  "handle_at (s\<lparr>tk_explicit_ids := ex\<rparr>) r = handle_at s r"
  "handle_at (s\<lparr>tk_completed := c, tk_completed_ids := ci\<rparr>) r = handle_at s r"
  "handle_at (s\<lparr>tk_handles := hs, tk_explicit_ids := ex\<rparr>) r = handle_at s r"
  by (simp_all add: handle_at_def)

lemma handle_at_append [simp]:
  "r < length (tk_heap s) \<Longrightarrow> handle_at (s\<lparr>tk_heap := tk_heap s @ [h]\<rparr>) r = handle_at s r"
  "handle_at (s\<lparr>tk_heap := tk_heap s @ [h]\<rparr>) (length (tk_heap s)) = h"
  by (simp_all add: handle_at_def nth_append)

lemma update_handle_simps [simp]:
  "tk_handles (update_handle r f s) = tk_handles s"
  "tk_completed (update_handle r f s) = tk_completed s"
  "tk_completed_ids (update_handle r f s) = tk_completed_ids s"
  "tk_explicit_ids (update_handle r f s) = tk_explicit_ids s"
  "tk_counter (update_handle r f s) = tk_counter s"
  "tk_generation (update_handle r f s) = tk_generation s"
  "tk_limit (update_handle r f s) = tk_limit s"
  "tk_blocked (update_handle r f s) = tk_blocked s"
  "tk_closing (update_handle r f s) = tk_closing s"
  "length (tk_heap (update_handle r f s)) = length (tk_heap s)"
  "lookup_handle (update_handle r f s) i = lookup_handle s i"
  by (simp_all add: update_handle_def lookup_handle_def)

lemma handle_at_update:
  "r < length (tk_heap s) \<Longrightarrow> handle_at (update_handle r f s) q = (if q = r then f (handle_at s r) else handle_at s q)"
  by (simp add: handle_at_def update_handle_def)

lemma validate_new_id_ok:
  "validate_new_id i generated s = Inr () \<longleftrightarrow> i \<noteq> [] \<and> lookup_handle s i = None
     \<and> i \<notin> set (tk_explicit_ids s) \<and> (generated \<or> \<not> reserved_generated_id i)"
  by (auto simp: validate_new_id_def)

section \<open>The invariant\<close>

definition listed_ok :: "tasks \<Rightarrow> bool" where
  "listed_ok s \<longleftrightarrow>
     (\<forall>i r. lookup_handle s i = Some r \<longrightarrow> r < length (tk_heap s) \<and> th_id (handle_at s r) = i)
   \<and> (\<forall>r < length (tk_heap s). th_reporter (handle_at s r) \<and> th_task (handle_at s r) = None
        \<longrightarrow> lookup_handle s (th_id (handle_at s r)) = Some r)"

definition completed_ok :: "tasks \<Rightarrow> bool" where
  "completed_ok s \<longleftrightarrow>
     (\<forall>(i, r) \<in> set (tk_completed s). lookup_handle s i = Some r \<and> th_task (handle_at s r) \<noteq> None)
   \<and> distinct (map fst (tk_completed s)) \<and> set (tk_completed_ids s) = fst ` set (tk_completed s)"

definition registry_inv :: "tasks \<Rightarrow> bool" where
  "registry_inv s \<longleftrightarrow> listed_ok s \<and> completed_ok s \<and> length (tk_completed s) \<le> tk_limit s"

lemma evict_oldest_keeps:
  assumes "listed_ok s" and "completed_ok s"
  shows "listed_ok (evict_oldest s)" and "completed_ok (evict_oldest s)"
proof -
  have "listed_ok (evict_oldest s) \<and> completed_ok (evict_oldest s)"
  proof (cases "tk_completed s")
    case Nil
    with assms show ?thesis by (simp add: evict_oldest_def)
  next
    case (Cons p rest)
    obtain i r where p: "p = (i, r)" by (cases p)
    have c: "\<And>j q. (j, q) \<in> set (tk_completed s) \<Longrightarrow> lookup_handle s j = Some q \<and> th_task (handle_at s q) \<noteq> None"
      and d: "distinct (map fst (tk_completed s))" and ids: "set (tk_completed_ids s) = fst ` set (tk_completed s)"
      using assms(2) by (auto simp: completed_ok_def)
    have ir: "lookup_handle s i = Some r" "th_task (handle_at s r) \<noteq> None" using c Cons p by auto
    let ?s = "evict_oldest s"
    have look: "lookup_handle ?s j = (if j = i then None else lookup_handle s j)" for j
      using ir Cons p by (simp add: evict_oldest_def lookup_handle_def delete_conv')
    have at: "handle_at ?s q = handle_at s q" "tk_heap ?s = tk_heap s" for q
      using Cons p by (simp_all add: evict_oldest_def handle_at_def)
    have comp: "tk_completed ?s = rest" "set (tk_completed_ids ?s) = set (tk_completed_ids s) - {i}"
      using Cons p by (simp_all add: evict_oldest_def)
    have fresh: "i \<notin> fst ` set rest" using d Cons p by simp
    have "listed_ok ?s"
      unfolding listed_ok_def
    proof (intro conjI allI impI; (elim conjE)?)
      fix j q
      assume "lookup_handle ?s j = Some q"
      then have "lookup_handle s j = Some q" by (simp add: look split: if_splits)
      then show "q < length (tk_heap ?s)" "th_id (handle_at ?s q) = j"
        using assms(1) by (simp_all add: listed_ok_def at)
    next
      fix q
      assume q: "q < length (tk_heap ?s)" "th_reporter (handle_at ?s q)" "th_task (handle_at ?s q) = None"
      then have l: "lookup_handle s (th_id (handle_at s q)) = Some q"
        using assms(1) by (simp add: listed_ok_def at)
      have "th_id (handle_at s q) \<noteq> i" using l ir q(3) by (auto simp: at)
      with l show "lookup_handle ?s (th_id (handle_at ?s q)) = Some q" by (simp add: look at)
    qed
    moreover have "lookup_handle ?s j = Some q \<and> th_task (handle_at ?s q) \<noteq> None" if j: "(j, q) \<in> set rest" for j q
    proof -
      from j fresh have "j \<noteq> i" by (metis fst_conv imageI)
      moreover have "lookup_handle s j = Some q \<and> th_task (handle_at s q) \<noteq> None"
        using c [of j q] j Cons by simp
      ultimately show ?thesis by (simp add: look at)
    qed
    moreover have "set (tk_completed_ids ?s) = fst ` set rest"
      using ids fresh Cons p comp(2) by auto
    moreover have "distinct (map fst rest)" using d Cons by simp
    ultimately show ?thesis by (auto simp: completed_ok_def comp)
  qed
  then show "listed_ok (evict_oldest s)" "completed_ok (evict_oldest s)" by simp_all
qed

lemma evict_rule:
  assumes "P s" and "\<And>s. P s \<Longrightarrow> P (evict_oldest s)"
  shows "P (evict s)"
  using assms
proof (induction s rule: evict.induct)
  case (1 s)
  then show ?case by (subst evict.simps) auto
qed

lemma evict_oldest_const [simp]:
  "tk_limit (evict_oldest s) = tk_limit s" "tk_heap (evict_oldest s) = tk_heap s"
  "tk_explicit_ids (evict_oldest s) = tk_explicit_ids s" "tk_counter (evict_oldest s) = tk_counter s"
  "tk_generation (evict_oldest s) = tk_generation s" "tk_blocked (evict_oldest s) = tk_blocked s"
  by (auto simp: evict_oldest_def split: list.splits)

lemma evict_const [simp]:
  "tk_limit (evict s) = tk_limit s" "tk_heap (evict s) = tk_heap s"
  "tk_explicit_ids (evict s) = tk_explicit_ids s" "tk_counter (evict s) = tk_counter s"
  "tk_generation (evict s) = tk_generation s" "tk_blocked (evict s) = tk_blocked s"
proof -
  let ?same = "\<lambda>t. tk_limit t = tk_limit s \<and> tk_heap t = tk_heap s \<and> tk_explicit_ids t = tk_explicit_ids s
    \<and> tk_counter t = tk_counter s \<and> tk_generation t = tk_generation s \<and> tk_blocked t = tk_blocked s"
  have "?same (evict s)" by (rule evict_rule [where P = ?same]) simp_all
  then show "tk_limit (evict s) = tk_limit s" "tk_heap (evict s) = tk_heap s"
    "tk_explicit_ids (evict s) = tk_explicit_ids s" "tk_counter (evict s) = tk_counter s"
    "tk_generation (evict s) = tk_generation s" "tk_blocked (evict s) = tk_blocked s" by simp_all
qed

lemma evict_bound: "length (tk_completed (evict s)) \<le> tk_limit s"
proof (induction s rule: evict.induct)
  case (1 s)
  then show ?case by (subst evict.simps) auto
qed

lemma evict_inv: "listed_ok s \<Longrightarrow> completed_ok s \<Longrightarrow> registry_inv (evict s)"
  unfolding registry_inv_def
  using evict_rule [of "\<lambda>s. listed_ok s \<and> completed_ok s" s] evict_oldest_keeps evict_bound [of s]
  by auto

lemma completed_handle_inv:
  assumes "registry_inv s"
  shows "registry_inv (completed_handle r s)"
proof -
  let ?i = "th_id (handle_at s r)"
  let ?s = "s\<lparr>tk_completed := tk_completed s @ [(?i, r)], tk_completed_ids := List.insert ?i (tk_completed_ids s)\<rparr>"
  show ?thesis
  proof (cases "terminal (handle_state (handle_at s r)) \<and> th_task (handle_at s r) \<noteq> None
      \<and> lookup_handle s ?i = Some r \<and> ?i \<notin> set (tk_completed_ids s)")
    case 2: True
    then have e: "completed_handle r s = evict ?s" by (auto simp: completed_handle_def Let_def)
    have "listed_ok ?s" using assms by (simp add: registry_inv_def listed_ok_def)
    moreover have "completed_ok ?s" using assms 2
      by (auto simp: registry_inv_def completed_ok_def)
    ultimately show ?thesis unfolding e by (rule evict_inv)
  next
    case False
    then have "completed_handle r s = s" by (auto simp: completed_handle_def Let_def)
    with assms show ?thesis by simp
  qed
qed

text \<open>A change of a handle that neither renames it nor makes a finished task unfinished.\<close>

lemma update_inv:
  assumes "registry_inv s" and "r < length (tk_heap s)"
    and "th_id (f (handle_at s r)) = th_id (handle_at s r)"
    and "th_reporter (f (handle_at s r)) = th_reporter (handle_at s r)"
    and "th_task (handle_at s r) \<noteq> None \<longrightarrow> th_task (f (handle_at s r)) \<noteq> None"
  shows "registry_inv (update_handle r f s)"
proof -
  have id: "th_id (handle_at (update_handle r f s) q) = th_id (handle_at s q)"
    and rep: "th_reporter (handle_at (update_handle r f s) q) = th_reporter (handle_at s q)"
    and fin: "th_task (handle_at s q) \<noteq> None \<Longrightarrow> th_task (handle_at (update_handle r f s) q) \<noteq> None" for q
    using assms(2-5) by (auto simp: handle_at_update simp del: not_None_eq)
  have "listed_ok (update_handle r f s)"
    using assms(1) fin unfolding registry_inv_def listed_ok_def id rep update_handle_simps by blast
  moreover have "completed_ok (update_handle r f s)"
    using assms(1) fin unfolding registry_inv_def completed_ok_def update_handle_simps by blast
  ultimately show ?thesis using assms(1) by (simp add: registry_inv_def)
qed

text \<open>A new handle that is listed, or that has no reporter.\<close>

lemma append_inv:
  assumes inv: "registry_inv s" and h: "\<not> th_reporter h"
  shows "registry_inv (s\<lparr>tk_heap := tk_heap s @ [h]\<rparr>)" (is "registry_inv ?s")
proof -
  have "listed_ok ?s"
    unfolding listed_ok_def
  proof (intro conjI allI impI; (elim conjE)?)
    fix i r
    assume "lookup_handle ?s i = Some r"
    then have "r < length (tk_heap s)" "th_id (handle_at s r) = i"
      using inv by (auto simp: registry_inv_def listed_ok_def)
    then show "r < length (tk_heap ?s)" "th_id (handle_at ?s r) = i" by simp_all
  next
    fix r
    assume r: "r < length (tk_heap ?s)" "th_reporter (handle_at ?s r)" "th_task (handle_at ?s r) = None"
    then have "r < length (tk_heap s)" using h by (cases "r = length (tk_heap s)") auto
    with r show "lookup_handle ?s (th_id (handle_at ?s r)) = Some r"
      using inv by (simp add: registry_inv_def listed_ok_def)
  qed
  moreover have "completed_ok ?s"
    using inv by (fastforce simp: registry_inv_def completed_ok_def listed_ok_def)
  ultimately show ?thesis using inv by (simp add: registry_inv_def)
qed

lemma append_track_inv:
  assumes inv: "registry_inv s" and new: "lookup_handle s (th_id h) = None"
    and t: "track (length (tk_heap s)) g (s\<lparr>tk_heap := tk_heap s @ [h]\<rparr>) = Inr s'"
  shows "registry_inv s'"
proof -
  let ?r = "length (tk_heap s)"
  from t new have s': "s' = s\<lparr>tk_heap := tk_heap s @ [h],
      tk_handles := AList.update (th_id h) ?r (tk_handles s),
      tk_explicit_ids := (if g then tk_explicit_ids s else List.insert (th_id h) (tk_explicit_ids s))\<rparr>"
    by (auto simp: track_def Let_def result_simps)
  have at: "handle_at s' r = (if r = ?r then h else handle_at s r)" if "r < length (tk_heap s')" for r
    using that by (auto simp: s' handle_at_def nth_append)
  have look: "lookup_handle s' i = (if i = th_id h then Some ?r else lookup_handle s i)" for i
    by (simp add: s' lookup_handle_def update_conv')
  have len: "length (tk_heap s') = Suc ?r" by (simp add: s')
  have old: "lookup_handle s i = Some r \<Longrightarrow> r < ?r \<and> th_id (handle_at s r) = i" for i r
    using inv by (auto simp: registry_inv_def listed_ok_def)
  have running: "r < ?r \<Longrightarrow> th_reporter (handle_at s r) \<Longrightarrow> th_task (handle_at s r) = None \<Longrightarrow>
      lookup_handle s (th_id (handle_at s r)) = Some r" for r
    using inv by (auto simp: registry_inv_def listed_ok_def)
  have "listed_ok s'"
    unfolding listed_ok_def
  proof (intro conjI allI impI; (elim conjE)?)
    fix i r
    assume "lookup_handle s' i = Some r"
    then show r: "r < length (tk_heap s')" using old [of i r] by (auto simp: look len split: if_splits)
    show "th_id (handle_at s' r) = i"
      using \<open>lookup_handle s' i = Some r\<close> old [of i r] by (auto simp: look at [OF r] split: if_splits)
  next
    fix r
    assume r: "r < length (tk_heap s')" "th_reporter (handle_at s' r)" "th_task (handle_at s' r) = None"
    show "lookup_handle s' (th_id (handle_at s' r)) = Some r"
    proof (cases "r = ?r")
      case True
      then have "handle_at s' r = h" using at [OF r(1)] by simp
      with True show ?thesis by (simp add: look)
    next
      case False
      with r len have "lookup_handle s (th_id (handle_at s r)) = Some r"
        by (intro running) (auto simp: at [OF r(1)])
      with new False show ?thesis by (auto simp: at [OF r(1)] look)
    qed
  qed
  moreover have "completed_ok s'"
  proof -
    have "lookup_handle s' i = Some r \<and> th_task (handle_at s' r) \<noteq> None" if "(i, r) \<in> set (tk_completed s)" for i r
    proof -
      have l: "lookup_handle s i = Some r" "th_task (handle_at s r) \<noteq> None"
        using inv that by (auto simp: registry_inv_def completed_ok_def)
      with old [OF l(1)] new len show ?thesis by (auto simp: look at)
    qed
    then show ?thesis using inv by (auto simp: registry_inv_def completed_ok_def s')
  qed
  ultimately show ?thesis using inv by (simp add: registry_inv_def s')
qed

section \<open>The operations keep the invariant\<close>

lemma registry_inv_counter [simp]: "registry_inv (s\<lparr>tk_counter := n\<rparr>) = registry_inv s"
  by (simp add: registry_inv_def listed_ok_def completed_ok_def)

lemma registry_inv_explicit [simp]: "registry_inv (s\<lparr>tk_explicit_ids := x\<rparr>) = registry_inv s"
  by (simp add: registry_inv_def listed_ok_def completed_ok_def)

lemma registry_inv_lifecycle [simp]:
  "registry_inv (s\<lparr>tk_blocked := b, tk_origin := e, tk_lifecycle_generation := g, tk_token := t\<rparr>) = registry_inv s"
  "registry_inv (s\<lparr>tk_closing := c\<rparr>) = registry_inv s"
  by (simp_all add: registry_inv_def listed_ok_def completed_ok_def lookup_handle_def handle_at_def)

lemma new_handle_simps [simp]:
  "th_id (new_handle a i p g) = i" "th_task (new_handle a i p g) = None"
  "th_reporter (new_handle a i p g) = sc_visible a"
  by (simp_all add: new_handle_def)

text \<open>The registry that \<open>start\<close> gives its id from, and that id.\<close>

definition start_counted :: "start_call \<Rightarrow> tasks \<Rightarrow> tasks" where
  "start_counted a s = (if sc_task_id a = None then s\<lparr>tk_counter := tk_counter s + 1\<rparr> else s)"

definition start_id :: "start_call \<Rightarrow> tasks \<Rightarrow> pystr" where
  "start_id a s = (case sc_task_id a of
     None \<Rightarrow> generated_id (start_counted a s) (tk_counter (start_counted a s)) | Some i \<Rightarrow> i)"

lemma start_unfold:
  assumes "sc_awaitable a" and "check_admission s = Inr ()"
    and "(if sc_persist a = Some True \<and> \<not> sc_visible a then None else sc_persist a) = Some persist"
  shows "start a s =
    (let generated = (sc_task_id a = None); s1 = start_counted a s; i = start_id a s in
     case validate_new_id i generated s1 of
       Inl e \<Rightarrow> (Inl e, sc_coroutine a, s1)
     | Inr _ \<Rightarrow>
        if \<not> sc_created a then
          (Inl (OSError ''asyncio.create_task''), sc_coroutine a,
           (if generated then s1 else s1\<lparr>tk_explicit_ids := removeAll i (tk_explicit_ids s1)\<rparr>))
        else
          let r = length (tk_heap s1);
              s2 = s1\<lparr>tk_heap := tk_heap s1 @ [new_handle a i persist (tk_generation s1)]\<rparr> in
          if sc_visible a then
            (case track r generated s2 of Inl e \<Rightarrow> (Inl e, False, s2) | Inr s3 \<Rightarrow> (Inr r, False, s3))
          else (Inr r, False,
                if generated then s2
                else s2\<lparr>tk_explicit_ids := List.insert i (tk_explicit_ids s2)\<rparr>))"
  unfolding start_def assms(2,3) start_counted_def start_id_def Let_def using assms(1) by simp

text \<open>A successful start is admitted, has a new id, and adds one handle.\<close>

lemma start_cases:
  obtains (refused) e c where "start a s = (Inl e, c, s)"
      "sc_awaitable a \<longrightarrow> c = sc_coroutine a"
      "\<not> sc_awaitable a \<or> check_admission s \<noteq> Inr () \<or> sc_persist a = None \<or> sc_persist a = Some True \<and> \<not> sc_visible a"
  | (failed) e where "start a s = (Inl e, sc_coroutine a, start_counted a s)"
      "sc_awaitable a"
      "validate_new_id (start_id a s) (sc_task_id a = None) (start_counted a s) \<noteq> Inr () \<or> \<not> sc_created a"
  | (started) persist s' where "start a s = (Inr (length (tk_heap s)), False, s')"
      "check_admission s = Inr ()"
      "validate_new_id (start_id a s) (sc_task_id a = None) (start_counted a s) = Inr ()"
      "if sc_visible a
       then track (length (tk_heap s)) (sc_task_id a = None)
          ((start_counted a s)\<lparr>tk_heap := tk_heap s @ [new_handle a (start_id a s) persist (tk_generation s)]\<rparr>) = Inr s'
       else s' = (start_counted a s)\<lparr>tk_heap := tk_heap s @ [new_handle a (start_id a s) persist (tk_generation s)],
          tk_explicit_ids := (if sc_task_id a = None then tk_explicit_ids s
            else List.insert (start_id a s) (tk_explicit_ids s))\<rparr>"
proof -
  let ?s1 = "start_counted a s" and ?i = "start_id a s" and ?g = "sc_task_id a = None"
  have heap: "tk_heap ?s1 = tk_heap s" "tk_generation ?s1 = tk_generation s"
    "tk_explicit_ids ?s1 = tk_explicit_ids s" by (simp_all add: start_counted_def)
  show thesis
  proof (cases "sc_awaitable a \<and> check_admission s = Inr () \<and> sc_persist a \<noteq> None
      \<and> \<not> (sc_persist a = Some True \<and> \<not> sc_visible a)")
    case False
    have "\<exists>e c. start a s = (Inl e, c, s) \<and> (sc_awaitable a \<longrightarrow> c = sc_coroutine a)"
    proof (cases "sc_awaitable a")
      case True
      show ?thesis
      proof (cases "check_admission s")
        case (Inl e)
        with True show ?thesis by (simp add: start_def)
      next
        case (Inr u)
        with True False have "(if sc_persist a = Some True \<and> \<not> sc_visible a then None else sc_persist a) = None"
          by auto
        with True Inr show ?thesis by (simp add: start_def)
      qed
    next
      case na: False
      then have "start a s = (Inl (TypeError ''tasks.start expects an awaitable''), False, s)"
        by (simp add: start_def)
      with na show ?thesis by blast
    qed
    then obtain e c where e: "start a s = (Inl e, c, s)" "sc_awaitable a \<longrightarrow> c = sc_coroutine a" by blast
    show thesis by (rule refused [OF e]) (use False in auto)
  next
    case True
    then obtain persist where p: "sc_awaitable a" "check_admission s = Inr ()"
      "(if sc_persist a = Some True \<and> \<not> sc_visible a then None else sc_persist a) = Some persist" by auto
    note unf = start_unfold [OF p]
    show thesis
    proof (cases "validate_new_id ?i ?g ?s1")
      case (Inl e)
      with p have "start a s = (Inl e, sc_coroutine a, ?s1)"
        by (simp add: unf Let_def)
      with Inl failed p(1) show thesis by simp
    next
      case (Inr u)
      then have v: "validate_new_id ?i ?g ?s1 = Inr ()" by simp
      show thesis
      proof (cases "sc_created a")
        case False
        have "removeAll ?i (tk_explicit_ids ?s1) = tk_explicit_ids ?s1"
          using v by (simp add: validate_new_id_ok removeAll_id)
        with p v False have "start a s = (Inl (OSError ''asyncio.create_task''), sc_coroutine a, ?s1)"
          by (simp add: unf Let_def)
        with False failed p(1) show thesis by simp
      next
        case created: True
        let ?h = "new_handle a ?i persist (tk_generation s)"
        let ?s2 = "?s1\<lparr>tk_heap := tk_heap s @ [?h]\<rparr>"
        have at: "th_id (handle_at ?s2 (length (tk_heap s))) = ?i"
          by (simp add: handle_at_def)
        have "validate_new_id ?i ?g ?s2 = Inr ()"
          using v by (simp add: validate_new_id_ok lookup_handle_def)
        then have "track (length (tk_heap s)) ?g ?s2 \<noteq> Inl e" for e
          by (simp add: track_def at Let_def)
        then obtain s3 where t: "track (length (tk_heap s)) ?g ?s2 = Inr s3"
          by (cases "track (length (tk_heap s)) ?g ?s2") auto
        show thesis
        proof (cases "sc_visible a")
          case True
          with p v created t have "start a s = (Inr (length (tk_heap s)), False, s3)"
            by (simp add: unf Let_def heap)
          with started [OF _ p(2) v, of s3 persist] t True show thesis by simp
        next
          case False
          let ?s3 = "?s1\<lparr>tk_heap := tk_heap s @ [?h], tk_explicit_ids := (if ?g then tk_explicit_ids s
            else List.insert ?i (tk_explicit_ids s))\<rparr>"
          from False p v created have "start a s = (Inr (length (tk_heap s)), False, ?s3)"
            by (simp add: unf Let_def heap)
          with started [OF _ p(2) v, of ?s3 persist] False show thesis by simp
        qed
      qed
    qed
  qed
qed

lemma start_counted_simps [simp]:
  "registry_inv (start_counted a s) = registry_inv s"
  "tk_heap (start_counted a s) = tk_heap s" "tk_explicit_ids (start_counted a s) = tk_explicit_ids s"
  "lookup_handle (start_counted a s) i = lookup_handle s i"
  "tk_generation (start_counted a s) = tk_generation s" "tk_blocked (start_counted a s) = tk_blocked s"
  "handle_at (start_counted a s) r = handle_at s r" "tk_handles (start_counted a s) = tk_handles s"
  by (simp_all add: start_counted_def)

lemma start_inv:
  assumes "registry_inv s"
  shows "registry_inv (snd (snd (start a s)))"
proof (cases rule: start_cases [of a s])
  case (refused e c)
  with assms show ?thesis by simp
next
  case (failed e)
  with assms show ?thesis by simp
next
  case (started persist s')
  let ?h = "new_handle a (start_id a s) persist (tk_generation s)" and ?s1 = "start_counted a s"
  have inv: "registry_inv ?s1" using assms by simp
  have none: "lookup_handle ?s1 (th_id ?h) = None"
    using started(3) by (simp add: validate_new_id_ok)
  have "registry_inv s'"
  proof (cases "sc_visible a")
    case True
    with started(4) show ?thesis
      using append_track_inv [OF inv none, of "sc_task_id a = None" s'] by simp
  next
    case False
    then have "registry_inv (?s1\<lparr>tk_heap := tk_heap ?s1 @ [?h]\<rparr>)" by (intro append_inv [OF inv]) simp
    then have "registry_inv (?s1\<lparr>tk_heap := tk_heap s @ [?h], tk_explicit_ids := x\<rparr>)" for x
      using registry_inv_explicit [of x "?s1\<lparr>tk_heap := tk_heap s @ [?h]\<rparr>"] by simp
    with False started(4) show ?thesis by simp
  qed
  with started(1) show ?thesis by simp
qed

lemma abort_inv [simp]: "registry_inv (abort_lifecycle e g t s) = registry_inv s"
  by (simp add: abort_lifecycle_def)

lemma begin_inv: "begin_lifecycle e g t s = Inr s' \<Longrightarrow> registry_inv s' = registry_inv s"
  by (auto simp: begin_lifecycle_def Let_def split: if_splits)

lemma reserve_inv: "registry_inv (snd (reserve_lifecycle e g t force s)) = registry_inv s"
  by (auto simp: reserve_lifecycle_def Let_def split: sum.splits dest: begin_inv)

lemma task_step_inv:
  assumes "task_step s s'" and "registry_inv s"
  shows "registry_inv s'"
  using assms
proof (cases rule: task_step.cases)
  case (Start a)
  with assms(2) start_inv show ?thesis by simp
next
  case (Report r)
  with assms(2) completed_handle_inv show ?thesis by simp
next
  case (Cell h)
  then show ?thesis using append_track_inv [OF assms(2), of h True s'] by (simp add: validate_new_id_ok)
next
  case (Lifecycle e g t)
  with assms(2) begin_inv show ?thesis by simp
next
  case (Reserve e g t force)
  with assms(2) reserve_inv show ?thesis by simp
qed (use assms(2) in \<open>simp_all add: update_inv finished_def cancel_def\<close>)

lemma tasks_init_inv: "registry_inv (tasks_init g n)"
  by (simp add: registry_inv_def listed_ok_def completed_ok_def tasks_init_def lookup_handle_def)

lemma rtranclp_invariant:
  "r\<^sup>*\<^sup>* s s' \<Longrightarrow> P s \<Longrightarrow> (\<And>s s'. r s s' \<Longrightarrow> P s \<Longrightarrow> P s') \<Longrightarrow> P s'"
  by (induction rule: rtranclp_induct) auto

lemma kernel_inv: "kernel_states g n s \<Longrightarrow> registry_inv s"
  unfolding kernel_states_def
  by (rule rtranclp_invariant [where P = registry_inv, OF _ tasks_init_inv task_step_inv])

section \<open>What never changes and what only grows\<close>

definition grows :: "tasks \<Rightarrow> tasks \<Rightarrow> bool" where
  "grows s s' \<longleftrightarrow> tk_generation s' = tk_generation s \<and> tk_limit s' = tk_limit s
     \<and> set (tk_explicit_ids s) \<subseteq> set (tk_explicit_ids s') \<and> tk_counter s \<le> tk_counter s'"

lemma grows_refl [simp]: "grows s s"
  by (simp add: grows_def)

lemma completed_handle_const [simp]:
  "tk_generation (completed_handle r s) = tk_generation s" "tk_limit (completed_handle r s) = tk_limit s"
  "tk_explicit_ids (completed_handle r s) = tk_explicit_ids s" "tk_counter (completed_handle r s) = tk_counter s"
  "tk_heap (completed_handle r s) = tk_heap s" "tk_blocked (completed_handle r s) = tk_blocked s"
  by (simp_all add: completed_handle_def Let_def)

lemma track_const:
  assumes "track r g s = Inr s'"
  shows "tk_generation s' = tk_generation s" "tk_limit s' = tk_limit s" "tk_counter s' = tk_counter s"
    "tk_heap s' = tk_heap s" "tk_blocked s' = tk_blocked s"
    "set (tk_explicit_ids s) \<subseteq> set (tk_explicit_ids s')"
    "\<not> g \<Longrightarrow> lookup_handle s (th_id (handle_at s r)) \<noteq> Some r \<Longrightarrow> th_id (handle_at s r) \<in> set (tk_explicit_ids s')"
    "g \<Longrightarrow> tk_explicit_ids s' = tk_explicit_ids s"
    "lookup_handle s' i = (if i = th_id (handle_at s r) then Some r else lookup_handle s i)"
  using assms by (auto simp: track_def Let_def result_simps lookup_handle_def update_conv' split: if_splits)

lemma started_const:
  assumes t: "if sc_visible a
       then track (length (tk_heap s)) (sc_task_id a = None)
          ((start_counted a s)\<lparr>tk_heap := tk_heap s @ [new_handle a (start_id a s) persist (tk_generation s)]\<rparr>) = Inr s'
       else s' = (start_counted a s)\<lparr>tk_heap := tk_heap s @ [new_handle a (start_id a s) persist (tk_generation s)],
          tk_explicit_ids := (if sc_task_id a = None then tk_explicit_ids s
            else List.insert (start_id a s) (tk_explicit_ids s))\<rparr>"
    and new: "validate_new_id (start_id a s) (sc_task_id a = None) (start_counted a s) = Inr ()"
  shows "tk_generation s' = tk_generation s" "tk_limit s' = tk_limit s"
    "tk_counter s' = tk_counter (start_counted a s)"
    "set (tk_explicit_ids s') = set (tk_explicit_ids s) \<union> (if sc_task_id a = None then {} else {start_id a s})"
    "lookup_handle s' i = (if i = start_id a s \<and> sc_visible a then Some (length (tk_heap s)) else lookup_handle s i)"
    "tk_heap s' = tk_heap s @ [new_handle a (start_id a s) persist (tk_generation s)]"
proof -
  let ?h = "new_handle a (start_id a s) persist (tk_generation s)"
  let ?s2 = "(start_counted a s)\<lparr>tk_heap := tk_heap s @ [?h]\<rparr>"
  have at: "th_id (handle_at ?s2 (length (tk_heap s))) = start_id a s" by (simp add: handle_at_def)
  have none: "lookup_handle ?s2 (start_id a s) = None" "start_id a s \<notin> set (tk_explicit_ids s)"
    using new by (simp_all add: validate_new_id_ok lookup_handle_def)
  have lim: "tk_limit (start_counted a s) = tk_limit s" by (simp add: start_counted_def)
  note all = at none lim lookup_handle_def update_conv' track_def Let_def result_simps
  show "tk_generation s' = tk_generation s" "tk_limit s' = tk_limit s"
    "tk_counter s' = tk_counter (start_counted a s)"
    "set (tk_explicit_ids s') = set (tk_explicit_ids s) \<union> (if sc_task_id a = None then {} else {start_id a s})"
    "lookup_handle s' i = (if i = start_id a s \<and> sc_visible a then Some (length (tk_heap s)) else lookup_handle s i)"
    "tk_heap s' = tk_heap s @ [?h]"
    using t none by (auto simp: all split: if_splits)
qed

lemma start_counted_grows [simp]: "grows s (start_counted a s)"
  by (simp add: grows_def start_counted_def)

lemma start_grows: "grows s (snd (snd (start a s)))"
proof (cases rule: start_cases [of a s])
  case (started persist s')
  have "tk_counter s \<le> tk_counter (start_counted a s)" by (simp add: start_counted_def)
  with started_const [OF started(4,3)] started(1) show ?thesis by (simp add: grows_def)
qed simp_all

lemma lifecycle_grows:
  "begin_lifecycle e g t s = Inr s' \<Longrightarrow> grows s s'"
  "grows s (abort_lifecycle e g t s)"
  "grows s (snd (reserve_lifecycle e g t force s))"
  by (auto simp: begin_lifecycle_def abort_lifecycle_def reserve_lifecycle_def grows_def Let_def
      split: if_splits sum.splits)

lemma task_step_grows:
  assumes "task_step s s'"
  shows "grows s s'"
  using assms
proof (cases rule: task_step.cases)
  case (Cell h)
  from track_const [OF Cell(4)] show ?thesis by (simp add: grows_def)
qed (auto simp: start_grows lifecycle_grows, auto simp: grows_def)

lemma grows_trans: "grows a b \<Longrightarrow> grows b c \<Longrightarrow> grows a c"
  by (auto simp: grows_def)

lemma task_steps_grow: "task_step\<^sup>*\<^sup>* s s' \<Longrightarrow> grows s s'"
  by (rule rtranclp_invariant [where P = "grows s"], assumption, simp) (blast intro: task_step_grows grows_trans)

section \<open>Generated ids\<close>

lemma splits_mem: "(a, b) \<in> set (splits (a @ b))"
  by (induction a) (auto, cases b, auto)

lemma digits_inj [simp]: "digits_of_nat m = digits_of_nat n \<longleftrightarrow> m = n"
  by (metis int_of_digits_of_nat)

lemma generated_id_reserved:
  assumes "some_line (tk_generation s)"
  shows "task_id_match (generated_id s n)" and "\<not> hex_id (generated_id s n)"
proof -
  let ?g = "tk_generation s" and ?d = "of_char CHR ''-'' # digits_of_nat n"
  have "(?g, ?d) \<in> set (splits (?g @ ?d))" by (rule splits_mem)
  moreover have "list_all is_digit (digits_of_nat n)"
    using digits_of_nat_digits by (simp add: list_all_iff)
  ultimately have "list_ex (\<lambda>(a, b). some_line a \<and> (case b of
           [] \<Rightarrow> False | c # ds \<Rightarrow> c = of_char CHR ''-'' \<and> ds \<noteq> [] \<and> list_all is_digit ds)) (splits (?g @ ?d))"
    using assms by (auto simp: list_ex_iff intro!: bexI [of _ "(?g, ?d)"])
  moreover have "strip_prefix (lit ''task-'') (generated_id s n) = Some (?g @ ?d)"
    unfolding generated_id_def by (rule strip_prefix_append)
  ultimately show "task_id_match (generated_id s n)"
    unfolding task_id_match_def by simp
  show "\<not> hex_id (generated_id s n)"
    by (simp add: generated_id_def hex_id_def is_hex_def)
qed

lemma generated_id_inj: "tk_generation s = tk_generation s' \<Longrightarrow> generated_id s m = generated_id s' n \<longleftrightarrow> m = n"
  by (simp add: generated_id_def)

lemma generated_id_counter [simp]: "generated_id (s\<lparr>tk_counter := m\<rparr>) n = generated_id s n"
  by (simp add: generated_id_def)

definition ids_free :: "tasks \<Rightarrow> bool" where
  "ids_free s \<longleftrightarrow> (\<forall>n > tk_counter s. lookup_handle s (generated_id s n) = None
     \<and> generated_id s n \<notin> set (tk_explicit_ids s))"

lemma ids_free_from:
  assumes "ids_free s" and "tk_generation s' = tk_generation s" and "tk_counter s \<le> tk_counter s'"
    and "\<And>i. lookup_handle s' i \<noteq> None \<or> i \<in> set (tk_explicit_ids s') \<Longrightarrow>
      lookup_handle s i \<noteq> None \<or> i \<in> set (tk_explicit_ids s) \<or> (\<forall>n > tk_counter s'. i \<noteq> generated_id s n)"
  shows "ids_free s'"
proof -
  have eq: "generated_id s' n = generated_id s n" for n using assms(2) by (simp add: generated_id_def)
  show ?thesis
    unfolding ids_free_def eq
  proof (intro allI impI)
    fix n assume n: "tk_counter s' < n"
    with assms(1,3) have "lookup_handle s (generated_id s n) = None" "generated_id s n \<notin> set (tk_explicit_ids s)"
      by (auto simp: ids_free_def)
    with assms(4) [of "generated_id s n"] n
    show "lookup_handle s' (generated_id s n) = None \<and> generated_id s n \<notin> set (tk_explicit_ids s')" by blast
  qed
qed

lemma evict_lookup: "lookup_handle (evict s) i \<noteq> None \<Longrightarrow> lookup_handle s i \<noteq> None"
proof -
  have "lookup_handle (evict s) i \<noteq> None \<longrightarrow> lookup_handle s i \<noteq> None"
    by (rule evict_rule [where P = "\<lambda>t. lookup_handle t i \<noteq> None \<longrightarrow> lookup_handle s i \<noteq> None"])
      (auto simp: evict_oldest_def lookup_handle_def delete_conv' split: list.splits if_splits)
  then show "lookup_handle (evict s) i \<noteq> None \<Longrightarrow> lookup_handle s i \<noteq> None" by simp
qed

lemma completed_handle_lookup: "lookup_handle (completed_handle r s) i \<noteq> None \<Longrightarrow> lookup_handle s i \<noteq> None"
  using evict_lookup by (fastforce simp: completed_handle_def Let_def lookup_handle_def split: if_splits)

lemma start_ids_free:
  assumes "ids_free s" and gen: "some_line (tk_generation s)"
  shows "ids_free (snd (snd (start a s)))"
proof (cases rule: start_cases [of a s])
  case (refused e c)
  with assms show ?thesis by simp
next
  case (failed e)
  have "ids_free (start_counted a s)"
    by (rule ids_free_from [OF assms(1)]) (auto simp: start_counted_def)
  with failed show ?thesis by simp
next
  case (started persist s')
  note c = started_const [OF started(4,3)]
  have fresh: "start_id a s \<noteq> generated_id s n" if "tk_counter (start_counted a s) < n" for n
  proof (cases "sc_task_id a")
    case None
    then show ?thesis using that by (simp add: start_id_def start_counted_def generated_id_inj [OF refl])
  next
    case (Some i)
    with started(3) have "\<not> reserved_generated_id (start_id a s)"
      by (simp add: validate_new_id_ok)
    with generated_id_reserved [OF gen] show ?thesis by (auto simp: reserved_generated_id_def)
  qed
  have "ids_free s'"
  proof (rule ids_free_from [OF assms(1) c(1)])
    show "tk_counter s \<le> tk_counter s'" by (simp add: c start_counted_def)
    show "lookup_handle s i \<noteq> None \<or> i \<in> set (tk_explicit_ids s) \<or> (\<forall>n > tk_counter s'. i \<noteq> generated_id s n)"
      if "lookup_handle s' i \<noteq> None \<or> i \<in> set (tk_explicit_ids s')" for i
      using that fresh by (cases "i = start_id a s") (auto simp: c split: if_splits)
  qed
  with started(1) show ?thesis by simp
qed

text \<open>The other steps leave the ids alone.\<close>

definition same_ids :: "tasks \<Rightarrow> tasks \<Rightarrow> bool" where
  "same_ids s s' \<longleftrightarrow> tk_handles s' = tk_handles s \<and> tk_explicit_ids s' = tk_explicit_ids s
     \<and> tk_counter s' = tk_counter s \<and> tk_generation s' = tk_generation s"

lemma same_ids_free: "same_ids s s' \<Longrightarrow> ids_free s \<Longrightarrow> ids_free s'"
  by (rule ids_free_from) (auto simp: same_ids_def lookup_handle_def)

lemma lifecycle_same_ids:
  "begin_lifecycle e g t s = Inr s' \<Longrightarrow> same_ids s s'"
  "same_ids s (abort_lifecycle e g t s)"
  "same_ids s (snd (reserve_lifecycle e g t force s))"
  by (auto simp: begin_lifecycle_def abort_lifecycle_def reserve_lifecycle_def same_ids_def Let_def
      split: if_splits sum.splits)

lemma task_step_ids_free:
  assumes "task_step s s'" and "ids_free s" and gen: "some_line (tk_generation s)"
  shows "ids_free s'"
  using assms(1)
proof (cases rule: task_step.cases)
  case (Start a)
  with start_ids_free assms show ?thesis by simp
next
  case (Report r)
  then show ?thesis
    by (intro ids_free_from [OF assms(2)]) (use completed_handle_lookup in \<open>auto simp del: not_None_eq\<close>)
next
  case (Cell h)
  note c = track_const [OF Cell(4)]
  have "th_id h \<noteq> generated_id s n" for n using generated_id_reserved(2) [OF gen] Cell(1) by metis
  then show ?thesis
    by (intro ids_free_from [OF assms(2)]) (auto simp: c split: if_splits)
next
  case (Lifecycle e g t)
  with lifecycle_same_ids(1) show ?thesis using same_ids_free assms(2) by blast
next
  case (Reserve e g t force)
  then show ?thesis using same_ids_free [OF lifecycle_same_ids(3)] assms(2) by simp
next
  case (Abort e g t)
  then show ?thesis using same_ids_free [OF lifecycle_same_ids(2)] assms(2) by simp
qed (use same_ids_free [OF _ assms(2)] in \<open>simp_all add: same_ids_def\<close>)

lemma kernel_ids_free:
  assumes "kernel_states g n s" and "some_line g"
  shows "ids_free s \<and> tk_generation s = g"
proof (rule rtranclp_invariant [where P = "\<lambda>s. ids_free s \<and> tk_generation s = g", OF assms(1) [unfolded kernel_states_def]])
  show "ids_free (tasks_init g n) \<and> tk_generation (tasks_init g n) = g"
    by (simp add: ids_free_def tasks_init_def lookup_handle_def)
  fix s s' assume "task_step s s'" "ids_free s \<and> tk_generation s = g"
  with assms(2) show "ids_free s' \<and> tk_generation s' = g"
    using task_step_ids_free task_step_grows by (auto simp: grows_def)
qed

section \<open>Properties\<close>


text \<open>
  an id that a caller once gave to a started task is refused for ever after, visible or not and
  whether or not the task is still listed.
\<close>

theorem explicit_ids_once:
  assumes "start a s = (Inr r, c, s')" and "sc_task_id a = Some i"
    and "task_step\<^sup>*\<^sup>* s' s''" and "sc_task_id b = Some i"
  shows "\<exists>e. fst (start b s'') = Inl e"
proof -
  have "i \<in> set (tk_explicit_ids s')"
  proof (cases rule: start_cases [of a s])
    case (started persist s1)
    from started_const(4) [OF started(4,3)] assms(1,2) started(1) show ?thesis by (simp add: start_id_def)
  qed (use assms(1) in simp_all)
  with task_steps_grow [OF assms(3)] have "i \<in> set (tk_explicit_ids s'')" by (auto simp: grows_def)
  then have bad: "validate_new_id (start_id b s'') False (start_counted b s'') \<noteq> Inr ()"
    using assms(4) by (simp add: validate_new_id_ok start_id_def)
  show ?thesis by (cases rule: start_cases [of b s'']) (use assms(4) bad in auto)
qed

text \<open>
  a generated id is never taken: an admitted start without an id succeeds unless the event loop
  refuses the task.
\<close>

theorem generated_ids_fresh:
  assumes "kernel_states generation limit s" and "some_line generation"
    and "sc_awaitable a" and "check_admission s = Inr ()" and "sc_task_id a = None"
    and "sc_persist a = Some p" and "p \<longrightarrow> sc_visible a" and "sc_created a"
  shows "\<exists>s'. start a s = (Inr (length (tk_heap s)), False, s')
    \<and> th_id (handle_at s' (length (tk_heap s))) = generated_id s (tk_counter s + 1)"
proof -
  from kernel_ids_free [OF assms(1,2)] have free: "ids_free s" by simp
  have i: "start_id a s = generated_id s (tk_counter s + 1)"
    using assms(5) by (simp add: start_id_def start_counted_def)
  have ok: "validate_new_id (start_id a s) True (start_counted a s) = Inr ()"
    using free by (simp add: i validate_new_id_ok ids_free_def) (simp add: generated_id_def)
  show ?thesis
  proof (cases rule: start_cases [of a s])
    case (started persist s')
    from started_const(6) [OF started(4,3)] started(1) i show ?thesis by (simp add: handle_at_def)
  qed (use assms ok in auto)
qed

text \<open>
  a refused start closes the coroutine it was given, unless it was not awaitable at all, and
  starts nothing; an accepted one leaves the coroutine to its task.
\<close>

theorem start_owns_coroutine:
  "case start a s of
     (Inl e, closed, s') \<Rightarrow> closed = (sc_awaitable a \<and> sc_coroutine a) \<and> tk_heap s' = tk_heap s
        \<and> tk_handles s' = tk_handles s \<and> tk_explicit_ids s' = tk_explicit_ids s
   | (Inr r, closed, s') \<Rightarrow> \<not> closed \<and> length (tk_heap s') = Suc (length (tk_heap s))
        \<and> th_task (handle_at s' r) = None \<and> check_admission s = Inr ()"
proof (cases rule: start_cases [of a s])
  case (refused e c)
  show ?thesis
  proof (cases "sc_awaitable a")
    case False
    then have "c = False" using refused(1) by (simp add: start_def)
    with False refused(1) show ?thesis by simp
  qed (use refused in simp)
next
  case (failed e)
  with failed show ?thesis by simp
next
  case (started persist s')
  with started_const(6) [OF started(4,3)] show ?thesis by (simp add: handle_at_def)
qed

text \<open>
  a reservation that is not forced succeeds only when no task but the caller's own is active,
  and then no task can be started until it is given back; a refused one leaves the registry open.
\<close>

theorem reservation_excludes:
  "case reserve_lifecycle e g t False s of
     (Inr x, s') \<Rightarrow> tk_blocked s' \<and> (\<exists>m. check_admission s' = Inl (RuntimeError m))
        \<and> filter (\<lambda>r. Some (th_id (handle_at s' r)) \<noteq> e) (active s') = []
   | (Inl err, s') \<Rightarrow> tk_handles s' = tk_handles s \<and> tk_heap s' = tk_heap s
        \<and> tk_blocked s' \<le> tk_blocked s"
proof -
  let ?t = "if t = None then e else t"
  show ?thesis
  proof (cases "begin_lifecycle e g ?t s")
    case (Inl err)
    then show ?thesis by (auto simp: reserve_lifecycle_def Let_def le_bool_def)
  next
    case (Inr s1)
    have b: "tk_blocked s1" "tk_handles s1 = tk_handles s" "tk_heap s1 = tk_heap s"
      using Inr by (auto simp: begin_lifecycle_def Let_def split: if_splits)
    have own: "tk_lifecycle_generation s1 = Some (tk_generation s1) \<and> tk_origin s1 = e \<and> tk_token s1 = ?t"
      using Inr by (auto simp: begin_lifecycle_def Let_def split: if_splits)
    show ?thesis
    proof (cases "active_lifecycle_handles s1 e = []")
      case True
      then show ?thesis using Inr b(1)
        by (auto simp: reserve_lifecycle_def Let_def check_admission_def active_lifecycle_handles_def)
    next
      case False
      then show ?thesis using Inr b own
        by (simp add: reserve_lifecycle_def Let_def abort_lifecycle_def le_bool_def)
    qed
  qed
qed

section \<open>Examples\<close>

definition sample_start :: "pystr option \<Rightarrow> start_call" where
  "sample_start i = \<lparr>sc_awaitable = True, sc_coroutine = True, sc_task_id = i, sc_visible = True,
     sc_persist = Some False, sc_created = True, sc_now = 7, sc_client = None, sc_exec = None,
     sc_output_limit = 64\<rparr>"

definition sample_tasks :: tasks where
  "sample_tasks = snd (snd (start (sample_start (Some (lit ''build''))) (tasks_init (lit ''local'') 1)))"

lemma sample_tasks_reachable: "kernel_states (lit ''local'') 1 sample_tasks"
  unfolding kernel_states_def sample_tasks_def by (intro r_into_rtranclp task_step.Start)


lemma sample_tasks_start:
  "start (sample_start (Some (lit ''build''))) (tasks_init (lit ''local'') 1) = (Inr 0, False, sample_tasks)"
proof -
  have "fst (start (sample_start (Some (lit ''build''))) (tasks_init (lit ''local'') 1)) = Inr 0"
    "fst (snd (start (sample_start (Some (lit ''build''))) (tasks_init (lit ''local'') 1))) = False"
    by code_simp+
  then show ?thesis by (metis sample_tasks_def prod.collapse)
qed

theorem explicit_ids_once_witness:
  "\<exists>e. fst (start (sample_start (Some (lit ''build''))) (completed_handle 0 (update_handle 0 (finished 9 (Returned 3)) sample_tasks))) = Inl e"
proof (rule explicit_ids_once [OF sample_tasks_start])
  let ?s = "update_handle 0 (finished 9 (Returned 3)) sample_tasks"
  have len: "0 < length (tk_heap sample_tasks)" and run: "th_task (handle_at sample_tasks 0) = None" by code_simp+
  have "task_step sample_tasks ?s" by (rule task_step.Finish [OF len run])
  moreover have "task_step ?s (completed_handle 0 ?s)" by (rule task_step.Report) (use len in simp)
  ultimately show "task_step\<^sup>*\<^sup>* sample_tasks (completed_handle 0 ?s)" by (rule rtranclp.rtrancl_into_rtrancl [OF r_into_rtranclp])
qed (simp_all add: sample_start_def)

theorem generated_ids_fresh_witness:
  "\<exists>s'. start (sample_start None) sample_tasks = (Inr (length (tk_heap sample_tasks)), False, s')
    \<and> th_id (handle_at s' (length (tk_heap sample_tasks))) = generated_id sample_tasks (tk_counter sample_tasks + 1)"
proof (rule generated_ids_fresh [OF sample_tasks_reachable, where p = False])
  show "check_admission sample_tasks = Inr ()" by code_simp
qed (simp_all add: sample_start_def some_line_def)

end
