(* ===== verification/Task_Output.thy ===== *)
theory Task_Output
  imports Complex_Main Tasks Paging Config_Values
begin

text \<open>
  Reading a task's output by opaque cursors: \<open>TaskHandle.read\<close> and \<open>TaskHandle.expect\<close> with their
  waiting loops.  The loop looks at the task each time the event loop wakes it, so its input is the
  list of what it finds: the handle and the clock in seconds; \<open>None\<close> is a loop that is still
  waiting when the list ends.  The text form of a cursor (\<open>json\<close>, \<open>base64\<close>) is a pair of functions.
\<close>

record codec =
  cd_pack :: "table \<Rightarrow> pystr"
  cd_unpack :: "pystr \<Rightarrow> pyval option"     \<comment> \<open>none: not base64 or not JSON\<close>

section \<open>Cursors\<close>

definition cursor_table :: "pystr \<Rightarrow> pystr \<Rightarrow> pystr \<Rightarrow> nat \<Rightarrow> table" where
  "cursor_table i g sel offset =
    [(lit ''v'', PInt 1), (lit ''id'', PStr i), (lit ''generation'', PStr g),
     (lit ''stream'', PStr sel), (lit ''offset'', PInt (int offset))]"

definition encode_cursor :: "codec \<Rightarrow> task_handle \<Rightarrow> pystr \<Rightarrow> nat \<Rightarrow> pystr" where
  "encode_cursor cd h sel offset =
    lit ''mypr1.'' @ cd_pack cd (cursor_table (th_id h) (th_generation h) sel offset)"

definition decode_cursor :: "codec \<Rightarrow> task_handle \<Rightarrow> pystr option \<Rightarrow> pystr \<Rightarrow> nat result" where
  "decode_cursor cd h cursor sel =
    (case cursor of
       None \<Rightarrow> Inr 0
     | Some c \<Rightarrow>
        (case strip_prefix (lit ''mypr1.'') c of
           None \<Rightarrow> Inl (ValueError ''invalid output cursor'')
         | Some body \<Rightarrow>
            (case cd_unpack cd body of
               None \<Rightarrow> Inl (ValueError ''invalid output cursor'')
             | Some (PDict d) \<Rightarrow>
                (case get d (lit ''offset'') of
                   Some (PInt n) \<Rightarrow>
                     if py_eq (get_or d (lit ''v'') PNone) (PInt 1)
                       \<and> get d (lit ''id'') = Some (PStr (th_id h))
                       \<and> get d (lit ''generation'') = Some (PStr (th_generation h))
                       \<and> get d (lit ''stream'') = Some (PStr sel) \<and> 0 \<le> n
                     then Inr (nat n)
                     else Inl (ValueError ''output cursor does not belong to this task'')
                 | _ \<Rightarrow> Inl (ValueError ''output cursor does not belong to this task''))
             | Some _ \<Rightarrow> Inl (ValueError ''output cursor does not belong to this task''))))"

text \<open>\<open>_output_buffer_for\<close>: the text and the truncation flag of the buffer or of one stream.\<close>

definition known_stream :: "pystr option \<Rightarrow> bool" where
  "known_stream name = (name \<in> {None, Some (lit ''all''), Some (lit ''stdout''), Some (lit ''stderr'')})"

definition selected_stream :: "pystr option \<Rightarrow> pystr" where
  "selected_stream name = (case name of None \<Rightarrow> lit ''all'' | Some s \<Rightarrow> s)"

definition view_text :: "output_buffer \<Rightarrow> pystr option \<Rightarrow> pystr" where
  "view_text b name = fst (ob_get b name)"

definition view_cut :: "output_buffer \<Rightarrow> pystr option \<Rightarrow> bool" where
  "view_cut b name =
    (if name = Some (lit ''stdout'') \<or> name = Some (lit ''stderr'')
     then view_truncated b (stream_of name) else ob_truncated b)"

section \<open>Reading\<close>

record output_page =
  op_id :: pystr
  op_output :: pystr
  op_cursor :: pystr
  op_has_more :: bool
  op_state :: task_state
  op_truncated :: bool
  op_warnings :: "(pystr \<times> pystr) list"

definition rpc_limit :: int where "rpc_limit = 33554432"

definition make_page ::
  "codec \<Rightarrow> task_handle \<Rightarrow> pystr option \<Rightarrow> pystr \<times> nat \<Rightarrow> output_page result" where
  "make_page cd h name page =
    rbind (utf8_encode (view_text (th_buffer h) name)) (\<lambda>raw.
      Inr \<lparr>op_id = th_id h, op_output = fst page,
        op_cursor = encode_cursor cd h (selected_stream name) (snd page),
        op_has_more = (snd page < length raw), op_state = handle_state h,
        op_truncated = view_cut (th_buffer h) name, op_warnings = th_result_warnings h\<rparr>)"

fun read_loop ::
  "codec \<Rightarrow> pystr option \<Rightarrow> nat \<Rightarrow> nat \<Rightarrow> int \<Rightarrow> rat \<Rightarrow> (task_handle \<times> rat) list
     \<Rightarrow> output_page result option" where
  "read_loop cd name offset max_bytes wait_ms deadline [] = None"
| "read_loop cd name offset max_bytes wait_ms deadline ((h, now) # later) =
    (case page_text (view_text (th_buffer h) name) offset max_bytes of
       Inl e \<Rightarrow> Some (Inl e)
     | Inr page \<Rightarrow>
        if fst page \<noteq> [] \<or> terminal (handle_state h) \<or> wait_ms = 0 \<or> deadline \<le> now
        then Some (make_page cd h name page)
        else read_loop cd name offset max_bytes wait_ms deadline later)"

text \<open>\<open>read\<close>: \<open>start\<close> is the handle and the clock when it is called.\<close>

definition read_output ::
  "codec \<Rightarrow> pystr option \<Rightarrow> pystr option \<Rightarrow> int \<Rightarrow> int \<Rightarrow> task_handle \<times> rat
     \<Rightarrow> (task_handle \<times> rat) list \<Rightarrow> output_page result option" where
  "read_output cd cursor name max_bytes wait_ms begun seen =
    (if \<not> (0 \<le> max_bytes \<and> max_bytes \<le> rpc_limit) then
       Some (Inl (ValueError ''max_bytes must be an integer between 0 and the RPC limit''))
     else if \<not> (0 \<le> wait_ms \<and> wait_ms \<le> 30000) then
       Some (Inl (ValueError ''wait_ms must be an integer between 0 and 30000''))
     else if \<not> known_stream name then
       Some (Inl (ValueError ''stream must be all, stdout, or stderr''))
     else case decode_cursor cd (fst begun) cursor (selected_stream name) of
         Inl e \<Rightarrow> Some (Inl e)
       | Inr offset \<Rightarrow> read_loop cd name offset (nat max_bytes) wait_ms (snd begun + of_int wait_ms / 1000) seen)"

section \<open>Expecting\<close>

text \<open>\<open>s.find(p)\<close>.\<close>

fun find_in :: "pystr \<Rightarrow> pystr \<Rightarrow> nat option" where
  "find_in p [] = (if p = [] then Some 0 else None)"
| "find_in p (c # s) = (if starts_with p (c # s) then Some 0 else map_option Suc (find_in p s))"

datatype expect_reason = Match | Limit | Eof | Timed_Out

record expect_page =
  ep_id :: pystr
  ep_matched :: bool
  ep_reason :: expect_reason
  ep_match :: "pystr option"
  ep_cursor :: pystr
  ep_scanned :: pystr
  ep_state :: task_state

text \<open>
  A pattern: a literal, or a compiled regular expression as the function that gives the end of the
  first match and the text it matched.
\<close>

datatype pattern = Literal pystr | Regex "pystr \<Rightarrow> (nat \<times> pystr) option"

definition search :: "pattern \<Rightarrow> pystr \<Rightarrow> (nat \<times> pystr) option" where
  "search p s = (case p of
      Literal q \<Rightarrow> map_option (\<lambda>i. (i + length q, q)) (find_in q s)
    | Regex f \<Rightarrow> f s)"

definition make_expect ::
  "codec \<Rightarrow> task_handle \<Rightarrow> pystr option \<Rightarrow> expect_reason \<Rightarrow> pystr option \<Rightarrow> nat \<Rightarrow> nat \<Rightarrow> expect_page" where
  "make_expect cd h name why m cursor scanned =
    \<lparr>ep_id = th_id h, ep_matched = (why = Match), ep_reason = why, ep_match = m,
      ep_cursor = encode_cursor cd h (selected_stream name) cursor,
      ep_scanned = encode_cursor cd h (selected_stream name) scanned, ep_state = handle_state h\<rparr>"

fun expect_loop ::
  "codec \<Rightarrow> pystr option \<Rightarrow> pattern \<Rightarrow> nat \<Rightarrow> nat \<Rightarrow> rat \<Rightarrow> (task_handle \<times> rat) list
     \<Rightarrow> expect_page result option" where
  "expect_loop cd name pat origin limit deadline [] = None"
| "expect_loop cd name pat origin limit deadline ((h, now) # later) =
    (case utf8_encode (view_text (th_buffer h) name) of
       Inl e \<Rightarrow> Some (Inl e)
     | Inr raw \<Rightarrow>
        let available = utf8_decode_ignore (take limit (drop origin raw));
            scanned = origin + length (utf8_bytes available) in
        case search pat available of
          Some (stop, m) \<Rightarrow>
            Some (Inr (make_expect cd h name Match (Some m)
              (origin + length (utf8_bytes (take stop available))) scanned))
        | None \<Rightarrow>
           if limit < length raw - origin then Some (Inr (make_expect cd h name Limit None origin scanned))
           else if terminal (handle_state h) then
             Some (Inr (make_expect cd h name Eof None origin scanned))
           else if deadline \<le> now then Some (Inr (make_expect cd h name Timed_Out None origin scanned))
           else expect_loop cd name pat origin limit deadline later)"

text \<open>
  \<open>expect\<close>: the timeout is none when it is not a finite non-negative number, the expression when
  it does not compile.
\<close>

definition expect_output ::
  "codec \<Rightarrow> pystr option \<Rightarrow> pystr option \<Rightarrow> pystr \<Rightarrow> pattern option \<Rightarrow> rat option \<Rightarrow> int
     \<Rightarrow> task_handle \<times> rat \<Rightarrow> (task_handle \<times> rat) list \<Rightarrow> expect_page result option" where
  "expect_output cd cursor name pat compiled timeout max_scan begun seen =
    (if pat = [] then Some (Inl (ValueError ''pattern must be a non-empty string''))
     else case timeout of
       None \<Rightarrow> Some (Inl (ValueError ''timeout must be a finite non-negative number''))
     | Some t \<Rightarrow>
        if max_scan < 0 then Some (Inl (ValueError ''max_scan_bytes must be a non-negative integer''))
        else if \<not> known_stream name then Some (Inl (ValueError ''stream must be all, stdout, or stderr''))
        else case decode_cursor cd (fst begun) cursor (selected_stream name) of
            Inl e \<Rightarrow> Some (Inl e)
          | Inr origin \<Rightarrow>
             (case compiled of
                None \<Rightarrow> Some (Inl (ValueError ''invalid regular expression''))
              | Some p \<Rightarrow> expect_loop cd name p origin (nat max_scan) (snd begun + min t 30) seen))"

section \<open>Cursors round trip\<close>

text \<open>The text form of a cursor, which \<open>json\<close> and \<open>base64\<close> give back.\<close>

definition codec_ok :: "codec \<Rightarrow> bool" where
  "codec_ok cd \<longleftrightarrow> (\<forall>i g sel offset. cd_unpack cd (cd_pack cd (cursor_table i g sel offset))
     = Some (PDict (cursor_table i g sel offset)))"

lemma py_eq_refl_int [simp]: "py_eq (PInt n) (PInt n)"
  by (subst py_eq.simps) (simp add: num_of_def)

lemma cursor_roundtrip_aux:
  assumes "codec_ok cd"
  shows "decode_cursor cd h' (Some (encode_cursor cd h sel offset)) sel' =
    (if th_id h' = th_id h \<and> th_generation h' = th_generation h \<and> sel' = sel then Inr offset
     else Inl (ValueError ''output cursor does not belong to this task''))"
proof -
  have "strip_prefix (lit ''mypr1.'') (encode_cursor cd h sel offset) =
      Some (cd_pack cd (cursor_table (th_id h) (th_generation h) sel offset))"
    unfolding encode_cursor_def by (rule strip_prefix_append)
  with assms show ?thesis
    by (auto simp: decode_cursor_def codec_ok_def get_or_def cursor_table_def)
qed

text \<open>
  A cursor is accepted exactly by the task, generation and stream it was made for, and means
  the offset it was made with.
\<close>

theorem cursor_roundtrip:
  assumes "codec_ok cd"
  shows "decode_cursor cd h' (Some (encode_cursor cd h sel offset)) sel' =
    (if th_id h' = th_id h \<and> th_generation h' = th_generation h \<and> sel' = sel then Inr offset
     else Inl (ValueError ''output cursor does not belong to this task''))"
  using assms by (rule cursor_roundtrip_aux)

section \<open>Reading returns, and returns everything\<close>

text \<open>A look at the task at which the loop must answer.\<close>

definition settled :: "int \<Rightarrow> rat \<Rightarrow> task_handle \<times> rat \<Rightarrow> bool" where
  "settled wait_ms deadline v \<longleftrightarrow> terminal (handle_state (fst v)) \<or> wait_ms = 0 \<or> deadline \<le> snd v"

lemma read_loop_returns:
  "list_ex (settled wait_ms deadline) seen \<Longrightarrow> read_loop cd name off n wait_ms deadline seen \<noteq> None"
proof (induction seen)
  case (Cons o' seen)
  obtain h now where "o' = (h, now)" by (cases o')
  with Cons show ?case by (auto simp: settled_def split: sum.splits)
qed simp


text \<open>One read of a task that does not change, without waiting, as a page and its successor.\<close>

type_synonym reader = "codec \<times> pystr option \<times> int \<times> task_handle"

definition read_page :: "reader \<Rightarrow> pystr option \<Rightarrow> exc + (nat list \<times> pystr option option)" where
  "read_page rd c =
    (case rd of (cd, name, n, h) \<Rightarrow>
      (case read_output cd c name n 0 (h, 0) [(h, 0)] of
         Some (Inr p) \<Rightarrow> Inr (op_output p, if op_has_more p then Some (Some (op_cursor p)) else None)
       | Some (Inl e) \<Rightarrow> Inl e
       | None \<Rightarrow> Inl TimeoutError))"

definition reader_text :: "reader \<Rightarrow> pystr" where
  "reader_text rd = (case rd of (cd, name, n, h) \<Rightarrow> view_text (th_buffer h) name)"

definition reader_ok :: "reader \<Rightarrow> bool" where
  "reader_ok rd \<longleftrightarrow> (case rd of (cd, name, n, h) \<Rightarrow> codec_ok cd \<and> 4 \<le> n \<and> n \<le> rpc_limit
     \<and> known_stream name \<and> list_all is_scalar (view_text (th_buffer h) name))"

definition reader_offset :: "reader \<Rightarrow> pystr option \<Rightarrow> nat result" where
  "reader_offset rd c = (case rd of (cd, name, n, h) \<Rightarrow> decode_cursor cd h c (selected_stream name))"

definition cursor_valid :: "reader \<Rightarrow> pystr option \<Rightarrow> bool" where
  "cursor_valid rd c \<longleftrightarrow> reader_ok rd \<and>
     (\<exists>pre post. reader_text rd = pre @ post \<and> reader_offset rd c = Inr (length (utf8_bytes pre)))"

definition reader_rest :: "reader \<Rightarrow> pystr option \<Rightarrow> pystr" where
  "reader_rest rd c = (case reader_offset rd c of
      Inl _ \<Rightarrow> [] | Inr off \<Rightarrow> utf8_decode_ignore (drop off (utf8_bytes (reader_text rd))))"

lemma cursor_valid_rest:
  assumes "reader_ok rd" and "reader_text rd = pre @ post"
    and "reader_offset rd c = Inr (length (utf8_bytes pre))"
  shows "reader_rest rd c = post"
proof -
  have "list_all is_scalar post" using assms(1,2) by (cases rd) (simp add: reader_ok_def reader_text_def)
  with assms(2,3) show ?thesis by (simp add: reader_rest_def utf8_decode_ignore_bytes)
qed

lemma read_page_eq:
  assumes ok: "reader_ok rd" and tx: "reader_text rd = pre @ post"
    and off: "reader_offset rd c = Inr (length (utf8_bytes pre))" and that: "rd = (cd, name, n, h)"
  shows "\<exists>c'. read_page rd c = Inr (fit post (nat n), if fit post (nat n) = post then None else Some c')
      \<and> reader_offset rd c' = Inr (length (utf8_bytes (pre @ fit post (nat n))))"
proof -
  let ?f = "fit post (nat n)" and ?off = "length (utf8_bytes pre)"
  have r: "codec_ok cd" "4 \<le> n" "n \<le> rpc_limit" "known_stream name"
    "list_all is_scalar (view_text (th_buffer h) name)" "view_text (th_buffer h) name = pre @ post"
    "decode_cursor cd h c (selected_stream name) = Inr ?off"
    using ok tx off that by (auto simp: reader_ok_def reader_text_def reader_offset_def)
  have ne: "?f \<noteq> []" if "post \<noteq> []"
    using that r(2) utf8_width_le [of "hd post"] by (intro fit_nonempty) auto
  have page: "page_text (pre @ post) ?off (nat n) = Inr (?f, ?off + length (utf8_bytes ?f))"
    using page_text_at [of "pre @ post" ?off pre post "nat n"] r(2,5,6) ne by auto
  obtain t where t: "post = ?f @ t" using fit_prefix by blast
  have more: "?off + length (utf8_bytes ?f) < length (utf8_bytes (pre @ post)) \<longleftrightarrow> ?f \<noteq> post"
  proof -
    have "length (utf8_bytes (pre @ post)) = ?off + length (utf8_bytes ?f) + length (utf8_bytes t)"
      using t by (metis length_append utf8_bytes_append add.assoc)
    moreover have "?f \<noteq> post \<longleftrightarrow> t \<noteq> []" using t by (metis append_self_conv)
    ultimately show ?thesis by simp
  qed
  let ?c = "encode_cursor cd h (selected_stream name) (?off + length (utf8_bytes ?f))"
  have enc: "utf8_encode (pre @ post) = Inr (utf8_bytes (pre @ post))"
    using r(5,6) by (simp add: utf8_encode_def)
  have "read_output cd c name n 0 (h, 0) [(h, 0)] = Some (make_page cd h name (?f, ?off + length (utf8_bytes ?f)))"
    using r page by (simp add: read_output_def)
  then have "read_page rd c = Inr (?f, if ?f = post then None else Some (Some ?c))"
    using that r(6) enc more by (simp add: read_page_def make_page_def)
  moreover have "reader_offset rd (Some ?c) = Inr (length (utf8_bytes (pre @ ?f)))"
    using that r(1) by (simp add: reader_offset_def cursor_roundtrip_aux)
  ultimately show ?thesis by auto
qed

interpretation output_pager: pager read_page cursor_valid reader_rest
proof
  fix rd :: reader and c
  assume v: "cursor_valid rd c"
  then obtain pre post where p: "reader_ok rd" "reader_text rd = pre @ post"
    "reader_offset rd c = Inr (length (utf8_bytes pre))" by (auto simp: cursor_valid_def)
  obtain cd name n h where rd: "rd = (cd, name, n, h)" by (cases rd)
  let ?f = "fit post (nat n)"
  from read_page_eq [OF p rd] obtain c' where
    c': "read_page rd c = Inr (?f, if ?f = post then None else Some c')"
    "reader_offset rd c' = Inr (length (utf8_bytes (pre @ ?f)))" by blast
  then show "\<exists>xs n. read_page rd c = Inr (xs, n)" by blast
  have rest: "reader_rest rd c = post" by (rule cursor_valid_rest [OF p])
  show "reader_rest rd c = xs" if "read_page rd c = Inr (xs, None)" for xs
    using that c'(1) rest by (simp split: if_splits)
  show "cursor_valid rd c'' \<and> reader_rest rd c = xs @ reader_rest rd c'' \<and> xs \<noteq> []"
    if "read_page rd c = Inr (xs, Some c'')" for xs c''
  proof -
    have e: "c'' = c'" "xs = ?f" "?f \<noteq> post" using that c'(1) by (auto split: if_splits)
    obtain t where t: "post = ?f @ t" using fit_prefix by blast
    have tx: "reader_text rd = (pre @ ?f) @ t" using p(2) t by simp
    have "reader_rest rd c' = t" by (rule cursor_valid_rest [OF p(1) tx c'(2)])
    moreover have "cursor_valid rd c'" unfolding cursor_valid_def using p(1) tx c'(2) by blast
    moreover have "?f \<noteq> []"
    proof -
      have "post \<noteq> []" using e(3) by auto
      moreover have "4 \<le> n" using p(1) rd by (simp add: reader_ok_def)
      ultimately show ?thesis using utf8_width_le [of "hd post"] by (intro fit_nonempty) auto
    qed
    ultimately show ?thesis using e rest t by metis
  qed
qed

text \<open>
  C27: following the cursors of a finished task's output from the start, with pages of at least four
  bytes, yields exactly the captured text, in at most one page per code point and one more.
\<close>

theorem read_collects:
  assumes "codec_ok cd" and "4 \<le> n" and "n \<le> rpc_limit" and "known_stream name"
    and "list_all is_scalar (view_text (th_buffer h) name)"
  shows "collect (read_page (cd, name, n, h)) (Suc (length (view_text (th_buffer h) name))) None
    = Some (Inr (view_text (th_buffer h) name))"
proof -
  let ?rd = "(cd, name, n, h)"
  have ok: "reader_ok ?rd" using assms by (simp add: reader_ok_def)
  have off: "reader_offset ?rd None = Inr (length (utf8_bytes []))"
    by (simp add: reader_offset_def decode_cursor_def)
  have tx: "reader_text ?rd = [] @ view_text (th_buffer h) name" by (simp add: reader_text_def)
  have "cursor_valid ?rd None" unfolding cursor_valid_def using ok off tx by blast
  moreover have "reader_rest ?rd None = view_text (th_buffer h) name" by (rule cursor_valid_rest [OF ok tx off])
  ultimately show ?thesis using output_pager.collect_rest [of ?rd None] by (simp del: collect.simps)
qed

section \<open>What an expected match is\<close>

lemma find_in_Some:
  "find_in p s = Some i \<Longrightarrow> \<exists>t u. s = t @ p @ u \<and> length t = i \<and> (\<forall>j < i. \<not> starts_with p (drop j s))"
proof (induction p s arbitrary: i rule: find_in.induct)
  case (1 p)
  then show ?case by (auto split: if_splits)
next
  case (2 p c s)
  show ?case
  proof (cases "starts_with p (c # s)")
    case True
    with 2(2) show ?thesis by (auto simp: starts_with_iff)
  next
    case False
    with 2(2) obtain k where k: "find_in p s = Some k" "i = Suc k" by auto
    from 2(1) [OF False k(1)] obtain t u where t: "s = t @ p @ u" "length t = k"
      "\<forall>j < k. \<not> starts_with p (drop j s)" by blast
    have "\<not> starts_with p (drop j (c # s))" if "j < i" for j
      using that False t(3) k(2) by (cases j) auto
    then show ?thesis using t(1,2) k(2) by (intro exI [of _ "c # t"] exI [of _ u]) simp
  qed
qed

definition extends :: "pystr option \<Rightarrow> pystr \<Rightarrow> task_handle \<times> rat \<Rightarrow> bool" where
  "extends name pre v \<longleftrightarrow> (\<exists>post. view_text (th_buffer (fst v)) name = pre @ post
     \<and> list_all is_scalar (pre @ post))"

lemma expect_loop_match:
  assumes "expect_loop cd name (Literal p) (length (utf8_bytes pre)) limit deadline seen = Some (Inr pg)"
    and "ep_reason pg = Match" and "list_all (extends name pre) seen"
  shows "\<exists>h t post. h \<in> fst ` set seen \<and> view_text (th_buffer h) name = pre @ t @ p @ post
     \<and> length (utf8_bytes (t @ p)) \<le> limit
     \<and> (\<forall>j < length t. \<not> starts_with p (drop j (t @ p)))
     \<and> ep_cursor pg = encode_cursor cd h (selected_stream name) (length (utf8_bytes (pre @ t @ p)))"
  using assms(1,3)
proof (induction seen)
  case Nil
  then show ?case by simp
next
  case (Cons v seen)
  obtain h now where v: "v = (h, now)" by (cases v)
  obtain post where post: "view_text (th_buffer h) name = pre @ post" "list_all is_scalar (pre @ post)"
    using Cons.prems(2) v by (auto simp: extends_def)
  let ?a = "fit post limit"
  have enc: "utf8_encode (view_text (th_buffer h) name) = Inr (utf8_bytes (pre @ post))"
    using post by (simp add: utf8_encode_def)
  have dec: "utf8_decode_ignore (take limit (utf8_bytes post)) = ?a"
    using post(2) by (simp add: utf8_decode_ignore_take)
  show ?case
  proof (cases "find_in p ?a")
    case (Some i)
    from find_in_Some [OF Some] obtain t u where t: "?a = t @ p @ u" "length t = i"
      "\<forall>j < i. \<not> starts_with p (drop j ?a)" by blast
    have stop: "take (i + length p) ?a = t @ p" using t(1,2) by simp
    from Cons.prems(1) have "pg = make_expect cd h name Match (Some p)
        (length (utf8_bytes pre) + length (utf8_bytes (t @ p)))
        (length (utf8_bytes pre) + length (utf8_bytes ?a))"
      by (simp add: v enc dec search_def Some stop)
    then have "ep_cursor pg = encode_cursor cd h (selected_stream name) (length (utf8_bytes (pre @ t @ p)))"
      by (simp add: make_expect_def)
    moreover obtain w where "post = ?a @ w" using fit_prefix by blast
    then have "view_text (th_buffer h) name = pre @ t @ p @ (u @ w)" using post(1) t(1) by simp
    moreover have "length (utf8_bytes (t @ p)) \<le> limit" using fit_size [of post limit] t(1) by simp
    moreover have "\<not> starts_with p (drop j (t @ p))" if "j < length t" for j
    proof
      assume "starts_with p (drop j (t @ p))"
      then obtain r where r: "drop j (t @ p) = p @ r" unfolding starts_with_iff by blast
      have "drop j ?a = drop j (t @ p) @ u" using that by (simp add: t(1))
      with r have "drop j ?a = p @ r @ u" by simp
      then have "starts_with p (drop j ?a)" by simp
      with t(2,3) that show False by simp
    qed
    ultimately show ?thesis using v by (intro exI [of _ h] exI [of _ t] exI [of _ "u @ w"]) simp
  next
    case None
    have "ep_reason (make_expect cd h name Limit m a b) \<noteq> Match" "ep_reason (make_expect cd h name Eof m a b) \<noteq> Match"
      "ep_reason (make_expect cd h name Timed_Out m a b) \<noteq> Match" for m a b
      by (simp_all add: make_expect_def)
    with Cons.prems(1) assms(2) have
      "expect_loop cd name (Literal p) (length (utf8_bytes pre)) limit deadline seen = Some (Inr pg)"
      by (auto simp: v enc dec search_def None Let_def split: if_splits)
    from Cons.IH [OF this] Cons.prems(2) show ?thesis by auto
  qed
qed


section \<open>Examples\<close>

text \<open>A text form of cursors: every string with its length before it.\<close>

definition field :: "table \<Rightarrow> string \<Rightarrow> pystr" where
  "field d k = (case get d (lit k) of Some (PStr s) \<Rightarrow> s | Some (PInt n) \<Rightarrow> [nat n] | _ \<Rightarrow> [])"

definition sample_pack :: "table \<Rightarrow> pystr" where
  "sample_pack d = length (field d ''id'') # length (field d ''generation'') # length (field d ''stream'')
     # field d ''id'' @ field d ''generation'' @ field d ''stream'' @ field d ''offset''"

definition sample_unpack :: "pystr \<Rightarrow> pyval option" where
  "sample_unpack s = (case s of
      a # b # c # r \<Rightarrow> Some (PDict (cursor_table (take a r) (take b (drop a r)) (take c (drop (a + b) r))
        (hd (drop (a + b + c) r))))
    | _ \<Rightarrow> None)"

definition sample_codec :: codec where
  "sample_codec = \<lparr>cd_pack = sample_pack, cd_unpack = sample_unpack\<rparr>"

lemma sample_codec_ok: "codec_ok sample_codec"
  by (simp add: codec_ok_def sample_codec_def sample_pack_def sample_unpack_def field_def cursor_table_def)

definition sample_handle :: task_handle where
  "sample_handle = \<lparr>th_id = [97], th_task = Some (Returned 1),
     th_buffer = (ob_init 64)\<lparr>ob_text := [104, 8364, 105, 10]\<rparr>, th_coroutine = True, th_started = True,
     th_source_closed = False, th_created = 1, th_finished_at = Some 2, th_cancel_requested = False,
     th_client = None, th_exec_id = None, th_generation = [103], th_persist_result = False,
     th_result_persisted = None, th_result_warnings = [], th_reporter = True\<rparr>"

lemma sample_text: "view_text (th_buffer sample_handle) None = [104, 8364, 105, 10]"
  by (simp add: sample_handle_def view_text_def ob_get_def)

theorem cursor_roundtrip_witness:
  "decode_cursor sample_codec sample_handle (Some (encode_cursor sample_codec sample_handle (lit ''all'') 4)) (lit ''all'')
    = Inr 4"
  using cursor_roundtrip [OF sample_codec_ok, of sample_handle sample_handle "lit ''all''" 4 "lit ''all''"] by simp


theorem read_collects_witness:
  "collect (read_page (sample_codec, None, 4, sample_handle)) 5 None = Some (Inr [104, 8364, 105, 10])"
proof -
  have "known_stream None" "list_all is_scalar (view_text (th_buffer sample_handle) None)"
    by (simp_all add: known_stream_def sample_text is_scalar_def is_surrogate_def)
  with read_collects [OF sample_codec_ok, of 4 None sample_handle] show ?thesis
    by (simp add: sample_text rpc_limit_def eval_nat_numeral del: collect.simps)
qed

lemma sample_expect:
  "expect_output sample_codec None None [105] (Some (Literal [105])) (Some 1) 64 (sample_handle, 0) [(sample_handle, 0)]
    = Some (Inr (make_expect sample_codec sample_handle None Match (Some [105]) 5 6))"
proof -
  let ?b = "utf8_bytes [104, 8364, 105, 10]"
  have sc: "list_all is_scalar [104, 8364, 105, 10]" by (simp add: is_scalar_def is_surrogate_def)
  have "utf8_encode [104, 8364, 105, 10] = Inr ?b" using sc by (simp add: utf8_encode_def)
  moreover have "utf8_decode_ignore (take 64 ?b) = [104, 8364, 105, 10]"
    using utf8_decode_ignore_take [OF sc, of 64] by (simp add: utf8_width_def)
  moreover have "length ?b = 6" "length (utf8_bytes (take 3 [104, 8364, 105, 10])) = 5"
    by (simp_all add: length_utf8_char utf8_width_def)
  ultimately show ?thesis
    by (simp add: expect_output_def known_stream_def decode_cursor_def sample_text search_def Let_def
        del: utf8_bytes_Cons)
qed


end
