(* ===== verification/Locks.thy ===== *)
theory Locks
  imports Prelude "HOL-Library.AList" "HOL-Library.List_Lexorder"
begin

text \<open>
  The cooperative locks of a kernel (\<open>WorkspaceLocks\<close> in locks.py).  The event loop runs one task
  at a time up to its next suspension, and the only suspension of \<open>acquire\<close> is the wait for the
  waiter's event (the guard is never held across it), so that every step below is atomic: entering
  up to the first wait or the grant, one turn of the waiting loop, leaving the body, giving up, and
  the callback of a finished task.
\<close>

type_synonym task = nat
type_synonym owner = "(pystr \<times> pystr) list"

record waiter =
  w_task :: task
  w_names :: "pystr list"
  w_event :: bool
  w_identity :: owner

text \<open>Where a task is with respect to its current \<open>acquire\<close>.\<close>

datatype place = Outside | Parked | Inside "pystr list" | Ended

record locks =
  lk_held :: "(pystr \<times> task \<times> owner) list"
  lk_waiters :: "waiter list"
  lk_watched :: "task list"
  lk_max_items :: nat
  lk_place :: "task \<Rightarrow> place"

definition locks_init :: "int \<Rightarrow> locks result" where
  "locks_init max_items =
    (if max_items < 1 then Inl (ValueError ''max_items must be a positive integer'')
     else Inr \<lparr>lk_held = [], lk_waiters = [], lk_watched = [], lk_max_items = nat max_items,
       lk_place = (\<lambda>_. Outside)\<rparr>)"

text \<open>\<open>_names\<close>: without repetition, in ascending order.\<close>

definition lock_names :: "pystr list \<Rightarrow> pystr list result" where
  "lock_names names =
    (if names = [] then Inl (ValueError ''at least one lock name is required'')
     else if list_ex (\<lambda>n. n = [] \<or> 256 < length n) names then
       Inl (ValueError ''lock names must be non-empty strings of at most 256 characters'')
     else Inr (sort (remdups names)))"

text \<open>\<open>_owner_info\<close>: none is a callback that is missing or raises, or a value that is \<open>None\<close>.\<close>

definition owner_info :: "(pystr \<times> pystr option) list option \<Rightarrow> pystr option \<Rightarrow> owner" where
  "owner_info identity task_name =
    concat (map (\<lambda>(k, v). case v of
        Some s \<Rightarrow> if k \<in> {lit ''client_id'', lit ''connection_id'', lit ''exec_id''} then [(k, s)] else []
      | None \<Rightarrow> []) (case identity of None \<Rightarrow> [] | Some d \<Rightarrow> d))
    @ (case task_name of None \<Rightarrow> [] | Some n \<Rightarrow> [(lit ''task'', n)])"

definition notify :: "locks \<Rightarrow> locks" where
  "notify s = s\<lparr>lk_waiters := map (\<lambda>w. w\<lparr>w_event := True\<rparr>) (lk_waiters s)\<rparr>"

definition holder :: "locks \<Rightarrow> pystr \<Rightarrow> (task \<times> owner) option" where
  "holder s n = map_of (lk_held s) n"

definition can_grant :: "locks \<Rightarrow> waiter \<Rightarrow> bool" where
  "can_grant s w = list_all (\<lambda>n. holder s n = None) (w_names w)"

definition names_held_by :: "locks \<Rightarrow> task \<Rightarrow> pystr list" where
  "names_held_by s t = map fst (filter (\<lambda>(n, o', i). o' = t) (lk_held s))"

definition pop_all :: "pystr list \<Rightarrow> locks \<Rightarrow> locks" where
  "pop_all ns s = s\<lparr>lk_held := fold AList.delete ns (lk_held s)\<rparr>"

definition release_task :: "task \<Rightarrow> locks \<Rightarrow> locks" where
  "release_task t s =
    (let released = names_held_by s t;
         s1 = pop_all released s;
         s2 = s1\<lparr>lk_waiters := filter (\<lambda>w. w_task w \<noteq> t) (lk_waiters s1)\<rparr> in
     if released \<noteq> [] then notify s2 else s2)"

definition task_done :: "task \<Rightarrow> locks \<Rightarrow> locks" where
  "task_done t s = release_task t (s\<lparr>lk_watched := removeAll t (lk_watched s)\<rparr>)"

text \<open>\<open>_waiters.remove(waiter)\<close>: a waiter is found by its event, which is its task's only one.\<close>

fun remove_waiter :: "task \<Rightarrow> waiter list \<Rightarrow> waiter list" where
  "remove_waiter t [] = []"
| "remove_waiter t (w # ws) = (if w_task w = t then ws else w # remove_waiter t ws)"

definition clear_event :: "task \<Rightarrow> waiter list \<Rightarrow> waiter list" where
  "clear_event t ws = map (\<lambda>w. if w_task w = t then w\<lparr>w_event := False\<rparr> else w) ws"

text \<open>One turn of \<open>wait_for_lease\<close> under the guard.\<close>

datatype turn = Reentrant | Granted | Wait

definition lease_turn :: "waiter \<Rightarrow> locks \<Rightarrow> turn \<times> locks" where
  "lease_turn w s =
    (let t = w_task w in
     if list_ex (\<lambda>(n, o', i). o' = t) (lk_held s) then (Reentrant, s)
     else if can_grant s w then
       (Granted, s\<lparr>lk_waiters := remove_waiter t (lk_waiters s),
          lk_held := fold (\<lambda>n. AList.update n (t, w_identity w)) (w_names w) (lk_held s),
          lk_watched := List.insert t (lk_watched s)\<rparr>)
     else (Wait, s\<lparr>lk_waiters := clear_event t (lk_waiters s)\<rparr>))"

text \<open>The \<open>finally\<close> block, after the body and without a lease.\<close>

definition leave_body :: "task \<Rightarrow> pystr list \<Rightarrow> locks \<Rightarrow> locks" where
  "leave_body t ns s =
    notify (pop_all (filter (\<lambda>n. case holder s n of None \<Rightarrow> False | Some (o', i) \<Rightarrow> o' = t) ns) s)"

definition give_up :: "task \<Rightarrow> locks \<Rightarrow> locks" where
  "give_up t s = notify (s\<lparr>lk_waiters := remove_waiter t (lk_waiters s)\<rparr>)"

definition go :: "task \<Rightarrow> place \<Rightarrow> locks \<Rightarrow> locks" where
  "go t p s = s\<lparr>lk_place := (lk_place s)(t := p)\<rparr>"

text \<open>Acting on a turn of the waiting loop.\<close>

definition after_turn :: "waiter \<Rightarrow> turn \<times> locks \<Rightarrow> exc option \<times> locks" where
  "after_turn w r =
    (case r of
       (Reentrant, s) \<Rightarrow>
         (Some (RuntimeError ''workspace lock acquisition is not re-entrant''), give_up (w_task w) s)
     | (Granted, s) \<Rightarrow> (None, go (w_task w) (Inside (w_names w)) s)
     | (Wait, s) \<Rightarrow> (None, go (w_task w) Parked s))"

text \<open>\<open>acquire\<close> up to its first suspension; the timeout is none when it is malformed.\<close>

definition acquire ::
  "task \<Rightarrow> pystr list \<Rightarrow> bool \<Rightarrow> owner \<Rightarrow> locks \<Rightarrow> exc option \<times> locks" where
  "acquire t names timeout_ok identity s =
    (case lock_names names of
       Inl e \<Rightarrow> (Some e, s)
     | Inr ns \<Rightarrow>
        if \<not> timeout_ok then
          (Some (ValueError ''timeout must be a finite non-negative number or None''), s)
        else
          (let w = \<lparr>w_task = t, w_names = ns, w_event = False, w_identity = identity\<rparr> in
           after_turn w (lease_turn w (s\<lparr>lk_waiters := lk_waiters s @ [w]\<rparr>))))"

text \<open>
  \<open>list\<close>: the held names grouped by owner, then the first waiters, then the mark of truncation.
\<close>

datatype lock_item = Owned owner "pystr list" | Waiting "pystr list" owner | Truncated

fun group_names :: "(pystr \<times> task \<times> owner) list \<Rightarrow> (task \<times> owner \<times> pystr list) list
    \<Rightarrow> (task \<times> owner \<times> pystr list) list" where
  "group_names [] acc = acc"
| "group_names ((n, t, i) # rest) acc =
    group_names rest (case map_of acc t of
        None \<Rightarrow> acc @ [(t, i, [n])]
      | Some (i', ns) \<Rightarrow> AList.update t (i', ns @ [n]) acc)"

definition list_locks :: "locks \<Rightarrow> lock_item list" where
  "list_locks s =
    map (\<lambda>(t, i, ns). Owned i ns) (group_names (sort_key fst (lk_held s)) [])
    @ map (\<lambda>w. Waiting (w_names w) (w_identity w)) (take (lk_max_items s) (lk_waiters s))
    @ (if lk_max_items s < length (lk_waiters s) then [Truncated] else [])"

section \<open>The event loop\<close>

definition waiter_of :: "task \<Rightarrow> locks \<Rightarrow> waiter option" where
  "waiter_of t s = find (\<lambda>w. w_task w = t) (lk_waiters s)"

inductive lock_step :: "locks \<Rightarrow> locks \<Rightarrow> bool" where
  Acquire: "lk_place s t \<in> {Outside} \<union> range Inside \<Longrightarrow>
    lock_step s (snd (acquire t names timeout_ok identity s))"
| Turn: "lk_place s t = Parked \<Longrightarrow> waiter_of t s = Some w \<Longrightarrow> w_event w \<Longrightarrow>
    lock_step s (snd (after_turn w (lease_turn w s)))"
| Leave: "lk_place s t = Inside ns \<Longrightarrow> lock_step s (go t Outside (leave_body t ns s))"
| Give_up: "lk_place s t = Parked \<Longrightarrow> lock_step s (go t Outside (give_up t s))"
| Done: "t \<in> set (lk_watched s) \<Longrightarrow> lock_step s (go t Ended (task_done t s))"

inductive_cases lock_stepE: "lock_step s s'"

definition lock_states :: "int \<Rightarrow> locks \<Rightarrow> bool" where
  "lock_states n s \<longleftrightarrow> (\<exists>s0. locks_init n = Inr s0 \<and> lock_step\<^sup>*\<^sup>* s0 s)"

end
