(* ===== verification/Lock_Proofs.thy ===== *)
theory Lock_Proofs
  imports Locks
begin

text \<open>
  The locks in every reachable state: a task has all the names of its lease or none, a waiting task
  holds nothing, and a waiter whose names are free has been woken, so that the locks never get
  stuck.
\<close>

section \<open>The helpers\<close>

lemma holder_fold_delete:
  "map_of (fold AList.delete ns d) n = (if n \<in> set ns then None else map_of d n)"
  by (induction ns arbitrary: d) (auto simp: delete_conv')

lemma holder_fold_update:
  "map_of (fold (\<lambda>k. AList.update k v) ns d) n = (if n \<in> set ns then Some v else map_of d n)"
  by (induction ns arbitrary: d) (auto simp: update_conv')

lemma distinct_fold_delete: "distinct (map fst d) \<Longrightarrow> distinct (map fst (fold AList.delete ns d))"
  by (induction ns arbitrary: d) (auto simp: distinct_delete)

lemma distinct_fold_update:
  "distinct (map fst d) \<Longrightarrow> distinct (map fst (fold (\<lambda>k. AList.update k v) ns d))"
  by (induction ns arbitrary: d) (auto simp: distinct_update)

lemma holder_pop_all [simp]: "holder (pop_all ns s) n = (if n \<in> set ns then None else holder s n)"
  by (simp add: holder_def pop_all_def holder_fold_delete)

lemma lock_simps [simp]:
  "holder (notify s) n = holder s n" "lk_place (notify s) = lk_place s" "lk_held (notify s) = lk_held s"
  "holder (go t p s) n = holder s n" "lk_place (go t p s) = (lk_place s)(t := p)"
  "lk_held (go t p s) = lk_held s" "lk_waiters (go t p s) = lk_waiters s" "lk_watched (go t p s) = lk_watched s"
  "holder (s\<lparr>lk_waiters := ws\<rparr>) n = holder s n" "holder (s\<lparr>lk_watched := x\<rparr>) n = holder s n"
  "lk_place (pop_all ns s) = lk_place s" "lk_waiters (pop_all ns s) = lk_waiters s"
  "can_grant (s\<lparr>lk_waiters := ws\<rparr>) w = can_grant s w"
  by (simp_all add: holder_def notify_def go_def pop_all_def can_grant_def)

lemma go_notify: "go t p (notify s) = notify (go t p s)"
  by (cases s) (simp add: go_def notify_def)

lemma remove_waiter_absent: "t \<notin> w_task ` set ws \<Longrightarrow> remove_waiter t ws = ws"
  by (induction ws) auto

lemma remove_waiter_append: "t \<notin> w_task ` set ws \<Longrightarrow> w_task w = t \<Longrightarrow> remove_waiter t (ws @ [w]) = ws"
  by (induction ws) auto

lemma set_remove_waiter:
  "distinct (map w_task ws) \<Longrightarrow> set (remove_waiter t ws) = {w \<in> set ws. w_task w \<noteq> t}"
proof (induction ws)
  case (Cons v ws)
  then show ?case by (auto simp: image_iff)
qed simp

lemma distinct_remove_waiter: "distinct (map w_task ws) \<Longrightarrow> distinct (map w_task (remove_waiter t ws))"
proof (induction ws)
  case (Cons w ws)
  then show ?case by (auto simp: set_remove_waiter)
qed simp

lemma waiter_of_Some: "waiter_of t s = Some w \<Longrightarrow> w \<in> set (lk_waiters s) \<and> w_task w = t"
  by (auto simp: waiter_of_def find_Some_iff)

section \<open>The invariant\<close>

definition leases_ok :: "locks \<Rightarrow> bool" where
  "leases_ok s \<longleftrightarrow> distinct (map fst (lk_held s))
     \<and> (\<forall>n t i. holder s n = Some (t, i) \<longrightarrow> (\<exists>ns. lk_place s t = Inside ns \<and> n \<in> set ns))
     \<and> (\<forall>t ns n. lk_place s t = Inside ns \<longrightarrow> n \<in> set ns \<longrightarrow> (\<exists>i. holder s n = Some (t, i)))"

definition waiters_ok :: "locks \<Rightarrow> bool" where
  "waiters_ok s \<longleftrightarrow> distinct (map w_task (lk_waiters s))
     \<and> (\<forall>t. lk_place s t = Parked \<longleftrightarrow> t \<in> w_task ` set (lk_waiters s))
     \<and> (\<forall>w \<in> set (lk_waiters s). w_event w \<or> \<not> can_grant s w)"

definition lock_inv :: "locks \<Rightarrow> bool" where
  "lock_inv s \<longleftrightarrow> leases_ok s \<and> waiters_ok s"

lemma leases_holder: "leases_ok s \<Longrightarrow> holder s n = Some (t, i) \<Longrightarrow> \<exists>ns. lk_place s t = Inside ns \<and> n \<in> set ns"
  by (auto simp: leases_ok_def)

lemma leases_inside: "leases_ok s \<Longrightarrow> lk_place s t = Inside ns \<Longrightarrow> n \<in> set ns \<Longrightarrow> \<exists>i. holder s n = Some (t, i)"
  unfolding leases_ok_def by blast

lemma leases_distinct: "leases_ok s \<Longrightarrow> distinct (map fst (lk_held s))"
  by (simp add: leases_ok_def)

lemma held_iff: "leases_ok s \<Longrightarrow> (n, t, i) \<in> set (lk_held s) \<longleftrightarrow> holder s n = Some (t, i)"
  using leases_distinct [of s] by (simp add: holder_def)

lemma held_by_iff:
  assumes "leases_ok s"
  shows "n \<in> set (names_held_by s t) \<longleftrightarrow> (\<exists>i. holder s n = Some (t, i))"
proof -
  have "n \<in> set (names_held_by s t) \<longleftrightarrow> (\<exists>i. (n, t, i) \<in> set (lk_held s))"
    by (force simp: names_held_by_def)
  then show ?thesis by (simp only: held_iff [OF assms])
qed

lemma any_held_iff:
  assumes "leases_ok s"
  shows "list_ex (\<lambda>(n, o', i). o' = t) (lk_held s) \<longleftrightarrow> (\<exists>n i. holder s n = Some (t, i))"
proof -
  have "list_ex (\<lambda>(n, o', i). o' = t) (lk_held s) \<longleftrightarrow> (\<exists>n i. (n, t, i) \<in> set (lk_held s))"
    by (force simp: list_ex_iff)
  then show ?thesis by (simp only: held_iff [OF assms])
qed

text \<open>A task that holds something is inside its body.\<close>

lemma reentrant_inside:
  assumes "leases_ok s" and "list_ex (\<lambda>(n, o', i). o' = t) (lk_held s)"
  shows "\<exists>ns. lk_place s t = Inside ns"
  using assms any_held_iff leases_holder by blast

text \<open>What the notification does to the waiters.\<close>

lemma waiters_notify:
  assumes "distinct (map w_task (lk_waiters s))"
    and "\<And>t. lk_place s t = Parked \<longleftrightarrow> t \<in> w_task ` set (lk_waiters s)"
  shows "waiters_ok (notify s)"
proof -
  have "w_task \<circ> (\<lambda>w. w\<lparr>w_event := True\<rparr>) = w_task" by (simp add: fun_eq_iff)
  moreover from this have "w_task ` (\<lambda>w. w\<lparr>w_event := True\<rparr>) ` set (lk_waiters s) = w_task ` set (lk_waiters s)"
    by (simp add: image_comp)
  moreover have "map w_task (lk_waiters (notify s)) = map w_task (lk_waiters s)"
    using calculation(1) by (simp add: notify_def)
  moreover have "\<forall>w \<in> set (lk_waiters (notify s)). w_event w" by (simp add: notify_def)
  ultimately show ?thesis using assms unfolding waiters_ok_def set_map [symmetric] by simp
qed

text \<open>Granting a waiter that holds nothing and whose names are free.\<close>

definition granted :: "waiter \<Rightarrow> waiter list \<Rightarrow> locks \<Rightarrow> locks" where
  "granted w rest s = s\<lparr>lk_waiters := rest,
     lk_held := fold (\<lambda>n. AList.update n (w_task w, w_identity w)) (w_names w) (lk_held s),
     lk_watched := List.insert (w_task w) (lk_watched s),
     lk_place := (lk_place s)(w_task w := Inside (w_names w))\<rparr>"

lemma granted_inv:
  assumes leases: "leases_ok s" and free: "can_grant s w"
    and out: "\<And>n i. holder s n \<noteq> Some (w_task w, i)"
    and rest: "distinct (map w_task rest)"
      "\<And>t. t \<noteq> w_task w \<Longrightarrow> lk_place s t = Parked \<longleftrightarrow> t \<in> w_task ` set rest"
      "w_task w \<notin> w_task ` set rest" "\<And>v. v \<in> set rest \<Longrightarrow> w_event v \<or> \<not> can_grant s v"
  shows "lock_inv (granted w rest s)"
proof -
  let ?s = "granted w rest s" and ?t = "w_task w"
  have hold: "holder ?s n = (if n \<in> set (w_names w) then Some (?t, w_identity w) else holder s n)" for n
    by (simp add: granted_def holder_def holder_fold_update)
  have place: "lk_place ?s = (lk_place s)(?t := Inside (w_names w))" by (simp add: granted_def)
  have none: "holder s n = None" if "n \<in> set (w_names w)" for n
    using free that by (simp add: can_grant_def list_all_iff)
  have "leases_ok ?s"
    unfolding leases_ok_def
  proof (intro conjI allI impI)
    show "distinct (map fst (lk_held ?s))"
      using leases by (simp add: granted_def leases_ok_def distinct_fold_update)
    fix n t i
    assume h: "holder ?s n = Some (t, i)"
    show "\<exists>ns. lk_place ?s t = Inside ns \<and> n \<in> set ns"
    proof (cases "n \<in> set (w_names w)")
      case True
      with h show ?thesis by (simp add: hold place)
    next
      case False
      with h have "holder s n = Some (t, i)" by (simp add: hold)
      with leases_holder [OF leases this] out [of n i] show ?thesis by (auto simp: place)
    qed
  next
    fix t ns n
    assume p: "lk_place ?s t = Inside ns" and n: "n \<in> set ns"
    show "\<exists>i. holder ?s n = Some (t, i)"
    proof (cases "t = ?t")
      case True
      with p n show ?thesis by (simp add: hold place)
    next
      case False
      with p have "lk_place s t = Inside ns" by (simp add: place)
      from leases_inside [OF leases this n] obtain i where "holder s n = Some (t, i)" by blast
      with none [of n] show ?thesis by (auto simp: hold)
    qed
  qed
  moreover have "waiters_ok ?s"
    unfolding waiters_ok_def
  proof (intro conjI allI ballI)
    show "distinct (map w_task (lk_waiters ?s))" using rest(1) by (simp add: granted_def)
    show "lk_place ?s t = Parked \<longleftrightarrow> t \<in> w_task ` set (lk_waiters ?s)" for t
      using rest(2) [of t] rest(3) by (simp add: granted_def)
    show "w_event v \<or> \<not> can_grant ?s v" if "v \<in> set (lk_waiters ?s)" for v
    proof -
      have less: "holder ?s n = None \<Longrightarrow> holder s n = None" for n by (simp add: hold split: if_splits)
      have "can_grant ?s v \<Longrightarrow> can_grant s v"
        unfolding can_grant_def list_all_iff using less by blast
      with rest(4) [of v] that show ?thesis by (auto simp: granted_def)
    qed
  qed
  ultimately show ?thesis by (simp add: lock_inv_def)
qed

text \<open>Dropping all that a task holds, or nothing at all.\<close>

lemma drop_leases:
  assumes leases: "leases_ok s" and names: "\<And>n. n \<in> set ns \<longleftrightarrow> (\<exists>i. holder s n = Some (t, i))"
    and held: "lk_held s' = fold AList.delete ns (lk_held s)"
    and place: "lk_place s' = (lk_place s)(t := p)" and p: "\<And>ns. p \<noteq> Inside ns"
  shows "leases_ok s'"
proof -
  have hold: "holder s' n = (if n \<in> set ns then None else holder s n)" for n
    by (simp add: holder_def held holder_fold_delete)
  show ?thesis
    unfolding leases_ok_def
  proof (intro conjI allI impI)
    show "distinct (map fst (lk_held s'))"
      using leases_distinct [OF leases] by (simp add: held distinct_fold_delete)
    fix n u i assume "holder s' n = Some (u, i)"
    then have h: "holder s n = Some (u, i)" "n \<notin> set ns" by (simp_all add: hold split: if_splits)
    with names [of n] have "u \<noteq> t" by auto
    with leases_holder [OF leases h(1)] show "\<exists>ns. lk_place s' u = Inside ns \<and> n \<in> set ns" by (simp add: place)
  next
    fix u us n assume u: "lk_place s' u = Inside us" and n: "n \<in> set us"
    then have ut: "u \<noteq> t" "lk_place s u = Inside us" using p by (auto simp: place split: if_splits)
    from leases_inside [OF leases ut(2) n] obtain i where i: "holder s n = Some (u, i)" by blast
    with ut(1) names [of n] have "n \<notin> set ns" by auto
    with i show "\<exists>i. holder s' n = Some (u, i)" by (simp add: hold)
  qed
qed

lemma leases_cong: "lk_held s' = lk_held s \<Longrightarrow> lk_place s' = lk_place s \<Longrightarrow> leases_ok s' = leases_ok s"
  by (simp add: leases_ok_def holder_def)

lemma can_grant_cong: "lk_held s' = lk_held s \<Longrightarrow> can_grant s' w = can_grant s w"
  by (simp add: can_grant_def holder_def)

lemma waiters_distinct: "waiters_ok s \<Longrightarrow> distinct (map w_task (lk_waiters s))"
  by (simp add: waiters_ok_def)

lemma waiters_parked: "waiters_ok s \<Longrightarrow> lk_place s t = Parked \<longleftrightarrow> t \<in> w_task ` set (lk_waiters s)"
  by (simp add: waiters_ok_def)

lemma waiters_woken: "waiters_ok s \<Longrightarrow> w \<in> set (lk_waiters s) \<Longrightarrow> w_event w \<or> \<not> can_grant s w"
  by (simp add: waiters_ok_def)

text \<open>A task without a lease, whose names are taken, waits.\<close>

lemma parked_inv:
  assumes inv: "leases_ok s" and ws: "lk_waiters s = xs @ w # ys" "w_task w = t"
    and others: "t \<notin> w_task ` set (xs @ ys)" "distinct (map w_task (xs @ ys))"
      "\<And>u. u \<noteq> t \<Longrightarrow> lk_place s u = Parked \<longleftrightarrow> u \<in> w_task ` set (xs @ ys)"
      "\<And>v. v \<in> set (xs @ ys) \<Longrightarrow> w_event v \<or> \<not> can_grant s v"
    and busy: "\<not> can_grant s w" and out: "\<And>n i. holder s n \<noteq> Some (t, i)"
  shows "lock_inv (go t Parked (s\<lparr>lk_waiters := clear_event t (lk_waiters s)\<rparr>))"
proof -
  let ?s = "go t Parked (s\<lparr>lk_waiters := clear_event t (lk_waiters s)\<rparr>)"
  have same: "clear_event t zs = zs" if "t \<notin> w_task ` set zs" for zs
    using that unfolding clear_event_def by (intro map_idI) auto
  have cl: "lk_waiters ?s = xs @ w\<lparr>w_event := False\<rparr> # ys"
  proof -
    have "t \<notin> w_task ` set xs" "t \<notin> w_task ` set ys" using others(1) by auto
    with same have "clear_event t xs = xs" "clear_event t ys = ys" by blast+
    then show ?thesis by (simp add: ws clear_event_def)
  qed
  have "leases_ok ?s"
  proof (rule drop_leases [OF inv, of "[]" t _ Parked])
    show "n \<in> set [] \<longleftrightarrow> (\<exists>i. holder s n = Some (t, i))" for n using out [of n] by simp
  qed (simp_all add: go_def)
  moreover have "waiters_ok ?s"
    unfolding waiters_ok_def cl
  proof (intro conjI allI ballI)
    show "distinct (map w_task (xs @ w\<lparr>w_event := False\<rparr> # ys))"
      using others(1,2) ws(2) by auto
    show "lk_place ?s u = Parked \<longleftrightarrow> u \<in> w_task ` set (xs @ w\<lparr>w_event := False\<rparr> # ys)" for u
      using others(3) [of u] ws(2) by (auto simp: image_Un)
    show "w_event v \<or> \<not> can_grant ?s v" if "v \<in> set (xs @ w\<lparr>w_event := False\<rparr> # ys)" for v
    proof -
      have cong: "can_grant ?s x = can_grant s x" for x by (rule can_grant_cong) simp
      have "can_grant s (w\<lparr>w_event := False\<rparr>) = can_grant s w" by (simp add: can_grant_def)
      with that busy others(4) [of v] show ?thesis by (auto simp: cong)
    qed
  qed
  ultimately show ?thesis by (simp add: lock_inv_def)
qed


section \<open>Every step keeps the invariant\<close>

text \<open>No lease and no waiter is without names.\<close>

definition names_ok :: "locks \<Rightarrow> bool" where
  "names_ok s \<longleftrightarrow> (\<forall>t. lk_place s t \<noteq> Inside []) \<and> (\<forall>w \<in> set (lk_waiters s). w_names w \<noteq> [])"

lemma lock_names_nonempty: "lock_names names = Inr ns \<Longrightarrow> ns \<noteq> []"
  by (auto simp: lock_names_def split: if_splits dest!: arg_cong [where f = set])

lemma remove_waiter_subset: "set (remove_waiter t ws) \<subseteq> set ws"
  by (induction ws) auto

lemma after_turn_names_ok:
  assumes "names_ok s" and "w_names w \<noteq> []"
  shows "names_ok (snd (after_turn w (lease_turn w s)))"
  using assms remove_waiter_subset [of "w_task w" "lk_waiters s"]
  by (auto simp: names_ok_def after_turn_def lease_turn_def Let_def give_up_def notify_def go_def clear_event_def)

lemma acquire_names_ok:
  assumes "names_ok s"
  shows "names_ok (snd (acquire t names ok i s))"
proof (cases "lock_names names")
  case (Inr ns)
  have "names_ok (s\<lparr>lk_waiters := lk_waiters s @ [\<lparr>w_task = t, w_names = ns, w_event = False, w_identity = i\<rparr>]\<rparr>)"
    using assms lock_names_nonempty [OF Inr] by (simp add: names_ok_def ball_Un)
  from after_turn_names_ok [OF this] assms lock_names_nonempty [OF Inr] Inr show ?thesis
    by (simp add: acquire_def Let_def)
qed (simp add: acquire_def assms)

lemma lock_step_names_ok:
  assumes "lock_step s s'" and "names_ok s"
  shows "names_ok s'"
  using assms(1)
proof (cases rule: lock_step.cases)
  case (Acquire t names ok i)
  with acquire_names_ok [OF assms(2)] show ?thesis by simp
next
  case (Turn t w)
  from waiter_of_Some [OF Turn(3)] assms(2) have "w_names w \<noteq> []" by (simp add: names_ok_def)
  with after_turn_names_ok [OF assms(2)] Turn show ?thesis by simp
next
  case (Leave t ns)
  with assms(2) show ?thesis by (auto simp: names_ok_def leave_body_def notify_def go_def pop_all_def)
next
  case (Give_up t)
  with assms(2) remove_waiter_subset [of t "lk_waiters s"] show ?thesis
    by (auto simp: names_ok_def give_up_def notify_def go_def)
next
  case (Done t)
  with assms(2) show ?thesis
    by (auto simp: names_ok_def task_done_def release_task_def Let_def notify_def go_def pop_all_def)
qed

lemma notify_inv: "lock_inv s \<Longrightarrow> lock_inv (notify s)"
  using waiters_notify [OF waiters_distinct waiters_parked] leases_cong [of "notify s" s]
  by (simp add: lock_inv_def)

lemma acquire_inv:
  assumes inv: "lock_inv s" "names_ok s" and place: "lk_place s t \<in> {Outside} \<union> range Inside"
  shows "lock_inv (snd (acquire t names ok i s))"
proof (cases "lock_names names")
  case (Inr ns)
  let ?w = "\<lparr>w_task = t, w_names = ns, w_event = False, w_identity = i\<rparr>"
  let ?ws = "lk_waiters s" and ?a = "s\<lparr>lk_waiters := lk_waiters s @ [?w]\<rparr>"
  have leases: "leases_ok s" and waiters: "waiters_ok s" using inv(1) by (simp_all add: lock_inv_def)
  have fresh: "t \<notin> w_task ` set ?ws" using waiters_parked [OF waiters, of t] place by auto
  show ?thesis
  proof (cases ok)
    case True
    have eq: "snd (acquire t names ok i s) = snd (after_turn ?w (lease_turn ?w ?a))"
      using Inr True by (simp add: acquire_def Let_def)
    have removed: "remove_waiter t (?ws @ [?w]) = ?ws" by (rule remove_waiter_append [OF fresh]) simp
    show ?thesis
    proof (cases "list_ex (\<lambda>(n, o', i). o' = t) (lk_held s)")
      case True
      then have "snd (after_turn ?w (lease_turn ?w ?a)) = notify s"
        by (simp add: after_turn_def lease_turn_def Let_def give_up_def removed)
      with eq notify_inv [OF inv(1)] show ?thesis by simp
    next
      case False
      then have out: "holder s n \<noteq> Some (t, i)" for n i using any_held_iff [OF leases, of t] by blast
      show ?thesis
      proof (cases "can_grant s ?w")
        case True
        with False have "snd (after_turn ?w (lease_turn ?w ?a)) = granted ?w ?ws s"
          by (simp add: after_turn_def lease_turn_def Let_def granted_def go_def removed)
        moreover have "lock_inv (granted ?w ?ws s)"
        proof (rule granted_inv [OF leases True])
          show "holder s n \<noteq> Some (w_task ?w, i)" for n i using out by simp
          show "distinct (map w_task ?ws)" by (rule waiters_distinct [OF waiters])
          show "lk_place s u = Parked \<longleftrightarrow> u \<in> w_task ` set ?ws" for u by (rule waiters_parked [OF waiters])
          show "w_task ?w \<notin> w_task ` set ?ws" using fresh by simp
          show "w_event v \<or> \<not> can_grant s v" if "v \<in> set ?ws" for v by (rule waiters_woken [OF waiters that])
        qed
        ultimately show ?thesis using eq by simp
      next
        case busy: False
        let ?p = "go t Parked (?a\<lparr>lk_waiters := clear_event t (lk_waiters ?a)\<rparr>)"
        from busy False have step: "snd (after_turn ?w (lease_turn ?w ?a)) = ?p"
          by (simp add: after_turn_def lease_turn_def Let_def)
        have "lock_inv ?p"
        proof (rule parked_inv [of ?a ?ws ?w "[]"])
          show "leases_ok ?a" using leases leases_cong [of ?a s] by simp
          show "distinct (map w_task (?ws @ []))" using waiters_distinct [OF waiters] by simp
          show "lk_place ?a u = Parked \<longleftrightarrow> u \<in> w_task ` set (?ws @ [])" for u
            using waiters_parked [OF waiters, of u] by simp
          show "w_event v \<or> \<not> can_grant ?a v" if "v \<in> set (?ws @ [])" for v
            using waiters_woken [OF waiters, of v] that by simp
          show "holder ?a n \<noteq> Some (t, i)" for n i using out by simp
        qed (use fresh busy in simp_all)
        with eq step show ?thesis by simp
      qed
    qed
  next
    case False
    with Inr inv(1) show ?thesis by (simp add: acquire_def)
  qed
next
  case (Inl e)
  with inv(1) show ?thesis by (simp add: acquire_def)
qed


lemma turn_inv:
  assumes inv: "lock_inv s" and place: "lk_place s t = Parked" and w: "waiter_of t s = Some w"
  shows "lock_inv (snd (after_turn w (lease_turn w s)))"
    and "fst (after_turn w (lease_turn w s)) = None"
    and "can_grant s w \<Longrightarrow> lk_place (snd (after_turn w (lease_turn w s))) t = Inside (w_names w)"
proof -
  let ?ws = "lk_waiters s"
  have leases: "leases_ok s" and waiters: "waiters_ok s" using inv by (simp_all add: lock_inv_def)
  have wt: "w_task w = t" and mem: "w \<in> set ?ws" using waiter_of_Some [OF w] by simp_all
  have out: "holder s n \<noteq> Some (t, i)" for n i using leases_holder [OF leases] place by fastforce
  have free: "\<not> list_ex (\<lambda>(n, o', i). o' = t) (lk_held s)" using any_held_iff [OF leases, of t] out by blast
  have rest: "set (remove_waiter t ?ws) = {v \<in> set ?ws. w_task v \<noteq> t}"
    "distinct (map w_task (remove_waiter t ?ws))"
    by (rule set_remove_waiter distinct_remove_waiter, rule waiters_distinct [OF waiters])+
  have grant: "after_turn w (lease_turn w s) = (None, granted w (remove_waiter t ?ws) s)" if "can_grant s w"
    using that free by (simp add: after_turn_def lease_turn_def Let_def granted_def go_def wt)
  have wait: "after_turn w (lease_turn w s) =
      (None, go t Parked (s\<lparr>lk_waiters := clear_event t ?ws\<rparr>))" if "\<not> can_grant s w"
    using that free by (simp add: after_turn_def lease_turn_def Let_def wt)
  show "fst (after_turn w (lease_turn w s)) = None" using grant wait by (cases "can_grant s w") simp_all
  show "lk_place (snd (after_turn w (lease_turn w s))) t = Inside (w_names w)" if "can_grant s w"
    by (simp add: grant [OF that] granted_def wt)
  show "lock_inv (snd (after_turn w (lease_turn w s)))"
  proof (cases "can_grant s w")
    case True
    have "lock_inv (granted w (remove_waiter t ?ws) s)"
    proof (rule granted_inv [OF leases True])
      show "holder s n \<noteq> Some (w_task w, i)" for n i using out by (simp add: wt)
      show "lk_place s u = Parked \<longleftrightarrow> u \<in> w_task ` set (remove_waiter t ?ws)" if "u \<noteq> w_task w" for u
        using waiters_parked [OF waiters, of u] that by (auto simp: rest wt)
      show "w_event v \<or> \<not> can_grant s v" if "v \<in> set (remove_waiter t ?ws)" for v
        using waiters_woken [OF waiters, of v] that by (simp add: rest)
    qed (auto simp: rest wt)
    with grant [OF True] show ?thesis by simp
  next
    case busy: False
    obtain xs ys where split: "?ws = xs @ w # ys" using mem by (meson split_list)
    have d: "distinct (map w_task (xs @ w # ys))" using waiters_distinct [OF waiters] split by simp
    have "lock_inv (go t Parked (s\<lparr>lk_waiters := clear_event t ?ws\<rparr>))"
    proof (rule parked_inv [OF leases split wt])
      show "t \<notin> w_task ` set (xs @ ys)" "distinct (map w_task (xs @ ys))" using d wt by auto
      show "lk_place s u = Parked \<longleftrightarrow> u \<in> w_task ` set (xs @ ys)" if "u \<noteq> t" for u
        using waiters_parked [OF waiters, of u] that wt by (auto simp: split)
      show "w_event v \<or> \<not> can_grant s v" if "v \<in> set (xs @ ys)" for v
        using waiters_woken [OF waiters, of v] that by (auto simp: split)
    qed (use busy out in auto)
    with wait [OF busy] show ?thesis by simp
  qed
qed

text \<open>The three steps that let go.\<close>

lemma leave_inv:
  assumes inv: "lock_inv s" and place: "lk_place s t = Inside ns"
  shows "lock_inv (go t Outside (leave_body t ns s))"
proof -
  let ?rs = "filter (\<lambda>n. case holder s n of None \<Rightarrow> False | Some (o', i) \<Rightarrow> o' = t) ns"
  let ?s = "go t Outside (leave_body t ns s)" and ?z = "go t Outside (pop_all ?rs s)"
  have leases: "leases_ok s" and waiters: "waiters_ok s" using inv by (simp_all add: lock_inv_def)
  have "leases_ok ?s"
  proof (rule drop_leases [OF leases, of ?rs t _ Outside])
    show "n \<in> set ?rs \<longleftrightarrow> (\<exists>i. holder s n = Some (t, i))" for n
      using leases_holder [OF leases, of n t] place by (auto split: option.splits)
  qed (simp_all add: leave_body_def pop_all_def)
  moreover have "waiters_ok (notify ?z)"
    using waiters_distinct [OF waiters] waiters_parked [OF waiters, symmetric] place
      waiters_parked [OF waiters, of t]
    by (intro waiters_notify) auto
  moreover have "notify ?z = ?s" by (simp add: leave_body_def go_notify)
  ultimately show ?thesis by (simp add: lock_inv_def)
qed

lemma give_up_inv:
  assumes inv: "lock_inv s" and place: "lk_place s t = Parked"
  shows "lock_inv (go t Outside (give_up t s))"
proof -
  let ?s = "go t Outside (give_up t s)"
  let ?z = "go t Outside (s\<lparr>lk_waiters := remove_waiter t (lk_waiters s)\<rparr>)"
  have leases: "leases_ok s" and waiters: "waiters_ok s" using inv by (simp_all add: lock_inv_def)
  have d: "distinct (map w_task (lk_waiters s))" by (rule waiters_distinct [OF waiters])
  have "leases_ok ?s"
  proof (rule drop_leases [OF leases, of "[]" t _ Outside])
    show "n \<in> set [] \<longleftrightarrow> (\<exists>i. holder s n = Some (t, i))" for n
      using leases_holder [OF leases, of n t] place by auto
  qed (simp_all add: give_up_def)
  moreover have "waiters_ok (notify ?z)"
    using waiters_parked [OF waiters] distinct_remove_waiter [OF d] set_remove_waiter [OF d, of t]
    by (intro waiters_notify) auto
  moreover have "notify ?z = ?s" by (simp add: give_up_def go_notify)
  ultimately show ?thesis by (simp add: lock_inv_def)
qed

lemma done_inv:
  assumes inv: "lock_inv s"
  shows "lock_inv (go t Ended (task_done t s))"
proof -
  let ?s = "go t Ended (task_done t s)"
  let ?rs = "names_held_by s t" and ?ws = "filter (\<lambda>w. w_task w \<noteq> t) (lk_waiters s)"
  let ?z = "go t Ended (pop_all ?rs (s\<lparr>lk_watched := removeAll t (lk_watched s), lk_waiters := ?ws\<rparr>))"
  have leases: "leases_ok s" and waiters: "waiters_ok s" using inv by (simp_all add: lock_inv_def)
  have rs: "names_held_by (s\<lparr>lk_watched := x\<rparr>) t = ?rs" for x by (simp add: names_held_by_def)
  have eq: "?s = (if ?rs \<noteq> [] then notify ?z else ?z)"
    by (cases s) (simp add: task_done_def release_task_def Let_def rs go_notify pop_all_def names_held_by_def go_def notify_def)
  have "leases_ok ?s"
    by (rule drop_leases [OF leases held_by_iff [OF leases, of _ t], where p = Ended])
      (simp_all add: eq, simp_all add: pop_all_def)
  moreover have "waiters_ok ?s"
  proof (cases "?rs = []")
    case True
    have same: "can_grant ?z v = can_grant s v" for v
      by (rule can_grant_cong) (simp add: True pop_all_def)
    have "waiters_ok ?z"
      unfolding waiters_ok_def same
    proof (intro conjI allI ballI)
      show "distinct (map w_task (lk_waiters ?z))"
        using waiters_distinct [OF waiters] by (simp add: distinct_map_filter)
      show "lk_place ?z u = Parked \<longleftrightarrow> u \<in> w_task ` set (lk_waiters ?z)" for u
        using waiters_parked [OF waiters, of u] by auto
      show "w_event v \<or> \<not> can_grant s v" if "v \<in> set (lk_waiters ?z)" for v
        using waiters_woken [OF waiters, of v] that by simp
    qed
    with True eq show ?thesis by simp
  next
    case False
    have "waiters_ok (notify ?z)"
      using waiters_distinct [OF waiters] waiters_parked [OF waiters]
      by (intro waiters_notify) (auto simp: distinct_map_filter)
    with False eq show ?thesis by simp
  qed
  ultimately show ?thesis by (simp add: lock_inv_def)
qed

lemma lock_step_inv:
  assumes "lock_step s s'" and "lock_inv s" and "names_ok s"
  shows "lock_inv s'"
  using assms(1)
proof (cases rule: lock_step.cases)
  case (Acquire t names ok i)
  with acquire_inv [OF assms(2,3)] show ?thesis by simp
next
  case (Turn t w)
  with turn_inv(1) [OF assms(2)] show ?thesis by simp
next
  case (Leave t ns)
  with leave_inv [OF assms(2)] show ?thesis by simp
next
  case (Give_up t)
  with give_up_inv [OF assms(2)] show ?thesis by simp
next
  case (Done t)
  with done_inv [OF assms(2)] show ?thesis by simp
qed

lemma lock_states_inv:
  assumes "lock_states n s"
  shows "lock_inv s \<and> names_ok s"
proof -
  obtain s0 where init: "locks_init n = Inr s0" and run: "lock_step\<^sup>*\<^sup>* s0 s"
    using assms by (auto simp: lock_states_def)
  from run show ?thesis
  proof (induction rule: rtranclp_induct)
    case base
    from init show ?case
      by (auto simp: locks_init_def lock_inv_def leases_ok_def waiters_ok_def names_ok_def holder_def
          split: if_splits)
  next
    case (step s1 s2)
    then show ?case using lock_step_inv lock_step_names_ok by blast
  qed
qed


section \<open>The properties\<close>

text \<open>
  C32: At every moment a task is inside its body with all the locks it asked for and no others, or
  holds no lock at all: a waiting task holds nothing while it waits.
\<close>

theorem leases_all_or_nothing:
  assumes "lock_states n s"
  shows "case lk_place s t of
      Inside ns \<Rightarrow> ns \<noteq> [] \<and> set (names_held_by s t) = set ns
    | _ \<Rightarrow> names_held_by s t = []"
proof -
  have leases: "leases_ok s" and names: "names_ok s"
    using lock_states_inv [OF assms] by (simp_all add: lock_inv_def)
  have none: "names_held_by s t = []" if "\<And>ns. lk_place s t \<noteq> Inside ns"
  proof -
    have "m \<notin> set (names_held_by s t)" for m
      using leases_holder [OF leases, of m t] that by (auto simp: held_by_iff [OF leases])
    then show ?thesis by (simp add: set_eq_iff flip: set_empty)
  qed
  show ?thesis
  proof (cases "lk_place s t")
    case (Inside ns)
    have "m \<in> set (names_held_by s t) \<longleftrightarrow> m \<in> set ns" for m
      using leases_holder [OF leases, of m t] leases_inside [OF leases Inside, of m] Inside
      by (auto simp: held_by_iff [OF leases])
    with names Inside show ?thesis by (auto simp: names_ok_def)
  qed (use none in auto)
qed

text \<open>Two tasks after the same lock: the first is in its body, the second waits.\<close>

definition busy_locks :: locks where
  "busy_locks = snd (acquire 2 [[98], [97]] True []
     (snd (acquire 1 [[97]] True [] (case locks_init 5 of Inr s \<Rightarrow> s))))"

lemma busy_locks_reachable: "lock_states 5 busy_locks"
proof -
  let ?z = "case locks_init 5 of Inr s \<Rightarrow> s"
  let ?a = "snd (acquire 1 [[97]] True [] ?z)"
  have init: "locks_init 5 = Inr ?z" by (simp add: locks_init_def)
  have free: "lk_place ?a 2 = Outside" by code_simp
  have "lock_step ?z ?a" by (rule Acquire) (simp add: locks_init_def)
  moreover have "lock_step ?a busy_locks"
    unfolding busy_locks_def by (rule Acquire) (simp only: free Un_iff insert_iff simp_thms)
  ultimately have "lock_step\<^sup>*\<^sup>* ?z busy_locks" by auto
  with init show ?thesis unfolding lock_states_def by blast
qed

lemma leases_all_or_nothing_witness:
  "lk_place busy_locks 1 = Inside [[97]] \<and> set (names_held_by busy_locks 1) = {[97]}
     \<and> lk_place busy_locks 2 = Parked \<and> names_held_by busy_locks 2 = []"
proof -
  have "lk_place busy_locks 1 = Inside [[97]]" "lk_place busy_locks 2 = Parked" by code_simp+
  with leases_all_or_nothing [OF busy_locks_reachable, of 1]
    leases_all_or_nothing [OF busy_locks_reachable, of 2] show ?thesis by simp
qed

text \<open>
  C8: Two tasks are never inside bodies that hold the same lock.
\<close>

theorem mutual_exclusion:
  assumes "lock_states n s" and "lk_place s t = Inside ns" and "lk_place s u = Inside ms"
    and "m \<in> set ns" and "m \<in> set ms"
  shows "t = u"
proof -
  have leases: "leases_ok s" using lock_states_inv [OF assms(1)] by (simp add: lock_inv_def)
  from leases_inside [OF leases assms(2,4)] leases_inside [OF leases assms(3,5)] show ?thesis by auto
qed

definition shared_locks :: locks where
  "shared_locks = snd (acquire 2 [[98]] True [] (snd (acquire 1 [[97]] True [] (case locks_init 5 of Inr s \<Rightarrow> s))))"

lemma shared_locks_reachable: "lock_states 5 shared_locks"
proof -
  let ?z = "case locks_init 5 of Inr s \<Rightarrow> s"
  let ?a = "snd (acquire 1 [[97]] True [] ?z)"
  have init: "locks_init 5 = Inr ?z" by (simp add: locks_init_def)
  have free: "lk_place ?a 2 = Outside" by code_simp
  have "lock_step ?z ?a" by (rule Acquire) (simp add: locks_init_def)
  moreover have "lock_step ?a shared_locks"
    unfolding shared_locks_def by (rule Acquire) (simp only: free Un_iff insert_iff simp_thms)
  ultimately have "lock_step\<^sup>*\<^sup>* ?z shared_locks" by auto
  with init show ?thesis unfolding lock_states_def by blast
qed

lemma mutual_exclusion_witness:
  "lk_place shared_locks 1 = Inside [[97]] \<and> lk_place shared_locks 2 = Inside [[98]]
     \<and> \<not> ([97] \<in> set [[98::nat]])"
proof -
  have p: "lk_place shared_locks 1 = Inside [[97]]" "lk_place shared_locks 2 = Inside [[98]]"
    by code_simp+
  moreover have "\<not> ([97] \<in> set [[98::nat]])"
    using mutual_exclusion [OF shared_locks_reachable p(1) p(2), of "[97]"] by auto
  ultimately show ?thesis by blast
qed

text \<open>
  C9: No wake-up is lost: a waiter whose event is not set wants a lock that a task inside its body
  holds, and that task notifies every waiter when it leaves.
\<close>

theorem no_lost_wakeup:
  assumes "lock_states n s" and "w \<in> set (lk_waiters s)" and "\<not> w_event w"
  shows "lk_place s (w_task w) = Parked \<and> (\<exists>m \<in> set (w_names w). \<exists>t ns. lk_place s t = Inside ns
      \<and> m \<in> set ns \<and> list_all w_event (lk_waiters (leave_body t ns s)))"
proof -
  have leases: "leases_ok s" and waiters: "waiters_ok s"
    using lock_states_inv [OF assms(1)] by (simp_all add: lock_inv_def)
  have parked: "lk_place s (w_task w) = Parked" using waiters_parked [OF waiters] assms(2) by auto
  from assms(3) waiters_woken [OF waiters assms(2)] obtain m where m: "m \<in> set (w_names w)" "holder s m \<noteq> None"
    by (auto simp: can_grant_def list_all_iff)
  then obtain t i where "holder s m = Some (t, i)" by auto
  from leases_holder [OF leases this] obtain ns where "lk_place s t = Inside ns" "m \<in> set ns" by blast
  moreover have "list_all w_event (lk_waiters (leave_body t ns s))"
    by (simp add: leave_body_def notify_def list_all_iff)
  ultimately show ?thesis using m(1) parked by blast
qed

lemma no_lost_wakeup_witness:
  "\<exists>w. w \<in> set (lk_waiters busy_locks) \<and> \<not> w_event w \<and> lk_place busy_locks (w_task w) = Parked
     \<and> (\<exists>m t ns. m \<in> set (w_names w) \<and> lk_place busy_locks t = Inside ns \<and> m \<in> set ns)"
proof -
  let ?w = "\<lparr>w_task = 2, w_names = [[97], [98]], w_event = False, w_identity = []\<rparr>"
  have w: "?w \<in> set (lk_waiters busy_locks)" by code_simp
  have "\<not> w_event ?w" by simp
  from no_lost_wakeup [OF busy_locks_reachable w this] w this show ?thesis by blast
qed

text \<open>
  C31: The locks cannot get stuck: when some task waits and no task is inside its body, a waiter has
  been woken, its names are free, and its next turn takes it into its body.
\<close>

theorem locks_progress:
  assumes "lock_states n s" and "lk_waiters s \<noteq> []" and "\<And>t ns. lk_place s t \<noteq> Inside ns"
  shows "\<exists>t w s'. waiter_of t s = Some w \<and> lock_step s s' \<and> lk_place s' t = Inside (w_names w)"
proof -
  have inv: "lock_inv s" and leases: "leases_ok s" and waiters: "waiters_ok s"
    using lock_states_inv [OF assms(1)] by (simp_all add: lock_inv_def)
  obtain w where w: "w \<in> set (lk_waiters s)" using assms(2) by (cases "lk_waiters s") auto
  then obtain v where v: "waiter_of (w_task w) s = Some v"
    unfolding waiter_of_def by (cases "find (\<lambda>x. w_task x = w_task w) (lk_waiters s)") (auto simp: find_None_iff)
  note vm = waiter_of_Some [OF v]
  have parked: "lk_place s (w_task w) = Parked" using waiters_parked [OF waiters, of "w_task w"] w by auto
  have "holder s m = None" for m
  proof (cases "holder s m")
    case (Some h)
    with leases_holder [OF leases, of m "fst h" "snd h"] assms(3) show ?thesis by auto
  qed simp
  then have free: "can_grant s v" by (simp add: can_grant_def list_all_iff)
  with waiters_woken [OF waiters] vm have "w_event v" by blast
  then have "lock_step s (snd (after_turn v (lease_turn v s)))" by (rule Turn [OF parked v])
  with turn_inv(3) [OF inv parked v free] v show ?thesis by blast
qed

definition freed_locks :: locks where
  "freed_locks = go 1 Outside (leave_body 1 [[97]] busy_locks)"

lemma freed_locks_reachable: "lock_states 5 freed_locks"
proof -
  have "lock_step busy_locks freed_locks"
    unfolding freed_locks_def by (rule Leave) code_simp
  with busy_locks_reachable show ?thesis
    unfolding lock_states_def by (meson rtranclp.rtrancl_into_rtrancl)
qed

lemma locks_progress_witness:
  "\<exists>t w s'. waiter_of t freed_locks = Some w \<and> lock_step freed_locks s' \<and> lk_place s' t = Inside (w_names w)"
proof (rule locks_progress [OF freed_locks_reachable])
  show "lk_waiters freed_locks \<noteq> []" by code_simp
  have "lk_place freed_locks = (\<lambda>_. Outside)(1 := Inside [[97]], 2 := Parked, 1 := Outside)"
    by (rule ext) (simp add: freed_locks_def busy_locks_def acquire_def locks_init_def lock_names_def
        after_turn_def lease_turn_def can_grant_def holder_def leave_body_def)
  then show "lk_place freed_locks t \<noteq> Inside ns" for t ns by simp
qed

text \<open>
  The names of a lease are the given ones without repetition in ascending order, and only an
  empty list or a name that is empty or longer than 256 characters is refused.
\<close>

theorem lock_names_normalised:
  "case lock_names names of
     Inr ns \<Rightarrow> sorted ns \<and> distinct ns \<and> set ns = set names \<and> ns \<noteq> []
       \<and> list_all (\<lambda>m. 0 < length m \<and> length m \<le> 256) ns
   | Inl e \<Rightarrow> names = [] \<or> list_ex (\<lambda>m. length m = 0 \<or> 256 < length m) names"
  by (auto simp: lock_names_def list_all_iff list_ex_iff not_less split: if_splits
      dest!: arg_cong [where f = set])

end
