(* ===== verification/Chunked.thy ===== *)
theory Chunked
  imports Prelude
begin

text \<open>
  Statements over a list of ids in chunks of 900, as the stores run them (SQLite bounds the number of
  parameters): selecting the rows of the ids, and marking those that are pending.  The locale states
  what a mark promises; under it the chunks together do what one statement would.
\<close>

function chunks :: "'a list \<Rightarrow> 'a list list" where
  "chunks xs = (if xs = [] then [] else take 900 xs # chunks (drop 900 xs))"
  by auto
termination by (relation "measure length") auto

declare chunks.simps [simp del]

definition select_chunks :: "('r \<Rightarrow> 'i) \<Rightarrow> 'i list \<Rightarrow> 'r list \<Rightarrow> 'r list" where
  "select_chunks key ids rows = concat (map (\<lambda>c. filter (\<lambda>r. key r \<in> set c) rows) (chunks ids))"

definition mark_in :: "('r \<Rightarrow> 'i) \<Rightarrow> ('r \<Rightarrow> bool) \<Rightarrow> ('r \<Rightarrow> 'r) \<Rightarrow> 'i set \<Rightarrow> 'r \<Rightarrow> 'r" where
  "mark_in key pending mark ids r = (if key r \<in> ids \<and> pending r then mark r else r)"

definition to_mark :: "('r \<Rightarrow> 'i) \<Rightarrow> ('r \<Rightarrow> bool) \<Rightarrow> 'i set \<Rightarrow> 'r \<Rightarrow> bool" where
  "to_mark key pending ids r \<longleftrightarrow> key r \<in> ids \<and> pending r"

text \<open>One UPDATE: the rows it changed are counted.\<close>

definition mark_chunk :: "('r \<Rightarrow> 'i) \<Rightarrow> ('r \<Rightarrow> bool) \<Rightarrow> ('r \<Rightarrow> 'r) \<Rightarrow> 'i list \<Rightarrow> nat \<times> 'r list \<Rightarrow> nat \<times> 'r list" where
  "mark_chunk key pending mark c acc = (case acc of (n, rows) \<Rightarrow>
    (n + length (filter (to_mark key pending (set c)) rows), map (mark_in key pending mark (set c)) rows))"

definition mark_all :: "('r \<Rightarrow> 'i) \<Rightarrow> ('r \<Rightarrow> bool) \<Rightarrow> ('r \<Rightarrow> 'r) \<Rightarrow> 'i list \<Rightarrow> 'r list \<Rightarrow> nat \<times> 'r list" where
  "mark_all key pending mark ids rows = fold (mark_chunk key pending mark) (chunks ids) (0, rows)"

lemma concat_chunks [simp]: "concat (chunks xs) = xs"
  by (induction xs rule: chunks.induct) (subst chunks.simps, simp)

lemma set_chunks: "\<Union> (set ` set (chunks xs)) = set xs"
  using concat_chunks [of xs] by (metis set_concat)

lemma set_select_chunks: "set (select_chunks key ids rows) = {r \<in> set rows. key r \<in> set ids}"
  using set_chunks [of ids] by (auto simp: select_chunks_def)

locale marking =
  fixes key :: "'r \<Rightarrow> 'i" and pending :: "'r \<Rightarrow> bool" and mark :: "'r \<Rightarrow> 'r"
  assumes key_mark: "key (mark r) = key r" and pending_mark: "\<not> pending (mark r)"
begin

lemma key_mark_in [simp]: "key (mark_in key pending mark A r) = key r"
  by (simp add: mark_in_def key_mark)

lemma mark_in_twice:
  "mark_in key pending mark B (mark_in key pending mark A r) = mark_in key pending mark (A \<union> B) r"
  by (auto simp: mark_in_def key_mark pending_mark)

lemma count_twice:
  "length (filter (to_mark key pending A) rs)
    + length (filter (to_mark key pending B) (map (mark_in key pending mark A) rs))
    = length (filter (to_mark key pending (A \<union> B)) rs)"
  by (induction rs) (auto simp: to_mark_def mark_in_def key_mark pending_mark)

lemma mark_none: "mark_in key pending mark {} = id" "filter (to_mark key pending {}) rs = []"
  by (auto simp: mark_in_def to_mark_def fun_eq_iff)

lemma fold_mark:
  "fold (mark_chunk key pending mark) cs (n, rows) =
    (n + length (filter (to_mark key pending (\<Union> (set ` set cs))) rows),
     map (mark_in key pending mark (\<Union> (set ` set cs))) rows)"
proof (induction cs arbitrary: n rows)
  case Nil
  show ?case by (simp add: mark_none)
next
  case (Cons c cs)
  have one: "mark_chunk key pending mark c (n, rows) =
      (n + length (filter (to_mark key pending (set c)) rows), map (mark_in key pending mark (set c)) rows)"
    by (simp add: mark_chunk_def)
  show ?case
    using count_twice [of "set c" rows "\<Union> (set ` set cs)"]
    by (simp add: one Cons.IH mark_in_twice comp_def)
qed

lemma mark_all_eq:
  "mark_all key pending mark ids rows =
    (length (filter (to_mark key pending (set ids)) rows), map (mark_in key pending mark (set ids)) rows)"
  by (simp add: mark_all_def fold_mark set_chunks)

end

end
