(* ===== verification/Messages.thy ===== *)
theory Messages
  imports Json Paging Chunked "HOL-Library.Code_Target_Nat"
begin

text \<open>
  The messages between the clients of a workspace (messages.py): the table of messages with its
  AUTOINCREMENT sequence, the registered clients with their last activity, and the operations of
  \<open>MessageStore\<close>.  Every operation runs under the store's lock in one transaction, which is a
  function from the store to a result and the next store; a rolled back transaction gives the store
  it began with.  Parameters are Python values (\<open>pyval\<close>), so that the type tests of the validators
  are part of the model.  The text of a float and \<open>json.loads\<close> are given by \<open>msg_env\<close>.
\<close>

record msg_env =
  me_float :: "pyfloat \<Rightarrow> pystr"
  me_loads :: "pystr \<Rightarrow> pyval option"   \<comment> \<open>none is a \<open>ValueError\<close>\<close>

record message_row =
  mr_id :: nat
  mr_sender :: pystr
  mr_recipient :: pystr
  mr_text :: pystr
  mr_created :: pyfloat
  mr_acknowledged :: "pyfloat option"
  mr_data :: "pystr option"
  mr_reply_to :: "nat option"

record message_store =
  ms_rows :: "message_row list"                   \<comment> \<open>by ascending id\<close>
  ms_seq :: nat                                   \<comment> \<open>the largest id given so far\<close>
  ms_clients :: "(pystr \<times> pyfloat option) list"   \<comment> \<open>\<open>client_ids\<close> with \<open>last_seen\<close>\<close>
  ms_reply_column :: bool
  ms_closed :: bool

definition max_id :: nat where "max_id = 9223372036854775807"
definition max_text_bytes :: nat where "max_text_bytes = 16384"
definition max_data_bytes :: nat where "max_data_bytes = 16384"
definition max_payload_bytes :: nat where "max_payload_bytes = 16384"
definition max_read_bytes :: nat where "max_read_bytes = 32768"
definition max_inbox_bytes :: nat where "max_inbox_bytes = 4096"
definition max_inbox_messages :: nat where "max_inbox_messages = 5"
definition max_read_warnings :: nat where "max_read_warnings = 4"
definition max_warning_text :: nat where "max_warning_text = 256"

section \<open>Validation\<close>

definition ensure_open :: "message_store \<Rightarrow> unit result" where
  "ensure_open st = require (\<not> ms_closed st) (RuntimeError ''message store is closed'')"

definition validate_client :: "message_store \<Rightarrow> pyval \<Rightarrow> pystr result" where
  "validate_client st v = (case v of
      PStr s \<Rightarrow>
        if s = [] then Inl (ValueError ''client must be a non-empty string'')
        else rbind (utf8_encode s) (\<lambda>_.
          if s \<in> fst ` set (ms_clients st) then Inr s else Inl (ValueError ''unknown client''))
    | _ \<Rightarrow> Inl (ValueError ''client must be a non-empty string''))"

definition validate_text :: "pyval \<Rightarrow> pystr result" where
  "validate_text v = (case v of
      PStr s \<Rightarrow>
        if s = [] then Inl (ValueError ''text must be a non-empty string'')
        else rbind (utf8_encode s) (\<lambda>raw.
          if max_text_bytes < length raw then Inl (ValueError ''text must be at most 16 KiB in UTF-8'')
          else Inr s)
    | _ \<Rightarrow> Inl (TypeError ''text must be a string''))"

definition validate_limit :: "pyval \<Rightarrow> nat result" where
  "validate_limit v = (case v of
      PInt n \<Rightarrow> if 1 \<le> n \<and> n \<le> 100 then Inr (nat n)
        else Inl (ValueError ''limit must be an integer between 1 and 100'')
    | _ \<Rightarrow> Inl (ValueError ''limit must be an integer between 1 and 100''))"

definition positive_id :: "pyval \<Rightarrow> nat option" where
  "positive_id v = (case v of
      PInt n \<Rightarrow> if 0 < n \<and> n \<le> int max_id then Some (nat n) else None
    | _ \<Rightarrow> None)"

definition validate_after :: "pyval \<Rightarrow> nat option result" where
  "validate_after v = (if v = PNone then Inr None
     else case positive_id v of
         Some n \<Rightarrow> Inr (Some n)
       | None \<Rightarrow> Inl (ValueError ''after must be a positive integer in SQLite's 64-bit range or None''))"

definition validate_reply_to :: "pyval \<Rightarrow> nat option result" where
  "validate_reply_to v = (if v = PNone then Inr None
     else case positive_id v of
         Some n \<Rightarrow> Inr (Some n)
       | None \<Rightarrow> Inl (ValueError ''reply_to must be a positive integer in SQLite's 64-bit range or None''))"

definition encode_data :: "msg_env \<Rightarrow> pyval \<Rightarrow> pystr option result" where
  "encode_data env v = (if v = PNone then Inr None
     else case json_dumps (compact (me_float env)) v of
         None \<Rightarrow> Inl (ValueError ''data must be JSON-serializable'')
       | Some s \<Rightarrow> rbind (utf8_encode s) (\<lambda>raw.
           if max_data_bytes < length raw then Inl (ValueError ''data must be at most 16 KiB in UTF-8'')
           else Inr (Some s)))"

text \<open>\<open>_validate_ids\<close>: in the order given, without repetition.\<close>

fun valid_ids :: "pyval list \<Rightarrow> nat list \<Rightarrow> nat list result" where
  "valid_ids [] acc = Inr acc"
| "valid_ids (v # vs) acc = (case positive_id v of
      None \<Rightarrow> Inl (ValueError ''ids must contain only positive integers in SQLite's 64-bit range'')
    | Some n \<Rightarrow> valid_ids vs (if n \<in> set acc then acc else acc @ [n]))"

definition validate_ids :: "pyval \<Rightarrow> nat list result" where
  "validate_ids v = (case v of
      PList vs \<Rightarrow> valid_ids vs []
    | _ \<Rightarrow> Inl (TypeError ''ids must be a list of positive integers''))"

section \<open>Rows, messages and pages\<close>

record message =
  msg_id :: nat
  msg_from :: pystr
  msg_to :: pystr
  msg_text :: pystr
  msg_created_at :: pyfloat
  msg_data :: pyval
  msg_reply_to :: "nat option"
  msg_data_corrupt :: bool

definition id_val :: "nat option \<Rightarrow> pyval" where
  "id_val n = (case n of None \<Rightarrow> PNone | Some i \<Rightarrow> PInt (int i))"

definition message_val :: "message \<Rightarrow> pyval" where
  "message_val m = PDict ([(lit ''id'', PInt (int (msg_id m))), (lit ''from'', PStr (msg_from m)),
     (lit ''to'', PStr (msg_to m)), (lit ''text'', PStr (msg_text m)),
     (lit ''created_at'', PFloat (msg_created_at m)), (lit ''data'', msg_data m),
     (lit ''reply_to'', id_val (msg_reply_to m))]
     @ (if msg_data_corrupt m then [(lit ''data_corrupt'', PBool True)] else []))"

text \<open>\<open>_message\<close>, with the warning of corrupt data as its text.\<close>

definition message_of :: "msg_env \<Rightarrow> message_row \<Rightarrow> message \<times> pystr option" where
  "message_of env r =
    (let m = \<lparr>msg_id = mr_id r, msg_from = mr_sender r, msg_to = mr_recipient r, msg_text = mr_text r,
       msg_created_at = mr_created r, msg_data = PNone, msg_reply_to = mr_reply_to r,
       msg_data_corrupt = False\<rparr> in
     case mr_data r of
       None \<Rightarrow> (m, None)
     | Some d \<Rightarrow> (case me_loads env d of
           Some v \<Rightarrow> (m\<lparr>msg_data := v\<rparr>, None)
         | None \<Rightarrow> (m\<lparr>msg_data_corrupt := True\<rparr>,
             Some (take max_warning_text (lit ''Message '' @ digits_of_nat (mr_id r)
               @ lit '' data is invalid and was omitted.'')))))"

definition warning_val :: "pystr \<Rightarrow> pyval" where
  "warning_val w = PDict [(lit ''code'', PStr (lit ''message_data_corrupt'')), (lit ''text'', PStr w)]"

record message_page =
  mp_messages :: "message list"
  mp_next_cursor :: "nat option"
  mp_has_more :: bool
  mp_warnings :: "pystr list"
  mp_warnings_truncated :: bool

definition messages_page ::
  "message list \<Rightarrow> bool \<Rightarrow> pystr list \<Rightarrow> bool \<Rightarrow> message_page" where
  "messages_page ms further ws tr = \<lparr>mp_messages = ms,
     mp_next_cursor = (if further \<and> ms \<noteq> [] then Some (msg_id (last ms)) else None),
     mp_has_more = further, mp_warnings = ws, mp_warnings_truncated = tr\<rparr>"

definition page_val :: "message_page \<Rightarrow> pyval" where
  "page_val p = PDict ([(lit ''messages'', PList (map message_val (mp_messages p))),
     (lit ''next_cursor'', id_val (mp_next_cursor p)), (lit ''has_more'', PBool (mp_has_more p))]
     @ (if mp_warnings p \<noteq> [] then [(lit ''warnings'', PList (map warning_val (mp_warnings p)))] else [])
     @ (if mp_warnings_truncated p then [(lit ''warnings_truncated'', PBool True)] else []))"

definition page_size :: "msg_env \<Rightarrow> message list \<Rightarrow> pystr list \<Rightarrow> bool \<Rightarrow> nat result" where
  "page_size env ms ws tr =
    rbind (json_size (me_float env) (page_val (messages_page ms False ws tr))) (\<lambda>a.
    rbind (json_size (me_float env) (page_val (messages_page ms True ws tr))) (\<lambda>b. Inr (max a b)))"

section \<open>The operations\<close>

definition float_max :: "pyfloat \<Rightarrow> pyfloat \<Rightarrow> pyfloat" where
  "float_max a b = (if num_le a b then b else a)"

definition touch_activity :: "pystr \<Rightarrow> pyfloat \<Rightarrow> message_store \<Rightarrow> message_store" where
  "touch_activity c now st = st\<lparr>ms_clients := map (\<lambda>(d, seen).
     (d, if d = c then Some (float_max (case seen of None \<Rightarrow> Finite 0 0 | Some t \<Rightarrow> t) now) else seen))
     (ms_clients st)\<rparr>"

definition row_by_id :: "nat \<Rightarrow> message_store \<Rightarrow> message_row option" where
  "row_by_id i st = find (\<lambda>r. mr_id r = i) (ms_rows st)"

text \<open>What a message that answers another must satisfy.\<close>

definition check_reply :: "pystr \<Rightarrow> pystr \<Rightarrow> nat option \<Rightarrow> message_store \<Rightarrow> unit result" where
  "check_reply sender recipient reply st = (case reply of
      None \<Rightarrow> Inr ()
    | Some i \<Rightarrow> (case row_by_id i st of
          None \<Rightarrow> Inl (ValueError ''unknown reply message ID'')
        | Some r \<Rightarrow>
            if mr_recipient r \<noteq> sender then
              Inl (ValueError ''reply message is not addressed to the sender'')
            else if mr_sender r \<noteq> recipient then
              Inl (ValueError ''reply recipient must be the original sender'')
            else Inr ()))"

text \<open>The INSERT: SQLite gives the next id of the sequence and fails after the largest.\<close>

definition insert_row :: "(nat \<Rightarrow> message_row) \<Rightarrow> message_store \<Rightarrow> (nat \<times> message_store) result" where
  "insert_row f st = (if max_id \<le> ms_seq st then Inl (OSError ''database or disk is full'')
     else Inr (Suc (ms_seq st), st\<lparr>ms_seq := Suc (ms_seq st), ms_rows := ms_rows st @ [f (Suc (ms_seq st))]\<rparr>))"

definition send_valid :: "msg_env \<Rightarrow> pyval \<Rightarrow> pyval \<Rightarrow> pyval \<Rightarrow> pyval \<Rightarrow> pyval \<Rightarrow> message_store
    \<Rightarrow> (pystr \<times> pystr \<times> pystr \<times> pystr option \<times> nat option) result" where
  "send_valid env sender to txt dat reply_to st =
    rbind (ensure_open st) (\<lambda>_.
    rbind (validate_client st sender) (\<lambda>s.
    rbind (validate_client st to) (\<lambda>r.
    rbind (validate_text txt) (\<lambda>x.
    rbind (encode_data env dat) (\<lambda>d.
    rbind (require (length (utf8_bytes x) + (case d of None \<Rightarrow> 0 | Some e \<Rightarrow> length (utf8_bytes e))
             \<le> max_payload_bytes) (ValueError ''message payload must be at most 16 KiB in UTF-8'')) (\<lambda>_.
    rbind (validate_reply_to reply_to) (\<lambda>i. Inr (s, r, x, d, i))))))))"

definition send_transaction :: "msg_env \<Rightarrow> pyfloat \<Rightarrow> pyval \<Rightarrow> pystr \<times> pystr \<times> pystr \<times> pystr option \<times> nat option
    \<Rightarrow> message_store \<Rightarrow> (message \<times> message_store) result" where
  "send_transaction env created dat v st = (case v of (s, r, x, d, reply) \<Rightarrow>
    rbind (check_reply s r reply st) (\<lambda>_.
    rbind (insert_row (\<lambda>i. \<lparr>mr_id = i, mr_sender = s, mr_recipient = r, mr_text = x,
        mr_created = created, mr_acknowledged = None, mr_data = d, mr_reply_to = reply\<rparr>) st) (\<lambda>(i, st1).
      let m = \<lparr>msg_id = i, msg_from = s, msg_to = r, msg_text = x, msg_created_at = created,
             msg_data = dat, msg_reply_to = reply, msg_data_corrupt = False\<rparr> in
      rbind (page_size env [m] [] False) (\<lambda>n.
        if max_read_bytes < n then Inl (ValueError ''message is too large to return'')
        else Inr (m, touch_activity s created st1)))))"

definition send :: "msg_env \<Rightarrow> pyfloat \<Rightarrow> pyval \<Rightarrow> pyval \<Rightarrow> pyval \<Rightarrow> pyval \<Rightarrow> pyval \<Rightarrow> message_store
    \<Rightarrow> message result \<times> message_store" where
  "send env created sender to txt dat reply_to st =
    (case rbind (send_valid env sender to txt dat reply_to st) (\<lambda>v. send_transaction env created dat v st) of
       Inl e \<Rightarrow> (Inl e, st)
     | Inr (m, st') \<Rightarrow> (Inr m, st'))"

definition reply :: "msg_env \<Rightarrow> pyfloat \<Rightarrow> pyval \<Rightarrow> pyval \<Rightarrow> pyval \<Rightarrow> pyval \<Rightarrow> message_store
    \<Rightarrow> message result \<times> message_store" where
  "reply env created sender message_id txt dat st =
    (case rbind (ensure_open st) (\<lambda>_. rbind (validate_client st sender) (\<lambda>s.
            rbind (validate_reply_to message_id) (\<lambda>i. case i of
                None \<Rightarrow> Inl AssertionError
              | Some n \<Rightarrow> (case row_by_id n st of
                    None \<Rightarrow> Inl (ValueError ''unknown reply message ID'')
                  | Some r \<Rightarrow> if mr_recipient r \<noteq> s
                      then Inl (ValueError ''reply message is not addressed to the sender'') else Inr r)))) of
       Inl e \<Rightarrow> (Inl e, st)
     | Inr r \<Rightarrow> send env created sender (PStr (mr_sender r)) txt dat message_id st)"


text \<open>The rows a read selects, in ascending order.\<close>

definition selected :: "pystr \<Rightarrow> nat option \<Rightarrow> pystr option \<Rightarrow> nat option \<Rightarrow> message_row \<Rightarrow> bool" where
  "selected recipient after sender answered r \<longleftrightarrow> mr_recipient r = recipient \<and> mr_acknowledged r = None
     \<and> (case after of None \<Rightarrow> True | Some i \<Rightarrow> i < mr_id r)
     \<and> (case sender of None \<Rightarrow> True | Some s \<Rightarrow> mr_sender r = s)
     \<and> (case answered of None \<Rightarrow> True | Some i \<Rightarrow> mr_reply_to r = Some i)"

text \<open>What the loop of \<open>read\<close> has collected: messages, warnings, and whether some were left out.\<close>

type_synonym collected = "message list \<times> pystr list \<times> bool"

definition read_row :: "msg_env \<Rightarrow> message_row \<Rightarrow> collected \<Rightarrow> collected option result" where
  "read_row env r acc = (case acc of (ms, ws, left_out) \<Rightarrow>
    (case message_of env r of (m, w) \<Rightarrow>
      let ms' = ms @ [m]; omitted = (w \<noteq> None \<and> max_read_warnings \<le> length ws);
          ws' = (case w of None \<Rightarrow> ws | Some x \<Rightarrow> if length ws < max_read_warnings then ws @ [x] else ws) in
      rbind (page_size env ms' ws' left_out) (\<lambda>n.
      if n \<le> max_read_bytes then Inr (Some (ms', ws', left_out \<or> omitted))
      else rbind (page_size env ms' [] True) (\<lambda>n1.
      if n1 \<le> max_read_bytes then Inr (Some (ms', [], True))
      else rbind (page_size env ms' [] False) (\<lambda>n2.
      if n2 \<le> max_read_bytes then Inr (Some (ms', [], False)) else Inr None)))))"

text \<open>The loop; the flag tells that the size cap was reached.\<close>

fun read_rows :: "msg_env \<Rightarrow> message_row list \<Rightarrow> collected \<Rightarrow> (collected \<times> bool) result" where
  "read_rows env [] acc = Inr (acc, False)"
| "read_rows env (r # rs) acc =
    rbind (read_row env r acc) (\<lambda>a. case a of
        None \<Rightarrow> Inr (acc, True)
      | Some acc' \<Rightarrow> read_rows env rs acc')"

definition read_valid :: "pyval \<Rightarrow> pyval \<Rightarrow> pyval \<Rightarrow> pyval \<Rightarrow> pyval \<Rightarrow> message_store
    \<Rightarrow> (pystr \<times> nat \<times> nat option \<times> pystr option \<times> nat option) result" where
  "read_valid recipient limit after sender reply_to st =
    rbind (ensure_open st) (\<lambda>_.
    rbind (validate_client st recipient) (\<lambda>c.
    rbind (validate_limit limit) (\<lambda>n.
    rbind (validate_after after) (\<lambda>a.
    rbind (if sender = PNone then Inr None else rbind (validate_client st sender) (\<lambda>s. Inr (Some s))) (\<lambda>s.
    rbind (validate_reply_to reply_to) (\<lambda>i. Inr (c, n, a, s, i)))))))"

definition read_messages :: "msg_env \<Rightarrow> pyfloat \<Rightarrow> pyval \<Rightarrow> pyval \<Rightarrow> pyval \<Rightarrow> pyval \<Rightarrow> pyval \<Rightarrow> message_store
    \<Rightarrow> message_page result \<times> message_store" where
  "read_messages env now recipient limit after sender reply_to st =
    (case read_valid recipient limit after sender reply_to st of
       Inl e \<Rightarrow> (Inl e, st)
     | Inr (c, n, a, s, i) \<Rightarrow>
        let st' = touch_activity c now st;
            rows = take (Suc n) (filter (selected c a s i) (ms_rows st)) in
        (rbind (read_rows env (take n rows) ([], [], False)) (\<lambda>((ms, ws, left_out), cap).
           Inr (messages_page ms (cap \<or> length ms < length rows) ws left_out)), st'))"

text \<open>\<open>ack\<close>: the rows named, and the mark of a row that is not acknowledged.\<close>

definition fetch_ids :: "nat list \<Rightarrow> message_store \<Rightarrow> message_row list" where
  "fetch_ids ids st = select_chunks mr_id ids (ms_rows st)"

definition ack_rows :: "pyfloat \<Rightarrow> nat list \<Rightarrow> message_row list \<Rightarrow> nat \<times> message_row list" where
  "ack_rows now ids rows = mark_all mr_id (\<lambda>r. mr_acknowledged r = None)
     (\<lambda>r. r\<lparr>mr_acknowledged := Some now\<rparr>) ids rows"

definition ack :: "pyfloat \<Rightarrow> pyfloat \<Rightarrow> pyval \<Rightarrow> pyval \<Rightarrow> message_store \<Rightarrow> nat result \<times> message_store" where
  "ack seen now recipient ids st =
    (case rbind (ensure_open st) (\<lambda>_. rbind (validate_client st recipient) (\<lambda>c.
            rbind (validate_ids ids) (\<lambda>vs. Inr (c, vs)))) of
       Inl e \<Rightarrow> (Inl e, st)
     | Inr (c, vs) \<Rightarrow>
        if vs = [] then (Inr 0, st)
        else let rows = fetch_ids vs st in
          if list_ex (\<lambda>i. i \<notin> mr_id ` set rows) vs then (Inl (ValueError ''unknown message ID''), st)
          else if list_ex (\<lambda>r. mr_recipient r \<noteq> c) rows then
            (Inl (ValueError ''message is addressed to another client''), st)
          else (case ack_rows now vs (ms_rows st) of
                  (n, rs) \<Rightarrow> (Inr n, (touch_activity c seen st)\<lparr>ms_rows := rs\<rparr>)))"

section \<open>The inbox\<close>

record preview =
  pv_id :: nat
  pv_from :: pystr
  pv_text :: pystr
  pv_truncated :: bool
  pv_reply_to :: "nat option"

definition preview_val :: "preview \<Rightarrow> pyval" where
  "preview_val p = PDict ([(lit ''id'', PInt (int (pv_id p))), (lit ''from'', PStr (pv_from p)),
     (lit ''text'', PStr (pv_text p)), (lit ''truncated'', PBool (pv_truncated p))]
     @ (case pv_reply_to p of None \<Rightarrow> [] | Some i \<Rightarrow> [(lit ''reply_to'', PInt (int i))]))"

definition inbox_size :: "msg_env \<Rightarrow> preview list \<Rightarrow> nat result" where
  "inbox_size env ps = json_size (me_float env) (PList (map preview_val ps))"

text \<open>The first \<open>n\<close> characters of a preview's text.\<close>

definition cut_preview :: "nat \<Rightarrow> preview \<Rightarrow> preview" where
  "cut_preview n p = p\<lparr>pv_text := take n (pv_text p), pv_truncated := True\<rparr>"

text \<open>The search of \<open>_fit_inbox_message\<close>; \<open>high\<close> may be -1.\<close>

function fit_loop :: "msg_env \<Rightarrow> preview list \<Rightarrow> preview \<Rightarrow> int \<Rightarrow> int \<Rightarrow> preview option \<Rightarrow> preview option result" where
  "fit_loop env ps full low high best =
    (if low \<le> high then
       let middle = (low + high) div 2; candidate = cut_preview (nat middle) full in
       rbind (inbox_size env (ps @ [candidate])) (\<lambda>n.
         if n \<le> max_inbox_bytes then fit_loop env ps full (middle + 1) high (Some candidate)
         else fit_loop env ps full low (middle - 1) best)
     else Inr best)"
  by auto
termination
  by (relation "measure (\<lambda>(env, ps, full, low, high, best). nat (high - low + 1))") auto

declare fit_loop.simps [simp del]

definition fit_inbox_message :: "msg_env \<Rightarrow> preview list \<Rightarrow> preview \<Rightarrow> preview option result" where
  "fit_inbox_message env ps full = fit_loop env ps full 0 (int (length (pv_text full))) None"

definition preview_of :: "bool \<Rightarrow> message_row \<Rightarrow> preview" where
  "preview_of reply_column r = \<lparr>pv_id = mr_id r, pv_from = mr_sender r, pv_text = mr_text r,
     pv_truncated = False, pv_reply_to = (if reply_column then mr_reply_to r else None)\<rparr>"

fun inbox_rows :: "msg_env \<Rightarrow> preview list \<Rightarrow> preview list \<Rightarrow> preview list result" where
  "inbox_rows env [] ps = Inr ps"
| "inbox_rows env (full # rest) ps =
    rbind (inbox_size env (ps @ [full])) (\<lambda>n.
      if n \<le> max_inbox_bytes then inbox_rows env rest (ps @ [full])
      else rbind (fit_inbox_message env ps full) (\<lambda>t. case t of
          None \<Rightarrow> Inr ps
        | Some p \<Rightarrow> Inr (ps @ [p])))"

record inbox_page =
  ib_unacked :: nat
  ib_messages :: "preview list"
  ib_has_more :: bool

definition unacked :: "pystr \<Rightarrow> message_store \<Rightarrow> message_row list" where
  "unacked c st = filter (\<lambda>r. mr_recipient r = c \<and> mr_acknowledged r = None) (ms_rows st)"

definition inbox :: "msg_env \<Rightarrow> pyval \<Rightarrow> message_store \<Rightarrow> inbox_page result" where
  "inbox env recipient st =
    rbind (ensure_open st) (\<lambda>_. rbind (validate_client st recipient) (\<lambda>c.
      let rows = unacked c st in
      rbind (inbox_rows env (map (preview_of (ms_reply_column st)) (take max_inbox_messages rows)) []) (\<lambda>ps.
        Inr \<lparr>ib_unacked = length rows, ib_messages = ps, ib_has_more = (length ps < length rows)\<rparr>)))"

text \<open>\<open>snapshot_existing\<close>: the store is none without a database file or a table of messages.\<close>

definition snapshot_existing :: "msg_env \<Rightarrow> message_store option \<Rightarrow> pyval \<Rightarrow> inbox_page option" where
  "snapshot_existing env found client = (case found of
      None \<Rightarrow> None
    | Some st \<Rightarrow> (case inbox env client st of
          Inl e \<Rightarrow> None
        | Inr p \<Rightarrow> if ib_unacked p = 0 then None else Some p))"

definition close :: "message_store \<Rightarrow> message_store" where
  "close st = st\<lparr>ms_closed := True\<rparr>"

text \<open>
  The law of the library: \<open>json.loads\<close> accepts what \<open>json.dumps\<close> wrote for a value, and what it
  gives prints as that value does.
\<close>

definition round_trips :: "msg_env \<Rightarrow> pyval \<Rightarrow> bool" where
  "round_trips env v \<longleftrightarrow> (case json_dumps (compact (me_float env)) v of
      None \<Rightarrow> True
    | Some s \<Rightarrow> (case me_loads env s of
          None \<Rightarrow> False
        | Some v' \<Rightarrow> json_dumps (spaced (me_float env)) v' = json_dumps (spaced (me_float env)) v))"

text \<open>
  The store as one of its processes moves it: clients register, and the data sent are values for
  which the law holds.
\<close>

inductive message_step :: "msg_env \<Rightarrow> message_store \<Rightarrow> message_store \<Rightarrow> bool" for env where
  Register: "c \<notin> fst ` set (ms_clients st) \<Longrightarrow> list_all is_scalar c \<Longrightarrow>
    message_step env st (st\<lparr>ms_clients := (c, None) # ms_clients st\<rparr>)"
| Send: "round_trips env dat \<Longrightarrow> message_step env st (snd (send env (Finite m e) sender to txt dat reply_to st))"
| Reply: "round_trips env dat \<Longrightarrow> message_step env st (snd (reply env (Finite m e) sender message_id txt dat st))"
| Read: "message_step env st (snd (read_messages env now recipient limit after sender reply_to st))"
| Ack: "message_step env st (snd (ack seen now recipient ids st))"
| Close: "message_step env st (close st)"

inductive_cases message_stepE: "message_step env st st'"

definition message_init :: message_store where
  "message_init = \<lparr>ms_rows = [], ms_seq = 0, ms_clients = [], ms_reply_column = True, ms_closed = False\<rparr>"

definition message_states :: "msg_env \<Rightarrow> message_store \<Rightarrow> bool" where
  "message_states env st \<longleftrightarrow> (message_step env)\<^sup>*\<^sup>* message_init st"

end
