(* ===== verification/Message_Inbox.thy ===== *)
theory Message_Inbox
  imports Messages
begin

text \<open>
  The inbox preview: the search for the longest text that fits agrees with trying every length, and
  the preview is a bounded prefix of the messages that are not acknowledged.
\<close>

section \<open>The size of a preview\<close>

lemma utf8_bytes_append_length: "length (utf8_bytes (s @ t)) = length (utf8_bytes s) + length (utf8_bytes t)"
  by simp

text \<open>A preview is written around its text, and the list around its last preview.\<close>

lemma json_quoted_split:
  "json_pairs st (ks @ (k, PStr t) # d) =
     (case json_pairs st ks of None \<Rightarrow> None
      | Some a \<Rightarrow> (case json_pairs st d of None \<Rightarrow> None
          | Some b \<Rightarrow> Some (a @ ((quoted k @ js_key_sep st @ [34]) @ escaped t @ [34]) # b)))"
  by (auto simp: json_pairs_append quoted_def split: option.splits)

lemma join_with_middle: "\<exists>pre post. \<forall>x. join_with sep (a @ x # b) = pre @ x @ post"
proof (induction a)
  case Nil
  show ?case
  proof (cases b)
    case Nil
    then show ?thesis by (intro exI [of _ "[]"]) simp
  next
    case (Cons y ys)
    then show ?thesis by (intro exI [of _ "[]"] exI [of _ "sep @ join_with sep (y # ys)"]) simp
  qed
next
  case (Cons c a)
  then obtain pre post where e: "\<forall>x. join_with sep (a @ x # b) = pre @ x @ post" by blast
  have "join_with sep ((c # a) @ x # b) = (c @ sep @ pre) @ x @ post" for x
  proof -
    have "join_with sep ((c # a) @ x # b) = c @ sep @ join_with sep (a @ x # b)"
      by (cases "a @ x # b") auto
    then show ?thesis by (simp add: e)
  qed
  then show ?case by blast
qed

lemma join_with_middle2: "\<exists>pre post. \<forall>x y. join_with sep (a @ x # y # b) = pre @ x @ sep @ y @ post"
proof (induction a)
  case Nil
  show ?case
  proof (cases b)
    case Nil
    then show ?thesis by (intro exI [of _ "[]"]) simp
  next
    case (Cons z zs)
    then show ?thesis by (intro exI [of _ "[]"] exI [of _ "sep @ join_with sep (z # zs)"]) simp
  qed
next
  case (Cons c a)
  then obtain pre post where e: "\<forall>x y. join_with sep (a @ x # y # b) = pre @ x @ sep @ y @ post" by blast
  have "join_with sep ((c # a) @ x # y # b) = (c @ sep @ pre) @ x @ sep @ y @ post" for x y
  proof -
    have "join_with sep ((c # a) @ x # y # b) = c @ sep @ join_with sep (a @ x # y # b)"
      by (cases "a @ x # y # b") auto
    then show ?thesis by (simp add: e)
  qed
  then show ?case by blast
qed

definition written :: "msg_env \<Rightarrow> preview list \<Rightarrow> pystr option" where
  "written env ps = json_dumps (spaced (me_float env)) (PList (map preview_val ps))"

definition flag_text :: "bool \<Rightarrow> pystr" where
  "flag_text b = (if b then lit ''true'' else lit ''false'')"

text \<open>What is written depends on the text and the mark of the last preview in two places only.\<close>

lemma written_around_text:
  assumes "written env (ps @ [p]) \<noteq> None"
  shows "\<exists>pre mid post. \<forall>t b. written env (ps @ [p\<lparr>pv_text := t, pv_truncated := b\<rparr>]) =
    Some (pre @ escaped t @ mid @ flag_text b @ post)"
proof -
  let ?st = "spaced (me_float env)"
  let ?k = "[(lit ''id'', PInt (int (pv_id p))), (lit ''from'', PStr (pv_from p))]"
  let ?d = "case pv_reply_to p of None \<Rightarrow> [] | Some i \<Rightarrow> [(lit ''reply_to'', PInt (int i))]"
  let ?q = "\<lambda>t b. p\<lparr>pv_text := t, pv_truncated := b\<rparr>"
  have val: "preview_val (?q t b) = PDict (?k @ (lit ''text'', PStr t) # (lit ''truncated'', PBool b) # ?d)" for t b
    by (simp add: preview_val_def del: lit_simps)
  have pairs: "json_pairs ?st (?k @ (lit ''text'', PStr t) # (lit ''truncated'', PBool b) # ?d) =
     (case json_pairs ?st ?k of None \<Rightarrow> None
      | Some a \<Rightarrow> (case json_pairs ?st ?d of None \<Rightarrow> None
          | Some r \<Rightarrow> Some (a @ ((quoted (lit ''text'') @ js_key_sep ?st @ [34]) @ escaped t @ [34])
              # (quoted (lit ''truncated'') @ js_key_sep ?st @ flag_text b) # r)))" for t b
    by (auto simp: json_pairs_append quoted_def flag_text_def simp del: lit_simps split: option.splits)
  have same: "?q (pv_text p) (pv_truncated p) = p" by simp
  obtain qs where qs: "json_items ?st (map preview_val ps) = Some qs"
    using assms by (auto simp: written_def json_items_append split: option.splits)
  have "json_dumps ?st (preview_val (?q (pv_text p) (pv_truncated p))) \<noteq> None"
    using assms unfolding same by (auto simp: written_def json_items_append split: option.splits)
  then have "json_pairs ?st ?k \<noteq> None \<and> json_pairs ?st ?d \<noteq> None"
    unfolding val by (simp add: pairs del: lit_simps json_pairs.simps append.simps split: option.splits)
  then obtain a r where ab: "json_pairs ?st ?k = Some a" "json_pairs ?st ?d = Some r" by auto
  obtain l u where lu: "\<forall>x y. join_with (js_item_sep ?st) (a @ x # y # r) = l @ x @ js_item_sep ?st @ y @ u"
    using join_with_middle2 by blast
  let ?pre = "l @ quoted (lit ''text'') @ js_key_sep ?st @ [34]"
  let ?mid = "[34] @ js_item_sep ?st @ quoted (lit ''truncated'') @ js_key_sep ?st"
  have one: "json_dumps ?st (preview_val (?q t b)) =
      Some ([123] @ ?pre @ escaped t @ ?mid @ flag_text b @ u @ [125])" for t b
  proof -
    have "json_pairs ?st (?k @ (lit ''text'', PStr t) # (lit ''truncated'', PBool b) # ?d) =
        Some (a @ ((quoted (lit ''text'') @ js_key_sep ?st @ [34]) @ escaped t @ [34])
              # (quoted (lit ''truncated'') @ js_key_sep ?st @ flag_text b) # r)"
      unfolding pairs by (simp only: ab option.case)
    then show ?thesis unfolding val json_dumps.simps using lu
      by (simp del: lit_simps json_pairs.simps append_Cons)
  qed
  obtain l2 u2 where lu2: "\<forall>x. join_with (js_item_sep ?st) (qs @ [x]) = l2 @ x @ u2"
    using join_with_middle [of "js_item_sep ?st" qs "[]"] by auto
  have "written env (ps @ [?q t b]) =
      Some (([91] @ l2 @ [123] @ ?pre) @ escaped t @ ?mid @ flag_text b @ (u @ [125] @ u2 @ [93]))" for t b
    by (simp add: written_def json_items_append qs one lu2 del: lit_simps)
  then show ?thesis by blast
qed

lemma flag_text_scalar: "list_all is_scalar (flag_text b)"
  by (simp add: flag_text_def is_scalar_def is_surrogate_def)

lemma inbox_size_written:
  "inbox_size env ps = Inr n \<longleftrightarrow> (\<exists>s. written env ps = Some s \<and> list_all is_scalar s \<and> n = length (utf8_bytes s))"
  by (simp add: inbox_size_def written_def json_size_scalar)

text \<open>The size of a shortened preview: a constant and the size of the escaped text.\<close>

lemma inbox_size_cut:
  assumes "inbox_size env (ps @ [full]) = Inr n"
  shows "\<exists>c. \<forall>k. inbox_size env (ps @ [cut_preview k full])
    = Inr (c + length (utf8_bytes (escaped (take k (pv_text full)))))"
proof -
  have ne: "written env (ps @ [full]) \<noteq> None" using assms by (auto simp: inbox_size_written)
  obtain pre mid post where w: "\<forall>t b. written env (ps @ [full\<lparr>pv_text := t, pv_truncated := b\<rparr>]) =
      Some (pre @ escaped t @ mid @ flag_text b @ post)"
    using written_around_text [OF ne] by blast
  have "written env (ps @ [full]) = Some (pre @ escaped (pv_text full) @ mid @ flag_text (pv_truncated full) @ post)"
    using w [THEN spec, of "pv_text full", THEN spec, of "pv_truncated full"] by simp
  then have sc: "list_all is_scalar pre" "list_all is_scalar mid" "list_all is_scalar post"
      "list_all is_scalar (pv_text full)"
    using assms by (auto simp: inbox_size_written escaped_scalar_iff)
  have "inbox_size env (ps @ [cut_preview k full]) = Inr (length (utf8_bytes pre) + length (utf8_bytes mid)
      + length (utf8_bytes (flag_text True)) + length (utf8_bytes post)
      + length (utf8_bytes (escaped (take k (pv_text full)))))" for k
  proof -
    have "list_all is_scalar (take k (pv_text full))"
      using sc(4) by (auto simp: list_all_iff dest: in_set_takeD)
    then show ?thesis
      using w sc flag_text_scalar [of True]
      by (simp add: inbox_size_written cut_preview_def escaped_scalar_iff)
  qed
  then show ?thesis by blast
qed

lemma escaped_take_mono:
  "k \<le> l \<Longrightarrow> length (utf8_bytes (escaped (take k s))) \<le> length (utf8_bytes (escaped (take l s)))"
proof -
  assume "k \<le> l"
  then have "take l s = take k s @ take (l - k) (drop k s)"
    using take_add [of k "l - k" s] by simp
  then show ?thesis by simp
qed

section \<open>The search finds the longest text\<close>

text \<open>Trying every length in turn.\<close>

definition fits :: "msg_env \<Rightarrow> preview list \<Rightarrow> preview \<Rightarrow> nat \<Rightarrow> bool" where
  "fits env ps full k = (case inbox_size env (ps @ [cut_preview k full]) of
      Inl _ \<Rightarrow> False | Inr n \<Rightarrow> n \<le> max_inbox_bytes)"

definition longest_fit :: "msg_env \<Rightarrow> preview list \<Rightarrow> preview \<Rightarrow> preview option" where
  "longest_fit env ps full =
    (let ks = filter (fits env ps full) [0..<Suc (length (pv_text full))] in
     if ks = [] then None else Some (cut_preview (last ks) full))"

lemma longest_fit_eq:
  assumes "l \<le> Suc (length (pv_text full))" and "\<And>k. k < l \<Longrightarrow> fits env ps full k"
    and "\<And>k. l \<le> k \<Longrightarrow> k \<le> length (pv_text full) \<Longrightarrow> \<not> fits env ps full k"
  shows "longest_fit env ps full = (if l = 0 then None else Some (cut_preview (l - 1) full))"
proof -
  have "[0..<Suc (length (pv_text full))] = [0..<l] @ [l..<Suc (length (pv_text full))]"
    using assms(1) upt_add_eq_append [of 0 l "Suc (length (pv_text full)) - l"] by simp
  moreover have "filter (fits env ps full) [0..<l] = [0..<l]" using assms(2) by (simp add: filter_id_conv)
  moreover have "filter (fits env ps full) [l..<Suc (length (pv_text full))] = []"
    using assms(3) by (auto simp: filter_empty_conv)
  ultimately have "filter (fits env ps full) [0..<Suc (length (pv_text full))] = [0..<l]"
    by (simp del: upt_Suc)
  then show ?thesis by (simp add: longest_fit_def Let_def del: upt_Suc)
qed

lemma fit_loop_longest:
  assumes size: "\<And>k. inbox_size env (ps @ [cut_preview k full]) = Inr (sz k)"
    and mono: "\<And>k l. k \<le> l \<Longrightarrow> sz k \<le> sz l"
  shows "0 \<le> low \<Longrightarrow> low \<le> high + 1 \<Longrightarrow> high \<le> int (length (pv_text full)) \<Longrightarrow>
    (\<And>k. int k < low \<Longrightarrow> fits env ps full k) \<Longrightarrow>
    (\<And>k. high < int k \<Longrightarrow> k \<le> length (pv_text full) \<Longrightarrow> \<not> fits env ps full k) \<Longrightarrow>
    best = (if low = 0 then None else Some (cut_preview (nat (low - 1)) full)) \<Longrightarrow>
    fit_loop env ps full low high best = Inr (longest_fit env ps full)"
proof (induction "nat (high - low + 1)" arbitrary: low high best rule: less_induct)
  case less
  have fits: "fits env ps full k \<longleftrightarrow> sz k \<le> max_inbox_bytes" for k by (simp add: fits_def size)
  show ?case
  proof (cases "low \<le> high")
    case True
    let ?m = "(low + high) div 2"
    have m: "low \<le> ?m" "?m \<le> high" using True by auto
    show ?thesis
    proof (cases "sz (nat ?m) \<le> max_inbox_bytes")
      case fit: True
      have "fit_loop env ps full (?m + 1) high (Some (cut_preview (nat ?m) full)) = Inr (longest_fit env ps full)"
      proof (rule less.hyps)
        show "fits env ps full k" if "int k < ?m + 1" for k
          using fit mono [of k "nat ?m"] that less.prems(1) m by (simp add: fits le_nat_iff)
      qed (use m less.prems in auto)
      then show ?thesis using True fit by (subst fit_loop.simps) (simp add: Let_def size)
    next
      case False
      have "fit_loop env ps full low (?m - 1) best = Inr (longest_fit env ps full)"
      proof (rule less.hyps)
        show "\<not> fits env ps full k" if "?m - 1 < int k" "k \<le> length (pv_text full)" for k
        proof -
          have "nat ?m \<le> k" using that(1) by linarith
          from mono [OF this] False show ?thesis by (simp add: fits)
        qed
      qed (use m less.prems in auto)
      then show ?thesis using True False by (subst fit_loop.simps) (simp add: Let_def size)
    qed
  next
    case False
    then have eq: "high = low - 1" using less.prems(2) by simp
    have "longest_fit env ps full = (if nat low = 0 then None else Some (cut_preview (nat low - 1) full))"
    proof (rule longest_fit_eq)
      show "fits env ps full k" if "k < nat low" for k using less.prems(4) [of k] that by simp
      show "\<not> fits env ps full k" if "nat low \<le> k" "k \<le> length (pv_text full)" for k
        using less.prems(5) [of k] that eq less.prems(1) by simp
    qed (use less.prems(1,3) eq in simp)
    moreover have "nat low - 1 = nat (low - 1)" by simp
    ultimately show ?thesis using False less.prems(1,6) by (subst fit_loop.simps) simp
  qed
qed

lemma fit_inbox_longest_aux:
  assumes "inbox_size env (ps @ [full]) = Inr n"
  shows "fit_inbox_message env ps full = Inr (longest_fit env ps full)"
proof -
  obtain c where c: "inbox_size env (ps @ [cut_preview k full])
      = Inr (c + length (utf8_bytes (escaped (take k (pv_text full)))))" for k
    using inbox_size_cut [OF assms] by blast
  show ?thesis
    unfolding fit_inbox_message_def
    by (rule fit_loop_longest [OF c]) (simp_all add: escaped_take_mono)
qed

text \<open>
  C28: The search of the inbox finds the longest beginning of the text that fits beside the messages
  already chosen, as trying every length would, and nothing exactly when not even the empty text fits.
\<close>

theorem fit_inbox_longest:
  assumes "inbox_size env (ps @ [full]) = Inr n"
  shows "fit_inbox_message env ps full = Inr (longest_fit env ps full)"
  using assms by (rule fit_inbox_longest_aux)

section \<open>The preview is bounded\<close>

lemma longest_fit_size:
  assumes "longest_fit env ps full = Some p"
  shows "\<exists>n k. inbox_size env (ps @ [p]) = Inr n \<and> n \<le> max_inbox_bytes \<and> p = cut_preview k full"
proof -
  let ?ks = "filter (fits env ps full) [0..<Suc (length (pv_text full))]"
  have ne: "?ks \<noteq> []" and p: "p = cut_preview (last ?ks) full"
    using assms by (auto simp: longest_fit_def Let_def split: if_splits)
  have "fits env ps full (last ?ks)" using last_in_set [OF ne] unfolding set_filter by blast
  with p show ?thesis by (auto simp: fits_def split: sum.splits)
qed

text \<open>One preview stands for one row: all of it, or a shortened text marked so.\<close>

definition previews :: "bool \<Rightarrow> message_row \<Rightarrow> preview \<Rightarrow> bool" where
  "previews col r p \<longleftrightarrow> p = preview_of col r \<or> (\<exists>k. p = cut_preview k (preview_of col r))"

lemma inbox_rows_bounded:
  assumes "inbox_rows env (map (preview_of col) rows) ps = Inr qs"
    and "inbox_size env ps = Inr n" and "n \<le> max_inbox_bytes"
  shows "\<exists>rs. qs = ps @ rs \<and> length rs \<le> length rows \<and> list_all2 (previews col) (take (length rs) rows) rs
    \<and> (\<exists>m. inbox_size env qs = Inr m \<and> m \<le> max_inbox_bytes)"
  using assms
proof (induction rows arbitrary: ps n)
  case Nil
  then show ?case by auto
next
  case (Cons r rows)
  let ?f = "preview_of col r"
  obtain m where m: "inbox_size env (ps @ [?f]) = Inr m"
    using Cons.prems(1) by (auto simp: result_simps)
  show ?case
  proof (cases "m \<le> max_inbox_bytes")
    case True
    with Cons.prems(1) m have "inbox_rows env (map (preview_of col) rows) (ps @ [?f]) = Inr qs" by simp
    from Cons.IH [OF this m True] obtain rs where rs: "qs = (ps @ [?f]) @ rs" "length rs \<le> length rows"
      "list_all2 (previews col) (take (length rs) rows) rs"
      "\<exists>m. inbox_size env qs = Inr m \<and> m \<le> max_inbox_bytes" by blast
    moreover have "previews col r ?f" by (simp add: previews_def)
    ultimately show ?thesis by (intro exI [of _ "?f # rs"]) auto
  next
    case False
    show ?thesis
    proof (cases "longest_fit env ps ?f")
      case None
      with False m Cons.prems have "qs = ps" by (auto simp: fit_inbox_longest_aux [OF m])
      with Cons.prems show ?thesis by auto
    next
      case (Some p)
      with False m Cons.prems(1) have qs: "qs = ps @ [p]" by (auto simp: fit_inbox_longest_aux [OF m])
      with longest_fit_size [OF Some] show ?thesis
        by (intro exI [of _ "[p]"]) (auto simp: previews_def)
    qed
  qed
qed

text \<open>
  C37: The preview is at most 4 KiB and five messages; it shows the first messages that are not
  acknowledged, in order, each whole or shortened and marked so; the count is of all of them, and
  \<open>has_more\<close> tells whether some are not shown.
\<close>

theorem inbox_bounded:
  assumes "inbox env recipient st = Inr p"
  shows "\<exists>c n. recipient = PStr c \<and> inbox_size env (ib_messages p) = Inr n \<and> n \<le> 4096
    \<and> length (ib_messages p) \<le> 5 \<and> ib_unacked p = length (unacked c st)
    \<and> ib_has_more p = (length (ib_messages p) < length (unacked c st))
    \<and> list_all2 (previews (ms_reply_column st)) (take (length (ib_messages p)) (unacked c st)) (ib_messages p)"
proof -
  obtain c ps where c: "validate_client st recipient = Inr c"
    and ps: "inbox_rows env (map (preview_of (ms_reply_column st)) (take max_inbox_messages (unacked c st))) [] = Inr ps"
    and p: "p = \<lparr>ib_unacked = length (unacked c st), ib_messages = ps, ib_has_more = (length ps < length (unacked c st))\<rparr>"
    using assms by (auto simp: inbox_def result_simps Let_def)
  have "recipient = PStr c"
    using c by (auto simp: validate_client_def result_simps split: pyval.splits if_splits)
  moreover have "inbox_size env [] = Inr 2"
    by (simp add: inbox_size_def json_size_def utf8_encode_def is_scalar_def is_surrogate_def
        utf8_char_def)
  from inbox_rows_bounded [OF ps this] obtain n where n: "length ps \<le> length (take max_inbox_messages (unacked c st))"
    "list_all2 (previews (ms_reply_column st)) (take (length ps) (take max_inbox_messages (unacked c st))) ps"
    "inbox_size env ps = Inr n" "n \<le> max_inbox_bytes"
    by (auto simp: max_inbox_bytes_def)
  moreover have "length ps \<le> 5" "take (length ps) (take max_inbox_messages (unacked c st)) = take (length ps) (unacked c st)"
    using n(1) by (simp_all add: max_inbox_messages_def min_def split: if_splits)
  ultimately show ?thesis using p by (auto simp: max_inbox_bytes_def)
qed


section \<open>A whole text that is marked as shortened\<close>

text \<open>
  \<open>true\<close> is one byte shorter than \<open>false\<close>: a message that is one byte too large as it is fits when it
  is marked as truncated, and is shown with all of its text and that mark.
\<close>

lemma whole_text_marked:
  assumes "inbox_size env (ps @ [full]) = Inr (Suc max_inbox_bytes)" and "\<not> pv_truncated full"
  shows "fit_inbox_message env ps full = Inr (Some (full\<lparr>pv_truncated := True\<rparr>))"
proof -
  let ?l = "length (pv_text full)"
  have ne: "written env (ps @ [full]) \<noteq> None" using assms(1) by (auto simp: inbox_size_written)
  obtain pre mid post where w: "\<forall>t b. written env (ps @ [full\<lparr>pv_text := t, pv_truncated := b\<rparr>]) =
      Some (pre @ escaped t @ mid @ flag_text b @ post)"
    using written_around_text [OF ne] by blast
  have whole: "cut_preview ?l full = full\<lparr>pv_text := pv_text full, pv_truncated := True\<rparr>"
    by (simp add: cut_preview_def)
  have same: "full\<lparr>pv_text := pv_text full, pv_truncated := False\<rparr> = full" using assms(2) by (cases full) simp
  have "written env (ps @ [full]) = Some (pre @ escaped (pv_text full) @ mid @ flag_text False @ post)"
    using w [THEN spec, of "pv_text full", THEN spec, of False] unfolding same .
  moreover have "length (utf8_bytes (flag_text False)) = 5" "length (utf8_bytes (flag_text True)) = 4"
    by code_simp+
  ultimately have "fits env ps full ?l"
    using assms(1) w [THEN spec, of "pv_text full", THEN spec, of True] flag_text_scalar [of True]
    unfolding fits_def whole by (auto simp: inbox_size_def written_def json_size_def utf8_encode_def split: if_splits)
  then have "longest_fit env ps full = Some (cut_preview ?l full)"
    by (simp add: longest_fit_def Let_def)
  moreover have "cut_preview ?l full = full\<lparr>pv_truncated := True\<rparr>" unfolding whole by (cases full) simp
  ultimately show ?thesis by (simp add: fit_inbox_longest_aux [OF assms(1)])
qed

section \<open>Examples\<close>

definition sample_env :: msg_env where
  "sample_env = \<lparr>me_float = (\<lambda>_. lit ''1.0''), me_loads = (\<lambda>_. None)\<rparr>"

definition sample_preview :: preview where
  "sample_preview = \<lparr>pv_id = 7, pv_from = lit ''a'', pv_text = [104, 233, 34], pv_truncated = False,
     pv_reply_to = Some 3\<rparr>"

lemma sample_preview_size: "inbox_size sample_env ([] @ [sample_preview]) = Inr 76"
  by code_simp

theorem fit_inbox_longest_witness:
  "fit_inbox_message sample_env [] sample_preview = Inr (Some (cut_preview 3 sample_preview))"
proof -
  have "longest_fit sample_env [] sample_preview = Some (cut_preview 3 sample_preview)" by code_simp
  with fit_inbox_longest [OF sample_preview_size] show ?thesis by simp
qed

definition sample_store :: message_store where
  "sample_store = \<lparr>ms_rows = [\<lparr>mr_id = 7, mr_sender = lit ''a'', mr_recipient = lit ''b'',
     mr_text = [104, 233, 34], mr_created = Finite 1 0, mr_acknowledged = None, mr_data = None,
     mr_reply_to = Some 3\<rparr>], ms_seq = 7, ms_clients = [(lit ''b'', None), (lit ''a'', None)],
     ms_reply_column = True, ms_closed = False\<rparr>"

theorem inbox_bounded_witness:
  "\<exists>p n. inbox sample_env (PStr (lit ''b'')) sample_store = Inr p \<and> inbox_size sample_env (ib_messages p) = Inr n
     \<and> n \<le> 4096 \<and> ib_unacked p = 1 \<and> length (ib_messages p) \<le> 5"
proof -
  have "\<exists>p. inbox sample_env (PStr (lit ''b'')) sample_store = Inr p \<and> length (unacked (lit ''b'') sample_store) = 1"
    by (rule exI [of _ "\<lparr>ib_unacked = 1, ib_messages = [sample_preview], ib_has_more = False\<rparr>"]) code_simp
  then obtain p where p: "inbox sample_env (PStr (lit ''b'')) sample_store = Inr p"
    "length (unacked (lit ''b'') sample_store) = 1" by blast
  from inbox_bounded [OF p(1)] p show ?thesis by (auto simp del: lit_simps)
qed

end
