(* ===== verification/Message_Proofs.thy ===== *)
theory Message_Proofs
  imports Messages
begin

text \<open>
  The store of messages in every reachable state: acknowledging is exact and atomic, answers go back
  to the sender, no page exceeds the limit, and following the cursor of \<open>read\<close> shows every message
  once.
\<close>

section \<open>Acknowledging\<close>

definition ack_row :: "pyfloat \<Rightarrow> nat set \<Rightarrow> message_row \<Rightarrow> message_row" where
  "ack_row now ids r = (if mr_id r \<in> ids \<and> mr_acknowledged r = None then r\<lparr>mr_acknowledged := Some now\<rparr> else r)"

definition to_ack :: "nat set \<Rightarrow> message_row \<Rightarrow> bool" where
  "to_ack ids r \<longleftrightarrow> mr_id r \<in> ids \<and> mr_acknowledged r = None"

interpretation message_marks: marking mr_id "\<lambda>r. mr_acknowledged r = None" "\<lambda>r. r\<lparr>mr_acknowledged := Some now\<rparr>"
  for now
  by unfold_locales simp_all

lemma ack_row_fields [simp]:
  "mr_id (ack_row now A r) = mr_id r" "mr_sender (ack_row now A r) = mr_sender r"
  "mr_recipient (ack_row now A r) = mr_recipient r" "mr_reply_to (ack_row now A r) = mr_reply_to r"
  "mr_data (ack_row now A r) = mr_data r" "mr_text (ack_row now A r) = mr_text r"
  "mr_created (ack_row now A r) = mr_created r"
  by (simp_all add: ack_row_def)

lemma ack_rows_eq:
  "ack_rows now ids rows = (length (filter (to_ack (set ids)) rows), map (ack_row now (set ids)) rows)"
  by (simp add: ack_rows_def message_marks.mark_all_eq to_mark_def [abs_def] mark_in_def [abs_def]
      to_ack_def [abs_def] ack_row_def [abs_def])

lemma fetch_ids_set: "set (fetch_ids vs st) = {r \<in> set (ms_rows st). mr_id r \<in> set vs}"
  by (simp add: fetch_ids_def set_select_chunks)

lemma ack_cases:
  obtains (refused) e where "ack seen now recipient ids st = (Inl e, st)"
  | (accepted) c vs where "recipient = PStr c" "validate_ids ids = Inr vs"
      "\<And>i. i \<in> set vs \<Longrightarrow> \<exists>r \<in> set (ms_rows st). mr_id r = i"
      "\<And>r. r \<in> set (ms_rows st) \<Longrightarrow> mr_id r \<in> set vs \<Longrightarrow> mr_recipient r = c"
      "fst (ack seen now recipient ids st) = Inr (length (filter (to_ack (set vs)) (ms_rows st)))"
      "ms_rows (snd (ack seen now recipient ids st)) = map (ack_row now (set vs)) (ms_rows st)"
      "ms_seq (snd (ack seen now recipient ids st)) = ms_seq st"
proof -
  let ?v = "rbind (ensure_open st) (\<lambda>_. rbind (validate_client st recipient) (\<lambda>c.
            rbind (validate_ids ids) (\<lambda>vs. Inr (c, vs))))"
  show ?thesis
  proof (cases ?v)
    case (Inl e)
    then show ?thesis by (intro refused [of e]) (simp add: ack_def)
  next
    case (Inr cv)
    obtain c vs where cv: "cv = (c, vs)" by (cases cv)
    have rc: "recipient = PStr c"
      using Inr cv by (auto simp: validate_client_def result_simps split: pyval.splits if_splits)
    have ids: "validate_ids ids = Inr vs" using Inr cv by (auto simp: result_simps)
    show ?thesis
    proof (cases "vs = []")
      case True
      have "ack_row now {} = id" "filter (to_ack {}) rs = []" for rs
        by (auto simp: ack_row_def to_ack_def fun_eq_iff)
      then show ?thesis using Inr cv True rc ids by (intro accepted [of c vs]) (simp_all add: ack_def)
    next
      case False
      let ?rows = "fetch_ids vs st"
      consider (unknown) "list_ex (\<lambda>i. i \<notin> mr_id ` set ?rows) vs"
        | (foreign) "\<not> list_ex (\<lambda>i. i \<notin> mr_id ` set ?rows) vs" "list_ex (\<lambda>r. mr_recipient r \<noteq> c) ?rows"
        | (good) "\<not> list_ex (\<lambda>i. i \<notin> mr_id ` set ?rows) vs" "\<not> list_ex (\<lambda>r. mr_recipient r \<noteq> c) ?rows"
        by blast
      then show ?thesis
      proof cases
        case unknown
        then show ?thesis
          using Inr cv False by (intro refused [of "ValueError ''unknown message ID''"]) (simp add: ack_def Let_def)
      next
        case foreign
        then show ?thesis
          using Inr cv False
          by (intro refused [of "ValueError ''message is addressed to another client''"]) (simp add: ack_def Let_def)
      next
        case good
        have eq: "ack seen now recipient ids st = (Inr (length (filter (to_ack (set vs)) (ms_rows st))),
            (touch_activity c seen st)\<lparr>ms_rows := map (ack_row now (set vs)) (ms_rows st)\<rparr>)"
          using Inr cv False good by (simp add: ack_def Let_def ack_rows_eq touch_activity_def)
        show ?thesis
        proof (rule accepted [OF rc ids])
          show "\<exists>r \<in> set (ms_rows st). mr_id r = i" if "i \<in> set vs" for i
            using good(1) that by (auto simp: list_ex_iff fetch_ids_set)
          show "mr_recipient r = c" if "r \<in> set (ms_rows st)" "mr_id r \<in> set vs" for r
            using good(2) that by (auto simp: list_ex_iff fetch_ids_set)
        qed (simp_all add: eq touch_activity_def)
      qed
    qed
  qed
qed

text \<open>
  C29: A refused acknowledgement changes nothing.  An accepted one marks exactly the named messages
  that were not acknowledged before, keeps the time of the others, and returns how many it marked;
  every id it named belongs to a message addressed to the client.
\<close>

theorem ack_exact:
  "case ack seen now recipient ids st of
     (Inl e, st') \<Rightarrow> st' = st
   | (Inr n, st') \<Rightarrow> \<exists>c vs. recipient = PStr c \<and> validate_ids ids = Inr vs
       \<and> ms_rows st' = map (ack_row now (set vs)) (ms_rows st)
       \<and> n = length (filter (to_ack (set vs)) (ms_rows st))
       \<and> list_all (\<lambda>i. list_ex (\<lambda>r. mr_id r = i \<and> mr_recipient r = c) (ms_rows st)) vs"
proof (cases rule: ack_cases [of seen now recipient ids st])
  case (refused e)
  then show ?thesis by simp
next
  case (accepted c vs)
  obtain r st' where a: "ack seen now recipient ids st = (r, st')" by (cases "ack seen now recipient ids st")
  have "list_all (\<lambda>i. list_ex (\<lambda>r. mr_id r = i \<and> mr_recipient r = c) (ms_rows st)) vs"
    using accepted(3,4) by (fastforce simp: list_all_iff list_ex_iff)
  with accepted a show ?thesis by auto
qed

section \<open>The effect of sending and reading on the rows\<close>

lemma touch_simps [simp]:
  "ms_rows (touch_activity c now st) = ms_rows st" "ms_seq (touch_activity c now st) = ms_seq st"
  by (simp_all add: touch_activity_def)

lemma send_cases:
  obtains (refused) e where "send env created sender target body dat reply_to st = (Inl e, st)"
  | (accepted) s r x d i n where
      "send_valid env sender target body dat reply_to st = Inr (s, r, x, d, i)"
      "check_reply s r i st = Inr ()" "ms_seq st < max_id"
      "page_size env [\<lparr>msg_id = Suc (ms_seq st), msg_from = s, msg_to = r, msg_text = x, msg_created_at = created,
             msg_data = dat, msg_reply_to = i, msg_data_corrupt = False\<rparr>] [] False = Inr n" "n \<le> max_read_bytes"
      "ms_rows (snd (send env created sender target body dat reply_to st)) = ms_rows st @
        [\<lparr>mr_id = Suc (ms_seq st), mr_sender = s, mr_recipient = r, mr_text = x,
          mr_created = created, mr_acknowledged = None, mr_data = d, mr_reply_to = i\<rparr>]"
      "ms_seq (snd (send env created sender target body dat reply_to st)) = Suc (ms_seq st)"
proof (cases "rbind (send_valid env sender target body dat reply_to st) (\<lambda>v. send_transaction env created dat v st)")
  case (Inl e)
  then show thesis by (intro refused [of e]) (simp add: send_def)
next
  case (Inr mst)
  obtain m st' where mst: "mst = (m, st')" by (cases mst)
  obtain s r x d i where v: "send_valid env sender target body dat reply_to st = Inr (s, r, x, d, i)"
    and t: "send_transaction env created dat (s, r, x, d, i) st = Inr (m, st')"
    using Inr mst by (auto simp: result_simps)
  have seq: "ms_seq st < max_id"
    using t by (auto simp: send_transaction_def insert_row_def result_simps split: if_splits)
  have st': "snd (send env created sender target body dat reply_to st) = st'"
    using Inr mst by (simp add: send_def)
  show thesis
    using t seq v unfolding send_transaction_def insert_row_def
    by (auto simp: result_simps Let_def st' split: if_splits intro!: accepted)
qed


lemma reply_cases:
  obtains (refused) e where "reply env created sender message_id body dat st = (Inl e, st)"
  | (sent) target where "reply env created sender message_id body dat st = send env created sender target body dat message_id st"
proof -
  have "(\<exists>e. reply env created sender message_id body dat st = (Inl e, st))
    \<or> (\<exists>target. reply env created sender message_id body dat st = send env created sender target body dat message_id st)"
    unfolding reply_def by (auto split: sum.splits)
  then show ?thesis using refused sent by blast
qed

lemma read_rows_unchanged:
  "ms_rows (snd (read_messages env now c l a s i st)) = ms_rows st"
  "ms_seq (snd (read_messages env now c l a s i st)) = ms_seq st"
  by (auto simp: read_messages_def Let_def split: sum.splits prod.splits)

section \<open>Reachable stores\<close>

text \<open>Ids ascend up to the sequence, and an answer goes from the recipient to the sender.\<close>

definition answers :: "message_row list \<Rightarrow> message_row \<Rightarrow> bool" where
  "answers rows r \<longleftrightarrow> (case mr_reply_to r of
      None \<Rightarrow> True
    | Some i \<Rightarrow> \<exists>q \<in> set rows. mr_id q = i \<and> i < mr_id r \<and> mr_recipient q = mr_sender r
        \<and> mr_sender q = mr_recipient r)"

definition rows_ok :: "message_row list \<Rightarrow> nat \<Rightarrow> bool" where
  "rows_ok rows n \<longleftrightarrow> n \<le> max_id \<and> sorted_wrt (<) (map mr_id rows)
     \<and> (\<forall>r \<in> set rows. 0 < mr_id r \<and> mr_id r \<le> n) \<and> (\<forall>r \<in> set rows. answers rows r)"

lemma answers_more: "answers rows r \<Longrightarrow> set rows \<subseteq> set rows' \<Longrightarrow> answers rows' r"
  by (auto simp: answers_def split: option.splits)

lemma answers_ack: "answers rows r \<Longrightarrow> answers (map (ack_row now A) rows) (ack_row now A r)"
  by (auto simp: answers_def split: option.splits)

lemma rows_ok_ack: "rows_ok rows n \<Longrightarrow> rows_ok (map (ack_row now A) rows) n"
proof -
  assume ok: "rows_ok rows n"
  have "map mr_id (map (ack_row now A) rows) = map mr_id rows" by simp
  with ok answers_ack show ?thesis unfolding rows_ok_def by (auto simp del: map_map)
qed

lemma rows_ok_snoc:
  assumes ok: "rows_ok rows n" and "n < max_id" and id: "mr_id r = Suc n"
    and reply: "\<And>i. mr_reply_to r = Some i \<Longrightarrow> \<exists>q \<in> set rows. mr_id q = i \<and> mr_recipient q = mr_sender r
      \<and> mr_sender q = mr_recipient r"
  shows "rows_ok (rows @ [r]) (Suc n)"
proof -
  have below: "mr_id q \<le> n" if "q \<in> set rows" for q using ok that by (simp add: rows_ok_def)
  have "answers (rows @ [r]) r"
  proof (cases "mr_reply_to r")
    case (Some i)
    from reply [OF this] obtain q where q: "q \<in> set rows" "mr_id q = i" "mr_recipient q = mr_sender r"
      "mr_sender q = mr_recipient r" by blast
    with below [OF q(1)] id have "i < mr_id r" by simp
    with q Some show ?thesis unfolding answers_def by auto
  qed (simp add: answers_def)
  moreover have "answers (rows @ [r]) q" if "q \<in> set rows" for q
    by (rule answers_more [of rows q]) (use ok that in \<open>auto simp: rows_ok_def\<close>)
  moreover have "mr_id q \<le> Suc n" if "q \<in> set rows" for q using below [OF that] by simp
  ultimately show ?thesis
    using ok assms(2) id below by (simp add: rows_ok_def sorted_wrt_append less_Suc_eq_le)
qed

lemma send_rows_ok:
  assumes ok: "rows_ok (ms_rows st) (ms_seq st)"
    and s: "s' = snd (send env created sender target body dat reply_to st)"
  shows "rows_ok (ms_rows s') (ms_seq s')"
proof (cases rule: send_cases [of env created sender target body dat reply_to st])
  case (refused e)
  with ok s show ?thesis by simp
next
  case (accepted s r x d i n)
  have reply: "\<exists>q \<in> set (ms_rows st). mr_id q = k \<and> mr_recipient q = s \<and> mr_sender q = r" if "i = Some k" for k
  proof -
    from accepted(2) that obtain q where "row_by_id k st = Some q" "mr_recipient q = s" "mr_sender q = r"
      by (auto simp: check_reply_def split: option.splits if_splits)
    then show ?thesis by (auto simp: row_by_id_def find_Some_iff intro: nth_mem)
  qed
  have "rows_ok (ms_rows st @ [\<lparr>mr_id = Suc (ms_seq st), mr_sender = s, mr_recipient = r, mr_text = x,
          mr_created = created, mr_acknowledged = None, mr_data = d, mr_reply_to = i\<rparr>]) (Suc (ms_seq st))"
    by (rule rows_ok_snoc [OF ok accepted(3)]) (use reply in auto)
  with accepted(6,7) s show ?thesis by simp
qed

lemma message_step_rows_ok:
  assumes "message_step env st st'" and "rows_ok (ms_rows st) (ms_seq st)"
  shows "rows_ok (ms_rows st') (ms_seq st')"
  using assms(1)
proof (cases rule: message_step.cases)
  case (Send dat m e sender target body reply_to)
  with send_rows_ok [OF assms(2)] show ?thesis by simp
next
  case (Reply dat m e sender message_id body)
  then show ?thesis
    using send_rows_ok [OF assms(2)] assms(2)
    by (cases rule: reply_cases [of env "Finite m e" sender message_id body dat st]) auto
next
  case (Ack seen now recipient ids)
  then show ?thesis using assms(2) rows_ok_ack
    by (cases rule: ack_cases [of seen now recipient ids st]) simp_all
qed (use assms(2) in \<open>simp_all add: read_rows_unchanged close_def\<close>)

lemma message_states_rows_ok:
  assumes "message_states env st"
  shows "rows_ok (ms_rows st) (ms_seq st)"
  using assms unfolding message_states_def
proof (induction rule: rtranclp_induct)
  case base
  show ?case by (simp add: message_init_def rows_ok_def)
next
  case (step y z)
  then show ?case using message_step_rows_ok by blast
qed

text \<open>
  C30: In every reachable store a message that answers another has a larger id, comes from the client
  that the other was addressed to, and goes to the client that sent it.
\<close>

theorem replies_return:
  assumes "message_states env st" and "r \<in> set (ms_rows st)" and "mr_reply_to r = Some i"
  shows "\<exists>q \<in> set (ms_rows st). mr_id q = i \<and> i < mr_id r \<and> mr_recipient q = mr_sender r
    \<and> mr_sender q = mr_recipient r"
  using message_states_rows_ok [OF assms(1)] assms(2,3) by (auto simp: rows_ok_def answers_def)

section \<open>Readable rows\<close>

text \<open>A row whose message, alone on a page, is within the limit and has no warning.\<close>

definition readable :: "msg_env \<Rightarrow> message_row \<Rightarrow> bool" where
  "readable env r \<longleftrightarrow> snd (message_of env r) = None
     \<and> (\<exists>n. page_size env [fst (message_of env r)] [] False = Inr n \<and> n \<le> max_read_bytes)"

lemma message_of_ack [simp]: "message_of env (ack_row now A r) = message_of env r"
  by (auto simp: message_of_def Let_def split: option.splits)

text \<open>A page prints the same when the data of its messages do.\<close>

lemma json_pairs_value:
  "json_dumps st v' = json_dumps st v \<Longrightarrow> json_pairs st (a @ (k, v') # b) = json_pairs st (a @ (k, v) # b)"
  by (simp add: json_pairs_append split: option.split)

lemma message_dumps_data:
  assumes "json_dumps st v' = json_dumps st v"
  shows "json_dumps st (message_val (m\<lparr>msg_data := v'\<rparr>)) = json_dumps st (message_val (m\<lparr>msg_data := v\<rparr>))"
proof -
  let ?a = "[(lit ''id'', PInt (int (msg_id m))), (lit ''from'', PStr (msg_from m)),
     (lit ''to'', PStr (msg_to m)), (lit ''text'', PStr (msg_text m)),
     (lit ''created_at'', PFloat (msg_created_at m))]"
  let ?b = "(lit ''reply_to'', id_val (msg_reply_to m))
     # (if msg_data_corrupt m then [(lit ''data_corrupt'', PBool True)] else [])"
  have "message_val (m\<lparr>msg_data := w\<rparr>) = PDict (?a @ (lit ''data'', w) # ?b)" for w
    by (simp add: message_val_def del: lit_simps)
  then show ?thesis by (simp only: json_dumps.simps json_pairs_value [OF assms])
qed

lemma json_size_data:
  assumes "json_dumps (spaced fl) v' = json_dumps (spaced fl) v"
  shows "json_size fl (page_val (messages_page [m\<lparr>msg_data := v'\<rparr>] f ws tr))
    = json_size fl (page_val (messages_page [m\<lparr>msg_data := v\<rparr>] f ws tr))"
proof -
  let ?rest = "[(lit ''next_cursor'', id_val (if f then Some (msg_id m) else None)), (lit ''has_more'', PBool f)]
     @ (if ws \<noteq> [] then [(lit ''warnings'', PList (map warning_val ws))] else [])
     @ (if tr then [(lit ''warnings_truncated'', PBool True)] else [])"
  have page: "page_val (messages_page [m\<lparr>msg_data := w\<rparr>] f ws tr) =
      PDict ((lit ''messages'', PList [message_val (m\<lparr>msg_data := w\<rparr>)]) # ?rest)" for w
    by (simp add: page_val_def messages_page_def del: lit_simps)
  have "json_dumps (spaced fl) (PList [message_val (m\<lparr>msg_data := v'\<rparr>)])
      = json_dumps (spaced fl) (PList [message_val (m\<lparr>msg_data := v\<rparr>)])"
    by (simp add: message_dumps_data [OF assms])
  from json_pairs_value [OF this, of "[]"] show ?thesis
    unfolding json_size_def page by (simp only: json_dumps.simps append_Nil)
qed

lemma page_size_data:
  assumes "json_dumps (spaced (me_float env)) v' = json_dumps (spaced (me_float env)) v"
  shows "page_size env [m\<lparr>msg_data := v'\<rparr>] ws tr = page_size env [m\<lparr>msg_data := v\<rparr>] ws tr"
  by (simp add: page_size_def json_size_data [OF assms])

lemma encode_data_Some:
  assumes "encode_data env v = Inr (Some s)"
  shows "json_dumps (compact (me_float env)) v = Some s"
  using assms by (auto simp: encode_data_def result_simps split: if_splits option.splits)

lemma send_valid_data:
  assumes "send_valid env sender target body dat reply_to st = Inr (s, r, x, d, i)"
  shows "encode_data env dat = Inr d"
  using assms by (auto simp: send_valid_def result_simps)

lemma send_readable:
  assumes ok: "\<forall>r \<in> set (ms_rows st). readable env r" and law: "round_trips env dat"
    and s: "s' = snd (send env created sender target body dat reply_to st)"
  shows "\<forall>r \<in> set (ms_rows s'). readable env r"
proof (cases rule: send_cases [of env created sender target body dat reply_to st])
  case (refused e)
  with ok s show ?thesis by simp
next
  case (accepted s r x d i n)
  let ?m = "\<lparr>msg_id = Suc (ms_seq st), msg_from = s, msg_to = r, msg_text = x, msg_created_at = created,
             msg_data = PNone, msg_reply_to = i, msg_data_corrupt = False\<rparr>"
  let ?r = "\<lparr>mr_id = Suc (ms_seq st), mr_sender = s, mr_recipient = r, mr_text = x,
          mr_created = created, mr_acknowledged = None, mr_data = d, mr_reply_to = i\<rparr>"
  have size: "page_size env [?m\<lparr>msg_data := dat\<rparr>] [] False = Inr n" using accepted(4) by simp
  have enc: "encode_data env dat = Inr d" by (rule send_valid_data [OF accepted(1)])
  have "readable env ?r"
  proof (cases d)
    case None
    with enc have "dat = PNone" by (auto simp: encode_data_def result_simps split: if_splits option.splits)
    with None size accepted(5) show ?thesis by (simp add: readable_def message_of_def)
  next
    case (Some e)
    with law encode_data_Some [of env dat e] enc obtain v where v: "me_loads env e = Some v"
      "json_dumps (spaced (me_float env)) v = json_dumps (spaced (me_float env)) dat"
      by (auto simp: round_trips_def split: option.splits)
    from size have "page_size env [?m\<lparr>msg_data := v\<rparr>] [] False = Inr n"
      by (simp only: page_size_data [OF v(2)])
    with Some v(1) accepted(5) show ?thesis by (simp add: readable_def message_of_def)
  qed
  with ok accepted(6) s show ?thesis by auto
qed

lemma message_step_readable:
  assumes "message_step env st st'" and ok: "\<forall>r \<in> set (ms_rows st). readable env r"
  shows "\<forall>r \<in> set (ms_rows st'). readable env r"
  using assms(1)
proof (cases rule: message_step.cases)
  case (Send dat m e sender target body reply_to)
  with send_readable [OF ok] show ?thesis by simp
next
  case (Reply dat m e sender message_id body)
  then show ?thesis
    using send_readable [OF ok Reply(2)] ok
    by (cases rule: reply_cases [of env "Finite m e" sender message_id body dat st]) auto
next
  case (Ack seen now recipient ids)
  then show ?thesis using ok
    by (cases rule: ack_cases [of seen now recipient ids st]) (auto simp: readable_def)
qed (use ok in \<open>simp_all add: read_rows_unchanged close_def\<close>)

lemma message_states_readable:
  assumes "message_states env st" and "r \<in> set (ms_rows st)"
  shows "readable env r"
proof -
  from assms(1) have "\<forall>r \<in> set (ms_rows st). readable env r"
    unfolding message_states_def
  proof (induction rule: rtranclp_induct)
    case base
    show ?case by (simp add: message_init_def)
  next
    case (step y z)
    then show ?case using message_step_readable by blast
  qed
  with assms(2) show ?thesis by blast
qed

end
