(* ===== verification/Message_Reading.thy ===== *)
theory Message_Reading
  imports Message_Proofs
begin

text \<open>
  Reading in pages: in a reachable store no read fails on the size of a page, no page is above the
  limit, and a client that follows \<open>next_cursor\<close> gets every message that is not acknowledged once,
  in order.  The contract is the locale \<open>pager\<close>, interpreted on \<open>read_messages\<close>.
\<close>

section \<open>Pages that can be written\<close>

lemma length_digits_of_nat: "n < 10 ^ Suc k \<Longrightarrow> length (digits_of_nat n) \<le> Suc k"
proof (induction k arbitrary: n)
  case 0
  then show ?case by (subst digits_of_nat.simps) simp
next
  case (Suc k)
  show ?case
  proof (cases "n < 10")
    case True
    then show ?thesis by (subst digits_of_nat.simps) simp
  next
    case False
    have "n div 10 < 10 ^ Suc k" using Suc.prems by (simp add: less_mult_imp_div_less)
    from Suc.IH [OF this] False show ?thesis by (subst digits_of_nat.simps) simp
  qed
qed

lemma digits_scalar: "list_all is_scalar (digits_of_nat n)"
proof (induction n rule: digits_of_nat.induct)
  case (1 n)
  have "is_scalar (48 + d)" if "d < 10" for d using that by (simp add: is_scalar_def is_surrogate_def)
  with "1" show ?case by (subst digits_of_nat.simps) simp
qed

lemma writable_id: "n \<le> max_id \<Longrightarrow> writable fl (PInt (int n))"
proof -
  assume "n \<le> max_id"
  then have "n < 10 ^ Suc 18" by (simp add: max_id_def)
  from length_digits_of_nat [OF this] have "\<not> 4300 < length (digits_of_nat n)" by simp
  then show ?thesis by (simp add: writable_def int_text_def Let_def digits_scalar)
qed

lemma writable_id_val: "(\<And>i. n = Some i \<Longrightarrow> writable fl (PInt (int i))) \<Longrightarrow> writable fl (id_val n)"
  by (cases n) (simp_all add: id_val_def)

lemma page_writable:
  "writable fl (page_val (messages_page ms f ws tr)) \<longleftrightarrow> list_all (\<lambda>m. writable fl (message_val m)) ms
    \<and> writable fl (id_val (if f \<and> ms \<noteq> [] then Some (msg_id (last ms)) else None)) \<and> list_all (list_all is_scalar) ws"
proof -
  have keys: "list_all is_scalar (lit ''messages'')" "list_all is_scalar (lit ''next_cursor'')"
    "list_all is_scalar (lit ''has_more'')" "list_all is_scalar (lit ''warnings'')"
    "list_all is_scalar (lit ''warnings_truncated'')" "list_all is_scalar (lit ''code'')"
    "list_all is_scalar (lit ''text'')" "list_all is_scalar (lit ''message_data_corrupt'')"
    by code_simp+
  have "writable fl (PList (map warning_val ws)) \<longleftrightarrow> list_all (list_all is_scalar) ws"
    by (simp add: writable_list list.pred_map comp_def warning_val_def writable_dict keys del: lit_simps)
  then show ?thesis
    by (auto simp: page_val_def messages_page_def writable_dict writable_list list.pred_map comp_def keys
        simp del: lit_simps)
qed

text \<open>A message that can be written has an id that can be.\<close>

lemma message_writable_id: "writable fl (message_val m) \<Longrightarrow> writable fl (PInt (int (msg_id m)))"
  by (simp add: message_val_def writable_dict del: lit_simps)

definition msgs_writable :: "msg_env \<Rightarrow> message list \<Rightarrow> bool" where
  "msgs_writable env ms \<longleftrightarrow> list_all (\<lambda>m. writable (me_float env) (message_val m)) ms"

lemma page_size_total:
  assumes "msgs_writable env ms"
  shows "\<exists>n. page_size env ms [] tr = Inr n"
proof -
  have "writable (me_float env) (page_val (messages_page ms f [] tr))" for f
    unfolding page_writable
    using assms by (auto simp: msgs_writable_def list_all_iff intro!: writable_id_val message_writable_id)
  then have "\<exists>n. json_size (me_float env) (page_val (messages_page ms f [] tr)) = Inr n" for f
    by (simp add: json_size_writable)
  then show ?thesis unfolding page_size_def by (metis rbind.simps(2))
qed

lemma page_size_writable: "page_size env [m] [] False = Inr n \<Longrightarrow> writable (me_float env) (message_val m)"
proof -
  assume "page_size env [m] [] False = Inr n"
  then have "\<exists>k. json_size (me_float env) (page_val (messages_page [m] False [] False)) = Inr k"
    by (auto simp: page_size_def result_simps)
  then show ?thesis by (simp add: json_size_writable page_writable)
qed

text \<open>The mark of omitted warnings costs 28 bytes.\<close>

lemma page_size_flag:
  assumes "page_size env ms ws False = Inr n"
  shows "page_size env ms ws True = Inr (n + 28)"
proof -
  have one: "json_size (me_float env) (page_val (messages_page ms f ws True)) = Inr (k + 28)"
    if "json_size (me_float env) (page_val (messages_page ms f ws False)) = Inr k" for f k
  proof -
    obtain d where d: "page_val (messages_page ms f ws False) = PDict d" "d \<noteq> []"
      "page_val (messages_page ms f ws True) = PDict (d @ [(lit ''warnings_truncated'', PBool True)])"
      by (simp add: page_val_def messages_page_def del: lit_simps)
    have "length (utf8_bytes (quoted (lit ''warnings_truncated'') @ lit ''true'')) = 24"
      "list_all is_scalar (lit ''warnings_truncated'' @ lit ''true'')" by code_simp+
    with that d show ?thesis by (simp add: json_size_snoc [OF d(2)] del: lit_simps utf8_bytes_append list_all_append)
  qed
  then show ?thesis using assms by (auto simp: page_size_def result_simps)
qed

section \<open>The loop of a read\<close>

abbreviation msg_at :: "msg_env \<Rightarrow> message_row \<Rightarrow> message" where
  "msg_at env r \<equiv> fst (message_of env r)"

lemma read_row_clean:
  assumes r: "readable env r" and ms: "msgs_writable env ms"
  shows "\<exists>n. page_size env (ms @ [msg_at env r]) [] False = Inr n \<and> msgs_writable env (ms @ [msg_at env r])
    \<and> read_row env r (ms, [], False) =
      Inr (if n \<le> max_read_bytes then Some (ms @ [msg_at env r], [], False) else None)"
proof -
  obtain m where m: "message_of env r = (m, None)" using r by (cases "message_of env r") (auto simp: readable_def)
  have w: "msgs_writable env (ms @ [m])"
    using r ms page_size_writable [of env m] m by (auto simp: readable_def msgs_writable_def)
  obtain n where n: "page_size env (ms @ [m]) [] False = Inr n" using page_size_total [OF w] by blast
  with page_size_flag [OF n] w m show ?thesis
    by (auto simp: read_row_def max_read_warnings_def)
qed

lemma read_rows_clean:
  assumes "list_all (readable env) rs" and "msgs_writable env ms"
    and "page_size env ms [] False = Inr n0" and "n0 \<le> max_read_bytes"
  shows "\<exists>k n. k \<le> length rs \<and> read_rows env rs (ms, [], False) =
      Inr ((ms @ map (msg_at env) (take k rs), [], False), k < length rs)
    \<and> (ms = [] \<longrightarrow> rs \<noteq> [] \<longrightarrow> 0 < k)
    \<and> page_size env (ms @ map (msg_at env) (take k rs)) [] False = Inr n \<and> n \<le> max_read_bytes"
  using assms
proof (induction rs arbitrary: ms n0)
  case Nil
  then show ?case by auto
next
  case (Cons r rs)
  let ?ms = "ms @ [msg_at env r]"
  have r: "readable env r" "list_all (readable env) rs" using Cons.prems(1) by simp_all
  obtain n where n: "page_size env ?ms [] False = Inr n" "msgs_writable env ?ms"
    "read_row env r (ms, [], False) = Inr (if n \<le> max_read_bytes then Some (?ms, [], False) else None)"
    using read_row_clean [OF r(1) Cons.prems(2)] by blast
  show ?case
  proof (cases "n \<le> max_read_bytes")
    case True
    from Cons.IH [OF r(2) n(2,1) True] obtain k m where k: "k \<le> length rs"
      "read_rows env rs (?ms, [], False) = Inr ((?ms @ map (msg_at env) (take k rs), [], False), k < length rs)"
      "page_size env (?ms @ map (msg_at env) (take k rs)) [] False = Inr m" "m \<le> max_read_bytes" by blast
    with n(3) True show ?thesis by (intro exI [of _ "Suc k"] exI [of _ m]) simp
  next
    case False
    with n(3) have stop: "read_rows env (r # rs) (ms, [], False) = Inr ((ms, [], False), True)" by simp
    have "ms \<noteq> []"
    proof
      assume "ms = []"
      with r(1) n(1) False show False by (auto simp: readable_def)
    qed
    with stop Cons.prems(3,4) show ?thesis by (intro exI [of _ 0] exI [of _ n0]) simp
  qed
qed

lemma empty_page_size: "page_size env [] [] False = Inr 56"
proof -
  have "json_size fl (page_val (messages_page [] f [] False)) = Inr (if f then 55 else 56)" for fl f
    by (simp add: page_val_def messages_page_def id_val_def json_size_def spaced_def quoted_def escaped_def
        escape_char_def utf8_encode_def is_scalar_def is_surrogate_def utf8_char_def)
  then show ?thesis by (simp add: page_size_def)
qed


section \<open>One read as a page\<close>

record message_reader =
  rd_env :: msg_env
  rd_now :: pyfloat
  rd_client :: pystr
  rd_limit :: nat
  rd_sender :: "pystr option"
  rd_reply :: "nat option"
  rd_store :: message_store

definition name_val :: "pystr option \<Rightarrow> pyval" where
  "name_val n = (case n of None \<Rightarrow> PNone | Some s \<Rightarrow> PStr s)"

definition mreader_read :: "message_reader \<Rightarrow> nat option \<Rightarrow> message_page result" where
  "mreader_read rd a = fst (read_messages (rd_env rd) (rd_now rd) (PStr (rd_client rd)) (PInt (int (rd_limit rd)))
     (id_val a) (name_val (rd_sender rd)) (id_val (rd_reply rd)) (rd_store rd))"

text \<open>A page and the cursor that a client passes next, when there is more.\<close>

definition mreader_page :: "message_reader \<Rightarrow> nat option \<Rightarrow> exc + (message list \<times> nat option option)" where
  "mreader_page rd a = (case mreader_read rd a of
      Inl e \<Rightarrow> Inl e
    | Inr p \<Rightarrow> Inr (mp_messages p, if mp_has_more p then Some (mp_next_cursor p) else None))"

definition mreader_rows :: "message_reader \<Rightarrow> nat option \<Rightarrow> message_row list" where
  "mreader_rows rd a = filter (selected (rd_client rd) a (rd_sender rd) (rd_reply rd)) (ms_rows (rd_store rd))"

definition mreader_rest :: "message_reader \<Rightarrow> nat option \<Rightarrow> message list" where
  "mreader_rest rd a = map (msg_at (rd_env rd)) (mreader_rows rd a)"

definition client_ok :: "message_store \<Rightarrow> pystr \<Rightarrow> bool" where
  "client_ok st c \<longleftrightarrow> c \<noteq> [] \<and> list_all is_scalar c \<and> c \<in> fst ` set (ms_clients st)"

definition id_ok :: "nat option \<Rightarrow> bool" where
  "id_ok n \<longleftrightarrow> (case n of None \<Rightarrow> True | Some i \<Rightarrow> 0 < i \<and> i \<le> max_id)"

text \<open>The parameters are accepted and the store is a reachable one that is open.\<close>

definition mreader_ok :: "message_reader \<Rightarrow> bool" where
  "mreader_ok rd \<longleftrightarrow> message_states (rd_env rd) (rd_store rd) \<and> \<not> ms_closed (rd_store rd)
     \<and> client_ok (rd_store rd) (rd_client rd) \<and> 1 \<le> rd_limit rd \<and> rd_limit rd \<le> 100
     \<and> (case rd_sender rd of None \<Rightarrow> True | Some s \<Rightarrow> client_ok (rd_store rd) s) \<and> id_ok (rd_reply rd)"

definition mreader_valid :: "message_reader \<Rightarrow> nat option \<Rightarrow> bool" where
  "mreader_valid rd a \<longleftrightarrow> mreader_ok rd \<and> id_ok a"

lemma validate_client_ok: "client_ok st c \<Longrightarrow> validate_client st (PStr c) = Inr c"
  by (simp add: client_ok_def validate_client_def utf8_encode_def)

lemma positive_id_ok: "0 < i \<Longrightarrow> i \<le> max_id \<Longrightarrow> positive_id (PInt (int i)) = Some i"
  by (simp add: positive_id_def)

lemma read_valid_ok:
  assumes "mreader_valid rd a"
  shows "read_valid (PStr (rd_client rd)) (PInt (int (rd_limit rd))) (id_val a) (name_val (rd_sender rd))
     (id_val (rd_reply rd)) (rd_store rd) = Inr (rd_client rd, rd_limit rd, a, rd_sender rd, rd_reply rd)"
proof -
  have "validate_after (id_val a) = Inr a"
    using assms by (cases a) (simp_all add: validate_after_def id_val_def mreader_valid_def id_ok_def positive_id_ok)
  moreover have "validate_reply_to (id_val (rd_reply rd)) = Inr (rd_reply rd)"
    using assms by (cases "rd_reply rd")
      (simp_all add: validate_reply_to_def id_val_def mreader_valid_def mreader_ok_def id_ok_def positive_id_ok)
  moreover have "(if name_val (rd_sender rd) = PNone then Inr None
      else rbind (validate_client (rd_store rd) (name_val (rd_sender rd))) (\<lambda>s. Inr (Some s))) = Inr (rd_sender rd)"
    using assms by (cases "rd_sender rd")
      (simp_all add: name_val_def mreader_valid_def mreader_ok_def validate_client_ok)
  ultimately show ?thesis
    using assms
    by (simp add: read_valid_def ensure_open_def validate_limit_def mreader_valid_def mreader_ok_def validate_client_ok)
qed

text \<open>What a read gives: the first messages that are left, at least one when there are any.\<close>

lemma mreader_read_eq:
  assumes "mreader_valid rd a"
  shows "\<exists>k n. let rows = mreader_rows rd a; p = messages_page (take k (mreader_rest rd a)) (k < length rows) [] False in
    k \<le> length rows \<and> (rows \<noteq> [] \<longrightarrow> 0 < k) \<and> mreader_read rd a = Inr p
    \<and> json_size (me_float (rd_env rd)) (page_val p) = Inr n \<and> n \<le> max_read_bytes"
proof -
  let ?env = "rd_env rd" and ?all = "mreader_rows rd a" and ?l = "rd_limit rd"
  have reach: "message_states ?env (rd_store rd)" and l: "1 \<le> ?l" using assms by (simp_all add: mreader_valid_def mreader_ok_def)
  have "list_all (readable ?env) (take ?l ?all)"
    using message_states_readable [OF reach]
    by (auto simp: list_all_iff mreader_rows_def dest!: in_set_takeD)
  moreover have "msgs_writable ?env []" by (simp add: msgs_writable_def)
  ultimately obtain k n where k: "k \<le> length (take ?l ?all)"
    "read_rows ?env (take ?l ?all) ([], [], False) =
      Inr (([] @ map (msg_at ?env) (take k (take ?l ?all)), [], False), k < length (take ?l ?all))"
    "take ?l ?all \<noteq> [] \<longrightarrow> 0 < k"
    "page_size ?env ([] @ map (msg_at ?env) (take k (take ?l ?all))) [] False = Inr n" "n \<le> max_read_bytes"
    using read_rows_clean [OF _ _ empty_page_size] by (fastforce simp: max_read_bytes_def)
  have tk: "take k (take ?l ?all) = take k ?all" using k(1) by (simp add: min_def split: if_splits)
  have ms: "map (msg_at ?env) (take k ?all) = take k (mreader_rest rd a)" by (simp add: mreader_rest_def take_map)
  have len: "length (mreader_rest rd a) = length ?all" by (simp add: mreader_rest_def)
  have "take ?l (take (Suc ?l) ?all) = take ?l ?all" by (simp add: min_def)
  then have "mreader_read rd a = Inr (messages_page (take k (mreader_rest rd a))
      (k < length (take ?l ?all) \<or> length (take k ?all) < length (take (Suc ?l) ?all)) [] False)"
    using k(2) read_valid_ok [OF assms] tk ms
    len by (simp add: mreader_read_def read_messages_def Let_def flip: mreader_rows_def)
  moreover have "(k < length (take ?l ?all) \<or> length (take k ?all) < length (take (Suc ?l) ?all)) = (k < length ?all)"
    using k(1) by auto
  moreover obtain m where "json_size (me_float ?env)
      (page_val (messages_page (take k (mreader_rest rd a)) (k < length ?all) [] False)) = Inr m" "m \<le> n"
    using k(4) unfolding page_size_def tk ms append_Nil by (cases "k < length ?all") (auto simp: result_simps)
  moreover have "k \<le> length ?all" using k(1) by simp
  moreover have "?all \<noteq> [] \<longrightarrow> 0 < k" using k(3) l by auto
  ultimately show ?thesis
    using k(5) by (intro exI [of _ k] exI [of _ m]) (simp add: Let_def)
qed

lemma mreader_rows_after:
  assumes "mreader_valid rd a" and "k < length (mreader_rows rd a)"
  shows "mreader_rows rd (Some (mr_id (mreader_rows rd a ! k))) = drop (Suc k) (mreader_rows rd a)"
    and "id_ok (Some (mr_id (mreader_rows rd a ! k)))"
proof -
  let ?rows = "mreader_rows rd a"
  have ok: "rows_ok (ms_rows (rd_store rd)) (ms_seq (rd_store rd))"
    using assms(1) message_states_rows_ok [of "rd_env rd" "rd_store rd"]
    by (simp add: mreader_valid_def mreader_ok_def)
  have mem: "?rows ! k \<in> set ?rows" using assms(2) by simp
  have sorted: "sorted_wrt (<) (map mr_id ?rows)"
    using ok by (auto simp: rows_ok_def mreader_rows_def sorted_wrt_map intro: sorted_wrt_filter)
  have "selected (rd_client rd) a (rd_sender rd) (rd_reply rd) (?rows ! k)"
    using mem unfolding mreader_rows_def set_filter by blast
  then have above: "case a of None \<Rightarrow> True | Some i \<Rightarrow> i < mr_id (?rows ! k)" by (simp add: selected_def)
  have "mreader_rows rd (Some (mr_id (?rows ! k))) = filter (\<lambda>r. mr_id (?rows ! k) < mr_id r) ?rows"
    using above by (auto simp: mreader_rows_def selected_def intro!: filter_cong split: option.splits)
  with filter_after [where key = mr_id, OF sorted assms(2)]
  show "mreader_rows rd (Some (mr_id (?rows ! k))) = drop (Suc k) ?rows" by simp
  have "?rows ! k \<in> set (ms_rows (rd_store rd))" using mem by (simp add: mreader_rows_def)
  with ok show "id_ok (Some (mr_id (?rows ! k)))" by (auto simp: rows_ok_def id_ok_def)
qed

lemma msg_at_id [simp]: "msg_id (msg_at env r) = mr_id r"
  by (auto simp: message_of_def Let_def split: option.splits)

interpretation message_pager: pager mreader_page mreader_valid mreader_rest
proof
  fix rd a
  assume v: "mreader_valid rd a"
  let ?rows = "mreader_rows rd a"
  obtain k where k: "k \<le> length ?rows" "?rows \<noteq> [] \<longrightarrow> 0 < k"
    "mreader_read rd a = Inr (messages_page (take k (mreader_rest rd a)) (k < length ?rows) [] False)"
    using mreader_read_eq [OF v] by (auto simp: Let_def)
  have page: "mreader_page rd a = Inr (take k (mreader_rest rd a),
      if k < length ?rows then Some (Some (mr_id (?rows ! (k - 1)))) else None)"
  proof (cases "k < length ?rows")
    case True
    then have "0 < k" using k(2) by auto
    with True have "last (take k (mreader_rest rd a)) = msg_at (rd_env rd) (?rows ! (k - 1))"
      "take k (mreader_rest rd a) \<noteq> []"
      by (auto simp: last_take mreader_rest_def)
    with True show ?thesis by (simp add: mreader_page_def k(3) messages_page_def)
  qed (simp add: mreader_page_def k(3) messages_page_def)
  show "\<exists>xs n. mreader_page rd a = Inr (xs, n)" using page by simp
  show "mreader_rest rd a = xs" if "mreader_page rd a = Inr (xs, None)" for xs
    using that page k(1) by (auto simp: mreader_rest_def split: if_splits)
  show "mreader_valid rd c' \<and> mreader_rest rd a = xs @ mreader_rest rd c' \<and> xs \<noteq> []"
    if "mreader_page rd a = Inr (xs, Some c')" for xs c'
  proof -
    from that page have less: "k < length ?rows" and xs: "xs = take k (mreader_rest rd a)"
      and c': "c' = Some (mr_id (?rows ! (k - 1)))" by (auto split: if_splits)
    have pos: "0 < k" using less k(2) by auto
    then have "k - 1 < length ?rows" using less by simp
    from mreader_rows_after [OF v this] pos c'
    have "mreader_rows rd c' = drop k ?rows" "id_ok c'" by simp_all
    moreover have "mreader_rest rd a = take k (mreader_rest rd a) @ drop k (mreader_rest rd a)" by simp
    ultimately show ?thesis using v less pos xs by (auto simp: mreader_valid_def mreader_rest_def drop_map)
  qed
qed

text \<open>
  C20: In a reachable store a client that passes each \<open>next_cursor\<close> on until \<open>has_more\<close> is false
  gets exactly the selected messages that are not acknowledged, in ascending order, each once.
\<close>

theorem read_messages_collects:
  assumes "mreader_valid rd a" and "length (mreader_rest rd a) < fuel"
  shows "collect (mreader_page rd) fuel a = Some (Inr (mreader_rest rd a))"
  using assms by (rule message_pager.collect_rest)

text \<open>
  In a reachable store no read fails once its parameters are accepted; its page is at most
  32 KiB, carries no warning, and is empty only when no message is left.
\<close>

theorem read_page_bounded:
  assumes "mreader_valid rd a"
  shows "\<exists>p n. mreader_read rd a = Inr p \<and> json_size (me_float (rd_env rd)) (page_val p) = Inr n \<and> n \<le> 32768
    \<and> mp_warnings p = [] \<and> (mp_messages p = []) = (mreader_rest rd a = [])"
proof -
  obtain k n where k: "k \<le> length (mreader_rows rd a)" "mreader_rows rd a \<noteq> [] \<longrightarrow> 0 < k"
    "mreader_read rd a = Inr (messages_page (take k (mreader_rest rd a)) (k < length (mreader_rows rd a)) [] False)"
    "json_size (me_float (rd_env rd))
      (page_val (messages_page (take k (mreader_rest rd a)) (k < length (mreader_rows rd a)) [] False)) = Inr n"
    "n \<le> max_read_bytes"
    using mreader_read_eq [OF assms] by (auto simp: Let_def)
  have "(take k (mreader_rest rd a) = []) = (mreader_rest rd a = [])"
    using k(2) by (auto simp: mreader_rest_def)
  with k(3,4,5) show ?thesis by (auto simp: messages_page_def max_read_bytes_def)
qed

section \<open>A warning that is not counted\<close>

text \<open>
  The size of a page is checked before a fifth warning is dropped and the page is marked for it:
  with four warnings on it, a page of the full 32 KiB grows by the 28 bytes of the mark.
\<close>

lemma dropped_warning_unchecked:
  assumes "message_of env r = (m, Some w)" and "length ws = max_read_warnings"
    and "page_size env (ms @ [m]) ws False = Inr n" and "n \<le> max_read_bytes"
  shows "read_row env r (ms, ws, False) = Inr (Some (ms @ [m], ws, True))
    \<and> page_size env (ms @ [m]) ws True = Inr (n + 28)"
  using assms page_size_flag [OF assms(3)] by (simp add: read_row_def)


section \<open>Examples\<close>

definition talk_env :: msg_env where
  "talk_env = \<lparr>me_float = (\<lambda>_. lit ''1.0''), me_loads = (\<lambda>s. if s = lit ''[1]'' then Some (PList [PInt 1])
     else if s = lit ''null'' then Some PNone else None)\<rparr>"

text \<open>Two clients, a message with data, and the answer to it.\<close>

definition two_clients :: message_store where
  "two_clients = message_init\<lparr>ms_clients := [(lit ''b'', None), (lit ''a'', None)]\<rparr>"

definition asked :: message_store where
  "asked = snd (send talk_env (Finite 1 0) (PStr (lit ''a'')) (PStr (lit ''b'')) (PStr (lit ''hi''))
     (PList [PInt 1]) PNone two_clients)"

definition answered_store :: message_store where
  "answered_store = snd (reply talk_env (Finite 2 0) (PStr (lit ''b'')) (PInt 1) (PStr (lit ''ok'')) PNone asked)"

lemma asked_reachable: "message_states talk_env asked"
proof -
  let ?a = "message_init\<lparr>ms_clients := (lit ''a'', None) # ms_clients message_init\<rparr>"
  have "message_step talk_env message_init ?a" by (rule Register) (simp_all add: message_init_def is_scalar_def is_surrogate_def)
  moreover have "message_step talk_env ?a (?a\<lparr>ms_clients := (lit ''b'', None) # ms_clients ?a\<rparr>)"
    by (rule Register) (simp_all add: message_init_def is_scalar_def is_surrogate_def)
  moreover have "?a\<lparr>ms_clients := (lit ''b'', None) # ms_clients ?a\<rparr> = two_clients"
    by (simp add: two_clients_def message_init_def del: lit_simps)
  moreover have "message_step talk_env two_clients asked"
    unfolding asked_def by (rule Send) code_simp
  ultimately show ?thesis unfolding message_states_def by (metis rtranclp.simps)
qed

lemma answered_reachable: "message_states talk_env answered_store"
proof -
  have "message_step talk_env asked answered_store"
    unfolding answered_store_def by (rule Reply) code_simp
  with asked_reachable show ?thesis
    unfolding message_states_def by (rule rtranclp.rtrancl_into_rtrancl)
qed

definition sample_reader :: message_reader where
  "sample_reader = \<lparr>rd_env = talk_env, rd_now = Finite 3 0, rd_client = lit ''b'', rd_limit = 1,
     rd_sender = None, rd_reply = None, rd_store = asked\<rparr>"

lemma sample_reader_valid: "mreader_valid sample_reader None"
proof -
  have "\<not> ms_closed asked" "client_ok asked (lit ''b'')" by code_simp+
  then show ?thesis
    using asked_reachable by (simp add: mreader_valid_def mreader_ok_def sample_reader_def id_ok_def del: lit_simps)
qed

theorem read_messages_collects_witness:
  "\<exists>m. collect (mreader_page sample_reader) 2 None = Some (Inr [m]) \<and> msg_data m = PList [PInt 1]"
proof -
  have "length (mreader_rest sample_reader None) = 1 \<and> msg_data (hd (mreader_rest sample_reader None)) = PList [PInt 1]"
    by code_simp
  then obtain m where m: "mreader_rest sample_reader None = [m]" "msg_data m = PList [PInt 1]"
    by (cases "mreader_rest sample_reader None") auto
  then have "length (mreader_rest sample_reader None) < 2" by simp
  from read_messages_collects [OF sample_reader_valid this] m show ?thesis by auto
qed

theorem read_page_bounded_witness:
  "\<exists>p n. mreader_read sample_reader None = Inr p
     \<and> json_size (me_float talk_env) (page_val p) = Inr n \<and> n \<le> 32768 \<and> mp_messages p \<noteq> []"
proof -
  have "mreader_rest sample_reader None \<noteq> []" by code_simp
  moreover have "rd_env sample_reader = talk_env" by (simp add: sample_reader_def)
  ultimately show ?thesis using read_page_bounded [OF sample_reader_valid] by auto
qed

theorem replies_return_witness:
  "\<exists>q \<in> set (ms_rows answered_store). mr_id q = 1 \<and> mr_recipient q = lit ''b'' \<and> mr_sender q = lit ''a''"
proof -
  define r where "r = ms_rows answered_store ! 1"
  have "1 < length (ms_rows answered_store)" by code_simp
  then have "r \<in> set (ms_rows answered_store)" unfolding r_def by (rule nth_mem)
  moreover have "mr_reply_to r = Some 1" "mr_sender r = lit ''b''" "mr_recipient r = lit ''a''"
    unfolding r_def by code_simp+
  ultimately show ?thesis using replies_return [OF answered_reachable, of r 1] by auto
qed

end
