(* ===== verification/Timers.thy ===== *)
theory Timers
  imports Complex_Main Json Paging Chunked "HOL-Library.Code_Target_Nat" "HOL-Library.Product_Lexorder"
    "HOL-Library.List_Lexorder"
begin

text \<open>
  The one-shot timers of a workspace (timers.py): the table of timers, the registered clients, and
  the operations of \<open>TimerStore\<close> as functions from the store to a result and the next store.  An
  operation that fails keeps what its first transaction, the expiry of due timers, has committed.
  Times are finite binary floating point numbers (\<open>pyfloat\<close>), compared by value and added with
  rounding; the parser of ISO 8601 times and the text of a float are parameters.
\<close>

section \<open>Floating point\<close>

fun bit_length :: "nat \<Rightarrow> nat" where
  "bit_length n = (if n = 0 then 0 else Suc (bit_length (n div 2)))"

declare bit_length.simps [simp del]

text \<open>The 53 bit mantissa nearest to \<open>m * 2 ^ e\<close>, ties to even; too large a number is infinite.\<close>

definition float_round :: "int \<Rightarrow> int \<Rightarrow> pyfloat" where
  "float_round m e =
    (let a = nat \<bar>m\<bar>; k = bit_length a - 53; q = a div 2 ^ k; r = a mod 2 ^ k;
         up = (0 < k \<and> (2 ^ (k - 1) < r \<or> r = 2 ^ (k - 1) \<and> odd q));
         q' = (if up then Suc q else q); e' = e + int k in
     if 1024 < int (bit_length q') + e' then (if m < 0 then NegInf else PosInf)
     else Finite (if m < 0 then - int q' else int q') e')"

fun float_add :: "pyfloat \<Rightarrow> pyfloat \<Rightarrow> pyfloat" where
  "float_add (Finite m e) (Finite n f) = (let low = min e f in float_round (scaled m e low + scaled n f low) low)"
| "float_add _ _ = NaN"

fun float_neg :: "pyfloat \<Rightarrow> pyfloat" where
  "float_neg (Finite m e) = Finite (- m) e"
| "float_neg PosInf = NegInf"
| "float_neg NegInf = PosInf"
| "float_neg NaN = NaN"

fun is_finite :: "pyfloat \<Rightarrow> bool" where
  "is_finite (Finite m e) = True"
| "is_finite _ = False"

fun float_val :: "pyfloat \<Rightarrow> rat" where
  "float_val (Finite m e) = (if 0 \<le> e then of_int m * 2 ^ nat e else of_int m / 2 ^ nat (- e))"
| "float_val _ = 0"

section \<open>The table\<close>

datatype timer_state = Scheduled | Expired | Cancelled

definition state_name :: "timer_state \<Rightarrow> pystr" where
  "state_name s = (case s of Scheduled \<Rightarrow> lit ''scheduled'' | Expired \<Rightarrow> lit ''expired'' | Cancelled \<Rightarrow> lit ''cancelled'')"

record timer =
  tm_seq :: nat
  tm_id :: pystr
  tm_client :: pystr
  tm_label :: pystr
  tm_created :: pyfloat
  tm_due :: pyfloat
  tm_state :: timer_state
  tm_acknowledged :: "pyfloat option"

record timer_store =
  tr_rows :: "timer list"                         \<comment> \<open>by ascending sequence number\<close>
  tr_seq :: nat
  tr_clients :: "(pystr \<times> pyfloat option) list"
  tr_closed :: bool

record timer_env =
  te_float :: "pyfloat \<Rightarrow> pystr"
  te_parse_at :: "pyval \<Rightarrow> pyfloat result"   \<comment> \<open>\<open>_parse_at(at).timestamp()\<close>\<close>

definition max_label_bytes :: nat where "max_label_bytes = 256"
definition max_notification_bytes :: nat where "max_notification_bytes = 4096"
definition max_notification_items :: nat where "max_notification_items = 5"
definition max_sqlite_int :: nat where "max_sqlite_int = 9223372036854775807"

section \<open>Validation\<close>

definition timers_open :: "timer_store \<Rightarrow> unit result" where
  "timers_open st = require (\<not> tr_closed st) (RuntimeError ''timer store is closed'')"

definition timer_client :: "timer_store \<Rightarrow> pyval \<Rightarrow> pystr result" where
  "timer_client st v = (case v of
      PStr s \<Rightarrow>
        if s = [] then Inl (ValueError ''client must be a non-empty string'')
        else rbind (utf8_encode s) (\<lambda>_.
          if s \<in> fst ` set (tr_clients st) then Inr s else Inl (ValueError ''unknown client''))
    | _ \<Rightarrow> Inl (ValueError ''client must be a non-empty string''))"

definition validate_label :: "pyval \<Rightarrow> pystr result" where
  "validate_label v = (case v of
      PStr s \<Rightarrow> rbind (utf8_encode s) (\<lambda>raw.
        if max_label_bytes < length raw then Inl (ValueError ''label must be at most 256 bytes in UTF-8'')
        else Inr s)
    | _ \<Rightarrow> Inl (TypeError ''label must be a string''))"

definition validate_timer_id :: "pyval \<Rightarrow> pystr result" where
  "validate_timer_id v = (case v of
      PStr s \<Rightarrow> if s = [] then Inl (ValueError ''timer ID must be a non-empty string'') else Inr s
    | _ \<Rightarrow> Inl (ValueError ''timer ID must be a non-empty string''))"

fun timer_ids :: "pyval list \<Rightarrow> pystr list \<Rightarrow> pystr list result" where
  "timer_ids [] acc = Inr acc"
| "timer_ids (v # vs) acc =
    rbind (validate_timer_id v) (\<lambda>i. timer_ids vs (if i \<in> set acc then acc else acc @ [i]))"

definition validate_timer_ids :: "pyval \<Rightarrow> pystr list result" where
  "validate_timer_ids v = (case v of
      PList vs \<Rightarrow> timer_ids vs []
    | _ \<Rightarrow> Inl (TypeError ''ids must be a list of timer IDs''))"

definition validate_state :: "pyval \<Rightarrow> timer_state option result" where
  "validate_state v = (case v of
      PNone \<Rightarrow> Inr None
    | PStr s \<Rightarrow> (case find (\<lambda>x. state_name x = s) [Cancelled, Expired, Scheduled] of
          Some x \<Rightarrow> Inr (Some x)
        | None \<Rightarrow> Inl (ValueError ''state must be one of the states or None''))
    | _ \<Rightarrow> Inl (ValueError ''state must be one of the states or None''))"

definition timer_limit :: "pyval \<Rightarrow> nat result" where
  "timer_limit v = (case v of
      PInt n \<Rightarrow> if 1 \<le> n \<and> n \<le> 100 then Inr (nat n)
        else Inl (ValueError ''limit must be an integer between 1 and 100'')
    | _ \<Rightarrow> Inl (ValueError ''limit must be an integer between 1 and 100''))"

text \<open>A cursor is an integer or its decimal digits, of which Python converts at most 4300.\<close>

definition validate_cursor :: "pyval \<Rightarrow> nat option result" where
  "validate_cursor v =
    (let bad = Inl (ValueError ''cursor must be a non-negative integer'') in
     case v of
       PNone \<Rightarrow> Inr None
     | PInt n \<Rightarrow> if 0 \<le> n \<and> n \<le> int max_sqlite_int then Inr (Some (nat n)) else bad
     | PStr s \<Rightarrow>
         if s \<noteq> [] \<and> list_all is_digit s \<and> length s \<le> 4300 \<and> int_of_digits s \<le> max_sqlite_int
         then Inr (Some (int_of_digits s)) else bad
     | _ \<Rightarrow> bad)"

definition now_of :: "pyfloat \<Rightarrow> pyfloat result" where
  "now_of clock = (if is_finite clock then Inr clock
     else Inl (ValueError ''clock returned a non-finite timestamp''))"

text \<open>\<open>float(seconds)\<close>: none for what is not a number, an infinity for a large integer.\<close>

definition seconds_value :: "pyval \<Rightarrow> pyfloat option" where
  "seconds_value v = (case v of PInt n \<Rightarrow> Some (float_round n 0) | PFloat f \<Rightarrow> Some f | _ \<Rightarrow> None)"

definition due_time :: "timer_env \<Rightarrow> pyval \<Rightarrow> pyval \<Rightarrow> pyfloat \<Rightarrow> pyfloat result" where
  "due_time env seconds moment now =
    (if (seconds = PNone) = (moment = PNone) then Inl (ValueError ''specify exactly one of seconds or at'')
     else if seconds \<noteq> PNone then
       (case seconds_value seconds of
          None \<Rightarrow> Inl (TypeError ''seconds must be a finite non-negative number'')
        | Some s \<Rightarrow>
           if \<not> is_finite s \<or> float_val s < 0 then
             Inl (ValueError ''seconds must be a finite non-negative number'')
           else if \<not> is_finite (float_add now s) then
             Inl (ValueError ''seconds must produce a finite deadline'')
           else Inr (float_add now s))
     else te_parse_at env moment)"

section \<open>Transactions\<close>

definition timer_touch :: "pystr \<Rightarrow> pyfloat \<Rightarrow> timer_store \<Rightarrow> timer_store" where
  "timer_touch c now st = st\<lparr>tr_clients := map (\<lambda>(d, seen).
     (d, if d = c then Some (let t = (case seen of None \<Rightarrow> Finite 0 0 | Some t \<Rightarrow> t) in
            if float_val t \<le> float_val now then now else t) else seen))
     (tr_clients st)\<rparr>"

definition expire :: "pyfloat \<Rightarrow> pystr \<Rightarrow> timer \<Rightarrow> timer" where
  "expire now c r = (if tm_client r = c \<and> tm_state r = Scheduled \<and> float_val (tm_due r) \<le> float_val now
     then r\<lparr>tm_state := Expired\<rparr> else r)"

definition expire_due :: "pyfloat \<Rightarrow> pystr \<Rightarrow> timer_store \<Rightarrow> timer_store" where
  "expire_due now c st = st\<lparr>tr_rows := map (expire now c) (tr_rows st)\<rparr>"

text \<open>\<open>_client_transaction\<close>: the expiry is committed before the body, which may fail.\<close>

definition client_transaction ::
  "pystr \<Rightarrow> pyfloat \<Rightarrow> (pyfloat \<Rightarrow> timer_store \<Rightarrow> ('a \<times> timer_store) result) \<Rightarrow> timer_store
    \<Rightarrow> 'a result \<times> timer_store" where
  "client_transaction c clock body st = (case now_of clock of
      Inl e \<Rightarrow> (Inl e, st)
    | Inr now \<Rightarrow> (let st1 = expire_due now c st in
        case body now st1 of
          Inl e \<Rightarrow> (Inl e, st1)
        | Inr (x, st2) \<Rightarrow> (Inr x, st2)))"

text \<open>Validation, which comes before any transaction.\<close>

definition after :: "'a result \<Rightarrow> ('a \<Rightarrow> timer_store \<Rightarrow> 'b result \<times> timer_store) \<Rightarrow> timer_store
    \<Rightarrow> 'b result \<times> timer_store" where
  "after m f st = (case m of Inl e \<Rightarrow> (Inl e, st) | Inr x \<Rightarrow> f x st)"

section \<open>The operations\<close>

record timer_view =
  tv_id :: pystr
  tv_client_id :: pystr
  tv_label :: pystr
  tv_created_at :: pyfloat
  tv_due_at :: pyfloat
  tv_state :: timer_state
  tv_remaining_seconds :: pyfloat
  tv_acknowledged :: bool

definition remaining :: "pyfloat \<Rightarrow> pyfloat \<Rightarrow> pyfloat" where
  "remaining due now = (let d = float_add due (float_neg now) in
     if d = PosInf \<or> is_finite d \<and> 0 < float_val d then d else Finite 0 0)"

definition record_of :: "pyfloat \<Rightarrow> timer \<Rightarrow> timer_view" where
  "record_of now r = \<lparr>tv_id = tm_id r, tv_client_id = tm_client r, tv_label = tm_label r,
     tv_created_at = tm_created r, tv_due_at = tm_due r, tv_state = tm_state r,
     tv_remaining_seconds = (if tm_state r = Scheduled then remaining (tm_due r) now else Finite 0 0),
     tv_acknowledged = (tm_acknowledged r \<noteq> None)\<rparr>"

text \<open>\<open>start\<close>: \<open>hex\<close> is the fresh UUID; the id is UNIQUE in the table.\<close>

definition start_valid :: "timer_env \<Rightarrow> pyfloat \<Rightarrow> pyval \<Rightarrow> pyval \<Rightarrow> pyval \<Rightarrow> pyval \<Rightarrow> timer_store
    \<Rightarrow> (pystr \<times> pystr \<times> pyfloat \<times> pyfloat) result" where
  "start_valid env clock client seconds moment label st =
    rbind (timers_open st) (\<lambda>_. rbind (timer_client st client) (\<lambda>c. rbind (validate_label label) (\<lambda>l.
    rbind (now_of clock) (\<lambda>created. rbind (due_time env seconds moment created) (\<lambda>due. Inr (c, l, created, due))))))"

definition start_timer :: "timer_env \<Rightarrow> pystr \<Rightarrow> pyfloat \<Rightarrow> pyval \<Rightarrow> pyval \<Rightarrow> pyval \<Rightarrow> pyval \<Rightarrow> timer_store
    \<Rightarrow> timer_view result \<times> timer_store" where
  "start_timer env hex clock client seconds moment label st =
    after (start_valid env clock client seconds moment label st) (\<lambda>(c, l, created, due) st.
      let ident = lit ''timer-'' @ hex;
          state = (if float_val created < float_val due then Scheduled else Expired);
          row = \<lparr>tm_seq = Suc (tr_seq st), tm_id = ident, tm_client = c, tm_label = l,
            tm_created = created, tm_due = due, tm_state = state, tm_acknowledged = None\<rparr> in
      if ident \<in> tm_id ` set (tr_rows st) then (Inl (OSError ''UNIQUE constraint failed: timers.id''), st)
      else if max_sqlite_int \<le> tr_seq st then (Inl (OSError ''database or disk is full''), st)
      else (Inr \<lparr>tv_id = ident, tv_client_id = c, tv_label = l, tv_created_at = created, tv_due_at = due,
              tv_state = state, tv_remaining_seconds = remaining due created, tv_acknowledged = False\<rparr>,
            timer_touch c created (st\<lparr>tr_seq := Suc (tr_seq st), tr_rows := tr_rows st @ [row]\<rparr>))) st"

text \<open>\<open>_get_owned\<close>: none is an unknown id.\<close>

definition get_owned :: "pystr \<Rightarrow> pystr \<Rightarrow> timer_store \<Rightarrow> timer option result" where
  "get_owned i c st = (case find (\<lambda>r. tm_id r = i \<and> tm_client r = c) (tr_rows st) of
      Some r \<Rightarrow> Inr (Some r)
    | None \<Rightarrow> if i \<in> tm_id ` set (tr_rows st) then Inl (ValueError ''timer is owned by another client'')
        else Inr None)"

definition owned_timer :: "pystr \<Rightarrow> pystr \<Rightarrow> timer_store \<Rightarrow> timer result" where
  "owned_timer i c st = rbind (get_owned i c st) (\<lambda>r. case r of
      None \<Rightarrow> Inl (ValueError ''unknown timer ID'')
    | Some x \<Rightarrow> Inr x)"

definition timer_args :: "pyval \<Rightarrow> pyval \<Rightarrow> timer_store \<Rightarrow> (pystr \<times> pystr) result" where
  "timer_args client ident st = rbind (timers_open st) (\<lambda>_. rbind (timer_client st client) (\<lambda>c.
     rbind (validate_timer_id ident) (\<lambda>i. Inr (c, i))))"

definition check_timer :: "pyfloat \<Rightarrow> pyval \<Rightarrow> pyval \<Rightarrow> timer_store \<Rightarrow> timer_view result \<times> timer_store" where
  "check_timer clock client ident st = after (timer_args client ident st) (\<lambda>(c, i).
     client_transaction c clock (\<lambda>now st. rbind (owned_timer i c st) (\<lambda>r.
       Inr (record_of now r, timer_touch c now st)))) st"

definition set_state :: "pystr \<Rightarrow> timer_state \<Rightarrow> timer_store \<Rightarrow> timer_store" where
  "set_state i s st = st\<lparr>tr_rows := map (\<lambda>r. if tm_id r = i then r\<lparr>tm_state := s\<rparr> else r) (tr_rows st)\<rparr>"

definition cancel_timer :: "pyfloat \<Rightarrow> pyval \<Rightarrow> pyval \<Rightarrow> timer_store \<Rightarrow> timer_view result \<times> timer_store" where
  "cancel_timer clock client ident st = after (timer_args client ident st) (\<lambda>(c, i).
     client_transaction c clock (\<lambda>now st. rbind (owned_timer i c st) (\<lambda>r.
       case tm_state r of
         Expired \<Rightarrow> Inl (ValueError ''expired timers cannot be cancelled; acknowledge them instead'')
       | Cancelled \<Rightarrow> Inr (record_of now r, st)
       | Scheduled \<Rightarrow> (let st' = set_state i Cancelled st in
           rbind (owned_timer i c st') (\<lambda>r'. Inr (record_of now r', timer_touch c now st')))))) st"

definition ack_timers :: "pyfloat \<Rightarrow> pyval \<Rightarrow> pyval \<Rightarrow> timer_store \<Rightarrow> nat result \<times> timer_store" where
  "ack_timers clock client ids st =
    after (rbind (timers_open st) (\<lambda>_. rbind (timer_client st client) (\<lambda>c.
        rbind (validate_timer_ids ids) (\<lambda>vs. Inr (c, vs))))) (\<lambda>(c, vs) st.
      if vs = [] then (Inr 0, st)
      else client_transaction c clock (\<lambda>now st.
        let rows = select_chunks tm_id vs (tr_rows st) in
        if list_ex (\<lambda>i. i \<notin> tm_id ` set rows) vs then Inl (ValueError ''unknown timer ID'')
        else if list_ex (\<lambda>r. tm_client r \<noteq> c) rows then
          Inl (ValueError ''timer is owned by another client'')
        else if list_ex (\<lambda>r. tm_state r \<noteq> Expired \<and> tm_acknowledged r = None) rows then
          Inl (ValueError ''timer is not expired'')
        else (case mark_all tm_id (\<lambda>r. tm_acknowledged r = None) (\<lambda>r. r\<lparr>tm_acknowledged := Some now\<rparr>) vs
                (tr_rows st) of
            (n, rs) \<Rightarrow> Inr (n, timer_touch c now (st\<lparr>tr_rows := rs\<rparr>)))) st) st"

record timer_list =
  tl_items :: "timer_view list"
  tl_has_more :: bool
  tl_next_cursor :: "nat option"

definition listed :: "pystr \<Rightarrow> timer_state option \<Rightarrow> nat option \<Rightarrow> timer \<Rightarrow> bool" where
  "listed c state cursor r \<longleftrightarrow> tm_client r = c
     \<and> (case state of None \<Rightarrow> True | Some s \<Rightarrow> tm_state r = s)
     \<and> (case cursor of None \<Rightarrow> True | Some n \<Rightarrow> n < tm_seq r)"

text \<open>The page of the rows of a query for one more than the limit.\<close>

definition list_page :: "pyfloat \<Rightarrow> nat \<Rightarrow> timer list \<Rightarrow> timer_list" where
  "list_page now n rows = \<lparr>tl_items = map (record_of now) (take n rows), tl_has_more = (n < length rows),
     tl_next_cursor = (if n < length rows then Some (tm_seq (last (take n rows))) else None)\<rparr>"

definition list_timers :: "pyfloat \<Rightarrow> pyval \<Rightarrow> pyval \<Rightarrow> pyval \<Rightarrow> pyval \<Rightarrow> timer_store
    \<Rightarrow> timer_list result \<times> timer_store" where
  "list_timers clock client state limit cursor st =
    after (rbind (timers_open st) (\<lambda>_. rbind (timer_client st client) (\<lambda>c. rbind (validate_state state) (\<lambda>s.
        rbind (timer_limit limit) (\<lambda>n. rbind (validate_cursor cursor) (\<lambda>k. rbind (now_of clock) (\<lambda>now.
        Inr (c, s, n, k, now)))))))) (\<lambda>(c, s, n, k, now) st.
      let st1 = expire_due now c st in
      (Inr (list_page now n (take (Suc n) (filter (listed c s k) (tr_rows st1)))), timer_touch c now st1)) st"

section \<open>Notifications and deadlines\<close>

definition notifiable :: "pystr \<Rightarrow> timer \<Rightarrow> bool" where
  "notifiable c r \<longleftrightarrow> tm_client r = c \<and> tm_state r = Expired \<and> tm_acknowledged r = None"

record notification =
  nt_unacked :: nat
  nt_items :: "(pystr \<times> pystr \<times> pyfloat) list"   \<comment> \<open>id, label, due\<close>
  nt_has_more :: bool

definition item_val :: "pystr \<times> pystr \<times> pyfloat \<Rightarrow> pyval" where
  "item_val x = (case x of (i, l, d) \<Rightarrow>
     PDict [(lit ''id'', PStr i), (lit ''label'', PStr l), (lit ''due_at'', PFloat d)])"

definition notification_size :: "timer_env \<Rightarrow> nat \<Rightarrow> (pystr \<times> pystr \<times> pyfloat) list \<Rightarrow> nat result" where
  "notification_size env count items =
    (case json_dumps ((compact (te_float env))\<lparr>js_allow_nan := True\<rparr>)
        (PDict [(lit ''unacked'', PInt (int count)), (lit ''items'', PList (map item_val items)),
          (lit ''has_more'', PBool (length items < count))]) of
       None \<Rightarrow> Inl (TypeError ''value is not JSON serializable'')
     | Some s \<Rightarrow> rbind (utf8_encode s) (\<lambda>raw. Inr (length raw)))"

fun notification_items :: "timer_env \<Rightarrow> nat \<Rightarrow> (pystr \<times> pystr \<times> pyfloat) list \<Rightarrow> (pystr \<times> pystr \<times> pyfloat) list
    \<Rightarrow> (pystr \<times> pystr \<times> pyfloat) list result" where
  "notification_items env count [] items = Inr items"
| "notification_items env count (x # xs) items =
    rbind (notification_size env count (items @ [x])) (\<lambda>n.
      if max_notification_bytes < n then Inr items
      else notification_items env count xs (items @ [x]))"

text \<open>The order of the query: by deadline, then by id (the bytes of UTF-8 order as the code points).\<close>

definition by_deadline :: "timer \<Rightarrow> rat \<times> pystr" where
  "by_deadline r = (float_val (tm_due r), tm_id r)"

definition notifications :: "timer_env \<Rightarrow> pyfloat \<Rightarrow> pyval \<Rightarrow> timer_store
    \<Rightarrow> notification option result \<times> timer_store" where
  "notifications env clock client st =
    after (rbind (timers_open st) (\<lambda>_. rbind (timer_client st client) (\<lambda>c. rbind (now_of clock) (\<lambda>now.
        Inr (c, now))))) (\<lambda>(c, now) st.
      let st1 = expire_due now c st; due = filter (notifiable c) (tr_rows st1); count = length due in
      if count = 0 then (Inr None, st1)
      else let rows = take max_notification_items (sort_key by_deadline due) in
        (rbind (notification_items env count (map (\<lambda>r. (tm_id r, tm_label r, tm_due r)) rows) []) (\<lambda>items.
           Inr (Some \<lparr>nt_unacked = count, nt_items = items, nt_has_more = (length items < count)\<rparr>)),
         timer_touch c now st1)) st"

text \<open>\<open>MIN(due)\<close> over some rows, and the least of a list of deadlines.\<close>

fun least_due :: "pyfloat list \<Rightarrow> pyfloat option" where
  "least_due [] = None"
| "least_due (d # ds) = (case least_due ds of
      None \<Rightarrow> Some d
    | Some m \<Rightarrow> Some (if float_val m < float_val d then m else d))"

definition next_deadline :: "pyfloat \<Rightarrow> pyval \<Rightarrow> timer_store \<Rightarrow> pyfloat option result \<times> timer_store" where
  "next_deadline clock client st =
    after (rbind (timers_open st) (\<lambda>_. rbind (timer_client st client) (\<lambda>c. rbind (now_of clock) (\<lambda>now.
        Inr (c, now))))) (\<lambda>(c, now) st.
      let st1 = expire_due now c st;
          scheduled = least_due (map tm_due (filter (\<lambda>r. tm_client r = c \<and> tm_state r = Scheduled) (tr_rows st1)));
          expired = least_due (map tm_due (filter (notifiable c) (tr_rows st1))) in
      (Inr (least_due ((case scheduled of None \<Rightarrow> [] | Some d \<Rightarrow> [d])
         @ (case expired of None \<Rightarrow> [] | Some d \<Rightarrow> [if float_val d < float_val now then d else now]))),
       timer_touch c now st1)) st"

text \<open>
  \<open>snapshot_existing\<close>: the store is none without a database file or a table of timers; the clock is
  read once for the preview and once for the deadline.
\<close>

definition timer_snapshot :: "timer_env \<Rightarrow> pyfloat \<Rightarrow> pyfloat \<Rightarrow> pyval \<Rightarrow> bool \<Rightarrow> timer_store option
    \<Rightarrow> (notification option \<times> pyfloat option) result \<times> timer_store option" where
  "timer_snapshot env clock1 clock2 client include_deadline found = (case found of
      None \<Rightarrow> (Inr (None, None), None)
    | Some st \<Rightarrow> (case notifications env clock1 client st of
          (Inl e, st1) \<Rightarrow> (Inl e, Some st1)
        | (Inr (Some p), st1) \<Rightarrow> (Inr (Some p, None), Some st1)
        | (Inr None, st1) \<Rightarrow>
            if include_deadline then (case next_deadline clock2 client st1 of
                (Inl e, st2) \<Rightarrow> (Inl e, Some st2)
              | (Inr d, st2) \<Rightarrow> (Inr (None, d), Some st2))
            else (Inr (None, None), Some st1)))"

definition close_timers :: "timer_store \<Rightarrow> timer_store" where
  "close_timers st = st\<lparr>tr_closed := True\<rparr>"


section \<open>Runs\<close>

text \<open>One operation of some process at a reading of the clock.\<close>

inductive timer_step :: "timer_env \<Rightarrow> pyfloat \<Rightarrow> timer_store \<Rightarrow> timer_store \<Rightarrow> bool" for env now where
  Register: "c \<notin> fst ` set (tr_clients st) \<Longrightarrow> timer_step env now st (st\<lparr>tr_clients := (c, None) # tr_clients st\<rparr>)"
| Start: "timer_step env now st (snd (start_timer env hex now client seconds moment label st))"
| Check: "timer_step env now st (snd (check_timer now client ident st))"
| Cancel: "timer_step env now st (snd (cancel_timer now client ident st))"
| Ack: "timer_step env now st (snd (ack_timers now client ids st))"
| List: "timer_step env now st (snd (list_timers now client state limit cursor st))"
| Notify: "timer_step env now st (snd (notifications env now client st))"
| Deadline: "timer_step env now st (snd (next_deadline now client st))"
| Close: "timer_step env now st (close_timers st)"

definition timers_init :: timer_store where
  "timers_init = \<lparr>tr_rows = [], tr_seq = 0, tr_clients = [], tr_closed = False\<rparr>"

text \<open>Runs in which the clock does not go back, with its last reading.\<close>

inductive timer_runs :: "timer_env \<Rightarrow> pyfloat \<Rightarrow> timer_store \<Rightarrow> bool" for env where
  runs_init: "timer_runs env t timers_init"
| runs_step: "timer_runs env t st \<Longrightarrow> timer_step env now st st' \<Longrightarrow> float_val t \<le> float_val now \<Longrightarrow>
    timer_runs env now st'"

end
