(* ===== verification/Timer_Proofs.thy ===== *)
theory Timer_Proofs
  imports Timers
begin

text \<open>
  The timers in every run: what each operation does to the table, that a timer only ever goes from
  scheduled to expired or cancelled and is acknowledged once it has expired, that expiry follows the
  clock, and that the listing, the notifications and the next deadline tell the table.
\<close>

section \<open>What the operations do to the table\<close>

definition cancel_row :: "pystr \<Rightarrow> timer \<Rightarrow> timer" where
  "cancel_row i r = (if tm_id r = i then r\<lparr>tm_state := Cancelled\<rparr> else r)"

definition ack_timer :: "pyfloat \<Rightarrow> pystr set \<Rightarrow> timer \<Rightarrow> timer" where
  "ack_timer now ids r = (if tm_id r \<in> ids \<and> tm_acknowledged r = None then r\<lparr>tm_acknowledged := Some now\<rparr> else r)"

text \<open>The changes of the table, each with the condition the operation checks for it.\<close>

inductive table_change :: "pyfloat \<Rightarrow> timer list \<times> nat \<Rightarrow> timer list \<times> nat \<Rightarrow> bool" for now where
  Same: "table_change now (rows, n) (rows, n)"
| Expiry: "table_change now (rows, n) (map (expire now c) rows, n)"
| Cancelling: "rs = map (expire now c) rows \<Longrightarrow> r \<in> set rs \<Longrightarrow> tm_id r = i \<Longrightarrow> tm_state r = Scheduled \<Longrightarrow>
    table_change now (rows, n) (map (cancel_row i) rs, n)"
| Acknowledging: "rs = map (expire now c) rows \<Longrightarrow>
    (\<And>r. r \<in> set rs \<Longrightarrow> tm_id r \<in> ids \<Longrightarrow> tm_acknowledged r = None \<Longrightarrow> tm_state r = Expired) \<Longrightarrow>
    table_change now (rows, n) (map (ack_timer now ids) rs, n)"
| Starting: "tm_id r \<notin> tm_id ` set rows \<Longrightarrow> tm_seq r = Suc n \<Longrightarrow> n < max_sqlite_int \<Longrightarrow> tm_acknowledged r = None \<Longrightarrow>
    tm_state r = (if float_val now < float_val (tm_due r) then Scheduled else Expired) \<Longrightarrow>
    table_change now (rows, n) (rows @ [r], Suc n)"

abbreviation table :: "timer_store \<Rightarrow> timer list \<times> nat" where
  "table st \<equiv> (tr_rows st, tr_seq st)"

interpretation timer_marks: marking tm_id "\<lambda>r. tm_acknowledged r = None" "\<lambda>r. r\<lparr>tm_acknowledged := Some now\<rparr>"
  for now
  by unfold_locales simp_all

lemma timer_mark_all:
  "mark_all tm_id (\<lambda>r. tm_acknowledged r = None) (\<lambda>r. r\<lparr>tm_acknowledged := Some now\<rparr>) ids rows =
    (length (filter (\<lambda>r. tm_id r \<in> set ids \<and> tm_acknowledged r = None) rows), map (ack_timer now (set ids)) rows)"
  by (simp add: timer_marks.mark_all_eq to_mark_def [abs_def] mark_in_def [abs_def] ack_timer_def [abs_def])

lemma timer_simps [simp]:
  "tr_rows (timer_touch c now st) = tr_rows st" "tr_seq (timer_touch c now st) = tr_seq st"
  "tr_rows (expire_due now c st) = map (expire now c) (tr_rows st)" "tr_seq (expire_due now c st) = tr_seq st"
  "tr_rows (set_state i Cancelled st) = map (cancel_row i) (tr_rows st)" "tr_seq (set_state i Cancelled st) = tr_seq st"
  by (simp_all add: timer_touch_def expire_due_def set_state_def cancel_row_def [abs_def])

lemma now_of_Inr: "now_of clock = Inr now \<Longrightarrow> now = clock"
  by (simp add: now_of_def split: if_splits)

lemma after_change:
  assumes "\<And>x. m = Inr x \<Longrightarrow> table_change now (table st) (table (snd (f x st)))"
  shows "table_change now (table st) (table (snd (after m f st)))"
  using assms by (cases m) (simp_all add: after_def Same)

lemma client_change:
  assumes "\<And>x st'. body now (expire_due now c st) = Inr (x, st') \<Longrightarrow> table_change now (table st) (table st')"
  shows "table_change now (table st) (table (snd (client_transaction c now body st)))"
proof (cases "now_of now")
  case (Inl e)
  then show ?thesis by (simp add: client_transaction_def Same)
next
  case (Inr t)
  with now_of_Inr have t: "now_of now = Inr now" by blast
  show ?thesis
  proof (cases "body now (expire_due now c st)")
    case (Inl e)
    with t show ?thesis by (simp add: client_transaction_def Let_def Expiry)
  next
    case (Inr xs)
    with t assms show ?thesis by (cases xs) (auto simp: client_transaction_def Let_def)
  qed
qed

lemma get_owned_Some: "owned_timer i c st = Inr r \<Longrightarrow> r \<in> set (tr_rows st) \<and> tm_id r = i \<and> tm_client r = c"
  by (auto simp: owned_timer_def get_owned_def result_simps find_Some_iff split: option.splits if_splits
      intro: nth_mem)

lemma start_change: "table_change now (table st) (table (snd (start_timer env hex now client seconds moment label st)))"
  unfolding start_timer_def
proof (rule after_change, goal_cases)
  case (1 x)
  obtain c l created due where x: "x = (c, l, created, due)" by (cases x)
  with "1" have "created = now" by (auto simp: start_valid_def result_simps dest: now_of_Inr)
  then show ?case by (simp add: x Let_def Same Starting)
qed

lemma check_change: "table_change now (table st) (table (snd (check_timer now client ident st)))"
  unfolding check_timer_def
proof (rule after_change, goal_cases)
  case (1 x)
  obtain c i where x: "x = (c, i)" by (cases x)
  show ?case
    unfolding x prod.case by (rule client_change) (clarsimp simp: result_simps, rule Expiry)
qed

lemma cancel_change: "table_change now (table st) (table (snd (cancel_timer now client ident st)))"
  unfolding cancel_timer_def
proof (rule after_change, goal_cases)
  case (1 x)
  obtain c i where x: "x = (c, i)" by (cases x)
  show ?case
    unfolding x prod.case
  proof (rule client_change, goal_cases)
    case (1 v st')
    then obtain r where r: "owned_timer i c (expire_due now c st) = Inr r" by (auto simp: result_simps)
    from get_owned_Some [OF r] have mem: "r \<in> set (map (expire now c) (tr_rows st))" "tm_id r = i" by simp_all
    show ?case
    proof (cases "tm_state r")
      case Scheduled
      with "1" r have "table st' = (map (cancel_row i) (map (expire now c) (tr_rows st)), tr_seq st)"
        by (auto simp: result_simps Let_def)
      moreover have "table_change now (table st) (map (cancel_row i) (map (expire now c) (tr_rows st)), tr_seq st)"
        by (rule Cancelling [OF refl mem Scheduled])
      ultimately show ?thesis by simp
    next
      case Cancelled
      with "1" r show ?thesis by (auto simp: result_simps intro: Expiry)
    next
      case Expired
      with "1" r show ?thesis by (auto simp: result_simps)
    qed
  qed
qed

lemma ack_change: "table_change now (table st) (table (snd (ack_timers now client ids st)))"
  unfolding ack_timers_def
proof (rule after_change, goal_cases)
  case (1 x)
  obtain c vs where x: "x = (c, vs)" by (cases x)
  show ?case
  proof (cases "vs = []")
    case True
    then show ?thesis by (simp add: x Same)
  next
    case False
    have "table_change now (table st) (table (snd (client_transaction c now (\<lambda>now st.
        let rows = select_chunks tm_id vs (tr_rows st) in
        if list_ex (\<lambda>i. i \<notin> tm_id ` set rows) vs then Inl (ValueError ''unknown timer ID'')
        else if list_ex (\<lambda>r. tm_client r \<noteq> c) rows then
          Inl (ValueError ''timer is owned by another client'')
        else if list_ex (\<lambda>r. tm_state r \<noteq> Expired \<and> tm_acknowledged r = None) rows then
          Inl (ValueError ''timer is not expired'')
        else (case mark_all tm_id (\<lambda>r. tm_acknowledged r = None) (\<lambda>r. r\<lparr>tm_acknowledged := Some now\<rparr>) vs
                (tr_rows st) of
            (n, rs) \<Rightarrow> Inr (n, timer_touch c now (st\<lparr>tr_rows := rs\<rparr>)))) st)))"
    proof (rule client_change, goal_cases)
      case (1 n st')
      let ?rs = "map (expire now c) (tr_rows st)"
      from "1" have st': "table st' = (map (ack_timer now (set vs)) ?rs, tr_seq st)"
        and ok: "\<not> list_ex (\<lambda>r. tm_state r \<noteq> Expired \<and> tm_acknowledged r = None) (select_chunks tm_id vs ?rs)"
        by (auto simp: Let_def timer_mark_all split: if_splits)
      have "table_change now (table st) (map (ack_timer now (set vs)) ?rs, tr_seq st)"
      proof (rule Acknowledging [OF refl])
        show "tm_state r = Expired" if "r \<in> set ?rs" "tm_id r \<in> set vs" "tm_acknowledged r = None" for r
          using ok that by (auto simp: list_ex_iff set_select_chunks)
      qed
      with st' show ?case by simp
    qed
    with False show ?thesis by (simp add: x)
  qed
qed

lemma list_change: "table_change now (table st) (table (snd (list_timers now client state limit cursor st)))"
  unfolding list_timers_def
  by (rule after_change) (auto simp: result_simps Let_def Expiry dest!: now_of_Inr)

lemma notifications_change: "table_change now (table st) (table (snd (notifications env now client st)))"
  unfolding notifications_def
  by (rule after_change) (auto simp: result_simps Let_def Expiry dest!: now_of_Inr)

lemma deadline_change: "table_change now (table st) (table (snd (next_deadline now client st)))"
  unfolding next_deadline_def
  by (rule after_change) (auto simp: result_simps Let_def Expiry dest!: now_of_Inr)

lemma timer_step_change:
  assumes "timer_step env now st st'"
  shows "table_change now (table st) (table st')"
  using assms
proof (cases rule: timer_step.cases)
  case (Register c)
  then show ?thesis by (simp add: Same)
next
  case Close
  then show ?thesis by (simp add: Same close_timers_def)
qed (simp_all add: start_change check_change cancel_change ack_change list_change notifications_change deadline_change)


section \<open>Timers only advance\<close>

text \<open>
  What becomes of a timer: its identity, label and deadline stay, only a scheduled one changes state,
  and an acknowledgement stays.
\<close>

definition becomes :: "timer \<Rightarrow> timer \<Rightarrow> bool" where
  "becomes r r' \<longleftrightarrow> tm_id r' = tm_id r \<and> tm_seq r' = tm_seq r \<and> tm_client r' = tm_client r \<and> tm_label r' = tm_label r
     \<and> tm_created r' = tm_created r \<and> tm_due r' = tm_due r
     \<and> (tm_state r = Scheduled \<or> tm_state r' = tm_state r)
     \<and> (tm_acknowledged r = None \<or> tm_acknowledged r' = tm_acknowledged r)"

definition acknowledged_ok :: "timer \<Rightarrow> bool" where
  "acknowledged_ok r \<longleftrightarrow> tm_acknowledged r = None \<or> tm_state r = Expired"

definition table_ok :: "timer list \<times> nat \<Rightarrow> bool" where
  "table_ok t \<longleftrightarrow> (case t of (rows, n) \<Rightarrow> n \<le> max_sqlite_int \<and> distinct (map tm_id rows)
     \<and> sorted_wrt (<) (map tm_seq rows) \<and> (\<forall>r \<in> set rows. tm_seq r \<le> n) \<and> (\<forall>r \<in> set rows. acknowledged_ok r))"

definition all_become :: "timer list \<Rightarrow> timer list \<Rightarrow> bool" where
  "all_become rows rows' \<longleftrightarrow> (\<forall>r \<in> set rows. \<exists>r' \<in> set rows'. becomes r r')"

lemma becomes_refl [simp]: "becomes r r"
  by (simp add: becomes_def)

lemma all_become_refl [simp]: "all_become rows rows"
  unfolding all_become_def using becomes_refl by blast

lemma becomes_trans: "becomes a b \<Longrightarrow> becomes b c \<Longrightarrow> becomes a c"
  by (auto simp: becomes_def)

lemma all_become_trans: "all_become a b \<Longrightarrow> all_become b c \<Longrightarrow> all_become a c"
  unfolding all_become_def using becomes_trans by blast

text \<open>A change of each row in place, which keeps what is fixed.\<close>

lemma map_step:
  assumes ok: "table_ok (rows, n)" and f: "\<And>r. r \<in> set rows \<Longrightarrow> becomes r (f r) \<and> acknowledged_ok (f r)"
  shows "table_ok (map f rows, n) \<and> all_become rows (map f rows)"
proof -
  have "map tm_id (map f rows) = map tm_id rows" "map tm_seq (map f rows) = map tm_seq rows"
    using f by (auto simp: becomes_def)
  moreover have "tm_seq (f r) \<le> n" if "r \<in> set rows" for r
    using ok f [OF that] that by (auto simp: table_ok_def becomes_def)
  ultimately show ?thesis
    using ok f unfolding table_ok_def all_become_def by (auto simp del: map_map)
qed

lemma expire_becomes: "acknowledged_ok r \<Longrightarrow> becomes r (expire now c r) \<and> acknowledged_ok (expire now c r)"
  by (auto simp: expire_def becomes_def acknowledged_ok_def)

lemma table_okD: "table_ok (rows, n) \<Longrightarrow> r \<in> set rows \<Longrightarrow> acknowledged_ok r"
  by (simp add: table_ok_def)

lemma distinct_id: "table_ok (rows, n) \<Longrightarrow> r \<in> set rows \<Longrightarrow> s \<in> set rows \<Longrightarrow> tm_id r = tm_id s \<Longrightarrow> r = s"
  by (auto simp: table_ok_def distinct_map inj_on_def)

lemma change_step:
  assumes "table_change now t t'" and "table_ok t"
  shows "table_ok t' \<and> all_become (fst t) (fst t')"
  using assms
proof (induction rule: table_change.induct)
  case (Same rows n)
  then show ?case by simp
next
  case (Expiry rows n c)
  from map_step [OF this] table_okD [OF this] expire_becomes show ?case by simp
next
  case (Cancelling rs c rows r i n)
  have e: "table_ok (rs, n) \<and> all_become rows rs"
    unfolding Cancelling(1) by (rule map_step [OF Cancelling(5)]) (use expire_becomes table_okD [OF Cancelling(5)] in blast)
  have "becomes s (cancel_row i s) \<and> acknowledged_ok (cancel_row i s)" if "s \<in> set rs" for s
  proof (cases "tm_id s = i")
    case True
    with distinct_id [of rs n s r] e Cancelling(2,3) that have "s = r" by simp
    with Cancelling(4) table_okD [of rs n r] e Cancelling(2) show ?thesis
      by (auto simp: cancel_row_def becomes_def acknowledged_ok_def)
  next
    case False
    with table_okD [of rs n s] e that show ?thesis by (simp add: cancel_row_def)
  qed
  with map_step [of rs n "cancel_row i"] e all_become_trans show ?case by auto
next
  case (Acknowledging rs c rows ids n)
  have e: "table_ok (rs, n) \<and> all_become rows rs"
    unfolding Acknowledging(1)
    by (rule map_step [OF Acknowledging(3)]) (use expire_becomes table_okD [OF Acknowledging(3)] in blast)
  have "becomes s (ack_timer now ids s) \<and> acknowledged_ok (ack_timer now ids s)" if "s \<in> set rs" for s
    using Acknowledging(2) [OF that] table_okD [of rs n s] e that
    by (auto simp: ack_timer_def becomes_def acknowledged_ok_def)
  with map_step [of rs n "ack_timer now ids"] e all_become_trans show ?case by auto
next
  case (Starting r rows n)
  then show ?case
    by (auto simp: table_ok_def sorted_wrt_append acknowledged_ok_def all_become_def less_Suc_eq_le
        intro: le_SucI becomes_refl)
qed

lemma timer_step_ok: "timer_step env now st st' \<Longrightarrow> table_ok (table st) \<Longrightarrow>
    table_ok (table st') \<and> all_become (tr_rows st) (tr_rows st')"
  using change_step [OF timer_step_change] by simp

lemma timer_runs_ok: "timer_runs env t st \<Longrightarrow> table_ok (table st)"
proof (induction rule: timer_runs.induct)
  case (runs_init t)
  show ?case by (simp add: timers_init_def table_ok_def)
next
  case (runs_step t st now st')
  then show ?case using timer_step_ok by blast
qed

text \<open>
  C22: Whatever operations follow, at whatever times, a timer stays in the table with its owner, label
  and deadline; it leaves only the scheduled state, for good, and once it is acknowledged it stays
  so; only an expired timer is ever acknowledged.
\<close>

theorem timers_advance:
  assumes "timer_runs env t st" and "(\<lambda>s s'. \<exists>now. timer_step env now s s')\<^sup>*\<^sup>* st st'"
    and "r \<in> set (tr_rows st)"
  shows "\<exists>r' \<in> set (tr_rows st'). becomes r r' \<and> acknowledged_ok r'"
proof -
  from assms(2) have "table_ok (table st') \<and> all_become (tr_rows st) (tr_rows st')"
  proof (induction rule: rtranclp_induct)
    case base
    then show ?case using timer_runs_ok [OF assms(1)] by simp
  next
    case (step u v)
    then show ?case using timer_step_ok all_become_trans by blast
  qed
  with assms(3) table_okD show ?thesis by (auto simp: all_become_def)
qed

section \<open>Expiry follows the clock\<close>

definition expired_past :: "pyfloat \<Rightarrow> timer list \<Rightarrow> bool" where
  "expired_past t rows \<longleftrightarrow> (\<forall>r \<in> set rows. tm_state r = Expired \<longrightarrow> float_val (tm_due r) \<le> float_val t)"

lemma past_map:
  assumes "expired_past t rows"
    and "\<And>r. tm_due (f r) = tm_due r"
    and "\<And>r. tm_state (f r) = Expired \<Longrightarrow> tm_state r = Expired \<or> float_val (tm_due r) \<le> float_val t"
  shows "expired_past t (map f rows)"
  unfolding expired_past_def
proof (intro ballI impI)
  fix s assume "s \<in> set (map f rows)" and e: "tm_state s = Expired"
  then obtain r where r: "r \<in> set rows" "s = f r" by auto
  from assms(3) [of r] e r(2) have "tm_state r = Expired \<or> float_val (tm_due r) \<le> float_val t" by simp
  with assms(1) r show "float_val (tm_due s) \<le> float_val t" by (auto simp: expired_past_def assms(2))
qed

lemma past_expire: "expired_past now rows \<Longrightarrow> expired_past now (map (expire now c) rows)"
  by (rule past_map) (auto simp: expire_def split: if_splits)

lemma past_cancel: "expired_past now rows \<Longrightarrow> expired_past now (map (cancel_row i) rows)"
  by (rule past_map) (auto simp: cancel_row_def split: if_splits)

lemma past_ack: "expired_past now rows \<Longrightarrow> expired_past now (map (ack_timer now A) rows)"
  by (rule past_map) (auto simp: ack_timer_def split: if_splits)

lemma change_past:
  assumes "table_change now t t'" and "expired_past now (fst t)"
  shows "expired_past now (fst t')"
  using assms
proof (induction rule: table_change.induct)
  case (Starting r rows n)
  then show ?case by (auto simp: expired_past_def split: if_splits)
qed (simp_all only: fst_conv past_expire past_cancel past_ack)

lemma timer_runs_past: "timer_runs env t st \<Longrightarrow> expired_past t (tr_rows st)"
proof (induction rule: timer_runs.induct)
  case (runs_init t)
  show ?case by (simp add: timers_init_def expired_past_def)
next
  case (runs_step t st now st')
  from runs_step.IH runs_step.hyps(3) have "expired_past now (fst (table st))"
    by (auto simp: expired_past_def)
  from change_past [OF timer_step_change [OF runs_step.hyps(2)] this] show ?case by simp
qed

text \<open>The state a client is shown agrees with the clock.\<close>

definition on_time :: "pyfloat \<Rightarrow> timer_view \<Rightarrow> bool" where
  "on_time now v \<longleftrightarrow> tv_state v = Cancelled \<or> (tv_state v = Expired) = (float_val (tv_due_at v) \<le> float_val now)"

lemma expire_on_time:
  assumes "expired_past now rows" and "r \<in> set rows" and "tm_client r = c"
  shows "on_time now (record_of now (expire now c r))"
  using assms by (cases "tm_state r") (auto simp: on_time_def record_of_def expire_def expired_past_def)

lemma list_timers_Inr:
  assumes "fst (list_timers now client state limit cursor st) = Inr page"
  obtains c s n k where "client = PStr c" "timer_client st client = Inr c" "validate_state state = Inr s"
    "timer_limit limit = Inr n" "validate_cursor cursor = Inr k"
    "page = list_page now n (take (Suc n) (filter (listed c s k) (map (expire now c) (tr_rows st))))"
proof -
  let ?v = "rbind (timers_open st) (\<lambda>_. rbind (timer_client st client) (\<lambda>c. rbind (validate_state state) (\<lambda>s.
        rbind (timer_limit limit) (\<lambda>n. rbind (validate_cursor cursor) (\<lambda>k. rbind (now_of now) (\<lambda>now.
        Inr (c, s, n, k, now)))))))"
  obtain c s n k t where v: "?v = Inr (c, s, n, k, t)"
    using assms by (cases ?v) (auto simp: list_timers_def after_def)
  then have t: "t = now" by (auto simp: result_simps dest: now_of_Inr)
  have "client = PStr c"
    using v by (auto simp: timer_client_def result_simps split: pyval.splits if_splits)
  moreover have "page = list_page now n (take (Suc n) (filter (listed c s k) (map (expire now c) (tr_rows st))))"
    using assms v t by (simp add: list_timers_def after_def Let_def)
  ultimately show ?thesis using v by (intro that [of c s n k]) (auto simp: result_simps)
qed

text \<open>
  When the clock does not go back, a listing shows a timer as expired exactly when its deadline
  has come, unless it was cancelled: none expires early and none is missed.
\<close>

theorem listing_on_time:
  assumes "timer_runs env t st" and "float_val t \<le> float_val now"
    and "fst (list_timers now client state limit cursor st) = Inr page"
  shows "list_all (on_time now) (tl_items page)"
proof -
  have past: "expired_past now (tr_rows st)"
    using timer_runs_past [OF assms(1)] assms(2) by (auto simp: expired_past_def)
  from assms(3) show ?thesis
  proof (cases rule: list_timers_Inr)
    case (1 c s n k)
    have "on_time now (record_of now r)" if r: "r \<in> set (filter (listed c s k) (map (expire now c) (tr_rows st)))" for r
    proof -
      from r obtain q where q: "q \<in> set (tr_rows st)" "r = expire now c q" "tm_client r = c"
        by (auto simp: listed_def)
      then have "tm_client q = c" by (simp add: expire_def split: if_splits)
      with expire_on_time [OF past q(1)] q(2) show ?thesis by simp
    qed
    then show ?thesis using "1"(6) by (auto simp: list_page_def list_all_iff dest!: in_set_takeD)
  qed
qed

end
