(* ===== verification/Timer_Views.thy ===== *)
theory Timer_Views
  imports Timer_Proofs
begin

text \<open>
  What a client sees of its timers: the pages of a listing together are the listing (the contract
  \<open>pager\<close>), the notifications are a bounded beginning of the expired timers in the order of their
  deadlines, and the next deadline predicts when there will be some.
\<close>

section \<open>Listing in pages\<close>

record timer_reader =
  tq_now :: pyfloat
  tq_client :: pystr
  tq_state :: "timer_state option"
  tq_limit :: nat
  tq_store :: timer_store

definition state_val :: "timer_state option \<Rightarrow> pyval" where
  "state_val s = (case s of None \<Rightarrow> PNone | Some x \<Rightarrow> PStr (state_name x))"

definition cursor_val :: "nat option \<Rightarrow> pyval" where
  "cursor_val n = (case n of None \<Rightarrow> PNone | Some i \<Rightarrow> PInt (int i))"

definition treader_page :: "timer_reader \<Rightarrow> nat option \<Rightarrow> exc + (timer_view list \<times> nat option option)" where
  "treader_page q k = (case fst (list_timers (tq_now q) (PStr (tq_client q)) (state_val (tq_state q))
       (PInt (int (tq_limit q))) (cursor_val k) (tq_store q)) of
      Inl e \<Rightarrow> Inl e
    | Inr p \<Rightarrow> Inr (tl_items p, if tl_has_more p then Some (tl_next_cursor p) else None))"

definition treader_rows :: "timer_reader \<Rightarrow> nat option \<Rightarrow> timer list" where
  "treader_rows q k = filter (listed (tq_client q) (tq_state q) k)
     (map (expire (tq_now q) (tq_client q)) (tr_rows (tq_store q)))"

definition treader_rest :: "timer_reader \<Rightarrow> nat option \<Rightarrow> timer_view list" where
  "treader_rest q k = map (record_of (tq_now q)) (treader_rows q k)"

definition treader_valid :: "timer_reader \<Rightarrow> nat option \<Rightarrow> bool" where
  "treader_valid q k \<longleftrightarrow> table_ok (table (tq_store q)) \<and> \<not> tr_closed (tq_store q) \<and> is_finite (tq_now q)
     \<and> timer_client (tq_store q) (PStr (tq_client q)) = Inr (tq_client q)
     \<and> 1 \<le> tq_limit q \<and> tq_limit q \<le> 100
     \<and> (case k of None \<Rightarrow> True | Some i \<Rightarrow> i \<le> max_sqlite_int)"

lemma validate_state_val: "validate_state (state_val s) = Inr s"
proof (cases s)
  case (Some x)
  have "validate_state (PStr (state_name Scheduled)) = Inr (Some Scheduled)"
    "validate_state (PStr (state_name Expired)) = Inr (Some Expired)"
    "validate_state (PStr (state_name Cancelled)) = Inr (Some Cancelled)" by code_simp+
  then have "validate_state (PStr (state_name x)) = Inr (Some x)" by (cases x) simp_all
  with Some show ?thesis by (simp add: state_val_def)
qed (simp add: state_val_def validate_state_def)

lemma validate_cursor_val:
  "(case k of None \<Rightarrow> True | Some i \<Rightarrow> i \<le> max_sqlite_int) \<Longrightarrow> validate_cursor (cursor_val k) = Inr k"
  by (cases k) (simp_all add: validate_cursor_def cursor_val_def Let_def)

lemma treader_page_eq:
  assumes "treader_valid q k"
  shows "treader_page q k = Inr (take (tq_limit q) (treader_rest q k),
    if tq_limit q < length (treader_rows q k) then Some (Some (tm_seq (treader_rows q k ! (tq_limit q - 1)))) else None)"
proof -
  let ?n = "tq_limit q" and ?rows = "treader_rows q k"
  have n: "0 < ?n" "timer_limit (PInt (int ?n)) = Inr ?n"
    using assms by (simp_all add: treader_valid_def timer_limit_def)
  have "fst (list_timers (tq_now q) (PStr (tq_client q)) (state_val (tq_state q)) (PInt (int ?n)) (cursor_val k) (tq_store q))
      = Inr (list_page (tq_now q) ?n (take (Suc ?n) ?rows))"
    using assms validate_cursor_val [of k]
    by (simp add: treader_valid_def list_timers_def after_def timers_open_def now_of_def n(2) validate_state_val
        treader_rows_def Let_def)
  moreover have "take ?n (take (Suc ?n) ?rows) = take ?n ?rows" by (simp add: min_def)
  moreover have "(?n < length (take (Suc ?n) ?rows)) = (?n < length ?rows)" by auto
  ultimately show ?thesis
    using last_take [of ?n ?rows] n(1)
    by (simp add: treader_page_def list_page_def treader_rest_def take_map)
qed

lemma treader_rows_after:
  assumes "treader_valid q k" and "i < length (treader_rows q k)"
  shows "treader_rows q (Some (tm_seq (treader_rows q k ! i))) = drop (Suc i) (treader_rows q k)"
    and "treader_valid q (Some (tm_seq (treader_rows q k ! i)))"
proof -
  let ?rows = "treader_rows q k" and ?all = "map (expire (tq_now q) (tq_client q)) (tr_rows (tq_store q))"
  have ok: "table_ok (?all, tr_seq (tq_store q))"
  proof -
    have st: "table_ok (tr_rows (tq_store q), tr_seq (tq_store q))" using assms(1) by (simp add: treader_valid_def)
    from map_step [OF st] expire_becomes table_okD [OF st] show ?thesis by blast
  qed
  have mem: "?rows ! i \<in> set ?rows" using assms(2) by simp
  then have sel: "listed (tq_client q) (tq_state q) k (?rows ! i)" and all: "?rows ! i \<in> set ?all"
    unfolding treader_rows_def set_filter by blast+
  have "sorted_wrt (<) (map tm_seq ?rows)"
  proof -
    have "sorted_wrt (<) (map tm_seq ?all)" using ok unfolding table_ok_def by blast
    then have "sorted_wrt (\<lambda>x y. tm_seq x < tm_seq y) ?all" by (simp only: sorted_wrt_map)
    from sorted_wrt_filter [OF this] show ?thesis unfolding treader_rows_def by (simp only: sorted_wrt_map)
  qed
  from filter_after [where key = tm_seq, OF this assms(2)]
  have "filter (\<lambda>r. tm_seq (?rows ! i) < tm_seq r) ?rows = drop (Suc i) ?rows" .
  moreover have "treader_rows q (Some (tm_seq (?rows ! i))) = filter (\<lambda>r. tm_seq (?rows ! i) < tm_seq r) ?rows"
  proof -
    have "case k of None \<Rightarrow> True | Some j \<Rightarrow> j < tm_seq (?rows ! i)" using sel by (simp add: listed_def)
    then have "listed (tq_client q) (tq_state q) (Some (tm_seq (?rows ! i))) r \<longleftrightarrow>
        tm_seq (?rows ! i) < tm_seq r \<and> listed (tq_client q) (tq_state q) k r" for r
      by (cases k) (auto simp: listed_def)
    then show ?thesis unfolding treader_rows_def filter_filter by (intro filter_cong) auto
  qed
  ultimately show "treader_rows q (Some (tm_seq (?rows ! i))) = drop (Suc i) ?rows" by simp
  from ok all have "tm_seq (?rows ! i) \<le> max_sqlite_int" by (fastforce simp: table_ok_def)
  with assms(1) show "treader_valid q (Some (tm_seq (?rows ! i)))" by (simp add: treader_valid_def)
qed

interpretation timer_pager: pager treader_page treader_valid treader_rest
proof
  fix q k
  assume v: "treader_valid q k"
  let ?n = "tq_limit q"
  note page = treader_page_eq [OF v]
  have len: "length (treader_rest q k) = length (treader_rows q k)" by (simp add: treader_rest_def)
  have pos: "0 < ?n" using v by (simp add: treader_valid_def)
  show "\<exists>xs n. treader_page q k = Inr (xs, n)" using page by simp
  show "treader_rest q k = xs" if "treader_page q k = Inr (xs, None)" for xs
    using that page len by (auto split: if_splits)
  show "treader_valid q k' \<and> treader_rest q k = xs @ treader_rest q k' \<and> xs \<noteq> []"
    if "treader_page q k = Inr (xs, Some k')" for xs k'
  proof -
    from that page have less: "?n < length (treader_rows q k)" and xs: "xs = take ?n (treader_rest q k)"
      and k': "k' = Some (tm_seq (treader_rows q k ! (?n - 1)))" by (auto split: if_splits)
    from less have "?n - 1 < length (treader_rows q k)" by simp
    from treader_rows_after [OF v this] pos k'
    have "treader_rows q k' = drop ?n (treader_rows q k)" "treader_valid q k'" by simp_all
    moreover have "treader_rest q k = take ?n (treader_rest q k) @ drop ?n (treader_rest q k)" by simp
    ultimately show ?thesis using less pos xs len by (auto simp: treader_rest_def drop_map)
  qed
qed

text \<open>
  C37: At one moment a client that follows \<open>next_cursor\<close> through the listing gets each of its timers
  of the wanted state once, in the order of creation.
\<close>

theorem listing_collects:
  assumes "treader_valid q k" and "length (treader_rest q k) < fuel"
  shows "collect (treader_page q) fuel k = Some (Inr (treader_rest q k))"
  using assms by (rule timer_pager.collect_rest)

section \<open>Notifications\<close>

definition item_of :: "timer \<Rightarrow> pystr \<times> pystr \<times> pyfloat" where
  "item_of r = (tm_id r, tm_label r, tm_due r)"

definition due_timers :: "pyfloat \<Rightarrow> pystr \<Rightarrow> timer_store \<Rightarrow> timer list" where
  "due_timers now c st = filter (notifiable c) (map (expire now c) (tr_rows st))"

lemma notification_items_prefix:
  assumes "notification_items env count xs ys = Inr zs"
    and "ys = [] \<or> (\<exists>n. notification_size env count ys = Inr n \<and> n \<le> max_notification_bytes)"
  shows "\<exists>k \<le> length xs. zs = ys @ take k xs
    \<and> (zs = [] \<or> (\<exists>n. notification_size env count zs = Inr n \<and> n \<le> max_notification_bytes))"
  using assms
proof (induction xs arbitrary: ys)
  case Nil
  then show ?case by simp
next
  case (Cons x xs)
  obtain n where n: "notification_size env count (ys @ [x]) = Inr n"
    using Cons.prems(1) by (auto simp: result_simps)
  show ?case
  proof (cases "max_notification_bytes < n")
    case True
    with Cons.prems n show ?thesis by (intro exI [of _ 0]) auto
  next
    case False
    with Cons.prems(1) n have "notification_items env count xs (ys @ [x]) = Inr zs" by simp
    from Cons.IH [OF this] n False obtain k where "k \<le> length xs" "zs = (ys @ [x]) @ take k xs"
      "zs = [] \<or> (\<exists>n. notification_size env count zs = Inr n \<and> n \<le> max_notification_bytes)" by auto
    then show ?thesis by (intro exI [of _ "Suc k"]) auto
  qed
qed

lemma client_now_Inr:
  assumes "rbind (timers_open st) (\<lambda>_. rbind (timer_client st client) (\<lambda>c. rbind (now_of now) (\<lambda>t. Inr (c, t)))) = Inr (c, t)"
  shows "client = PStr c \<and> t = now"
  using assms by (auto simp: timer_client_def result_simps dest: now_of_Inr split: pyval.splits if_splits)

text \<open>
  A notification counts every expired timer of the client that is not acknowledged, shows at
  most five of them, those with the earliest deadlines first, within 4 KiB, and tells whether it
  leaves some out; there is none exactly when there is no such timer.
\<close>

theorem notifications_bounded:
  assumes "fst (notifications env now client st) = Inr p"
  shows "\<exists>c. client = PStr c \<and> (case p of
      None \<Rightarrow> due_timers now c st = []
    | Some n \<Rightarrow> due_timers now c st \<noteq> [] \<and> nt_unacked n = length (due_timers now c st)
        \<and> (\<exists>k \<le> 5. nt_items n = map item_of (take k (sort_key by_deadline (due_timers now c st))))
        \<and> nt_has_more n = (length (nt_items n) < length (due_timers now c st))
        \<and> (nt_items n = [] \<or> (\<exists>b. notification_size env (nt_unacked n) (nt_items n) = Inr b \<and> b \<le> 4096)))"
proof -
  let ?v = "rbind (timers_open st) (\<lambda>_. rbind (timer_client st client) (\<lambda>c. rbind (now_of now) (\<lambda>now. Inr (c, now))))"
  obtain c t where v: "?v = Inr (c, t)"
    using assms by (cases ?v) (auto simp: notifications_def after_def)
  from client_now_Inr [OF v] have c: "client = PStr c" and t: "t = now" by simp_all
  let ?due = "due_timers now c st"
  show ?thesis
  proof (cases "?due = []")
    case True
    with assms v t have "p = None" by (simp add: notifications_def after_def Let_def due_timers_def)
    with True c show ?thesis by simp
  next
    case False
    let ?xs = "map item_of (take max_notification_items (sort_key by_deadline ?due))"
    from False assms v t have e: "rbind (notification_items env (length ?due) ?xs []) (\<lambda>items.
           Inr (Some \<lparr>nt_unacked = length ?due, nt_items = items, nt_has_more = (length items < length ?due)\<rparr>)) = Inr p"
      by (simp add: notifications_def after_def Let_def due_timers_def item_of_def [abs_def])
    then obtain items where items: "notification_items env (length ?due) ?xs [] = Inr items"
      and p: "p = Some \<lparr>nt_unacked = length ?due, nt_items = items, nt_has_more = (length items < length ?due)\<rparr>"
      by (auto simp: result_simps)
    from notification_items_prefix [OF items disjI1 [OF refl]] obtain k where k: "k \<le> length ?xs"
      "items = [] @ take k ?xs"
      "items = [] \<or> (\<exists>n. notification_size env (length ?due) items = Inr n \<and> n \<le> max_notification_bytes)" by blast
    have "k \<le> 5" using k(1) by (simp add: max_notification_items_def)
    moreover have "items = map item_of (take k (sort_key by_deadline ?due))"
      using k(1,2) by (simp add: take_map min_def max_notification_items_def split: if_splits)
    ultimately show ?thesis using False c p k(3) by (auto simp: max_notification_bytes_def)
  qed
qed

section \<open>The next deadline\<close>

lemma least_due_None [simp]: "least_due ds = None \<longleftrightarrow> ds = []"
  by (cases ds) (auto split: option.splits)

lemma least_due_Some:
  "least_due ds = Some m \<Longrightarrow> m \<in> set ds \<and> (\<forall>d \<in> set ds. float_val m \<le> float_val d)"
proof (induction ds arbitrary: m)
  case (Cons d ds)
  show ?case
  proof (cases "least_due ds")
    case None
    with Cons.prems show ?thesis by auto
  next
    case (Some x)
    with Cons.IH [OF Some] Cons.prems show ?thesis by (auto split: if_splits)
  qed
qed simp

text \<open>The least is reached within a bound exactly when some member is.\<close>

lemma least_due_le:
  "least_due ds = Some m \<Longrightarrow> float_val m \<le> v \<longleftrightarrow> (\<exists>d \<in> set ds. float_val d \<le> v)"
  using least_due_Some by fastforce

lemma least_due_filter:
  "(case least_due (map tm_due (filter P rows)) of None \<Rightarrow> False | Some m \<Rightarrow> float_val m \<le> v) \<longleftrightarrow>
    (\<exists>r \<in> set rows. P r \<and> float_val (tm_due r) \<le> v)"
proof (cases "least_due (map tm_due (filter P rows))")
  case None
  then show ?thesis by (auto simp: filter_empty_conv)
next
  case (Some m)
  from least_due_le [OF this, of v] have "float_val m \<le> v \<longleftrightarrow> (\<exists>r \<in> set rows. P r \<and> float_val (tm_due r) \<le> v)"
    by auto
  with Some show ?thesis by simp
qed

lemma due_later:
  assumes ok: "table_ok (rows, n)" and later: "float_val now \<le> float_val y"
  shows "filter (notifiable c) (map (expire y c) (map (expire now c) rows)) \<noteq> [] \<longleftrightarrow>
    (\<exists>r \<in> set (map (expire now c) rows). notifiable c r
      \<or> tm_client r = c \<and> tm_state r = Scheduled \<and> float_val (tm_due r) \<le> float_val y)"
proof -
  have "notifiable c (expire y c r) \<longleftrightarrow> notifiable c r
      \<or> tm_client r = c \<and> tm_state r = Scheduled \<and> float_val (tm_due r) \<le> float_val y"
    if "r \<in> set (map (expire now c) rows)" for r
  proof -
    have "acknowledged_ok r" using that ok expire_becomes by (auto simp: table_ok_def)
    then show ?thesis by (auto simp: notifiable_def expire_def acknowledged_ok_def)
  qed
  then show ?thesis by (auto simp: filter_empty_conv)
qed

text \<open>
  C23: A client that sleeps until the next deadline misses nothing and does not wake for nothing: while
  nobody changes the table, from now on there is something to notify at a time exactly when the
  deadline has come by then, and never when there is no deadline.
\<close>

theorem deadline_predicts:
  assumes runs: "timer_runs env t st" and d: "fst (next_deadline now client st) = Inr d"
    and later: "float_val now \<le> float_val y"
  shows "\<exists>c. client = PStr c \<and> (case d of
      None \<Rightarrow> due_timers y c (snd (next_deadline now client st)) = []
    | Some x \<Rightarrow> (due_timers y c (snd (next_deadline now client st)) \<noteq> []) = (float_val x \<le> float_val y))"
proof -
  let ?v = "rbind (timers_open st) (\<lambda>_. rbind (timer_client st client) (\<lambda>c. rbind (now_of now) (\<lambda>now. Inr (c, now))))"
  obtain c u where v: "?v = Inr (c, u)"
    using d by (cases ?v) (auto simp: next_deadline_def after_def)
  from client_now_Inr [OF v] have c: "client = PStr c" and u: "u = now" by simp_all
  let ?rows = "map (expire now c) (tr_rows st)"
  let ?S = "map tm_due (filter (\<lambda>r. tm_client r = c \<and> tm_state r = Scheduled) ?rows)"
  let ?E = "map tm_due (filter (notifiable c) ?rows)"
  let ?D = "(case least_due ?S of None \<Rightarrow> [] | Some d \<Rightarrow> [d])
     @ (case least_due ?E of None \<Rightarrow> [] | Some d \<Rightarrow> [if float_val d < float_val now then d else now])"
  have rows: "tr_rows (snd (next_deadline now client st)) = ?rows" and d': "d = least_due ?D"
    using d v u by (simp_all add: next_deadline_def after_def Let_def)
  have due: "due_timers y c (snd (next_deadline now client st)) \<noteq> [] \<longleftrightarrow>
      (\<exists>r \<in> set ?rows. notifiable c r \<or> tm_client r = c \<and> tm_state r = Scheduled \<and> float_val (tm_due r) \<le> float_val y)"
    unfolding due_timers_def rows by (rule due_later [OF timer_runs_ok [OF runs] later])
  have S: "(case least_due ?S of None \<Rightarrow> False | Some m \<Rightarrow> float_val m \<le> float_val y) \<longleftrightarrow>
      (\<exists>r \<in> set ?rows. tm_client r = c \<and> tm_state r = Scheduled \<and> float_val (tm_due r) \<le> float_val y)"
    unfolding least_due_filter by blast
  have E: "least_due ?E \<noteq> None \<longleftrightarrow> (\<exists>r \<in> set ?rows. notifiable c r)"
    unfolding least_due_None map_is_Nil_conv filter_empty_conv by blast
  have D: "(\<exists>x \<in> set ?D. float_val x \<le> float_val y) \<longleftrightarrow>
      (case least_due ?S of None \<Rightarrow> False | Some m \<Rightarrow> float_val m \<le> float_val y) \<or> least_due ?E \<noteq> None"
    using later by (cases "least_due ?S"; cases "least_due ?E") (simp_all del: least_due_None)
  have all: "due_timers y c (snd (next_deadline now client st)) \<noteq> [] \<longleftrightarrow> (\<exists>x \<in> set ?D. float_val x \<le> float_val y)"
    unfolding due D S E by blast
  show ?thesis
  proof (cases d)
    case None
    with d' have "least_due ?D = None" by simp
    then have "?D = []" by (simp only: least_due_None)
    with all c None show ?thesis by simp
  next
    case (Some x)
    with d' have "least_due ?D = Some x" by simp
    from least_due_le [OF this, of "float_val y"] all
    have "(due_timers y c (snd (next_deadline now client st)) \<noteq> []) = (float_val x \<le> float_val y)" by blast
    with Some c show ?thesis by simp
  qed
qed


section \<open>Examples\<close>

definition tea_env :: timer_env where
  "tea_env = \<lparr>te_float = (\<lambda>_. lit ''1.0''), te_parse_at = (\<lambda>_. Inl (ValueError ''no time''))\<rparr>"

text \<open>A timer of ten seconds, started at 100.\<close>

definition tea_client :: timer_store where
  "tea_client = timers_init\<lparr>tr_clients := [(lit ''a'', None)]\<rparr>"

definition tea_store :: timer_store where
  "tea_store = snd (start_timer tea_env (lit ''0'') (Finite 100 0) (PStr (lit ''a'')) (PInt 10) PNone
     (PStr (lit ''tea'')) tea_client)"

lemma tea_runs: "timer_runs tea_env (Finite 100 0) tea_store"
proof -
  have "timer_step tea_env (Finite 100 0) timers_init
      (timers_init\<lparr>tr_clients := (lit ''a'', None) # tr_clients timers_init\<rparr>)"
    by (rule Register) (simp add: timers_init_def)
  then have "timer_step tea_env (Finite 100 0) timers_init tea_client"
    by (simp add: tea_client_def timers_init_def del: lit_simps)
  from runs_step [OF runs_init this, of "Finite 100 0"]
  have "timer_runs tea_env (Finite 100 0) tea_client" by simp
  then show ?thesis
    by (rule runs_step) (simp_all add: tea_store_def Start del: lit_simps)
qed

lemma tea_rows: "tr_rows tea_store = [\<lparr>tm_seq = 1, tm_id = lit ''timer-0'', tm_client = lit ''a'', tm_label = lit ''tea'',
    tm_created = Finite 100 0, tm_due = Finite 110 0, tm_state = Scheduled, tm_acknowledged = None\<rparr>]"
  by code_simp

theorem timers_advance_witness:
  "\<exists>r' \<in> set (tr_rows (snd (check_timer (Finite 120 0) (PStr (lit ''a'')) (PStr (lit ''timer-0'')) tea_store))).
     becomes (hd (tr_rows tea_store)) r' \<and> acknowledged_ok r'"
proof (rule timers_advance [OF tea_runs])
  show "(\<lambda>s s'. \<exists>now. timer_step tea_env now s s')\<^sup>*\<^sup>* tea_store
      (snd (check_timer (Finite 120 0) (PStr (lit ''a'')) (PStr (lit ''timer-0'')) tea_store))"
    using Check by (intro r_into_rtranclp) blast
  show "hd (tr_rows tea_store) \<in> set (tr_rows tea_store)" by (simp add: tea_rows del: lit_simps)
qed

theorem listing_on_time_witness:
  "\<exists>page. fst (list_timers (Finite 120 0) (PStr (lit ''a'')) PNone (PInt 50) PNone tea_store) = Inr page
     \<and> length (tl_items page) = 1 \<and> list_all (on_time (Finite 120 0)) (tl_items page)"
proof -
  let ?l = "fst (list_timers (Finite 120 0) (PStr (lit ''a'')) PNone (PInt 50) PNone tea_store)"
  have "case ?l of Inl _ \<Rightarrow> False | Inr page \<Rightarrow> length (tl_items page) = 1" by code_simp
  then obtain page where page: "?l = Inr page" "length (tl_items page) = 1" by (cases ?l) auto
  have "float_val (Finite 100 0) \<le> float_val (Finite 120 0)" by simp
  from listing_on_time [OF tea_runs this page(1)] page show ?thesis by blast
qed

definition tea_reader :: timer_reader where
  "tea_reader = \<lparr>tq_now = Finite 105 0, tq_client = lit ''a'', tq_state = None, tq_limit = 1, tq_store = tea_store\<rparr>"

theorem listing_collects_witness:
  "\<exists>v. collect (treader_page tea_reader) 2 None = Some (Inr [v]) \<and> tv_label v = lit ''tea'' \<and> tv_state v = Scheduled"
proof -
  have "\<not> tr_closed tea_store" "timer_client tea_store (PStr (lit ''a'')) = Inr (lit ''a'')" by code_simp+
  then have v: "treader_valid tea_reader None"
    using timer_runs_ok [OF tea_runs] by (simp add: treader_valid_def tea_reader_def del: lit_simps)
  have "length (treader_rest tea_reader None) = 1 \<and> tv_label (hd (treader_rest tea_reader None)) = lit ''tea''
      \<and> tv_state (hd (treader_rest tea_reader None)) = Scheduled" by code_simp
  then obtain x where x: "treader_rest tea_reader None = [x]" "tv_label x = lit ''tea''" "tv_state x = Scheduled"
    by (cases "treader_rest tea_reader None") (auto simp del: lit_simps)
  then have "length (treader_rest tea_reader None) < 2" by simp
  from listing_collects [OF v this] x show ?thesis by (auto simp del: lit_simps)
qed

theorem notifications_bounded_witness:
  "\<exists>n. fst (notifications tea_env (Finite 120 0) (PStr (lit ''a'')) tea_store) = Inr (Some n)
     \<and> nt_unacked n = length (due_timers (Finite 120 0) (lit ''a'') tea_store) \<and> length (nt_items n) \<le> 5"
proof -
  let ?n = "fst (notifications tea_env (Finite 120 0) (PStr (lit ''a'')) tea_store)"
  have "case ?n of Inr (Some n) \<Rightarrow> True | _ \<Rightarrow> False" by code_simp
  then obtain n where n: "?n = Inr (Some n)" by (cases ?n) (auto split: option.splits)
  from notifications_bounded [OF n] n show ?thesis by (auto simp del: lit_simps)
qed

theorem deadline_predicts_witness:
  "due_timers (Finite 110 0) (lit ''a'') (snd (next_deadline (Finite 105 0) (PStr (lit ''a'')) tea_store)) \<noteq> []
   \<and> due_timers (Finite 109 0) (lit ''a'') (snd (next_deadline (Finite 105 0) (PStr (lit ''a'')) tea_store)) = []"
proof -
  have d: "fst (next_deadline (Finite 105 0) (PStr (lit ''a'')) tea_store) = Inr (Some (Finite 110 0))" by code_simp
  have le: "float_val (Finite 105 0) \<le> float_val (Finite 110 0)" "float_val (Finite 105 0) \<le> float_val (Finite 109 0)"
    by simp_all
  from deadline_predicts [OF tea_runs d le(1)] deadline_predicts [OF tea_runs d le(2)]
  show ?thesis by (auto simp del: lit_simps)
qed

end
