(* ===== verification/Spec2Isabelle.thy ===== *)
theory Spec2Isabelle
  imports Output_Buffer Paging Patch_Apply File_Patches File_Tree_Proofs Page_Iteration Text_Edits Journal_Samples
    Config_Effective Task_Registry Task_Output Lock_Proofs Message_Inbox Message_Reading Timer_Views
begin

text \<open>
  mypr-mcp gives coding agents persistent IPython kernels.  A client connects to a manager process
  for its workspace; the manager starts one kernel process per workspace, runs the client's cells in
  it as background tasks, and keeps the stores that the clients of a workspace share: configuration,
  messages, timers, execution history.  Inside the kernel the cells call an API for files, patches,
  locks, shells, search and so on.  This development models the parts of that program whose behaviour
  is decided by its own code: what a cell's output keeps and how it is read, which tasks exist and
  who holds which lock, what a patch, a write, a move or a delete does to the files when a system call
  fails in the middle, what a page of a file or of the event journal shows, what the merged
  configuration is, and which messages and timers a client sees.  File names below are
  relative to src/mypr_mcp/.

  \<^bold>\<open>Conventions.\<close>  A \<open>str\<close> is a list of code points (\<open>pystr\<close>), an \<open>int\<close> is an \<open>int\<close>, a dict is an
  association list where its order is visible and a map otherwise.  A value that the code tests with
  \<open>isinstance\<close> is a \<open>pyval\<close> or a TOML value of Config_Values, so that every type test of a validator
  is a branch.  A raised exception is \<open>Inl\<close> of its class and message (\<open>exc\<close> of Prelude), and a
  sequence of statements that may raise is the monad of Prelude (pure) or of Effects (with a state
  that survives the exception, as \<open>finally\<close> and \<open>except\<close> see it).  A loop is recursion on what it
  consumes, or a function with a measure.

  \<^bold>\<open>The theories, by component.\<close>
    \<^item> Prelude, Utf8, Json, Config_Values: strings, results, UTF-8 (strict, \<open>replace\<close>, \<open>ignore\<close>), the
      text and size of \<open>json.dumps\<close>, Python's \<open>==\<close> and \<open>dict\<close> on TOML and JSON values.
    \<^item> Output_Buffer: \<open>OutputBuffer\<close>, \<open>OutputBufferView\<close> and \<open>TaskHandle._page_text\<close> of kernel_api.py.
      Every run of writes stays within the byte limit, keeps one stream label per code point and
      loses nothing unless \<open>truncated\<close> is set; the segments of a page are its maximal runs.
    \<^item> Tasks, Task_Registry: \<open>TaskHandle\<close> and \<open>TaskManager\<close> of kernel_api.py as a heap of handles and
      a step relation \<open>task_step\<close> (a task begins, finishes, a reporter finishes, a client calls).
      In every reachable state the tasks that still run are listed, at most the configured number of
      completed ones is kept, ids are never given twice, and a lifecycle reservation excludes starts.
    \<^item> Task_Output: \<open>TaskHandle.read\<close> and \<open>expect\<close> with their cursors and waiting loops.
    \<^item> Locks, Lock_Proofs: \<open>WorkspaceLocks\<close> of locks.py as the step relation \<open>lock_step\<close>, one step
      per stretch of code between two suspensions.  Mutual exclusion, all names of a lease or none,
      no lost wake-up, progress.
    \<^item> Patch_Parser, Patch_Hunks, Patch_Apply: patching.py.  The parser inverts a printer on all
      well-formed changes; \<open>apply_hunks\<close> refines the relation \<open>patched\<close> (disjoint regions rewritten
      from top to bottom) and finds every uniquely determined placement; \<open>apply_patch\<close> takes its
      locks in ascending order and changes no file when it fails or runs dry.
    \<^item> Effects, Filesystem, File_Transactions, File_Atomicity: file_transactions.py over a table of
      nodes and a script that decides for every system call whether it fails or another process
      changes a path first.  The program logic of Effects (\<open>valid\<close>) proves that a failed commit
      leaves every path with its content and mode, or reports that it could not.
    \<^item> File_Reading, File_Read_Proofs, File_Read_Text, File_Read_Pages: \<open>read\<close> of filesystem.py.  The
      file is scanned in chunks that may end anywhere, in a line or in a character; the page is the one
      that the whole text gives, and following its cursor gives exactly the requested lines.
    \<^item> File_Bytes: \<open>read_bytes\<close> of filesystem.py, in blocks; following its cursor gives the whole file.
    \<^item> Pages, Page_Iteration: \<open>Pages.iter\<close> of pages.py, the client's iterator over any paged method:
      the checks of revision and progress, how each kind of cursor is passed on, the limit of pages.
      Over a method that keeps the contract of a pager it shows everything once, or stops at its limit
      with arguments that go on with exactly the rest.
    \<^item> File_Tree, File_Tree_Proofs: \<open>tree\<close> of filesystem.py.  The walk with its heap of names and its
      counter shows the first entries in preorder, and says exactly whether there are more.
    \<^item> File_Writing, File_Lifecycle: \<open>write\<close>, \<open>delete\<close>, \<open>copy\<close> and \<open>move\<close> of filesystem.py over the same
      file system, with the record in the history and the rollback when it fails.  Their proofs
      (File_Writing_Proofs, File_Lifecycle_Proofs, File_Recording) give a triple to every operation;
      File_Operations states that each of them happens completely or not at all, for every schedule
      of failing calls and every answer of the history, or reports that its outcome is unclear, and
      shows a case of the latter in which the rollback of a move loses the content.
    \<^item> File_Edits, File_Edit_Proofs, File_Patches: \<open>patch\<close> of filesystem.py.  An edit succeeds exactly
      when it finds as many leftmost disjoint places as it asks for, and replaces these; a patch leaves
      the old content or the edited one.
    \<^item> Text_Edits: positions and text edits of lsp_edits.py.  Applying the edits from the back is the
      same as replacing all ranges of the original text at once.
    \<^item> Journal, Journal_Proofs, Journal_Recovery, Journal_Reading, Journal_Samples: journal.py and its
      sidecar index over the bytes of the two files, with appends that may be cut off at any byte.  In
      every reachable state a page is the beginning of the events from its cursor on; an append that
      is cut off loses no earlier event.
    \<^item> Config_Validate, Config_Layers, Config_Proofs, Config_Effective: config.py and lsp_config.py.
      Validation, the merge of the global and the workspace layer with tombstones, \<open>get\<close>, \<open>set\<close>,
      \<open>explain\<close> and the savers of whole maps.
    \<^item> Messages, Message_Proofs, Message_Reading, Message_Inbox: messages.py.  Sending, answering,
      reading in pages, acknowledging, and the inbox preview with its binary search.
    \<^item> Timers, Timer_Proofs, Timer_Views: timers.py.  Timers as a store under a clock; expiry,
      cancellation, listing in pages, notifications and the next deadline.
    \<^item> Paging, Chunked: the two interfaces that several components share, as locales.

  \<^bold>\<open>How the parts interact.\<close>  \<open>apply_patch\<close> resolves and locks its paths with the names that
  WorkspaceLocks orders, plans with \<open>apply_hunks\<close>, and hands its plans to the file transaction.  A task
  of the registry owns an output buffer, which \<open>read\<close> and \<open>expect\<close> page through; the registry reads
  its limits from the configuration.  The operations on single files share with the file transaction
  its file system and its checks, and ask the history store before and after they change a file.
  Files, the journal, task output, messages and timers share the shape of their pages: a page ends with
  a cursor from which the next one begins.

  \<^bold>\<open>Interfaces.\<close>  \<open>pager\<close> (Paging) is the contract of every read by cursor: a page and the cursor of
  the rest; a client's loop \<open>collect\<close> then gets everything once, in order, and stops.  It is
  interpreted on the output of a task (\<open>output_pager\<close>), on reading messages (\<open>message_pager\<close>), on the
  listing of timers (\<open>timer_pager\<close>), on the lines of a file (\<open>lines_pager\<close>), on its bytes
  (\<open>bytes_pager\<close>) and on the journal (\<open>journal_pager\<close>).  \<open>paged_method\<close> (Page_Iteration) extends it by the
  shape of the pages as mappings, for the iterator \<open>page_loop\<close>; \<open>file_pages\<close> is its interpretation on
  \<open>fs.read_bytes\<close>.  \<open>marking\<close> (Chunked) is the contract of an UPDATE that marks
  the pending rows among some ids; statements in chunks of 900 then do what one would.  It is
  interpreted on messages and timers (\<open>message_marks\<close>, \<open>timer_marks\<close>).

  \<^bold>\<open>Bounds and fuel.\<close>  The only fuel is that of \<open>collect\<close>: the number of items left plus one is
  enough, and the properties state that the loop returns a value with it.  The binary search of the
  inbox (\<open>fit_loop\<close>) terminates by \<open>high + 1 - low\<close>, the parser and the hunk loops by the length of what
  is left.  The loop of \<open>read\<close> consumes the list of what the event loop shows it; that it returns as
  soon as the task is finished or the deadline has passed is a property.  The constants are the
  code's: pages of 32 KiB, previews of 4 KiB and five messages, chunks of 900, the RPC limit of
  32 MiB, and the bounds of every setting.

  \<^bold>\<open>Parameters.\<close>  What the program does not decide itself is an argument: SHA-256, the line diff and
  the history store (\<open>env\<close>; for single files \<open>history_store\<close>, which may answer, fail, leave its outcome
  unknown or report a cancellation), the codec of an encoding (\<open>codec\<close>), \<open>json.loads\<close> of a line of the journal (\<open>journal_env\<close>), how a path is resolved in the workspace (\<open>paths_env\<close>), reading and
  printing TOML, splitting a URL and an e-mail address (\<open>conf_env\<close>), \<open>json.loads\<close> and the text of a
  float (\<open>msg_env\<close>), ISO 8601 times (\<open>timer_env\<close>), the text form of a cursor (a pair of functions
  of which only that decoding inverts encoding is used), and regular expression search in \<open>expect\<close>.

  \<^bold>\<open>Findings.\<close>  Modelling showed that the rollback of a move removes the destination before it
  restores the source, so that a failure in between loses the content (\<open>failed_move_loses_content\<close>),
  that an append to the journal goes on in a line that a crash has torn (\<open>torn_append_shifts\<close>), that
  an edit that must match once does not see a second place that overlaps the first
  (\<open>overlapping_place_unseen\<close>), that \<open>enabled = 0\<close> passes as a tombstone but is not merged as one
  (\<open>zero_tombstone\<close>), that a page of messages is checked against its limit before it is finished
  (\<open>dropped_warning_unchecked\<close>), that the inbox can show a whole text marked as truncated
  (\<open>whole_text_marked\<close>), and that the output kept is not a prefix of the output written when a wide
  character did not fit and a narrow one later does (\<open>truncated_not_prefix\<close>).

  \<^bold>\<open>Not modelled.\<close>  Sockets, processes, signals and terminals of the manager and its services
  (runtime.py, services.py, terminal.py, shell parts of kernel_api.py), SQL over the history database
  (history.py, storage.py, mail_store.py), everything that drives a third-party package or an external
  program (browser, documents, media, mail, web, search, language servers, git, IPython itself), the
  probes of the system, and the command line.  Opening the databases of messages and timers and
  their migration, the byte-level reading of the two configuration files, and the reports of a task to
  the manager are left out of the components that are modelled.  Of filesystem.py images, searches,
  symbolic links, restoring a revision and the plans of language servers are left out; so are
  the per-path locks, which order whole operations on the same path, and other processes that change a file during an operation (the script of the file system can describe
  them, but the properties of single files assume that it does not).  The iterator of pages.py is modelled for
  methods given by name; looking the name up in the workspace, and callables, are left out.

  \<^bold>\<open>What could follow.\<close>  The validation of network scans (scan_config.py), change plans
  (change_plans.py), the revisions of modules and skills (revisions.py), which are a parameter here, and
  the results of cells (task_results.py).
\<close>

end
